(* ===== verification/Kernel_Prelude.thy ===== *)
theory Kernel_Prelude
  imports Main "HOL-Library.Word"
begin

text \<open>
  Shared vocabulary of the development: the fixed-width readings of C's unsigned integers, the
  errno values the modelled code returns, CPU masks with the iteration order of
  \<^verbatim>\<open>for_each_cpu\<close>, byte memories, and the generic lemmas the components use.

  A C unsigned integer is a \<^typ>\<open>nat\<close> below its bound; an operation that can leave the range is
  written with one of the wrappers \<open>u8\<close>, \<open>u16\<close>, \<open>u32\<close>, \<open>u64\<close>, which take the value modulo the
  width, as the C operation does. A C \<^verbatim>\<open>int\<close> result is an \<^typ>\<open>int\<close>, negative for an errno.
\<close>

named_theorems width_simps \<open>wrappers of unsigned arithmetic on values in range\<close>
named_theorems cpumask_simps \<open>membership and iteration of CPU masks\<close>

section \<open>Unsigned integers\<close>

definition u8 :: "nat \<Rightarrow> nat" where
  "u8 n = n mod 2 ^ 8"

definition u16 :: "nat \<Rightarrow> nat" where
  "u16 n = n mod 2 ^ 16"

definition u32 :: "nat \<Rightarrow> nat" where
  "u32 n = n mod 2 ^ 32"

definition u64 :: "nat \<Rightarrow> nat" where
  "u64 n = n mod 2 ^ 64"

text \<open>Subtraction of two 32-bit (64-bit) unsigned values wraps around below zero.\<close>

definition u32_sub :: "nat \<Rightarrow> nat \<Rightarrow> nat" where
  "u32_sub a b = (a + (2 ^ 32 - b mod 2 ^ 32)) mod 2 ^ 32"

definition u64_sub :: "nat \<Rightarrow> nat \<Rightarrow> nat" where
  "u64_sub a b = (a + (2 ^ 64 - b mod 2 ^ 64)) mod 2 ^ 64"

text \<open>Conversion of an integer to C's 32-bit signed \<^verbatim>\<open>int\<close> (two's complement).\<close>

definition s32 :: "int \<Rightarrow> int" where
  "s32 x = (x + 2 ^ 31) mod 2 ^ 32 - 2 ^ 31"

text \<open>Conversion of an integer to C's 64-bit signed integer.\<close>

definition s64 :: "int \<Rightarrow> int" where
  "s64 x = (x + 2 ^ 63) mod 2 ^ 64 - 2 ^ 63"

text \<open>Conversion of a signed value to a 32-bit unsigned one.\<close>

definition u32_of_int :: "int \<Rightarrow> nat" where
  "u32_of_int x = nat (x mod 2 ^ 32)"

lemma u32_of_int_id [width_simps]: "n < 2 ^ 32 \<Longrightarrow> u32_of_int (int n) = n"
  by (simp add: u32_of_int_def)

lemma u8_id [width_simps]: "n < 2 ^ 8 \<Longrightarrow> u8 n = n"
  by (simp add: u8_def)

lemma u16_id [width_simps]: "n < 2 ^ 16 \<Longrightarrow> u16 n = n"
  by (simp add: u16_def)

lemma u32_id [width_simps]: "n < 2 ^ 32 \<Longrightarrow> u32 n = n"
  by (simp add: u32_def)

lemma u64_id [width_simps]: "n < 2 ^ 64 \<Longrightarrow> u64 n = n"
  by (simp add: u64_def)

lemma u32_less [simp]: "u32 n < 2 ^ 32"
  by (simp add: u32_def)

lemma u64_less [simp]: "u64 n < 2 ^ 64"
  by (simp add: u64_def)

lemma u32_le: "u32 n \<le> n"
  by (simp add: u32_def)

lemma u32_sub_less [simp]: "u32_sub a b < 2 ^ 32"
  by (simp add: u32_sub_def)

lemma u32_sub_id [width_simps]:
  assumes "b \<le> a" and "a < 2 ^ 32"
  shows "u32_sub a b = a - b"
proof -
  have "b mod 2 ^ 32 = b"
    using assms by simp
  then have "a + (2 ^ 32 - b mod 2 ^ 32) = (a - b) + 2 ^ 32"
    using assms by simp
  then have "u32_sub a b = ((a - b) + 2 ^ 32) mod 2 ^ 32"
    by (simp only: u32_sub_def)
  also have "\<dots> = a - b"
    using assms by (simp only: mod_add_self2) simp
  finally show ?thesis .
qed

lemma u64_sub_id [width_simps]:
  assumes "b \<le> a" and "a < 2 ^ 64"
  shows "u64_sub a b = a - b"
proof -
  have "b mod 2 ^ 64 = b"
    using assms by simp
  then have "a + (2 ^ 64 - b mod 2 ^ 64) = (a - b) + 2 ^ 64"
    using assms by simp
  then have "u64_sub a b = ((a - b) + 2 ^ 64) mod 2 ^ 64"
    by (simp only: u64_sub_def)
  also have "\<dots> = a - b"
    using assms by (simp only: mod_add_self2) simp
  finally show ?thesis .
qed

lemma s32_id [width_simps]: "- (2 ^ 31) \<le> x \<Longrightarrow> x < 2 ^ 31 \<Longrightarrow> s32 x = x"
  by (simp add: s32_def)

lemma s32_int_id [width_simps]: "n < 2 ^ 31 \<Longrightarrow> s32 (int n) = int n"
  by (intro s32_id) simp_all

lemma s32_le: "0 \<le> x \<Longrightarrow> s32 x \<le> x"
  using zmod_le_nonneg_dividend [of "x + 2 ^ 31" "2 ^ 32"] by (simp add: s32_def)

lemma s64_id [width_simps]: "- (2 ^ 63) \<le> x \<Longrightarrow> x < 2 ^ 63 \<Longrightarrow> s64 x = x"
  by (simp add: s64_def)

section \<open>Error numbers\<close>

text \<open>The values of \<^verbatim>\<open>errno.h\<close> the modelled code returns, as positive numbers.\<close>

abbreviation (input) ENOENT :: int where "ENOENT \<equiv> 2"
abbreviation (input) EAGAIN :: int where "EAGAIN \<equiv> 11"
abbreviation (input) ENOMEM :: int where "ENOMEM \<equiv> 12"
abbreviation (input) EACCES :: int where "EACCES \<equiv> 13"
abbreviation (input) EFAULT :: int where "EFAULT \<equiv> 14"
abbreviation (input) EBUSY :: int where "EBUSY \<equiv> 16"
abbreviation (input) ENODEV :: int where "ENODEV \<equiv> 19"
abbreviation (input) EPROBE_DEFER :: int where "EPROBE_DEFER \<equiv> 517"
abbreviation (input) EINVAL :: int where "EINVAL \<equiv> 22"
abbreviation (input) ENOSPC :: int where "ENOSPC \<equiv> 28"
abbreviation (input) EPIPE :: int where "EPIPE \<equiv> 32"
abbreviation (input) EAFNOSUPPORT :: int where "EAFNOSUPPORT \<equiv> 97"
abbreviation (input) EMSGSIZE :: int where "EMSGSIZE \<equiv> 90"
abbreviation (input) EADDRINUSE :: int where "EADDRINUSE \<equiv> 98"
abbreviation (input) EADDRNOTAVAIL :: int where "EADDRNOTAVAIL \<equiv> 99"
abbreviation (input) ENETRESET :: int where "ENETRESET \<equiv> 102"
abbreviation (input) ECONNRESET :: int where "ECONNRESET \<equiv> 104"
abbreviation (input) ENOBUFS :: int where "ENOBUFS \<equiv> 105"
abbreviation (input) ENOTCONN :: int where "ENOTCONN \<equiv> 107"
abbreviation (input) ETIMEDOUT :: int where "ETIMEDOUT \<equiv> 110"
abbreviation (input) EPROTOTYPE :: int where "EPROTOTYPE \<equiv> 91"
abbreviation (input) ENOIOCTLCMD :: int where "ENOIOCTLCMD \<equiv> 515"
abbreviation (input) ETOOSMALL :: int where "ETOOSMALL \<equiv> 525"

section \<open>CPU masks\<close>

text \<open>
  A \<^verbatim>\<open>struct cpumask\<close> is a set of CPU numbers; \<^verbatim>\<open>for_each_cpu\<close> visits its members below
  \<^verbatim>\<open>nr_cpu_ids\<close> in ascending order, and the other queries are defined by that enumeration.
\<close>

type_synonym cpumask = "nat set"

definition for_each_cpu :: "nat \<Rightarrow> cpumask \<Rightarrow> nat list" where
  "for_each_cpu n m = filter (\<lambda>c. c \<in> m) [0..<n]"

definition cpumask_weight :: "nat \<Rightarrow> cpumask \<Rightarrow> nat" where
  "cpumask_weight n m = length (for_each_cpu n m)"

definition cpumask_empty :: "nat \<Rightarrow> cpumask \<Rightarrow> bool" where
  "cpumask_empty n m \<longleftrightarrow> for_each_cpu n m = []"

definition cpumask_first :: "nat \<Rightarrow> cpumask \<Rightarrow> nat" where
  "cpumask_first n m = (case for_each_cpu n m of [] \<Rightarrow> n | c # _ \<Rightarrow> c)"

definition cpumask_intersects :: "nat \<Rightarrow> cpumask \<Rightarrow> cpumask \<Rightarrow> bool" where
  "cpumask_intersects n a b \<longleftrightarrow> for_each_cpu n (a \<inter> b) \<noteq> []"

definition cpumask_subset :: "nat \<Rightarrow> cpumask \<Rightarrow> cpumask \<Rightarrow> bool" where
  "cpumask_subset n a b \<longleftrightarrow> for_each_cpu n (a - b) = []"

lemma set_for_each_cpu [simp, cpumask_simps]: "set (for_each_cpu n m) = {c \<in> m. c < n}"
  by (auto simp: for_each_cpu_def)

lemma distinct_for_each_cpu [simp]: "distinct (for_each_cpu n m)"
  by (simp add: for_each_cpu_def)

lemma sorted_for_each_cpu [simp]: "sorted (for_each_cpu n m)"
  by (simp add: for_each_cpu_def sorted_wrt_filter)

lemma cpumask_weight_card [cpumask_simps]: "cpumask_weight n m = card {c \<in> m. c < n}"
  by (metis cpumask_weight_def distinct_card distinct_for_each_cpu set_for_each_cpu)

lemma cpumask_empty_iff [cpumask_simps]: "cpumask_empty n m \<longleftrightarrow> (\<forall>c \<in> m. \<not> c < n)"
  by (auto simp: cpumask_empty_def for_each_cpu_def filter_empty_conv)

lemma cpumask_intersects_iff [cpumask_simps]:
  "cpumask_intersects n a b \<longleftrightarrow> (\<exists>c. c \<in> a \<and> c \<in> b \<and> c < n)"
  by (auto simp: cpumask_intersects_def for_each_cpu_def filter_empty_conv)

lemma cpumask_subset_iff [cpumask_simps]:
  "cpumask_subset n a b \<longleftrightarrow> (\<forall>c \<in> a. c < n \<longrightarrow> c \<in> b)"
  by (auto simp: cpumask_subset_def for_each_cpu_def filter_empty_conv)

lemma cpumask_weight_mono: "a \<subseteq> b \<Longrightarrow> cpumask_weight n a \<le> cpumask_weight n b"
  by (auto simp: cpumask_weight_card intro!: card_mono)

lemma cpumask_weight_zero [cpumask_simps]:
  "cpumask_weight n m = 0 \<longleftrightarrow> (\<forall>c \<in> m. \<not> c < n)"
  by (auto simp: cpumask_weight_card)

section \<open>Lists and folds\<close>

lemma fold_invariant:
  assumes "\<And>x s. x \<in> set xs \<Longrightarrow> P s \<Longrightarrow> P (f x s)" and "P s"
  shows "P (fold f xs s)"
  using assms by (induction xs arbitrary: s) auto

lemma fold_field:
  assumes "\<And>x s. g (f x s) = g s"
  shows "g (fold f xs s) = g s"
  by (induction xs arbitrary: s) (simp_all add: assms)

lemma takeWhile_below:
  fixes xs :: "'a::linorder list"
  assumes "sorted xs" and "distinct xs" and "f \<in> set xs"
  shows "set (takeWhile (\<lambda>x. x \<noteq> f) xs) = {x \<in> set xs. x < f}"
  using assms by (induction xs) force+

lemma takeWhile_all: "f \<notin> set xs \<Longrightarrow> takeWhile (\<lambda>x. x \<noteq> f) xs = xs"
  by (induction xs) auto

end
