(* ===== verification/Walt_State.thy ===== *)
theory Walt_State
  imports Kernel_Prelude
begin

text \<open>
  The globals that the components of the WALT scheduler extension share: the scheduler clusters
  with their frequency limits and smart-frequency configuration, the halt masks, and the flags
  the components read from one another. The inline predicates of
  \<^verbatim>\<open>kernel/sched/walt/walt.h\<close> on them are here too. Each component extends the record
  with the state it owns.

  Values that come from outside the repository (the architecture's CPU capacities and hardware
  pressure, the default of the frequency QoS interface) are fields of the state as well: the model
  reads them and never writes them.
\<close>

unbundle bit_operations_syntax

section \<open>Frequency caps and clusters\<close>

datatype freq_caps = PARTIAL_HALT_CAP | SMART_FREQ | HIGH_PERF_CAP

definition all_freq_caps :: "freq_caps list" where
  "all_freq_caps = [PARTIAL_HALT_CAP, SMART_FREQ, HIGH_PERF_CAP]"

lemma set_all_freq_caps [simp]: "set all_freq_caps = UNIV"
proof -
  have "x \<in> set all_freq_caps" for x
    by (cases x) (simp_all add: all_freq_caps_def)
  then show ?thesis by blast
qed

text \<open>The legacy reasons of \<^verbatim>\<open>enum smart_freq_legacy_reason\<close>, by number.\<close>

abbreviation (input) NO_REASON_SMART_FREQ :: nat where "NO_REASON_SMART_FREQ \<equiv> 0"
abbreviation (input) BOOST_SMART_FREQ :: nat where "BOOST_SMART_FREQ \<equiv> 1"
abbreviation (input) SUSTAINED_HIGH_UTIL_SMART_FREQ :: nat where "SUSTAINED_HIGH_UTIL_SMART_FREQ \<equiv> 2"
abbreviation (input) BIG_TASKCNT_SMART_FREQ :: nat where "BIG_TASKCNT_SMART_FREQ \<equiv> 3"
abbreviation (input) TRAILBLAZER_SMART_FREQ :: nat where "TRAILBLAZER_SMART_FREQ \<equiv> 4"
abbreviation (input) SBT_SMART_FREQ :: nat where "SBT_SMART_FREQ \<equiv> 5"
abbreviation (input) PIPELINE_60FPS_OR_LESSER_SMART_FREQ :: nat
  where "PIPELINE_60FPS_OR_LESSER_SMART_FREQ \<equiv> 6"
abbreviation (input) PIPELINE_90FPS_SMART_FREQ :: nat where "PIPELINE_90FPS_SMART_FREQ \<equiv> 7"
abbreviation (input) PIPELINE_120FPS_OR_GREATER_SMART_FREQ :: nat
  where "PIPELINE_120FPS_OR_GREATER_SMART_FREQ \<equiv> 8"
abbreviation (input) THERMAL_ROTATION_SMART_FREQ :: nat where "THERMAL_ROTATION_SMART_FREQ \<equiv> 9"
abbreviation (input) LRPB_SMART_FREQ :: nat where "LRPB_SMART_FREQ \<equiv> 10"
abbreviation (input) LEGACY_SMART_FREQ :: nat where "LEGACY_SMART_FREQ \<equiv> 11"

abbreviation (input) IPC_A :: nat where "IPC_A \<equiv> 0"
abbreviation (input) IPC_B :: nat where "IPC_B \<equiv> 1"
abbreviation (input) SMART_FMAX_IPC_MAX :: nat where "SMART_FMAX_IPC_MAX \<equiv> 5"

text \<open>
  \<^verbatim>\<open>struct smart_freq_cluster_info\<close>: the arrays of per-reason configuration and status
  are functions of the reason's number.
\<close>

record smart_freq_cluster_info =
  smart_freq_participation_mask :: "32 word"
  cluster_active_reason :: "32 word"
  cluster_ipc_level :: nat
  min_cycles :: nat
  smart_freq_ipc_participation_mask :: "32 word"
  legacy_freq_allowed :: "nat \<Rightarrow> nat"
  legacy_hyst_ns :: "nat \<Rightarrow> nat"
  deactivate_ns :: "nat \<Rightarrow> nat"
  ipc_ipc :: "nat \<Rightarrow> nat"
  ipc_freq_allowed :: "nat \<Rightarrow> nat"

text \<open>
  \<^verbatim>\<open>struct walt_sched_cluster\<close>. A cluster's id is its position in the array
  \<^verbatim>\<open>sched_cluster\<close> (\<^verbatim>\<open>assign_cluster_ids\<close>), so the model keeps the array and uses
  the position. The pointer \<^verbatim>\<open>smart_freq_info\<close> of the cluster with id \<open>k\<close> is
  \<^verbatim>\<open>&default_freq_config[k]\<close> (\<^verbatim>\<open>smart_freq_init\<close>); the model keeps that array in
  the shared state.
\<close>

record walt_sched_cluster =
  cluster_cpus :: cpumask
  max_possible_freq :: nat
  max_freq :: nat
  walt_internal_freq_limit :: nat
  pre_smart_freq_capacity :: nat
  found_ts :: nat

section \<open>Shared state\<close>

record walt_globals =
  nr_cpu_ids :: nat
  walt_disabled :: bool
  sched_cluster :: "walt_sched_cluster list"
  cpu_cluster :: "nat \<Rightarrow> nat"
  freq_cap :: "freq_caps \<Rightarrow> nat \<Rightarrow> nat"
  default_freq_config :: "nat \<Rightarrow> smart_freq_cluster_info"
  sysctl_ipc_levels :: "nat \<Rightarrow> nat \<Rightarrow> nat"
  sysctl_ipc_freq_levels :: "nat \<Rightarrow> nat \<Rightarrow> nat"
  ipc_level :: "nat \<Rightarrow> nat"
  last_ipc_update :: "nat \<Rightarrow> nat"
  tickless_mode :: "nat \<Rightarrow> bool"
  smart_freq_init_done :: bool
  sysctl_walt_features :: "32 word"
  cpu_capacity_orig :: "nat \<Rightarrow> nat"
  wrq_util :: "nat \<Rightarrow> nat"
  lrb_pipeline_start_time :: "nat \<Rightarrow> nat"
  sched_boost_type :: nat
  prev_is_sbt :: bool
  trailblazer_boost_state_ns :: nat
  pipeline_nr :: nat
  sysctl_sched_heavy_nr :: nat
  sysctl_sched_pipeline_util_thres :: nat
  have_heavy_list :: bool
  sched_ravg_window :: nat
  oscillate_cpu :: int
  big_task_cnt :: nat
  sysctl_max_freq_partial_halt :: nat
  part_haltable_cpus :: cpumask
  cpu_halt_mask :: cpumask
  cpu_partial_halt_mask :: cpumask
  cpus_paused_by_us :: cpumask
  cpus_part_paused_by_us :: cpumask
  waltgov_callbacks :: "nat list"
  FREQ_QOS_MAX_DEFAULT_VALUE :: nat
  arch_scale_cpu_capacity :: "nat \<Rightarrow> nat"
  arch_scale_hw_pressure :: "nat \<Rightarrow> nat"

text \<open>
  The arrays \<^verbatim>\<open>sysctl_ipc_levels_cluster0\<close> to \<^verbatim>\<open>sysctl_ipc_levels_cluster3\<close> are one
  function of the cluster number, and so are the arrays of frequencies.
  \<open>waltgov_callbacks\<close> lists the CPUs for which the governor callback was run
  (\<^verbatim>\<open>waltgov_run_callback\<close>), most recent last: the effect on the cpufreq governor that
  the components have.
\<close>

abbreviation (input) MAX_CLUSTERS :: nat where "MAX_CLUSTERS \<equiv> 4"
abbreviation (input) MAX_CPUS_PER_CLUSTER :: nat where "MAX_CPUS_PER_CLUSTER \<equiv> 6"

abbreviation (input) SCHED_RAVG_8MS_WINDOW :: nat where "SCHED_RAVG_8MS_WINDOW \<equiv> 8000000"
abbreviation (input) SCHED_RAVG_12MS_WINDOW :: nat where "SCHED_RAVG_12MS_WINDOW \<equiv> 12000000"
abbreviation (input) SCHED_RAVG_16MS_WINDOW :: nat where "SCHED_RAVG_16MS_WINDOW \<equiv> 16000000"

abbreviation (input) NO_BOOST :: nat where "NO_BOOST \<equiv> 0"
abbreviation (input) FULL_THROTTLE_BOOST :: nat where "FULL_THROTTLE_BOOST \<equiv> 1"
abbreviation (input) CONSERVATIVE_BOOST :: nat where "CONSERVATIVE_BOOST \<equiv> 2"
abbreviation (input) RESTRAINED_BOOST :: nat where "RESTRAINED_BOOST \<equiv> 3"
abbreviation (input) STORAGE_BOOST :: nat where "STORAGE_BOOST \<equiv> 4"
abbreviation (input) BALANCE_BOOST :: nat where "BALANCE_BOOST \<equiv> 5"

section \<open>Inline predicates of walt.h\<close>

definition cpu_halted :: "'z walt_globals_scheme \<Rightarrow> nat \<Rightarrow> bool" where
  "cpu_halted s cpu \<longleftrightarrow> cpu \<in> cpu_halt_mask s"

definition cpu_partial_halted :: "'z walt_globals_scheme \<Rightarrow> nat \<Rightarrow> bool" where
  "cpu_partial_halted s cpu \<longleftrightarrow> cpu \<in> cpu_partial_halt_mask s"

definition is_full_throttle_boost :: "'z walt_globals_scheme \<Rightarrow> bool" where
  "is_full_throttle_boost s \<longleftrightarrow> sched_boost_type s = FULL_THROTTLE_BOOST"

definition is_storage_boost :: "'z walt_globals_scheme \<Rightarrow> bool" where
  "is_storage_boost s \<longleftrightarrow> sched_boost_type s = STORAGE_BOOST"

definition is_balance_boost :: "'z walt_globals_scheme \<Rightarrow> bool" where
  "is_balance_boost s \<longleftrightarrow> sched_boost_type s = BALANCE_BOOST"

definition pipeline_in_progress :: "'z walt_globals_scheme \<Rightarrow> bool" where
  "pipeline_in_progress s =
     (if sched_boost_type s \<noteq> 0 then False
      else if pipeline_nr s \<noteq> 0 then True
      else if (sysctl_sched_heavy_nr s \<noteq> 0 \<or> sysctl_sched_pipeline_util_thres s \<noteq> 0)
              \<and> have_heavy_list s then True
      else False)"

definition is_state1 :: "'z walt_globals_scheme \<Rightarrow> bool" where
  "is_state1 s =
     (if cpumask_weight (nr_cpu_ids s) (part_haltable_cpus s) = 0 then False
      else cpumask_subset (nr_cpu_ids s) (part_haltable_cpus s)
             (cpu_partial_halt_mask s \<union> cpu_halt_mask s))"

section \<open>An example system\<close>

text \<open>
  Six CPUs in two clusters, with the frequency limits of the first SoC of
  \<^verbatim>\<open>smart_freq_init\<close>: the concrete state the witnesses of the components evaluate.
\<close>

definition example_info :: smart_freq_cluster_info where
  "example_info =
     \<lparr>smart_freq_participation_mask = 3, cluster_active_reason = 0, cluster_ipc_level = 0, min_cycles = 100,
      smart_freq_ipc_participation_mask = 0,
      legacy_freq_allowed = (\<lambda>i. if i = 0 then 2400000 else 3513600),
      legacy_hyst_ns = (\<lambda>_. 1000000000), deactivate_ns = (\<lambda>_. 0),
      ipc_ipc = (\<lambda>i. 120 + 40 * i), ipc_freq_allowed = (\<lambda>_. 2147483647)\<rparr>"

definition example_globals :: walt_globals where
  "example_globals =
     \<lparr>nr_cpu_ids = 6, walt_disabled = False,
      sched_cluster =
        [\<lparr>cluster_cpus = {0, 1, 2, 3}, max_possible_freq = 3513600, max_freq = 3513600,
          walt_internal_freq_limit = 3513600, pre_smart_freq_capacity = 0, found_ts = 0\<rparr>,
         \<lparr>cluster_cpus = {4, 5}, max_possible_freq = 4320000, max_freq = 4320000,
          walt_internal_freq_limit = 4320000, pre_smart_freq_capacity = 0, found_ts = 0\<rparr>],
      cpu_cluster = (\<lambda>cpu. if cpu < 4 then 0 else 1),
      freq_cap = (\<lambda>_ _. 2147483647), default_freq_config = (\<lambda>_. example_info),
      sysctl_ipc_levels = (\<lambda>_ _. 0), sysctl_ipc_freq_levels = (\<lambda>_ _. 0),
      ipc_level = (\<lambda>_. 0), last_ipc_update = (\<lambda>_. 0), tickless_mode = (\<lambda>_. False),
      smart_freq_init_done = True, sysctl_walt_features = 0, cpu_capacity_orig = (\<lambda>_. 1024),
      wrq_util = (\<lambda>_. 0), lrb_pipeline_start_time = (\<lambda>_. 0), sched_boost_type = 0,
      prev_is_sbt = False, trailblazer_boost_state_ns = 0, pipeline_nr = 0,
      sysctl_sched_heavy_nr = 0, sysctl_sched_pipeline_util_thres = 0, have_heavy_list = False,
      sched_ravg_window = 16000000, oscillate_cpu = -1, big_task_cnt = 6,
      sysctl_max_freq_partial_halt = 1000000, part_haltable_cpus = {},
      cpu_halt_mask = {}, cpu_partial_halt_mask = {},
      cpus_paused_by_us = {}, cpus_part_paused_by_us = {}, waltgov_callbacks = [],
      FREQ_QOS_MAX_DEFAULT_VALUE = 2147483647, arch_scale_cpu_capacity = (\<lambda>_. 1024),
      arch_scale_hw_pressure = (\<lambda>_. 0)\<rparr>"

end
