(* ===== verification/Walt_Smartfreq.thy ===== *)
theory Walt_Smartfreq
  imports Walt_State
begin

text \<open>
  The smart-frequency component (\<^verbatim>\<open>kernel/sched/walt/smart_freq.c\<close>, with
  \<^verbatim>\<open>update_cpu_capacity_helper\<close> of \<^verbatim>\<open>walt.c\<close>): per-cluster frequency caps that
  are lifted for a reason and fall back, after a hysteresis, when the reason has gone; the sysctl
  handlers that configure them; and the propagation of the caps to the cluster's internal
  frequency limit and to the CPUs' capacities.
\<close>

unbundle bit_operations_syntax

section \<open>Reasons with hysteresis\<close>

text \<open>
  One round of the loop of \<^verbatim>\<open>smart_freq_update_one_cluster\<close>, for reason \<open>i\<close>; the
  accumulator carries the cluster's configuration and \<^verbatim>\<open>max_cap\<close>.
\<close>

definition smart_freq_reason_step ::
  "32 word \<Rightarrow> nat \<Rightarrow> nat \<Rightarrow> smart_freq_cluster_info \<times> nat \<Rightarrow> smart_freq_cluster_info \<times> nat" where
  "smart_freq_reason_step current_reasons wallclock i acc =
     (case acc of (info, max_cap) \<Rightarrow>
       let current_reason = bit current_reasons i;
           active = bit (cluster_active_reason info) i;
           (info', active') =
             (if current_reason then
                (info\<lparr>deactivate_ns := (deactivate_ns info)(i := 0),
                      cluster_active_reason := set_bit i (cluster_active_reason info)\<rparr>, active)
              else if active then
                (if deactivate_ns info i = 0 then
                   (info\<lparr>deactivate_ns := (deactivate_ns info)(i := wallclock)\<rparr>, active)
                 else if legacy_hyst_ns info i \<le> u64_sub wallclock (deactivate_ns info i) then
                   (info\<lparr>deactivate_ns := (deactivate_ns info)(i := 0),
                         cluster_active_reason := unset_bit i (cluster_active_reason info)\<rparr>, False)
                 else (info, active))
              else (info, active))
       in (info', if (active' \<or> current_reason) \<and> max_cap < legacy_freq_allowed info i
                  then legacy_freq_allowed info i else max_cap))"

definition smart_freq_update_one_cluster ::
  "nat \<Rightarrow> 32 word \<Rightarrow> nat \<Rightarrow> 'z walt_globals_scheme \<Rightarrow> 'z walt_globals_scheme" where
  "smart_freq_update_one_cluster k current_reasons wallclock s =
     (let c = sched_cluster s ! k;
          info = default_freq_config s k;
          old_freq_cap = freq_cap s SMART_FREQ k;
          (info', max_cap) =
            fold (smart_freq_reason_step current_reasons wallclock) [0..<LEGACY_SMART_FREQ]
              (info, legacy_freq_allowed info NO_REASON_SMART_FREQ);
          s1 = s\<lparr>default_freq_config := (default_freq_config s)(k := info')\<rparr>
      in if old_freq_cap = max_cap then s1
         else s1\<lparr>freq_cap := (freq_cap s)(SMART_FREQ := (freq_cap s SMART_FREQ)(k := u32 max_cap)),
                 waltgov_callbacks := waltgov_callbacks s
                    @ [cpumask_first (nr_cpu_ids s) (cluster_cpus c)]\<rparr>)"

text \<open>
  \<^verbatim>\<open>mult_frac(x, n, d)\<close> on 64-bit values: the quotient and the remainder are scaled
  separately.
\<close>

definition mult_frac :: "nat \<Rightarrow> nat \<Rightarrow> nat \<Rightarrow> nat" where
  "mult_frac x n d = u64 (u64 ((x div d) * n) + u64 ((x mod d) * n) div d)"

abbreviation (input) UNCAP_THRES :: nat where "UNCAP_THRES \<equiv> 300000000"
abbreviation (input) UTIL_THRESHOLD :: nat where "UTIL_THRESHOLD \<equiv> 90"
abbreviation (input) WAKEUP_CNT :: nat where "WAKEUP_CNT \<equiv> 100"

definition thres_based_uncap ::
  "nat \<Rightarrow> nat \<Rightarrow> 'z walt_globals_scheme \<Rightarrow> bool \<times> 'z walt_globals_scheme" where
  "thres_based_uncap window_start k s =
     (let c = sched_cluster s ! k;
          tgt_freq = legacy_freq_allowed (default_freq_config s k) NO_REASON_SMART_FREQ;
          freq_capacity =
            arch_scale_cpu_capacity s (cpumask_first (nr_cpu_ids s) (cluster_cpus c));
          tgt_cap = mult_frac freq_capacity tgt_freq (max_possible_freq c);
          cluster_high_load =
            list_ex (\<lambda>cpu. mult_frac tgt_cap UTIL_THRESHOLD 100 \<le> wrq_util s cpu)
              (for_each_cpu (nr_cpu_ids s) (cluster_cpus c))
      in if cluster_high_load then
           (if found_ts c = 0 then
              (False, s\<lparr>sched_cluster := (sched_cluster s)[k := c\<lparr>found_ts := window_start\<rparr>]\<rparr>)
            else (UNCAP_THRES \<le> u64_sub window_start (found_ts c), s))
         else (False, s\<lparr>sched_cluster := (sched_cluster s)[k := c\<lparr>found_ts := 0\<rparr>]\<rparr>))"

definition cluster_in_smart_lrpb :: "'z walt_globals_scheme \<Rightarrow> nat \<Rightarrow> bool" where
  "cluster_in_smart_lrpb s k =
     (if \<not> bit (smart_freq_participation_mask (default_freq_config s k)) LRPB_SMART_FREQ then False
      else list_ex (\<lambda>cpu. lrb_pipeline_start_time s cpu \<noteq> 0)
             (for_each_cpu (nr_cpu_ids s) (cluster_cpus (sched_cluster s ! k))))"

text \<open>The current state of a legacy reason, in the order the code tests them.\<close>

definition smart_freq_reason_state ::
  "'z walt_globals_scheme \<Rightarrow> bool \<Rightarrow> nat \<Rightarrow> nat \<Rightarrow> nat \<Rightarrow> nat \<Rightarrow> bool" where
  "smart_freq_reason_state s sustained_load nr_big wakeup_ctr_sum k i =
     (if i = BOOST_SMART_FREQ then is_storage_boost s \<or> is_full_throttle_boost s
      else if i = TRAILBLAZER_SMART_FREQ then trailblazer_boost_state_ns s \<noteq> 0
      else if i = SBT_SMART_FREQ then prev_is_sbt s
      else if i = BIG_TASKCNT_SMART_FREQ then
        big_task_cnt s \<le> nr_big \<and> wakeup_ctr_sum < WAKEUP_CNT
      else if i = SUSTAINED_HIGH_UTIL_SMART_FREQ then sustained_load
      else if i = PIPELINE_60FPS_OR_LESSER_SMART_FREQ then
        pipeline_in_progress s \<and> SCHED_RAVG_16MS_WINDOW \<le> sched_ravg_window s
      else if i = PIPELINE_90FPS_SMART_FREQ then
        pipeline_in_progress s \<and> sched_ravg_window s = SCHED_RAVG_12MS_WINDOW
      else if i = PIPELINE_120FPS_OR_GREATER_SMART_FREQ then
        pipeline_in_progress s \<and> sched_ravg_window s = SCHED_RAVG_8MS_WINDOW
      else if i = THERMAL_ROTATION_SMART_FREQ then oscillate_cpu s \<noteq> -1
      else if i = LRPB_SMART_FREQ then cluster_in_smart_lrpb s k
      else False)"

definition smart_freq_test_order :: "nat list" where
  "smart_freq_test_order =
     [BOOST_SMART_FREQ, TRAILBLAZER_SMART_FREQ, SBT_SMART_FREQ, BIG_TASKCNT_SMART_FREQ,
      SUSTAINED_HIGH_UTIL_SMART_FREQ, PIPELINE_60FPS_OR_LESSER_SMART_FREQ,
      PIPELINE_90FPS_SMART_FREQ, PIPELINE_120FPS_OR_GREATER_SMART_FREQ,
      THERMAL_ROTATION_SMART_FREQ, LRPB_SMART_FREQ]"

definition cluster_reasons_of ::
  "'z walt_globals_scheme \<Rightarrow> bool \<Rightarrow> nat \<Rightarrow> nat \<Rightarrow> nat \<Rightarrow> 32 word" where
  "cluster_reasons_of s sustained_load nr_big wakeup_ctr_sum k =
     (let mask = smart_freq_participation_mask (default_freq_config s k);
          r0 = (if bit mask NO_REASON_SMART_FREQ then set_bit NO_REASON_SMART_FREQ 0 else 0)
      in if mask = set_bit NO_REASON_SMART_FREQ 0 then r0
         else fold (\<lambda>i r. if bit mask i
                           \<and> smart_freq_reason_state s sustained_load nr_big wakeup_ctr_sum k i
                         then set_bit i r else r)
                smart_freq_test_order r0)"

definition smart_freq_update_reason_common ::
  "nat \<Rightarrow> nat \<Rightarrow> nat \<Rightarrow> 'z walt_globals_scheme \<Rightarrow> 'z walt_globals_scheme" where
  "smart_freq_update_reason_common wallclock nr_big wakeup_ctr_sum s =
     (if \<not> smart_freq_init_done s then s
      else let (sustained_load, s1) =
                 fold (\<lambda>k (b, s). let (b', s') = thres_based_uncap wallclock k s in (b \<or> b', s'))
                   [0..<length (sched_cluster s)] (False, s)
           in fold (\<lambda>k s.
                let reasons = cluster_reasons_of s sustained_load nr_big wakeup_ctr_sum k
                in if reasons \<noteq> 0
                      \<or> cluster_active_reason (default_freq_config s k) \<noteq> 0
                   then smart_freq_update_one_cluster k reasons wallclock s else s)
                [0..<length (sched_cluster s1)] s1)"

section \<open>Propagation of the caps\<close>

definition has_internal_freq_limit_changed ::
  "nat \<Rightarrow> 'z walt_globals_scheme \<Rightarrow> bool \<times> 'z walt_globals_scheme" where
  "has_internal_freq_limit_changed k s =
     (let c = sched_cluster s ! k;
          smci = default_freq_config s k;
          internal_freq = walt_internal_freq_limit c;
          l1 = fold (\<lambda>i l. min (freq_cap s i k) l) all_freq_caps (max_freq c);
          ipc_freq = (if smart_freq_ipc_participation_mask smci \<noteq> 0
                      then u32 (ipc_freq_allowed smci (cluster_ipc_level smci)) else 0);
          l2 = max ipc_freq l1;
          l3 = (if 0 < k \<and> bit (sysctl_walt_features s) 2 then
                  let prev = sched_cluster s ! (k - 1);
                      prev_limit =
                        (if walt_internal_freq_limit prev = FREQ_QOS_MAX_DEFAULT_VALUE s
                         then max_possible_freq prev else walt_internal_freq_limit prev)
                  in if l2 < prev_limit then u32 prev_limit else l2
                else l2)
      in (l3 \<noteq> internal_freq,
          s\<lparr>sched_cluster := (sched_cluster s)[k := c\<lparr>walt_internal_freq_limit := l3\<rparr>]\<rparr>))"

definition update_cpu_capacity_helper ::
  "nat \<Rightarrow> 'z walt_globals_scheme \<Rightarrow> 'z walt_globals_scheme" where
  "update_cpu_capacity_helper cpu s =
     (if walt_disabled s then s
      else let fmax = arch_scale_cpu_capacity s cpu;
               thermal_cap = u64_sub fmax (arch_scale_hw_pressure s cpu);
               k = cpu_cluster s cpu;
               c = sched_cluster s ! k;
               fmax_capacity =
                 (if walt_internal_freq_limit c \<noteq> max_possible_freq c
                  then mult_frac fmax (min (walt_internal_freq_limit c) (max_freq c))
                         (max_possible_freq c)
                  else fmax)
           in s\<lparr>cpu_capacity_orig := (cpu_capacity_orig s)(cpu := min fmax_capacity thermal_cap),
                sched_cluster :=
                  (sched_cluster s)[k := c\<lparr>pre_smart_freq_capacity := thermal_cap\<rparr>]\<rparr>)"

definition update_smart_freq_capacities_one_cluster ::
  "nat \<Rightarrow> 'z walt_globals_scheme \<Rightarrow> 'z walt_globals_scheme" where
  "update_smart_freq_capacities_one_cluster k s =
     (if \<not> smart_freq_init_done s then s
      else let (changed, s1) = has_internal_freq_limit_changed k s
           in if changed
              then fold update_cpu_capacity_helper
                     (for_each_cpu (nr_cpu_ids s1) (cluster_cpus (sched_cluster s1 ! k))) s1
              else s1)"

definition update_smart_freq_capacities ::
  "'z walt_globals_scheme \<Rightarrow> 'z walt_globals_scheme" where
  "update_smart_freq_capacities s =
     (if \<not> smart_freq_init_done s then s
      else fold update_smart_freq_capacities_one_cluster [0..<length (sched_cluster s)] s)"

section \<open>Instructions-per-cycle levels\<close>

text \<open>
  \<^verbatim>\<open>get_cluster_ipc_level_freq\<close>: the highest level among the cluster's CPUs; a CPU not
  updated for eight milliseconds counts as level 0 and is marked tickless.
\<close>

definition ipc_level_step ::
  "nat \<Rightarrow> nat \<Rightarrow> nat \<times> 'z walt_globals_scheme \<Rightarrow> nat \<times> 'z walt_globals_scheme" where
  "ipc_level_step time cpu acc =
     (case acc of (index, s) \<Rightarrow>
       let stale = 7999999 < u64_sub time (last_ipc_update s cpu);
           level = (if stale then 0 else ipc_level s cpu);
           s' = s\<lparr>tickless_mode := (tickless_mode s)(cpu := stale)\<rparr>
       in (if index \<le> level then level else index, s'))"

definition get_cluster_ipc_level_freq ::
  "nat \<Rightarrow> nat \<Rightarrow> 'z walt_globals_scheme \<Rightarrow> nat \<times> 'z walt_globals_scheme" where
  "get_cluster_ipc_level_freq curr_cpu time s =
     (let k = cpu_cluster s curr_cpu; info = default_freq_config s k
      in if \<not> smart_freq_init_done s then (0, s)
         else if smart_freq_ipc_participation_mask info = 0 then (0, s)
         else let (index, s1) =
                    fold (ipc_level_step time)
                      (for_each_cpu (nr_cpu_ids s) (cluster_cpus (sched_cluster s ! k))) (0, s)
              in (u32 (ipc_freq_allowed info index),
                  s1\<lparr>default_freq_config := (default_freq_config s1)
                        (k := info\<lparr>cluster_ipc_level := index\<rparr>)\<rparr>))"

section \<open>Sysctl handlers\<close>

text \<open>
  The handlers take what \<^verbatim>\<open>proc_dointvec\<close> delivered: its return code and the array of
  values it filled in. The table's data pointer selects the cluster \<open>cid\<close>. Assigning a C
  \<^verbatim>\<open>int\<close> to an \<^verbatim>\<open>unsigned long\<close> takes it modulo \<open>2 ^ 64\<close>.
\<close>

definition ulong_of_int :: "int \<Rightarrow> nat" where
  "ulong_of_int x = nat (x mod 2 ^ 64)"

text \<open>The loop that checks the pairs (reason, frequency), from position \<open>i\<close> on.\<close>

fun legacy_freq_scan :: "int list \<Rightarrow> nat \<Rightarrow> nat \<Rightarrow> nat \<Rightarrow> nat \<Rightarrow> int + nat \<times> nat" where
  "legacy_freq_scan val 0 i sz no_reason_freq = Inr (sz, no_reason_freq)"
| "legacy_freq_scan val (Suc n) i sz no_reason_freq =
     (if val ! i = -1 then Inr (sz, no_reason_freq)
      else if i mod 2 = 0 \<and> (val ! i < 0 \<or> int LEGACY_SMART_FREQ \<le> val ! i) then Inl (- EINVAL)
      else legacy_freq_scan val n (i + 1) (sz + 1)
             (if i mod 2 = 0 \<and> val ! i = int NO_REASON_SMART_FREQ \<and> val ! (i + 1) \<noteq> -1
              then ulong_of_int (val ! (i + 1)) else no_reason_freq))"

fun legacy_freq_store ::
  "int list \<Rightarrow> nat \<Rightarrow> nat \<Rightarrow> smart_freq_cluster_info \<Rightarrow> smart_freq_cluster_info" where
  "legacy_freq_store val 0 i info = info"
| "legacy_freq_store val (Suc n) i info =
     legacy_freq_store val n (i + 2)
       (info\<lparr>legacy_freq_allowed :=
               (legacy_freq_allowed info)(nat (val ! i) := ulong_of_int (val ! (i + 1))),
             smart_freq_participation_mask :=
               set_bit (nat (val ! i)) (smart_freq_participation_mask info)\<rparr>)"

definition sched_smart_freq_legacy_freq_handler ::
  "nat \<Rightarrow> int \<Rightarrow> int list \<Rightarrow> 'z walt_globals_scheme \<Rightarrow> int \<times> 'z walt_globals_scheme" where
  "sched_smart_freq_legacy_freq_handler cid proc_ret val s =
     (if \<not> smart_freq_init_done s then (- EINVAL, s)
      else if proc_ret \<noteq> 0 then (proc_ret, s)
      else case legacy_freq_scan val (2 * LEGACY_SMART_FREQ) 0 0 0 of
        Inl e \<Rightarrow> (e, s)
      | Inr (sz, no_reason_freq) \<Rightarrow>
          if sz mod 2 \<noteq> 0 then (- EINVAL, s)
          else let info = default_freq_config s cid
               in if no_reason_freq \<noteq> 0 \<and> smart_freq_ipc_participation_mask info \<noteq> 0 then
                    (if ipc_freq_allowed info IPC_B < no_reason_freq then (- EINVAL, s)
                     else (0, s\<lparr>default_freq_config := (default_freq_config s)(cid :=
                        legacy_freq_store val (sz div 2) 0
                          (info\<lparr>legacy_freq_allowed :=
                                  (legacy_freq_allowed info)(NO_REASON_SMART_FREQ := no_reason_freq),
                                ipc_freq_allowed :=
                                  (ipc_freq_allowed info)(IPC_A := no_reason_freq)\<rparr>))\<rparr>))
                  else (0, s\<lparr>default_freq_config := (default_freq_config s)(cid :=
                        legacy_freq_store val (sz div 2) 0 info)\<rparr>))"

text \<open>
  \<^verbatim>\<open>sched_smart_freq_ipc_levels_handler\<close>: \<open>val\<close> holds five values, \<^verbatim>\<open>UINT_MAX\<close> where the
  user gave none. The scan returns \<^verbatim>\<open>count\<close>, or nothing when the values are not increasing.
\<close>

abbreviation (input) UINT_MAX :: nat where "UINT_MAX \<equiv> 4294967295"

fun ipc_levels_scan :: "nat list \<Rightarrow> nat \<Rightarrow> nat \<Rightarrow> nat \<Rightarrow> nat option" where
  "ipc_levels_scan val 0 i count = Some count"
| "ipc_levels_scan val (Suc n) i count =
     (if val ! i = UINT_MAX then Some count
      else if val ! i < val ! (i - 1) then None
      else ipc_levels_scan val n (i + 1) (count + 1))"

fun ipc_levels_store :: "nat list \<Rightarrow> nat \<Rightarrow> nat \<Rightarrow> (nat \<Rightarrow> nat) \<Rightarrow> (nat \<Rightarrow> nat)" where
  "ipc_levels_store val 0 i f = f"
| "ipc_levels_store val (Suc n) i f =
     (if val ! i = UINT_MAX then f else ipc_levels_store val n (i + 1) (f(i := val ! i)))"

definition sched_smart_freq_ipc_levels_handler ::
  "nat \<Rightarrow> int \<Rightarrow> nat list \<Rightarrow> 'z walt_globals_scheme \<Rightarrow> int \<times> 'z walt_globals_scheme" where
  "sched_smart_freq_ipc_levels_handler cid proc_ret val s =
     (if \<not> smart_freq_init_done s then (- EINVAL, s)
      else if proc_ret \<noteq> 0 then (proc_ret, s)
      else let info = default_freq_config s cid
           in case ipc_levels_scan val (SMART_FMAX_IPC_MAX - 1) 1 1 of
                None \<Rightarrow> (- EINVAL, s)
              | Some count \<Rightarrow>
                  if count \<noteq> SMART_FMAX_IPC_MAX \<and> ipc_ipc info count < val ! (count - 1)
                  then (- EINVAL, s)
                  else (0, s\<lparr>default_freq_config := (default_freq_config s)(cid :=
                          info\<lparr>ipc_ipc := ipc_levels_store val SMART_FMAX_IPC_MAX 0 (ipc_ipc info)\<rparr>),
                        sysctl_ipc_levels := (sysctl_ipc_levels s)(cid :=
                          ipc_levels_store val SMART_FMAX_IPC_MAX 0 (sysctl_ipc_levels s cid))\<rparr>))"

fun ipc_freq_increasing :: "int list \<Rightarrow> nat \<Rightarrow> nat \<Rightarrow> bool" where
  "ipc_freq_increasing val 0 i = True"
| "ipc_freq_increasing val (Suc n) i =
     (if val ! i < val ! (i - 1) then False else ipc_freq_increasing val n (i + 1))"

definition sched_smart_freq_ipc_handler ::
  "nat \<Rightarrow> int \<Rightarrow> int list \<Rightarrow> 'z walt_globals_scheme \<Rightarrow> int \<times> 'z walt_globals_scheme" where
  "sched_smart_freq_ipc_handler cid proc_ret val s =
     (if \<not> smart_freq_init_done s then (- EINVAL, s)
      else if proc_ret \<noteq> 0 then (proc_ret, s)
      else let info = (default_freq_config s cid)\<lparr>smart_freq_ipc_participation_mask := 0\<rparr>;
               s1 = s\<lparr>default_freq_config := (default_freq_config s)(cid := info)\<rparr>
           in if val ! 0 < 0 then (- EINVAL, s1)
              else if \<not> ipc_freq_increasing val (SMART_FMAX_IPC_MAX - 1) 1 then (- EINVAL, s1)
              else (0, s\<lparr>default_freq_config := (default_freq_config s)(cid :=
                     info\<lparr>legacy_freq_allowed :=
                            (legacy_freq_allowed info)(NO_REASON_SMART_FREQ := ulong_of_int (val ! 0)),
                          ipc_freq_allowed :=
                            (\<lambda>i. if i < SMART_FMAX_IPC_MAX then ulong_of_int (val ! i)
                                 else ipc_freq_allowed info i),
                          smart_freq_ipc_participation_mask := 31\<rparr>),
                        sysctl_ipc_freq_levels := (sysctl_ipc_freq_levels s)(cid :=
                          (\<lambda>i. if i < SMART_FMAX_IPC_MAX then nat (val ! i)
                               else sysctl_ipc_freq_levels s cid i))\<rparr>))"

section \<open>Which reasons stay active, and the cap they give\<close>

text \<open>
  The specification of one update: reason \<open>i\<close> is active afterwards if it holds now, or if it was
  active and its hysteresis has not run out. The first update without the reason only starts the
  clock.
\<close>

definition reason_stays :: "32 word \<Rightarrow> nat \<Rightarrow> smart_freq_cluster_info \<Rightarrow> nat \<Rightarrow> bool" where
  "reason_stays current_reasons wallclock info i \<longleftrightarrow>
     bit current_reasons i
     \<or> bit (cluster_active_reason info) i
        \<and> (deactivate_ns info i = 0
            \<or> u64_sub wallclock (deactivate_ns info i) < legacy_hyst_ns info i)"

text \<open>When the clock of reason \<open>i\<close> was started, after the update; 0 when it does not run.\<close>

definition deactivate_next :: "32 word \<Rightarrow> nat \<Rightarrow> smart_freq_cluster_info \<Rightarrow> nat \<Rightarrow> nat" where
  "deactivate_next current_reasons wallclock info i =
     (if bit current_reasons i then 0
      else if \<not> bit (cluster_active_reason info) i then deactivate_ns info i
      else if deactivate_ns info i = 0 then wallclock
      else if u64_sub wallclock (deactivate_ns info i) < legacy_hyst_ns info i
        then deactivate_ns info i
      else 0)"

lemma bit_set_bit_word:
  "bit (set_bit i w :: 32 word) j \<longleftrightarrow> (if j = i then i < 32 else bit w j)"
  by (auto simp: bit_set_bit_iff dest: bit_imp_le_length)

lemma bit_unset_bit_word: "bit (unset_bit i w :: 32 word) j \<longleftrightarrow> j \<noteq> i \<and> bit w j"
  by (auto simp: bit_unset_bit_iff)

lemma smart_freq_reason_step_frame:
  assumes "smart_freq_reason_step reasons wallclock i (info, m) = (info', m')"
  shows "legacy_freq_allowed info' = legacy_freq_allowed info"
    and "legacy_hyst_ns info' = legacy_hyst_ns info"
    and "j \<noteq> i \<Longrightarrow> bit (cluster_active_reason info') j = bit (cluster_active_reason info) j"
    and "j \<noteq> i \<Longrightarrow> deactivate_ns info' j = deactivate_ns info j"
  using assms
  by (auto simp: smart_freq_reason_step_def Let_def bit_set_bit_word bit_unset_bit_word
           split: if_splits)

lemma smart_freq_reason_step_active:
  assumes "smart_freq_reason_step reasons wallclock i (info, m) = (info', m')" and "i < 32"
  shows "bit (cluster_active_reason info') i \<longleftrightarrow> reason_stays reasons wallclock info i"
  using assms
  by (auto simp: smart_freq_reason_step_def reason_stays_def Let_def bit_set_bit_word
        bit_unset_bit_word split: if_splits)

lemma smart_freq_reason_step_deactivate:
  assumes "smart_freq_reason_step reasons wallclock i (info, m) = (info', m')"
  shows "deactivate_ns info' i = deactivate_next reasons wallclock info i"
  using assms
  by (auto simp: smart_freq_reason_step_def deactivate_next_def Let_def split: if_splits)

lemma smart_freq_reason_step_cap:
  assumes "smart_freq_reason_step reasons wallclock i (info, m) = (info', m')"
  shows "m' = (if reason_stays reasons wallclock info i
               then max m (legacy_freq_allowed info i) else m)"
  using assms
  by (auto simp: smart_freq_reason_step_def reason_stays_def Let_def max_def split: if_splits)

lemma smart_freq_reason_loop:
  assumes "fold (smart_freq_reason_step reasons wallclock) [0..<n] (info, m) = (info', m')"
    and "n \<le> 32"
  shows "legacy_freq_allowed info' = legacy_freq_allowed info
     \<and> legacy_hyst_ns info' = legacy_hyst_ns info
     \<and> (\<forall>j < n. bit (cluster_active_reason info') j = reason_stays reasons wallclock info j
              \<and> deactivate_ns info' j = deactivate_next reasons wallclock info j)
     \<and> (\<forall>j \<ge> n. bit (cluster_active_reason info') j = bit (cluster_active_reason info) j
              \<and> deactivate_ns info' j = deactivate_ns info j)
     \<and> m' = Max (insert m {legacy_freq_allowed info j | j. j < n
                            \<and> reason_stays reasons wallclock info j})"
  using assms
proof (induction n arbitrary: info' m')
  case 0
  then show ?case by simp
next
  case (Suc n)
  obtain info1 m1 where fold1:
    "fold (smart_freq_reason_step reasons wallclock) [0..<n] (info, m) = (info1, m1)"
    by fastforce
  with Suc.prems have step: "smart_freq_reason_step reasons wallclock n (info1, m1) = (info', m')"
    by simp
  note ih = Suc.IH [OF fold1] and frame = smart_freq_reason_step_frame [OF step]
  have n: "n < 32" using Suc.prems by simp
  have stays: "reason_stays reasons wallclock info1 n = reason_stays reasons wallclock info n"
    "deactivate_next reasons wallclock info1 n = deactivate_next reasons wallclock info n"
    using ih n by (simp_all add: reason_stays_def deactivate_next_def)
  let ?S = "\<lambda>k. {legacy_freq_allowed info j | j. j < k \<and> reason_stays reasons wallclock info j}"
  have "?S (Suc n) = (if reason_stays reasons wallclock info n
                      then insert (legacy_freq_allowed info n) (?S n) else ?S n)"
    by (auto simp: less_Suc_eq)
  moreover have "Max (insert m (insert a (?S n))) = max a (Max (insert m (?S n)))" for a
    by (subst insert_commute) (rule Max_insert, simp_all)
  ultimately have "m' = Max (insert m (?S (Suc n)))"
    using smart_freq_reason_step_cap [OF step] ih n stays by (simp add: max.commute)
  moreover have "bit (cluster_active_reason info') j = reason_stays reasons wallclock info j
      \<and> deactivate_ns info' j = deactivate_next reasons wallclock info j" if "j < Suc n" for j
    using that ih n frame(3,4) smart_freq_reason_step_active [OF step n]
      smart_freq_reason_step_deactivate [OF step] stays
    by (cases "j = n") auto
  ultimately show ?case
    using ih n frame by auto
qed

text \<open>What one update of a cluster does to the shared state, in terms of the specification.\<close>

lemma smart_freq_update_one_cluster_status:
  fixes s :: "'z walt_globals_scheme" and k wallclock i :: nat and reasons :: "32 word"
  assumes "i < LEGACY_SMART_FREQ"
  shows "bit (cluster_active_reason
             (default_freq_config (smart_freq_update_one_cluster k reasons wallclock s) k)) i
           = reason_stays reasons wallclock (default_freq_config s k) i"
    and "deactivate_ns
             (default_freq_config (smart_freq_update_one_cluster k reasons wallclock s) k) i
           = deactivate_next reasons wallclock (default_freq_config s k) i"
    and "legacy_hyst_ns (default_freq_config (smart_freq_update_one_cluster k reasons wallclock s) k)
           = legacy_hyst_ns (default_freq_config s k)"
proof -
  obtain info' m where loop: "fold (smart_freq_reason_step reasons wallclock)
      [0..<LEGACY_SMART_FREQ] (default_freq_config s k,
        legacy_freq_allowed (default_freq_config s k) NO_REASON_SMART_FREQ) = (info', m)"
    by fastforce
  have "default_freq_config (smart_freq_update_one_cluster k reasons wallclock s) k = info'"
    using loop by (simp add: smart_freq_update_one_cluster_def Let_def del: upt.simps)
  with smart_freq_reason_loop [OF loop] assms
  show "bit (cluster_active_reason
             (default_freq_config (smart_freq_update_one_cluster k reasons wallclock s) k)) i
           = reason_stays reasons wallclock (default_freq_config s k) i"
    and "deactivate_ns
             (default_freq_config (smart_freq_update_one_cluster k reasons wallclock s) k) i
           = deactivate_next reasons wallclock (default_freq_config s k) i"
    and "legacy_hyst_ns (default_freq_config (smart_freq_update_one_cluster k reasons wallclock s) k)
           = legacy_hyst_ns (default_freq_config s k)"
    by simp_all
qed

text \<open>The clock of a reason that has gone keeps running, and the reason active, within the time.\<close>

definition counting_down :: "nat \<Rightarrow> nat \<Rightarrow> nat \<Rightarrow> nat \<Rightarrow> 'z walt_globals_scheme \<Rightarrow> bool" where
  "counting_down k i t0 hyst s \<longleftrightarrow>
     bit (cluster_active_reason (default_freq_config s k)) i
     \<and> deactivate_ns (default_freq_config s k) i = t0
     \<and> legacy_hyst_ns (default_freq_config s k) i = hyst"

lemma counting_down_step:
  assumes "counting_down k i t0 hyst s" and "i < LEGACY_SMART_FREQ"
    and "\<not> bit r i" and "0 < t0" and "t0 \<le> t" and "t < 2 ^ 64" and "t - t0 < hyst"
  shows "counting_down k i t0 hyst (smart_freq_update_one_cluster k r t s)"
proof -
  have "u64_sub t t0 = t - t0" using assms by (simp add: width_simps)
  then show ?thesis
    using assms
    by (simp add: counting_down_def smart_freq_update_one_cluster_status reason_stays_def
        deactivate_next_def)
qed

lemma counting_down_run:
  assumes "counting_down k i t0 hyst s" and "i < LEGACY_SMART_FREQ" and "0 < t0"
    and "\<forall>(r, t) \<in> set rts. \<not> bit r i \<and> t0 \<le> t \<and> t < 2 ^ 64 \<and> t - t0 < hyst"
  shows "counting_down k i t0 hyst (fold (\<lambda>(r, t). smart_freq_update_one_cluster k r t) rts s)"
  using assms
proof (induction rts arbitrary: s)
  case Nil
  then show ?case by simp
next
  case (Cons rt rts)
  obtain r t where rt: "rt = (r, t)" by fastforce
  from Cons.prems have "counting_down k i t0 hyst (smart_freq_update_one_cluster k r t s)"
    by (intro counting_down_step) (auto simp: rt)
  from Cons.IH [OF this] Cons.prems show ?case by (auto simp: rt)
qed

lemma counting_down_expires:
  assumes "counting_down k i t0 hyst s" and "i < LEGACY_SMART_FREQ"
    and "\<not> bit r i" and "0 < t0" and "t0 \<le> t" and "t < 2 ^ 64" and "hyst \<le> t - t0"
  shows "\<not> bit (cluster_active_reason
      (default_freq_config (smart_freq_update_one_cluster k r t s) k)) i"
proof -
  have "u64_sub t t0 = t - t0" using assms by (simp add: width_simps)
  then show ?thesis
    using assms
    by (simp add: counting_down_def smart_freq_update_one_cluster_status reason_stays_def)
qed

lemma smart_freq_update_one_cluster_result:
  fixes s :: "'z walt_globals_scheme" and k wallclock :: nat and reasons :: "32 word"
  assumes "\<And>i. i < LEGACY_SMART_FREQ \<Longrightarrow> legacy_freq_allowed (default_freq_config s k) i < 2 ^ 32"
  defines "s' \<equiv> smart_freq_update_one_cluster k reasons wallclock s"
    and "info \<equiv> default_freq_config s k"
  shows "\<forall>i < LEGACY_SMART_FREQ. bit (cluster_active_reason (default_freq_config s' k)) i
            = reason_stays reasons wallclock info i"
    and "freq_cap s' SMART_FREQ k =
           Max (insert (legacy_freq_allowed info NO_REASON_SMART_FREQ)
             {legacy_freq_allowed info i | i. i < LEGACY_SMART_FREQ
                \<and> reason_stays reasons wallclock info i})"
    and "legacy_freq_allowed (default_freq_config s' k) = legacy_freq_allowed info"
proof -
  let ?M = "Max (insert (legacy_freq_allowed info NO_REASON_SMART_FREQ)
             {legacy_freq_allowed info i | i. i < LEGACY_SMART_FREQ
                \<and> reason_stays reasons wallclock info i})"
  obtain info' m where loop: "fold (smart_freq_reason_step reasons wallclock)
      [0..<LEGACY_SMART_FREQ] (info, legacy_freq_allowed info NO_REASON_SMART_FREQ) = (info', m)"
    by fastforce
  note spec = smart_freq_reason_loop [OF loop, simplified]
  have "?M < 2 ^ 32"
    using assms(1) by (subst Max_less_iff) (auto simp: info_def)
  then have "u32 m = ?M" and "m = ?M"
    using spec by (simp_all add: width_simps)
  moreover have "default_freq_config s' k = info'"
    and "freq_cap s' SMART_FREQ k = (if freq_cap s SMART_FREQ k = m then m else u32 m)"
    using loop by (simp_all add: s'_def smart_freq_update_one_cluster_def Let_def info_def del: upt.simps)
  ultimately show "freq_cap s' SMART_FREQ k = ?M"
    and "\<forall>i < LEGACY_SMART_FREQ. bit (cluster_active_reason (default_freq_config s' k)) i
            = reason_stays reasons wallclock info i"
    and "legacy_freq_allowed (default_freq_config s' k) = legacy_freq_allowed info"
    using spec by simp_all
qed

text \<open>
  C12 (functional). After \<^verbatim>\<open>smart_freq_update_one_cluster\<close>, reason \<open>i\<close> is active exactly
  when it holds now or was active and is still within its hysteresis, and the cluster's smart
  frequency cap is the largest frequency allowed by an active reason, or by the default reason.
\<close>

theorem smart_freq_cap_is_max_of_active_reasons:
  fixes s :: "'z walt_globals_scheme" and k wallclock :: nat and reasons :: "32 word"
  assumes "\<forall>i < LEGACY_SMART_FREQ. legacy_freq_allowed (default_freq_config s k) i < 2 ^ 32"
  shows "let s' = smart_freq_update_one_cluster k reasons wallclock s in
       (\<forall>i < LEGACY_SMART_FREQ. bit (cluster_active_reason (default_freq_config s' k)) i
            = reason_stays reasons wallclock (default_freq_config s k) i)
       \<and> freq_cap s' SMART_FREQ k =
           Max (insert (legacy_freq_allowed (default_freq_config s k) NO_REASON_SMART_FREQ)
             {legacy_freq_allowed (default_freq_config s k) i | i. i < LEGACY_SMART_FREQ
                \<and> bit (cluster_active_reason (default_freq_config s' k)) i})"
proof -
  let ?s' = "smart_freq_update_one_cluster k reasons wallclock s"
  note res = smart_freq_update_one_cluster_result [of s k reasons wallclock]
  have active: "\<forall>i < LEGACY_SMART_FREQ. bit (cluster_active_reason (default_freq_config ?s' k)) i
      = reason_stays reasons wallclock (default_freq_config s k) i"
    using res(1) assms by blast
  then have "{legacy_freq_allowed (default_freq_config s k) i | i. i < LEGACY_SMART_FREQ
        \<and> bit (cluster_active_reason (default_freq_config ?s' k)) i}
      = {legacy_freq_allowed (default_freq_config s k) i | i. i < LEGACY_SMART_FREQ
        \<and> reason_stays reasons wallclock (default_freq_config s k) i}"
    by blast
  with res(2) assms active show ?thesis by (simp add: Let_def)
qed

theorem smart_freq_cap_witness:
  "freq_cap (smart_freq_update_one_cluster 0 2 5 example_globals) SMART_FREQ 0 =
     Max (insert 2400000 {legacy_freq_allowed example_info i | i. i < LEGACY_SMART_FREQ
        \<and> bit (cluster_active_reason
             (default_freq_config (smart_freq_update_one_cluster 0 2 5 example_globals) 0)) i})
   \<and> bit (cluster_active_reason
        (default_freq_config (smart_freq_update_one_cluster 0 2 5 example_globals) 0)) 1"
proof -
  have "\<forall>i < LEGACY_SMART_FREQ. legacy_freq_allowed (default_freq_config example_globals 0) i < 2 ^ 32"
    by (simp add: example_globals_def example_info_def)
  note claim = smart_freq_cap_is_max_of_active_reasons [OF this, of 2 5]
  have "reason_stays 2 5 (default_freq_config example_globals 0) 1"
    by (simp add: reason_stays_def)
  then show ?thesis
    using claim by (simp add: Let_def) (simp add: example_globals_def example_info_def)
qed

text \<open>The largest frequency the default and the active reasons other than those in \<open>X\<close> allow.\<close>

definition active_cap :: "nat set \<Rightarrow> smart_freq_cluster_info \<Rightarrow> nat" where
  "active_cap X info = Max (insert (legacy_freq_allowed info NO_REASON_SMART_FREQ)
     {legacy_freq_allowed info j | j. j < LEGACY_SMART_FREQ \<and> j \<notin> X \<and> bit (cluster_active_reason info) j})"

definition caps_ok :: "nat \<Rightarrow> (nat \<Rightarrow> nat) \<Rightarrow> 'z walt_globals_scheme \<Rightarrow> bool" where
  "caps_ok k allowed s \<longleftrightarrow> legacy_freq_allowed (default_freq_config s k) = allowed
     \<and> freq_cap s SMART_FREQ k = active_cap {} (default_freq_config s k)"

lemma update_caps:
  fixes s :: "'z walt_globals_scheme"
  assumes "\<forall>i < LEGACY_SMART_FREQ. allowed i < 2 ^ 32" and "legacy_freq_allowed (default_freq_config s k) = allowed"
  shows "caps_ok k allowed (smart_freq_update_one_cluster k r t s)"
proof -
  note res = smart_freq_update_one_cluster_result [of s k r t]
  let ?info = "default_freq_config (smart_freq_update_one_cluster k r t s) k"
  have "{allowed j | j. j < LEGACY_SMART_FREQ \<and> reason_stays r t (default_freq_config s k) j}
      = {allowed j | j. j < LEGACY_SMART_FREQ \<and> j \<notin> {} \<and> bit (cluster_active_reason ?info) j}"
    using res(1) assms by blast
  then show ?thesis using res(2,3) assms unfolding caps_ok_def active_cap_def by simp
qed

lemma update_caps_run:
  fixes s :: "'z walt_globals_scheme"
  assumes "\<forall>i < LEGACY_SMART_FREQ. allowed i < 2 ^ 32" and "caps_ok k allowed s"
  shows "caps_ok k allowed (fold (\<lambda>(r, t). smart_freq_update_one_cluster k r t) rts s)"
proof (rule fold_invariant [where P = "caps_ok k allowed"])
  show "caps_ok k allowed ((case x of (r, t) \<Rightarrow> smart_freq_update_one_cluster k r t) s)" if "caps_ok k allowed s"
    for x and s :: "'z walt_globals_scheme"
    using that update_caps [OF assms(1), of s k] by (cases x) (simp add: caps_ok_def)
qed (simp_all add: assms(2))

lemma active_cap_ge:
  "i < LEGACY_SMART_FREQ \<Longrightarrow> bit (cluster_active_reason info) i \<Longrightarrow> legacy_freq_allowed info i \<le> active_cap {} info"
  unfolding active_cap_def by (rule Max_ge) auto

lemma active_cap_without:
  "\<not> bit (cluster_active_reason info) i \<Longrightarrow> active_cap {} info = active_cap {i} info"
  unfolding active_cap_def by (rule arg_cong [where f = Max]) auto

text \<open>
  C22 (safety). A reason that is no longer reported lifts its cluster's cap for exactly its
  hysteresis: after any sequence of updates within \<^verbatim>\<open>hyst_ns\<close> of the first update without it, it is still
  active and the cap is at least the frequency it allows; the first update after that time deactivates it, and then the cap is
  the largest frequency the default and the other active reasons allow.
\<close>

theorem smart_freq_hysteresis:
  fixes s :: "'z walt_globals_scheme"
  assumes "i < LEGACY_SMART_FREQ" and "\<forall>j < LEGACY_SMART_FREQ. legacy_freq_allowed (default_freq_config s k) j < 2 ^ 32"
    and "bit (cluster_active_reason (default_freq_config s k)) i"
    and "deactivate_ns (default_freq_config s k) i = 0"
    and "\<not> bit r0 i" and "0 < t0"
    and "\<forall>(r, t) \<in> set rts. \<not> bit r i \<and> t0 \<le> t \<and> t < 2 ^ 64
           \<and> t - t0 < legacy_hyst_ns (default_freq_config s k) i"
    and "\<not> bit rn i" and "t0 \<le> tn" and "tn < 2 ^ 64"
    and "legacy_hyst_ns (default_freq_config s k) i \<le> tn - t0"
  shows "let s' = fold (\<lambda>(r, t). smart_freq_update_one_cluster k r t) ((r0, t0) # rts) s;
             sn = smart_freq_update_one_cluster k rn tn s' in
      bit (cluster_active_reason (default_freq_config s' k)) i
    \<and> legacy_freq_allowed (default_freq_config s k) i \<le> freq_cap s' SMART_FREQ k
    \<and> \<not> bit (cluster_active_reason (default_freq_config sn k)) i
    \<and> freq_cap sn SMART_FREQ k = active_cap {i} (default_freq_config sn k)"
proof -
  let ?h = "legacy_hyst_ns (default_freq_config s k) i" and ?f = "legacy_freq_allowed (default_freq_config s k)"
  define s1 where "s1 = smart_freq_update_one_cluster k r0 t0 s"
  define s' where "s' = fold (\<lambda>(r, t). smart_freq_update_one_cluster k r t) rts s1"
  have "counting_down k i t0 ?h s1"
    using assms(1,3-5) by (simp add: s1_def counting_down_def smart_freq_update_one_cluster_status reason_stays_def deactivate_next_def)
  then have run: "counting_down k i t0 ?h s'"
    unfolding s'_def using assms(1,6,7) by (simp add: counting_down_run)
  have caps: "caps_ok k ?f s'" unfolding s'_def s1_def by (rule update_caps_run [OF assms(2) update_caps [OF assms(2) refl]])
  then have "caps_ok k ?f (smart_freq_update_one_cluster k rn tn s')" by (intro update_caps [OF assms(2)]) (simp add: caps_ok_def)
  moreover have "\<not> bit (cluster_active_reason (default_freq_config (smart_freq_update_one_cluster k rn tn s') k)) i"
    using counting_down_expires [OF run] assms by simp
  moreover have "bit (cluster_active_reason (default_freq_config s' k)) i" using run by (simp add: counting_down_def)
  moreover have "?f i \<le> freq_cap s' SMART_FREQ k"
    using active_cap_ge [OF assms(1), of "default_freq_config s' k"] caps calculation(3) by (simp add: caps_ok_def)
  ultimately show ?thesis
    unfolding s'_def s1_def by (simp add: Let_def caps_ok_def active_cap_without)
qed

theorem smart_freq_hysteresis_witness:
  "let s = example_globals\<lparr>default_freq_config :=
             (\<lambda>_. example_info\<lparr>cluster_active_reason := 2\<rparr>)\<rparr>;
       s' = fold (\<lambda>(r, t). smart_freq_update_one_cluster 0 r t) [(1, 500), (1, 900)] s;
       sn = smart_freq_update_one_cluster 0 1 2000000000 s'
   in bit (cluster_active_reason (default_freq_config s' 0)) 1
    \<and> legacy_freq_allowed example_info 1 \<le> freq_cap s' SMART_FREQ 0
    \<and> \<not> bit (cluster_active_reason (default_freq_config sn 0)) 1
    \<and> freq_cap sn SMART_FREQ 0 = active_cap {1} (default_freq_config sn 0)"
proof -
  let ?s = "example_globals\<lparr>default_freq_config :=
              (\<lambda>_. example_info\<lparr>cluster_active_reason := 2\<rparr>)\<rparr>"
  have "bit (cluster_active_reason (default_freq_config ?s 0)) 1"
    and "deactivate_ns (default_freq_config ?s 0) 1 = 0"
    and "legacy_hyst_ns (default_freq_config ?s 0) 1 = 1000000000"
    and "legacy_freq_allowed (default_freq_config ?s 0) = legacy_freq_allowed example_info"
    and "\<forall>j < LEGACY_SMART_FREQ. legacy_freq_allowed example_info j < 2 ^ 32"
    by (simp_all add: example_info_def)
  then show ?thesis
    using smart_freq_hysteresis [of 1 ?s 0 1 500 "[(1, 900)]" 1 2000000000]
    by (simp add: Let_def del: fold.simps fold_simps)
qed

section \<open>The internal frequency limit\<close>

lemma fold_min_eq_Min:
  "fold (\<lambda>i l. min (f i) l) xs (m :: nat) = Min (insert m (f ` set xs))"
proof (induction xs arbitrary: m)
  case Nil
  then show ?case by simp
next
  case (Cons x xs)
  show ?case
    by (simp add: Cons.IH)
      (cases xs, auto simp: min.left_commute min.commute min.assoc)
qed

definition ipc_freq_of :: "smart_freq_cluster_info \<Rightarrow> nat" where
  "ipc_freq_of info =
     (if smart_freq_ipc_participation_mask info \<noteq> 0
      then u32 (ipc_freq_allowed info (cluster_ipc_level info)) else 0)"

definition prev_cluster_limit :: "nat \<Rightarrow> 'z walt_globals_scheme \<Rightarrow> nat" where
  "prev_cluster_limit k s =
     (if 0 < k \<and> bit (sysctl_walt_features s) 2
      then (if walt_internal_freq_limit (sched_cluster s ! (k - 1)) = FREQ_QOS_MAX_DEFAULT_VALUE s
            then max_possible_freq (sched_cluster s ! (k - 1))
            else walt_internal_freq_limit (sched_cluster s ! (k - 1)))
      else 0)"

text \<open>
  \<^verbatim>\<open>has_internal_freq_limit_changed\<close> gives the cluster the smallest of its
  frequency caps and its maximum frequency, raised to the frequency its IPC level allows and, with
  the sync feature, to the limit of the cluster below; the result says whether the limit changed.
\<close>

theorem internal_freq_limit_spec:
  fixes s :: "'z walt_globals_scheme"
  assumes "k < length (sched_cluster s)" and "prev_cluster_limit k s < 2 ^ 32"
  shows "let (changed, s') = has_internal_freq_limit_changed k s;
             limit = walt_internal_freq_limit (sched_cluster s' ! k)
         in limit = max (prev_cluster_limit k s)
              (max (ipc_freq_of (default_freq_config s k))
                 (Min (insert (max_freq (sched_cluster s ! k)) (range (\<lambda>c. freq_cap s c k)))))
          \<and> (changed \<longleftrightarrow> limit \<noteq> walt_internal_freq_limit (sched_cluster s ! k))"
  using assms
  by (auto simp: has_internal_freq_limit_changed_def prev_cluster_limit_def ipc_freq_of_def
        fold_min_eq_Min Let_def width_simps max_def)

theorem internal_freq_limit_witness:
  "let (changed, s') = has_internal_freq_limit_changed 1
         (example_globals\<lparr>freq_cap := (\<lambda>c k. if c = PARTIAL_HALT_CAP then 1000000 else 2147483647)\<rparr>)
   in changed \<and> walt_internal_freq_limit (sched_cluster s' ! 1) = 1000000"
proof -
  let ?s = "example_globals\<lparr>freq_cap :=
              (\<lambda>c k. if c = PARTIAL_HALT_CAP then 1000000 else 2147483647)\<rparr>"
  have caps: "range (\<lambda>c. freq_cap ?s c 1) = {1000000, 2147483647}"
    by (auto simp: image_iff)
  have "1 < length (sched_cluster ?s)" and "prev_cluster_limit 1 ?s < 2 ^ 32"
    by (simp_all add: example_globals_def prev_cluster_limit_def)
  from internal_freq_limit_spec [OF this] show ?thesis
    unfolding caps
    by (simp add: prev_cluster_limit_def ipc_freq_of_def example_globals_def example_info_def
        Let_def split: prod.splits)
qed

section \<open>The order of the IPC levels\<close>

definition ipc_levels_sorted :: "smart_freq_cluster_info \<Rightarrow> bool" where
  "ipc_levels_sorted info \<longleftrightarrow>
     (\<forall>i. Suc i < SMART_FMAX_IPC_MAX \<longrightarrow> ipc_ipc info i \<le> ipc_ipc info (Suc i))"

lemma ipc_levels_scan_numeral:
  "ipc_levels_scan val (numeral k) i count =
     (if val ! i = UINT_MAX then Some count
      else if val ! i < val ! (i - 1) then None
      else ipc_levels_scan val (pred_numeral k) (i + 1) (count + 1))"
  by (simp add: numeral_eq_Suc [of k])

lemma ipc_levels_store_numeral:
  "ipc_levels_store val (numeral k) i f =
     (if val ! i = UINT_MAX then f
      else ipc_levels_store val (pred_numeral k) (i + 1) (f(i := val ! i)))"
  by (simp add: numeral_eq_Suc [of k])

lemma ipc_levels_scan_Some:
  assumes "ipc_levels_scan val n i c = Some count" and "0 < i"
  shows "c \<le> count \<and> count \<le> c + n
     \<and> (\<forall>j. i \<le> j \<and> j < i + (count - c) \<longrightarrow> val ! j \<noteq> UINT_MAX \<and> val ! (j - 1) \<le> val ! j)
     \<and> (count < c + n \<longrightarrow> val ! (i + (count - c)) = UINT_MAX)"
  using assms
proof (induction val n i c rule: ipc_levels_scan.induct)
  case (1 val i c)
  then show ?case by simp
next
  case (2 val n i c)
  show ?case
  proof (cases "val ! i = UINT_MAX")
    case True
    with "2.prems" show ?thesis by simp
  next
    case False
    with "2.prems" have le: "val ! (i - 1) \<le> val ! i"
      and rec: "ipc_levels_scan val n (i + 1) (c + 1) = Some count"
      by (auto split: if_splits)
    have ih: "c + 1 \<le> count \<and> count \<le> c + 1 + n
        \<and> (\<forall>j. i + 1 \<le> j \<and> j < i + 1 + (count - (c + 1))
              \<longrightarrow> val ! j \<noteq> UINT_MAX \<and> val ! (j - 1) \<le> val ! j)
        \<and> (count < c + 1 + n \<longrightarrow> val ! (i + 1 + (count - (c + 1))) = UINT_MAX)"
      by (rule "2.IH") (use False le rec in auto)
    then have idx: "i + 1 + (count - (c + 1)) = i + (count - c)" by arith
    have step: "val ! j \<noteq> UINT_MAX \<and> val ! (j - 1) \<le> val ! j" if "i \<le> j" "j < i + (count - c)" for j
      using that ih le False by (cases "j = i") auto
    have n: "c + Suc n = c + 1 + n" by simp
    from ih have last: "count < c + 1 + n \<longrightarrow> val ! (i + (count - c)) = UINT_MAX"
      unfolding idx by blast
    from ih have "c \<le> count" and "count \<le> c + 1 + n" by simp_all
    with step last show ?thesis unfolding n by blast
  qed
qed

lemma ipc_levels_store_none: "val ! i = UINT_MAX \<Longrightarrow> ipc_levels_store val n i f = f"
  by (cases n) simp_all

lemma ipc_levels_store_eq:
  assumes "m \<le> n" and "\<forall>j. i \<le> j \<and> j < i + m \<longrightarrow> val ! j \<noteq> UINT_MAX"
    and "m < n \<longrightarrow> val ! (i + m) = UINT_MAX"
  shows "ipc_levels_store val n i f =
           (\<lambda>j. if i \<le> j \<and> j < i + m then val ! j else f j)"
  using assms
proof (induction m arbitrary: n i f)
  case 0
  then show ?case by (cases n) auto
next
  case (Suc m)
  then obtain n' where n: "n = Suc n'" by (cases n) auto
  have "ipc_levels_store val n' (i + 1) (f(i := val ! i)) =
      (\<lambda>j. if i + 1 \<le> j \<and> j < i + 1 + m then val ! j else (f(i := val ! i)) j)"
    using Suc.prems n by (intro Suc.IH) auto
  moreover have "val ! i \<noteq> UINT_MAX" using Suc.prems by simp
  ultimately show ?case by (auto simp: n fun_eq_iff)
qed

text \<open>
  A write to the sysctl of a cluster's IPC levels keeps the levels in increasing
  order: whatever prefix of the levels the user gives, it is stored only when it is increasing and
  does not exceed the level that follows it.
\<close>

theorem ipc_levels_handler_sorted:
  fixes s :: "'z walt_globals_scheme"
  assumes "ipc_levels_sorted (default_freq_config s cid)"
  shows "ipc_levels_sorted (default_freq_config
      (snd (sched_smart_freq_ipc_levels_handler cid proc_ret val s)) cid)"
proof (cases "smart_freq_init_done s \<and> proc_ret = 0")
  case False
  with assms show ?thesis by (auto simp: sched_smart_freq_ipc_levels_handler_def)
next
  case True
  let ?f = "ipc_ipc (default_freq_config s cid)"
  show ?thesis
  proof (cases "ipc_levels_scan val (SMART_FMAX_IPC_MAX - 1) 1 1")
    case None
    with assms True show ?thesis
      by (simp add: sched_smart_freq_ipc_levels_handler_def Let_def)
  next
    case (Some count)
    note scan = ipc_levels_scan_Some [OF Some]
    show ?thesis
    proof (cases "(count \<noteq> SMART_FMAX_IPC_MAX \<and> ?f count < val ! (count - 1)) \<or> val ! 0 = UINT_MAX")
      case True
      with assms \<open>smart_freq_init_done s \<and> proc_ret = 0\<close> Some show ?thesis
        by (auto simp: sched_smart_freq_ipc_levels_handler_def Let_def ipc_levels_store_none)
    next
      case False
      have "val ! j \<noteq> UINT_MAX" if "j < count" for j
        using that scan False by (cases "j = 0") auto
      then have store: "ipc_levels_store val SMART_FMAX_IPC_MAX 0 ?f =
          (\<lambda>j. if j < count then val ! j else ?f j)"
        using scan by (subst ipc_levels_store_eq [where m = count]) auto
      have le: "val ! (j - 1) \<le> val ! j" if "1 \<le> j" "j < count" for j
        using that scan by auto
      have "(if i < count then val ! i else ?f i)
          \<le> (if Suc i < count then val ! Suc i else ?f (Suc i))" if i: "Suc i < SMART_FMAX_IPC_MAX" for i
      proof -
        consider "Suc i < count" | "Suc i = count" | "count \<le> i" by linarith
        then show ?thesis
        proof cases
          case 1
          with le [of "Suc i"] show ?thesis by simp
        next
          case 2
          with i False show ?thesis by auto
        next
          case 3
          with i assms show ?thesis by (simp add: ipc_levels_sorted_def)
        qed
      qed
      then show ?thesis
        using \<open>smart_freq_init_done s \<and> proc_ret = 0\<close> Some False
        by (auto simp: sched_smart_freq_ipc_levels_handler_def Let_def store ipc_levels_sorted_def
            simp del: ipc_levels_store.simps)
    qed
  qed
qed

theorem ipc_levels_handler_sorted_witness:
  "let s' = snd (sched_smart_freq_ipc_levels_handler 0 0 [100, 150, 190, UINT_MAX, UINT_MAX]
                   example_globals)
   in ipc_levels_sorted (default_freq_config s' 0) \<and> ipc_ipc (default_freq_config s' 0) 1 = 150"
proof -
  have "ipc_levels_sorted (default_freq_config example_globals 0)"
    by (simp add: ipc_levels_sorted_def example_globals_def example_info_def)
  from ipc_levels_handler_sorted [OF this, of 0 "[100, 150, 190, UINT_MAX, UINT_MAX]"]
  have sorted: "ipc_levels_sorted (default_freq_config (snd (sched_smart_freq_ipc_levels_handler 0 0
      [100, 150, 190, UINT_MAX, UINT_MAX] example_globals)) 0)" .
  moreover have "ipc_ipc (default_freq_config (snd (sched_smart_freq_ipc_levels_handler 0 0
      [100, 150, 190, UINT_MAX, UINT_MAX] example_globals)) 0) 1 = 150"
    by (simp add: sched_smart_freq_ipc_levels_handler_def example_globals_def example_info_def
        ipc_levels_scan_numeral ipc_levels_store_numeral)
  ultimately show ?thesis by (simp add: Let_def)
qed

section \<open>Frame of the propagation\<close>

text \<open>Whatever reads neither the clusters nor the capacities is unaffected by the propagation.\<close>

lemma update_cpu_capacity_helper_frame:
  assumes "\<And>f s. g (sched_cluster_update f s) = g s"
    and "\<And>f s. g (cpu_capacity_orig_update f s) = g s"
  shows "g (update_cpu_capacity_helper cpu s) = g s"
  by (simp add: update_cpu_capacity_helper_def Let_def assms)

lemma has_internal_freq_limit_changed_frame:
  assumes "\<And>f s. g (sched_cluster_update f s) = g s"
  shows "g (snd (has_internal_freq_limit_changed k s)) = g s"
  by (simp add: has_internal_freq_limit_changed_def Let_def assms)

lemma update_smart_freq_capacities_frame:
  assumes "\<And>f s. g (sched_cluster_update f s) = g s"
    and "\<And>f s. g (cpu_capacity_orig_update f s) = g s"
  shows "g (update_smart_freq_capacities s) = g s"
proof -
  have helpers: "g (fold update_cpu_capacity_helper cs t) = g t" for cs t
    by (rule fold_field) (rule update_cpu_capacity_helper_frame [of g]; rule assms)
  have "g (update_smart_freq_capacities_one_cluster k t) = g t" for k t
    using has_internal_freq_limit_changed_frame [of g k t, OF assms(1)]
    by (auto simp: update_smart_freq_capacities_one_cluster_def helpers split: prod.splits)
  then show ?thesis
    by (auto simp: update_smart_freq_capacities_def intro: fold_field)
qed

lemma smart_freq_update_reason_common_frame:
  assumes "\<And>f s. g (sched_cluster_update f s) = g s"
    and "\<And>f s. g (cpu_capacity_orig_update f s) = g s"
    and "\<And>f s. g (freq_cap_update f s) = g s"
    and "\<And>f s. g (default_freq_config_update f s) = g s"
    and "\<And>f s. g (waltgov_callbacks_update f s) = g s"
  shows "g (smart_freq_update_reason_common wallclock big ctr s) = g s"
proof -
  have uncap: "g (snd (thres_based_uncap w k t)) = g t" for w k t
    by (simp add: thres_based_uncap_def Let_def assms)
  have uncap': "thres_based_uncap w k t = (b, t') \<Longrightarrow> g t' = g t" for w k t b t'
    using uncap [of w k t] by simp
  have one: "g (smart_freq_update_one_cluster k r w t) = g t" for k r w t
    by (simp add: smart_freq_update_one_cluster_def Let_def assms split: prod.splits)
  let ?uncap = "\<lambda>k (b, s). let (b', s') = thres_based_uncap wallclock k s in (b \<or> b', s')"
  obtain b s1 where f: "fold ?uncap [0..<length (sched_cluster s)] (False, s) = (b, s1)"
    by fastforce
  have "g (snd (fold ?uncap ks a)) = g (snd a)" for ks a
    by (rule fold_field [where g = "\<lambda>a. g (snd a)"])
      (auto simp: Let_def split: prod.splits dest: uncap')
  from this [of "[0..<length (sched_cluster s)]" "(False, s)"] have s1: "g s1 = g s"
    by (simp only: f snd_conv)
  have second: "g (fold (\<lambda>k s. let reasons = h s k in
      if reasons \<noteq> 0 \<or> cluster_active_reason (default_freq_config s k) \<noteq> 0
      then smart_freq_update_one_cluster k reasons wallclock s else s) ks t) = g t" for h ks t
    by (rule fold_field) (simp add: Let_def one)
  show ?thesis
    unfolding smart_freq_update_reason_common_def f Let_def [of "(b, s1)"] prod.case
    using second [of "\<lambda>s. cluster_reasons_of s b big ctr" "[0..<length (sched_cluster s1)]" s1] s1
    by (cases "smart_freq_init_done s") (simp_all only: if_True if_False simp_thms)
qed

end
