(* ===== verification/Walt_Halt.thy ===== *)
theory Walt_Halt
  imports Walt_Smartfreq
begin

text \<open>
  CPU halting (\<^verbatim>\<open>kernel/sched/walt/walt_halt.c\<close>): clients vote to halt or partially halt
  CPUs, a CPU is halted while any client votes for it, and the scheduler hooks keep tasks and
  timers off halted CPUs. The kthread that drains the run queues of halted CPUs runs concurrently
  with the voting; its steps are a step relation.
\<close>

unbundle bit_operations_syntax

datatype pause_type = HALT | PARTIAL_HALT

abbreviation (input) PAUSE_CORE_CTL :: "8 word" where "PAUSE_CORE_CTL \<equiv> 1"
abbreviation (input) PAUSE_THERMAL :: "8 word" where "PAUSE_THERMAL \<equiv> 2"
abbreviation (input) PAUSE_HYP :: "8 word" where "PAUSE_HYP \<equiv> 4"
abbreviation (input) PAUSE_SBT :: "8 word" where "PAUSE_SBT \<equiv> 8"

text \<open>
  The state of the component: the votes per CPU, the CPUs the drain thread has to visit, how
  often \<^verbatim>\<open>wake_up_process\<close> was called on it, and the CPUs that were kicked to balance. The masks of the architecture and of CPU
  hotplug are read only.
\<close>

record halt_state = walt_globals +
  client_vote_mask :: "nat \<Rightarrow> pause_type \<Rightarrow> 8 word"
  cpus_to_drain :: cpumask
  drain_wakeups :: nat
  newidle_kicks :: "nat list"
  system_32bit_el0_cpumask :: cpumask
  cpu_active_mask :: cpumask
  cpu_dying_mask :: cpumask

section \<open>Voting\<close>

definition set_partial_halt_cap ::
  "nat \<Rightarrow> nat \<Rightarrow> 'z walt_globals_scheme \<Rightarrow> 'z walt_globals_scheme" where
  "set_partial_halt_cap freq cpu s =
     s\<lparr>freq_cap := (freq_cap s)(PARTIAL_HALT_CAP :=
          (freq_cap s PARTIAL_HALT_CAP)(cpu_cluster s cpu := freq))\<rparr>"

definition restrict_cpus_and_freq ::
  "cpumask \<Rightarrow> 'z walt_globals_scheme \<Rightarrow> 'z walt_globals_scheme" where
  "restrict_cpus_and_freq cpus s =
     (let freq = (if cpumask_intersects (nr_cpu_ids s) cpus (cpu_partial_halt_mask s)
                     \<and> \<not> cpumask_intersects (nr_cpu_ids s) cpus (cpu_halt_mask s)
                     \<and> is_state1 s
                  then sysctl_max_freq_partial_halt s else FREQ_QOS_MAX_DEFAULT_VALUE s)
      in update_smart_freq_capacities
           (fold (set_partial_halt_cap freq) (for_each_cpu (nr_cpu_ids s) cpus) s))"

fun halt_cpus_loop ::
  "nat list \<Rightarrow> pause_type \<Rightarrow> 'z halt_state_scheme \<Rightarrow> int \<times> 'z halt_state_scheme" where
  "halt_cpus_loop [] type s = (0, s)"
| "halt_cpus_loop (cpu # cpus) type s =
     (if cpu = cpumask_first (nr_cpu_ids s) (system_32bit_el0_cpumask s) then (- EINVAL, s)
      else halt_cpus_loop cpus type
        (if type = HALT then s\<lparr>cpu_halt_mask := insert cpu (cpu_halt_mask s)\<rparr>
         else s\<lparr>cpu_partial_halt_mask := insert cpu (cpu_partial_halt_mask s)\<rparr>))"

definition halt_cpus ::
  "cpumask \<Rightarrow> pause_type \<Rightarrow> 'z halt_state_scheme \<Rightarrow> int \<times> 'z halt_state_scheme" where
  "halt_cpus cpus type s =
     (let (ret, s1) = halt_cpus_loop (for_each_cpu (nr_cpu_ids s) cpus) type s
      in if ret < 0 then (ret, s1)
         else let s2 = restrict_cpus_and_freq cpus s1
              in (ret, if type = HALT
                       then s2\<lparr>cpus_to_drain := cpus_to_drain s2 \<union> cpus,
                               drain_wakeups := Suc (drain_wakeups s2)\<rparr>
                       else s2))"

definition walt_smp_call_newidle_balance ::
  "nat \<Rightarrow> 'z halt_state_scheme \<Rightarrow> 'z halt_state_scheme" where
  "walt_smp_call_newidle_balance cpu s =
     (if walt_disabled s then s else s\<lparr>newidle_kicks := newidle_kicks s @ [cpu]\<rparr>)"

definition start_one_cpu ::
  "pause_type \<Rightarrow> nat \<Rightarrow> 'z halt_state_scheme \<Rightarrow> 'z halt_state_scheme" where
  "start_one_cpu type cpu s =
     walt_smp_call_newidle_balance cpu
       (if type = HALT then s\<lparr>cpu_halt_mask := cpu_halt_mask s - {cpu}\<rparr>
        else s\<lparr>cpu_partial_halt_mask := cpu_partial_halt_mask s - {cpu}\<rparr>)"

definition start_cpus ::
  "cpumask \<Rightarrow> pause_type \<Rightarrow> 'z halt_state_scheme \<Rightarrow> int \<times> 'z halt_state_scheme" where
  "start_cpus cpus type s =
     (0, restrict_cpus_and_freq cpus
           (fold (start_one_cpu type) (for_each_cpu (nr_cpu_ids s) cpus) s))"

definition update_client ::
  "bool \<Rightarrow> 8 word \<Rightarrow> pause_type \<Rightarrow> nat \<Rightarrow> 'z halt_state_scheme \<Rightarrow> 'z halt_state_scheme" where
  "update_client halt client type cpu s =
     (let v = client_vote_mask s cpu type
      in s\<lparr>client_vote_mask := (client_vote_mask s)(cpu :=
            (client_vote_mask s cpu)(type := if halt then v OR client else v AND NOT client))\<rparr>)"

definition update_clients ::
  "cpumask \<Rightarrow> bool \<Rightarrow> 8 word \<Rightarrow> pause_type \<Rightarrow> 'z halt_state_scheme \<Rightarrow> 'z halt_state_scheme" where
  "update_clients cpus halt client type s =
     fold (update_client halt client type) (for_each_cpu (nr_cpu_ids s) cpus) s"

definition update_halt_cpus :: "cpumask \<Rightarrow> pause_type \<Rightarrow> 'z halt_state_scheme \<Rightarrow> cpumask" where
  "update_halt_cpus cpus type s =
     fold (\<lambda>cpu m. if client_vote_mask s cpu type \<noteq> 0 then m - {cpu} else m)
       (for_each_cpu (nr_cpu_ids s) cpus) cpus"

text \<open>
  The voting functions narrow the caller's mask to the CPUs they really change, so they return it
  beside the error code.
\<close>

definition walt_halt_cpus ::
  "cpumask \<Rightarrow> 8 word \<Rightarrow> pause_type \<Rightarrow> 'z halt_state_scheme
     \<Rightarrow> int \<times> cpumask \<times> 'z halt_state_scheme" where
  "walt_halt_cpus requested_cpus client type s =
     (let cpus = update_halt_cpus requested_cpus type s
      in if cpumask_empty (nr_cpu_ids s) cpus
         then (0, cpus, update_clients requested_cpus True client type s)
         else let (ret, s1) = halt_cpus cpus type s
              in if ret < 0 then (ret, cpus, s1)
                 else (ret, cpus, update_clients requested_cpus True client type s1))"

definition walt_start_cpus ::
  "cpumask \<Rightarrow> 8 word \<Rightarrow> pause_type \<Rightarrow> 'z halt_state_scheme
     \<Rightarrow> int \<times> cpumask \<times> 'z halt_state_scheme" where
  "walt_start_cpus requested_cpus client type s =
     (let s1 = update_clients requested_cpus False client type s;
          cpus = update_halt_cpus requested_cpus type s1;
          (ret, s2) = start_cpus cpus type s1
      in if ret < 0 then (ret, cpus, update_clients requested_cpus True client type s2)
         else (ret, cpus, s2))"

definition walt_pause_cpus ::
  "cpumask \<Rightarrow> 8 word \<Rightarrow> 'z halt_state_scheme \<Rightarrow> int \<times> cpumask \<times> 'z halt_state_scheme" where
  "walt_pause_cpus cpus client s =
     (if walt_disabled s then (- EAGAIN, cpus, s) else walt_halt_cpus cpus client HALT s)"

definition walt_partial_pause_cpus ::
  "cpumask \<Rightarrow> 8 word \<Rightarrow> 'z halt_state_scheme \<Rightarrow> int \<times> cpumask \<times> 'z halt_state_scheme" where
  "walt_partial_pause_cpus cpus client s =
     (if walt_disabled s then (- EAGAIN, cpus, s) else walt_halt_cpus cpus client PARTIAL_HALT s)"

definition walt_resume_cpus ::
  "cpumask \<Rightarrow> 8 word \<Rightarrow> 'z halt_state_scheme \<Rightarrow> int \<times> cpumask \<times> 'z halt_state_scheme" where
  "walt_resume_cpus cpus client s =
     (if walt_disabled s then (- EAGAIN, cpus, s) else walt_start_cpus cpus client HALT s)"

definition walt_partial_resume_cpus ::
  "cpumask \<Rightarrow> 8 word \<Rightarrow> 'z halt_state_scheme \<Rightarrow> int \<times> cpumask \<times> 'z halt_state_scheme" where
  "walt_partial_resume_cpus cpus client s =
     (if walt_disabled s then (- EAGAIN, cpus, s) else walt_start_cpus cpus client PARTIAL_HALT s)"

definition cpus_halted_by_client :: "cpumask \<Rightarrow> 8 word \<Rightarrow> 'z halt_state_scheme \<Rightarrow> bool" where
  "cpus_halted_by_client cpus client s =
     list_ex (\<lambda>cpu. client_vote_mask s cpu HALT AND client \<noteq> 0)
       (for_each_cpu (nr_cpu_ids s) cpus)"

section \<open>Scheduler hooks\<close>

text \<open>What the hooks read of a task.\<close>

record halt_task =
  p_kthread :: bool
  p_compat :: bool
  p_in_execve :: bool
  p_migration_disabled :: bool
  p_cpus_ptr :: cpumask

definition android_rvh_is_cpu_allowed ::
  "halt_task \<Rightarrow> nat \<Rightarrow> bool \<Rightarrow> 'z halt_state_scheme \<Rightarrow> bool" where
  "android_rvh_is_cpu_allowed p cpu allowed s =
     (if walt_disabled s then allowed
      else if cpu \<in> cpu_halt_mask s then
        (if p_compat p \<and> p_in_execve p then True
         else let cpus_allowed = (cpu_active_mask s \<inter> p_cpus_ptr p) - cpu_halt_mask s
              in if \<not> p_kthread p then cpumask_empty (nr_cpu_ids s) cpus_allowed
                 else cpumask_empty (nr_cpu_ids s) (cpus_allowed - cpu_dying_mask s))
      else allowed)"

text \<open>
  \<open>any_and_distribute\<close> stands for \<^verbatim>\<open>cpumask_any_and_distribute\<close>, which picks some CPU of
  the intersection of two masks.
\<close>

definition android_rvh_set_cpus_allowed_by_task ::
  "(cpumask \<Rightarrow> cpumask \<Rightarrow> nat) \<Rightarrow> cpumask \<Rightarrow> cpumask \<Rightarrow> halt_task \<Rightarrow> nat
     \<Rightarrow> 'z halt_state_scheme \<Rightarrow> nat" where
  "android_rvh_set_cpus_allowed_by_task any_and_distribute cpu_valid_mask new_mask p dest_cpu s =
     (if walt_disabled s then dest_cpu
      else if p_kthread p then dest_cpu
      else if cpu_halted s dest_cpu \<and> \<not> p_migration_disabled p then
        (if p_compat p \<and> p_in_execve p then dest_cpu
         else let allowed_cpus = (cpu_valid_mask - cpu_halt_mask s) \<inter> new_mask
              in if cpumask_empty (nr_cpu_ids s) allowed_cpus then dest_cpu
                 else any_and_distribute allowed_cpus new_mask)
      else dest_cpu)"

definition cpumask_next :: "nat \<Rightarrow> int \<Rightarrow> cpumask \<Rightarrow> nat" where
  "cpumask_next n cpu m = cpumask_first n {c \<in> m. cpu < int c}"

definition android_rvh_rto_next_cpu ::
  "int \<Rightarrow> cpumask \<Rightarrow> nat \<Rightarrow> 'z halt_state_scheme \<Rightarrow> nat" where
  "android_rvh_rto_next_cpu rto_cpu rto_mask cpu s =
     (if walt_disabled s then cpu
      else if cpu_halted s cpu
      then cpumask_next (nr_cpu_ids s) rto_cpu (rto_mask - cpu_halt_mask s)
      else cpu)"

text \<open>
  \<^verbatim>\<open>android_rvh_get_nohz_timer_target\<close>. The CPUs that do timer housekeeping, the idle
  CPUs and the spans of the scheduling domains of a CPU are parameters.
\<close>

fun pick_paused :: "nat \<Rightarrow> cpumask \<Rightarrow> nat \<Rightarrow> nat list \<Rightarrow> nat option" where
  "pick_paused n tmp cpu [] = None"
| "pick_paused n tmp cpu (i # is) =
     (if cpu = i \<and> 1 < cpumask_weight n tmp then pick_paused n tmp cpu is else Some i)"

definition android_rvh_get_nohz_timer_target ::
  "cpumask \<Rightarrow> (nat \<Rightarrow> bool) \<Rightarrow> (nat \<Rightarrow> cpumask list) \<Rightarrow> nat \<Rightarrow> 'z halt_state_scheme \<Rightarrow> nat" where
  "android_rvh_get_nohz_timer_target hk_timer available_idle_cpu domain_spans cpu s =
     (let n = nr_cpu_ids s;
          active_unhalted = cpu_active_mask s - cpu_halt_mask s;
          cpu_ok = (cpu \<in> hk_timer \<and> \<not> cpu_halted s cpu)
      in if cpu_ok \<and> \<not> available_idle_cpu cpu then cpu
         else
           let default_cpu = (if cpu_ok then Some cpu else None);
               tmp_part_pause = cpu_active_mask s \<inter> cpus_part_paused_by_us s;
               tmp_pause = cpu_active_mask s \<inter> cpus_paused_by_us s;
               tmp_halt = cpu_active_mask s \<inter> cpu_halt_mask s;
               tmp = (if cpumask_weight n tmp_part_pause \<noteq> 0 then tmp_part_pause
                      else if cpumask_weight n tmp_pause \<noteq> 0 then tmp_pause else tmp_halt);
               paused = (if cpumask_weight n active_unhalted = 0
                         then pick_paused n tmp cpu (for_each_cpu n tmp) else None)
           in case paused of
                Some i \<Rightarrow> i
              | None \<Rightarrow>
                  (case find (\<lambda>i. cpu \<noteq> i \<and> \<not> available_idle_cpu i \<and> \<not> cpu_halted s i)
                          (concat (map (\<lambda>span. for_each_cpu n (span \<inter> hk_timer)) (domain_spans cpu))) of
                     Some i \<Rightarrow> i
                   | None \<Rightarrow>
                       (case default_cpu of
                          Some d \<Rightarrow> d
                        | None \<Rightarrow>
                            (case find (\<lambda>i. cpu \<noteq> i \<and> \<not> available_idle_cpu i)
                                    (for_each_cpu n (active_unhalted \<inter> hk_timer)) of
                               Some i \<Rightarrow> i
                             | None \<Rightarrow>
                                 (let d = cpumask_first n active_unhalted
                                  in if n \<le> d then cpu else d)))))"

section \<open>The drain thread\<close>

text \<open>
  \<^verbatim>\<open>try_drain_rqs\<close>, cut where it takes or releases \<^verbatim>\<open>walt_drain_pending_lock\<close>
  and where it changes its task state. \<open>Drain_check\<close> is the head of the loop,
  \<open>Drain_visit local cs\<close> the loop over the copied mask with \<open>cs\<close> still to visit,
  \<open>Drain_unlocked\<close> the point after the last unlock, \<open>Drain_intr\<close> the point after
  \<^verbatim>\<open>set_current_state(TASK_INTERRUPTIBLE)\<close> and \<open>Drain_asleep\<close> inside
  \<^verbatim>\<open>schedule\<close>.
\<close>

datatype drain_pc =
    Drain_check
  | Drain_visit cpumask "nat list"
  | Drain_unlocked
  | Drain_intr
  | Drain_asleep

text \<open>\<open>drained\<close> records the calls of \<^verbatim>\<open>cpu_drain_rq\<close>.\<close>

record halt_sys =
  halt_of :: halt_state
  drain_pc_of :: drain_pc
  drained :: "nat list"

text \<open>
  \<^verbatim>\<open>wake_up_process\<close> makes an interruptible thread runnable and does nothing to a thread
  that is running. A thread made runnable before it calls \<^verbatim>\<open>schedule\<close> returns from it.
\<close>

definition wake_drain_thread :: "drain_pc \<Rightarrow> drain_pc" where
  "wake_drain_thread pc = (if pc = Drain_intr \<or> pc = Drain_asleep then Drain_check else pc)"

definition drain_step :: "halt_sys \<Rightarrow> halt_sys" where
  "drain_step w =
     (case drain_pc_of w of
        Drain_check \<Rightarrow>
          (let cpus = cpus_to_drain (halt_of w)
           in if cpumask_weight (nr_cpu_ids (halt_of w)) cpus \<noteq> 0
              then w\<lparr>drain_pc_of := Drain_visit cpus (for_each_cpu (nr_cpu_ids (halt_of w)) cpus)\<rparr>
              else w\<lparr>drain_pc_of := Drain_unlocked\<rparr>)
      | Drain_visit local (c # cs) \<Rightarrow>
          w\<lparr>drain_pc_of := Drain_visit local cs, drained := drained w @ [c]\<rparr>
      | Drain_visit local [] \<Rightarrow>
          w\<lparr>halt_of := (halt_of w)\<lparr>cpus_to_drain := cpus_to_drain (halt_of w) - local\<rparr>,
            drain_pc_of := Drain_unlocked\<rparr>
      | Drain_unlocked \<Rightarrow> w\<lparr>drain_pc_of := Drain_intr\<rparr>
      | Drain_intr \<Rightarrow> w\<lparr>drain_pc_of := Drain_asleep\<rparr>
      | Drain_asleep \<Rightarrow> w)"

definition pause_step :: "cpumask \<Rightarrow> 8 word \<Rightarrow> halt_sys \<Rightarrow> halt_sys" where
  "pause_step cpus client w =
     (let (ret, cpus', h) = walt_pause_cpus cpus client (halt_of w)
      in w\<lparr>halt_of := h,
           drain_pc_of := (if drain_wakeups h \<noteq> drain_wakeups (halt_of w)
                           then wake_drain_thread (drain_pc_of w) else drain_pc_of w)\<rparr>)"

definition resume_step :: "cpumask \<Rightarrow> 8 word \<Rightarrow> halt_sys \<Rightarrow> halt_sys" where
  "resume_step cpus client w =
     (let (ret, cpus', h) = walt_resume_cpus cpus client (halt_of w) in w\<lparr>halt_of := h\<rparr>)"

inductive halt_step :: "halt_sys \<Rightarrow> halt_sys \<Rightarrow> bool" where
  step_pause: "halt_step w (pause_step cpus client w)"
| step_resume: "halt_step w (resume_step cpus client w)"
| step_drain: "halt_step w (drain_step w)"

section \<open>What the voting operations do\<close>

definition halt_mask_of :: "pause_type \<Rightarrow> 'z halt_state_scheme \<Rightarrow> cpumask" where
  "halt_mask_of type s = (case type of HALT \<Rightarrow> cpu_halt_mask s | PARTIAL_HALT \<Rightarrow> cpu_partial_halt_mask s)"

definition first_32bit_cpu :: "'z halt_state_scheme \<Rightarrow> nat" where
  "first_32bit_cpu s = cpumask_first (nr_cpu_ids s) (system_32bit_el0_cpumask s)"

named_theorems halt_frame

lemma restrict_cpus_and_freq_frame:
  assumes "\<And>f s. g (sched_cluster_update f s) = g s"
    and "\<And>f s. g (cpu_capacity_orig_update f s) = g s"
    and "\<And>f s. g (freq_cap_update f s) = g s"
  shows "g (restrict_cpus_and_freq cpus s) = g s"
  unfolding restrict_cpus_and_freq_def Let_def
  by (subst update_smart_freq_capacities_frame [of g])
    (auto simp: assms set_partial_halt_cap_def intro!: fold_field)

lemma restrict_fields [halt_frame]:
  fixes s :: "'z halt_state_scheme"
  shows "client_vote_mask (restrict_cpus_and_freq cpus s) = client_vote_mask s"
    and "cpus_to_drain (restrict_cpus_and_freq cpus s) = cpus_to_drain s"
    and "drain_wakeups (restrict_cpus_and_freq cpus s) = drain_wakeups s"
    and "system_32bit_el0_cpumask (restrict_cpus_and_freq cpus s) = system_32bit_el0_cpumask s"
    and "cpu_halt_mask (restrict_cpus_and_freq cpus s) = cpu_halt_mask s"
    and "cpu_partial_halt_mask (restrict_cpus_and_freq cpus s) = cpu_partial_halt_mask s"
    and "nr_cpu_ids (restrict_cpus_and_freq cpus s) = nr_cpu_ids s"
    and "walt_disabled (restrict_cpus_and_freq cpus s) = walt_disabled s"
  by (rule restrict_cpus_and_freq_frame; simp)+

lemma halt_cpus_loop_ret:
  "fst (halt_cpus_loop cs type s) = (if first_32bit_cpu s \<in> set cs then - EINVAL else 0)"
  by (induction cs type s rule: halt_cpus_loop.induct) (auto simp: first_32bit_cpu_def)

lemma halt_cpus_loop_mask:
  "halt_mask_of t (snd (halt_cpus_loop cs type s)) =
     halt_mask_of t s \<union> (if t = type then set (takeWhile (\<lambda>c. c \<noteq> first_32bit_cpu s) cs) else {})"
proof (induction cs type s rule: halt_cpus_loop.induct)
  case (2 cpu cpus type s)
  then show ?case
    by (cases t; cases type) (auto simp: first_32bit_cpu_def halt_mask_of_def)
qed simp

lemma halted_prefix:
  "set (takeWhile (\<lambda>c. c \<noteq> f) (for_each_cpu n m)) = {c \<in> m. c < n \<and> (f \<in> m \<and> f < n \<longrightarrow> c < f)}"
proof (cases "f \<in> m \<and> f < n")
  case True
  then show ?thesis
    using takeWhile_below [of "for_each_cpu n m" f] by auto
next
  case False
  then have "takeWhile (\<lambda>c. c \<noteq> f) (for_each_cpu n m) = for_each_cpu n m"
    by (intro takeWhile_all) auto
  then show ?thesis
    using False by (simp only: set_for_each_cpu simp_thms)
qed

lemma halt_cpus_loop_frame:
  assumes "\<And>f s. g (cpu_halt_mask_update f s) = g s"
    and "\<And>f s. g (cpu_partial_halt_mask_update f s) = g s"
  shows "g (snd (halt_cpus_loop cs type s)) = g s"
  by (induction cs type s rule: halt_cpus_loop.induct) (auto simp: assms)

lemma halt_cpus_loop_fields [halt_frame]:
  "client_vote_mask (snd (halt_cpus_loop cs type s)) = client_vote_mask s"
  "cpus_to_drain (snd (halt_cpus_loop cs type s)) = cpus_to_drain s"
  "drain_wakeups (snd (halt_cpus_loop cs type s)) = drain_wakeups s"
  "system_32bit_el0_cpumask (snd (halt_cpus_loop cs type s)) = system_32bit_el0_cpumask s"
  "nr_cpu_ids (snd (halt_cpus_loop cs type s)) = nr_cpu_ids s"
  "walt_disabled (snd (halt_cpus_loop cs type s)) = walt_disabled s"
  by (rule halt_cpus_loop_frame; simp)+

lemma start_loop_spec:
  "halt_mask_of t (fold (start_one_cpu type) cs s) =
     halt_mask_of t s - (if t = type then set cs else {})"
  by (induction cs arbitrary: s; cases t; cases type)
    (auto simp: start_one_cpu_def walt_smp_call_newidle_balance_def halt_mask_of_def)

lemma start_loop_frame:
  assumes "\<And>f s. g (cpu_halt_mask_update f s) = g s"
    and "\<And>f s. g (cpu_partial_halt_mask_update f s) = g s"
    and "\<And>f s. g (newidle_kicks_update f s) = g s"
  shows "g (fold (start_one_cpu type) cs s) = g s"
  by (rule fold_field) (simp add: start_one_cpu_def walt_smp_call_newidle_balance_def assms)

lemma start_loop_fields [halt_frame]:
  "client_vote_mask (fold (start_one_cpu type) cs s) = client_vote_mask s"
  "cpus_to_drain (fold (start_one_cpu type) cs s) = cpus_to_drain s"
  "drain_wakeups (fold (start_one_cpu type) cs s) = drain_wakeups s"
  "system_32bit_el0_cpumask (fold (start_one_cpu type) cs s) = system_32bit_el0_cpumask s"
  "nr_cpu_ids (fold (start_one_cpu type) cs s) = nr_cpu_ids s"
  "walt_disabled (fold (start_one_cpu type) cs s) = walt_disabled s"
  by (rule start_loop_frame; simp)+

lemma update_clients_votes:
  "client_vote_mask (update_clients cpus halt client type s) c t =
     (if c \<in> cpus \<and> c < nr_cpu_ids s \<and> t = type
      then if halt then client_vote_mask s c t OR client else client_vote_mask s c t AND NOT client
      else client_vote_mask s c t)"
proof -
  have "distinct cs \<Longrightarrow> client_vote_mask (fold (update_client halt client type) cs s) c t =
     (if c \<in> set cs \<and> t = type
      then if halt then client_vote_mask s c t OR client else client_vote_mask s c t AND NOT client
      else client_vote_mask s c t)" for cs
    by (induction cs arbitrary: s) (auto simp: update_client_def Let_def)
  then show ?thesis
    by (auto simp: update_clients_def)
qed

lemma update_clients_frame:
  assumes "\<And>f s. g (client_vote_mask_update f s) = g s"
  shows "g (update_clients cpus halt client type s) = g s"
  unfolding update_clients_def by (rule fold_field) (simp add: update_client_def Let_def assms)

lemma update_clients_fields [halt_frame]:
  "cpu_halt_mask (update_clients cpus halt client type s) = cpu_halt_mask s"
  "cpu_partial_halt_mask (update_clients cpus halt client type s) = cpu_partial_halt_mask s"
  "cpus_to_drain (update_clients cpus halt client type s) = cpus_to_drain s"
  "drain_wakeups (update_clients cpus halt client type s) = drain_wakeups s"
  "system_32bit_el0_cpumask (update_clients cpus halt client type s) = system_32bit_el0_cpumask s"
  "nr_cpu_ids (update_clients cpus halt client type s) = nr_cpu_ids s"
  "walt_disabled (update_clients cpus halt client type s) = walt_disabled s"
  by (rule update_clients_frame; simp)+

lemma update_halt_cpus_eq:
  "update_halt_cpus cpus type s = {c \<in> cpus. c < nr_cpu_ids s \<longrightarrow> client_vote_mask s c type = 0}"
proof -
  have "fold (\<lambda>cpu m. if client_vote_mask s cpu type \<noteq> 0 then m - {cpu} else m) cs m =
          m - {c \<in> set cs. client_vote_mask s c type \<noteq> 0}" for cs m
    by (induction cs arbitrary: m) auto
  then show ?thesis
    by (auto simp: update_halt_cpus_def)
qed

text \<open>
  The CPUs a request really changes are those below \<^verbatim>\<open>nr_cpu_ids\<close> nobody has voted for.
\<close>

definition unvoted :: "cpumask \<Rightarrow> pause_type \<Rightarrow> 'z halt_state_scheme \<Rightarrow> cpumask" where
  "unvoted cpus type s = {c \<in> cpus. c < nr_cpu_ids s \<and> client_vote_mask s c type = 0}"

lemma empty_update_halt_cpus:
  "cpumask_empty (nr_cpu_ids s) (update_halt_cpus cpus type s) \<longleftrightarrow> unvoted cpus type s = {}"
  by (auto simp: cpumask_empty_iff update_halt_cpus_eq unvoted_def)

lemma halt_mask_of_frame:
  "halt_mask_of t (restrict_cpus_and_freq cpus s) = halt_mask_of t s"
  "halt_mask_of t (update_clients cpus halt client type s) = halt_mask_of t s"
  "halt_mask_of t (s\<lparr>cpus_to_drain := x, drain_wakeups := y\<rparr>) = halt_mask_of t s"
  by (simp_all add: halt_mask_of_def halt_frame split: pause_type.splits)

lemma halt_cpus_result:
  assumes "halt_cpus cpus type s = (ret, s')"
  shows "ret = (if first_32bit_cpu s \<in> cpus \<and> first_32bit_cpu s < nr_cpu_ids s then - EINVAL else 0)"
    and "halt_mask_of t s' = halt_mask_of t s \<union>
           (if t = type then {c \<in> cpus. c < nr_cpu_ids s \<and> (ret < 0 \<longrightarrow> c < first_32bit_cpu s)} else {})"
    and "client_vote_mask s' = client_vote_mask s" and "nr_cpu_ids s' = nr_cpu_ids s"
    and "system_32bit_el0_cpumask s' = system_32bit_el0_cpumask s"
    and "walt_disabled s' = walt_disabled s"
    and "cpus_to_drain s' =
           (if type = HALT \<and> ret = 0 then cpus_to_drain s \<union> cpus else cpus_to_drain s)"
    and "drain_wakeups s' =
           (if type = HALT \<and> ret = 0 then Suc (drain_wakeups s) else drain_wakeups s)"
proof -
  let ?cs = "for_each_cpu (nr_cpu_ids s) cpus"
  obtain r s1 where loop: "halt_cpus_loop ?cs type s = (r, s1)"
    by fastforce
  have ret: "r = (if first_32bit_cpu s \<in> cpus \<and> first_32bit_cpu s < nr_cpu_ids s then - EINVAL else 0)"
    using halt_cpus_loop_ret [of ?cs type s] loop by simp
  have mask: "halt_mask_of t s1 = halt_mask_of t s \<union> (if t = type then
      {c \<in> cpus. c < nr_cpu_ids s \<and>
         (first_32bit_cpu s \<in> cpus \<and> first_32bit_cpu s < nr_cpu_ids s \<longrightarrow> c < first_32bit_cpu s)}
      else {})" for t
    using halt_cpus_loop_mask [of t ?cs type s] loop by (simp only: snd_conv halted_prefix)
  have fields: "client_vote_mask s1 = client_vote_mask s" "cpus_to_drain s1 = cpus_to_drain s"
    "drain_wakeups s1 = drain_wakeups s" "nr_cpu_ids s1 = nr_cpu_ids s"
    "system_32bit_el0_cpumask s1 = system_32bit_el0_cpumask s" "walt_disabled s1 = walt_disabled s"
    using halt_cpus_loop_fields [of ?cs type s] loop by simp_all
  have s': "ret = r" "s' = (if r < 0 then s1 else if type = HALT
      then (restrict_cpus_and_freq cpus s1)\<lparr>cpus_to_drain := cpus_to_drain s1 \<union> cpus,
             drain_wakeups := Suc (drain_wakeups s1)\<rparr>
      else restrict_cpus_and_freq cpus s1)"
    using assms by (simp_all add: halt_cpus_def loop Let_def halt_frame split: if_splits)
  show "ret = (if first_32bit_cpu s \<in> cpus \<and> first_32bit_cpu s < nr_cpu_ids s then - EINVAL else 0)"
    by (simp only: s' ret)
  have neg: "ret < 0 \<longleftrightarrow> first_32bit_cpu s \<in> cpus \<and> first_32bit_cpu s < nr_cpu_ids s"
    by (simp add: s'(1) ret)
  have "halt_mask_of t s' = halt_mask_of t s1"
    by (simp add: s' halt_mask_of_frame)
  then show "halt_mask_of t s' = halt_mask_of t s \<union>
           (if t = type then {c \<in> cpus. c < nr_cpu_ids s \<and> (ret < 0 \<longrightarrow> c < first_32bit_cpu s)} else {})"
    by (simp only: mask neg)
  show "client_vote_mask s' = client_vote_mask s" "nr_cpu_ids s' = nr_cpu_ids s"
    "system_32bit_el0_cpumask s' = system_32bit_el0_cpumask s" "walt_disabled s' = walt_disabled s"
    by (simp_all add: s' fields halt_frame)
  show "cpus_to_drain s' =
      (if type = HALT \<and> ret = 0 then cpus_to_drain s \<union> cpus else cpus_to_drain s)"
    "drain_wakeups s' =
      (if type = HALT \<and> ret = 0 then Suc (drain_wakeups s) else drain_wakeups s)"
    by (simp_all add: s' fields halt_frame ret)
qed

lemma walt_halt_cpus_result:
  assumes "walt_halt_cpus cpus client type s = (ret, cpus', s')"
  shows "ret = (if first_32bit_cpu s \<in> unvoted cpus type s then - EINVAL else 0)"
    and "halt_mask_of t s' = halt_mask_of t s \<union>
           (if t = type then {c \<in> unvoted cpus type s. ret < 0 \<longrightarrow> c < first_32bit_cpu s} else {})"
    and "client_vote_mask s' c t =
           (if 0 \<le> ret \<and> c \<in> cpus \<and> c < nr_cpu_ids s \<and> t = type
            then client_vote_mask s c t OR client else client_vote_mask s c t)"
    and "nr_cpu_ids s' = nr_cpu_ids s" and "first_32bit_cpu s' = first_32bit_cpu s"
    and "walt_disabled s' = walt_disabled s"
proof -
  let ?m = "update_halt_cpus cpus type s"
  have m: "{c \<in> ?m. c < nr_cpu_ids s} = unvoted cpus type s"
    by (auto simp: update_halt_cpus_eq unvoted_def)
  have in_m: "c \<in> ?m \<and> c < nr_cpu_ids s \<longleftrightarrow> c \<in> unvoted cpus type s" for c
    using m by blast
  obtain r s1 where h: "halt_cpus ?m type s = (r, s1)"
    by fastforce
  note r = halt_cpus_result [OF h]
  have mask1: "halt_mask_of t s1 = halt_mask_of t s \<union>
      (if t = type then {c \<in> unvoted cpus type s. r < 0 \<longrightarrow> c < first_32bit_cpu s} else {})" for t
    using r(2) [of t] by (simp only: conj_assoc [symmetric] in_m)
  have cases: "unvoted cpus type s = {} \<and> ret = 0 \<and> s' = update_clients cpus True client type s
    \<or> unvoted cpus type s \<noteq> {} \<and> ret = r \<and>
        s' = (if r < 0 then s1 else update_clients cpus True client type s1)"
    using assms by (auto simp: walt_halt_cpus_def Let_def empty_update_halt_cpus h split: if_splits)
  have fields: "first_32bit_cpu s1 = first_32bit_cpu s"
    by (simp add: first_32bit_cpu_def r)
  show "ret = (if first_32bit_cpu s \<in> unvoted cpus type s then - EINVAL else 0)"
    using cases r(1) in_m [of "first_32bit_cpu s"] by auto
  show "halt_mask_of t s' = halt_mask_of t s \<union>
      (if t = type then {c \<in> unvoted cpus type s. ret < 0 \<longrightarrow> c < first_32bit_cpu s} else {})"
    using cases mask1 [of t]
    by (elim disjE conjE; cases "r < 0"; cases "t = type") (simp_all add: halt_mask_of_frame)
  show "client_vote_mask s' c t =
      (if 0 \<le> ret \<and> c \<in> cpus \<and> c < nr_cpu_ids s \<and> t = type
       then client_vote_mask s c t OR client else client_vote_mask s c t)"
    using cases by (elim disjE conjE) (simp_all add: update_clients_votes r)
  show "nr_cpu_ids s' = nr_cpu_ids s" "first_32bit_cpu s' = first_32bit_cpu s"
    "walt_disabled s' = walt_disabled s"
    using cases fields by (auto simp: halt_frame first_32bit_cpu_def r split: if_splits)
qed

lemma walt_start_cpus_result:
  assumes "walt_start_cpus cpus client type s = (ret, cpus', s')"
  shows "ret = 0"
    and "client_vote_mask s' c t =
           (if c \<in> cpus \<and> c < nr_cpu_ids s \<and> t = type
            then client_vote_mask s c t AND NOT client else client_vote_mask s c t)"
    and "halt_mask_of t s' = halt_mask_of t s -
           (if t = type then {c \<in> cpus. c < nr_cpu_ids s \<and> client_vote_mask s c t AND NOT client = 0}
            else {})"
    and "nr_cpu_ids s' = nr_cpu_ids s" and "first_32bit_cpu s' = first_32bit_cpu s"
    and "walt_disabled s' = walt_disabled s" and "cpus_to_drain s' = cpus_to_drain s"
proof -
  let ?s1 = "update_clients cpus False client type s"
  let ?m = "update_halt_cpus cpus type ?s1"
  have ret: "ret = 0" and s': "s' = restrict_cpus_and_freq ?m
      (fold (start_one_cpu type) (for_each_cpu (nr_cpu_ids s) ?m) ?s1)"
    using assms by (auto simp: walt_start_cpus_def start_cpus_def Let_def halt_frame)
  show "ret = 0"
    by (rule ret)
  show "client_vote_mask s' c t =
      (if c \<in> cpus \<and> c < nr_cpu_ids s \<and> t = type
       then client_vote_mask s c t AND NOT client else client_vote_mask s c t)"
    by (simp add: s' halt_frame update_clients_votes)
  have "{c \<in> ?m. c < nr_cpu_ids s} =
      {c \<in> cpus. c < nr_cpu_ids s \<and> client_vote_mask s c type AND NOT client = 0}"
    by (auto simp: update_halt_cpus_eq halt_frame update_clients_votes)
  then show "halt_mask_of t s' = halt_mask_of t s -
      (if t = type then {c \<in> cpus. c < nr_cpu_ids s \<and> client_vote_mask s c t AND NOT client = 0}
       else {})"
    by (simp add: s' halt_mask_of_frame start_loop_spec)
  show "nr_cpu_ids s' = nr_cpu_ids s" "first_32bit_cpu s' = first_32bit_cpu s"
    "walt_disabled s' = walt_disabled s" "cpus_to_drain s' = cpus_to_drain s"
    by (simp_all add: s' halt_frame first_32bit_cpu_def)
qed

section \<open>The invariant of the votes\<close>

text \<open>
  A CPU somebody votes for is halted, and the first CPU that runs 32-bit tasks is never halted.
  \<open>halt_exact\<close> is the converse as well: only CPUs with a vote are halted.
\<close>

definition halt_inv :: "'z halt_state_scheme \<Rightarrow> bool" where
  "halt_inv s \<longleftrightarrow>
     (\<forall>c t. c < nr_cpu_ids s \<longrightarrow> client_vote_mask s c t \<noteq> 0 \<longrightarrow> c \<in> halt_mask_of t s)
     \<and> (\<forall>t. first_32bit_cpu s < nr_cpu_ids s \<longrightarrow> first_32bit_cpu s \<notin> halt_mask_of t s)"

definition halt_exact :: "'z halt_state_scheme \<Rightarrow> bool" where
  "halt_exact s \<longleftrightarrow>
     (\<forall>c t. c < nr_cpu_ids s \<longrightarrow> (c \<in> halt_mask_of t s \<longleftrightarrow> client_vote_mask s c t \<noteq> 0))"

lemma or_nonzero: "(v :: 8 word) OR w = 0 \<longleftrightarrow> v = 0 \<and> w = 0"
  by (auto simp: bit_eq_iff bit_or_iff)

lemma or_and_absorb: "((v :: 8 word) OR w) AND w = w"
  by (auto simp: bit_eq_iff bit_or_iff bit_and_iff)

lemma and_nonzero: "(v :: 8 word) AND w \<noteq> 0 \<Longrightarrow> v \<noteq> 0"
  by auto

lemma walt_halt_cpus_inv:
  assumes "walt_halt_cpus cpus client type s = (ret, cpus', s')" and "halt_inv s"
  shows "halt_inv s'"
  using assms(2) unfolding halt_inv_def walt_halt_cpus_result(2-5) [OF assms(1)]
  by (auto simp: walt_halt_cpus_result(1) [OF assms(1)] unvoted_def split: if_splits)

lemma walt_start_cpus_inv:
  assumes "walt_start_cpus cpus client type s = (ret, cpus', s')" and "halt_inv s"
  shows "halt_inv s'"
  using assms(2) unfolding halt_inv_def walt_start_cpus_result(2-5) [OF assms(1)]
  by (auto split: if_splits dest: and_nonzero)

lemma walt_halt_cpus_exact:
  assumes "walt_halt_cpus cpus client type s = (ret, cpus', s')" and "0 \<le> ret"
    and "client \<noteq> 0" and "halt_exact s"
  shows "halt_exact s'"
  using assms(2-4) unfolding halt_exact_def walt_halt_cpus_result(2-4) [OF assms(1)]
  by (auto simp: unvoted_def or_nonzero)

lemma walt_start_cpus_exact:
  assumes "walt_start_cpus cpus client type s = (ret, cpus', s')" and "halt_exact s"
  shows "halt_exact s'"
  using assms(2) unfolding halt_exact_def walt_start_cpus_result(2-4) [OF assms(1)]
  by auto

datatype halt_op =
    Op_pause cpumask "8 word"
  | Op_partial_pause cpumask "8 word"
  | Op_resume cpumask "8 word"
  | Op_partial_resume cpumask "8 word"

fun halt_op_run :: "halt_op \<Rightarrow> 'z halt_state_scheme \<Rightarrow> int \<times> cpumask \<times> 'z halt_state_scheme" where
  "halt_op_run (Op_pause m c) s = walt_pause_cpus m c s"
| "halt_op_run (Op_partial_pause m c) s = walt_partial_pause_cpus m c s"
| "halt_op_run (Op_resume m c) s = walt_resume_cpus m c s"
| "halt_op_run (Op_partial_resume m c) s = walt_partial_resume_cpus m c s"

definition halt_op_exec :: "halt_op \<Rightarrow> 'z halt_state_scheme \<Rightarrow> 'z halt_state_scheme" where
  "halt_op_exec op s = snd (snd (halt_op_run op s))"

lemmas halt_entry_defs =
  walt_pause_cpus_def walt_partial_pause_cpus_def walt_resume_cpus_def walt_partial_resume_cpus_def

lemma halt_op_exec_inv:
  assumes "halt_inv s"
  shows "halt_inv (halt_op_exec op s)"
proof -
  obtain ret m s' where run: "halt_op_run op s = (ret, m, s')"
    by (cases "halt_op_run op s")
  then show ?thesis
    using assms
    by (cases op)
      (auto simp: halt_op_exec_def halt_entry_defs split: if_splits
        dest: walt_halt_cpus_inv walt_start_cpus_inv)
qed

lemma walt_halt_cpus_drain:
  assumes "walt_halt_cpus cpus client type s = (ret, cpus', s')"
  shows "cpus' = update_halt_cpus cpus type s"
    and "cpus_to_drain s' =
           (if type = HALT \<and> ret = 0 \<and> unvoted cpus type s \<noteq> {} then cpus_to_drain s \<union> cpus'
            else cpus_to_drain s)"
    and "drain_wakeups s' =
           (if type = HALT \<and> ret = 0 \<and> unvoted cpus type s \<noteq> {} then Suc (drain_wakeups s)
            else drain_wakeups s)"
proof -
  let ?m = "update_halt_cpus cpus type s"
  obtain r s1 where h: "halt_cpus ?m type s = (r, s1)"
    by fastforce
  have m: "cpus' = ?m" and cases: "unvoted cpus type s = {} \<and> ret = 0
      \<and> s' = update_clients cpus True client type s
    \<or> unvoted cpus type s \<noteq> {} \<and> ret = r \<and>
        s' = (if r < 0 then s1 else update_clients cpus True client type s1)"
    using assms by (auto simp: walt_halt_cpus_def Let_def empty_update_halt_cpus h split: if_splits)
  show "cpus' = ?m"
    by (rule m)
  have r: "r < 0 \<longleftrightarrow> r \<noteq> 0"
    using halt_cpus_result(1) [OF h] by simp
  show "cpus_to_drain s' =
      (if type = HALT \<and> ret = 0 \<and> unvoted cpus type s \<noteq> {} then cpus_to_drain s \<union> cpus'
       else cpus_to_drain s)"
    "drain_wakeups s' =
      (if type = HALT \<and> ret = 0 \<and> unvoted cpus type s \<noteq> {} then Suc (drain_wakeups s)
       else drain_wakeups s)"
    unfolding m using cases halt_cpus_result(7,8) [OF h]
    by (elim disjE conjE; simp add: halt_frame r)+
qed

section \<open>Properties of the voting\<close>

text \<open>A state for the witnesses: CPU 0 is the first to run 32-bit tasks, nothing is halted.\<close>

definition example_halt :: halt_state where
  "example_halt = walt_globals.extend (example_globals\<lparr>smart_freq_init_done := False\<rparr>)
     \<lparr>client_vote_mask = (\<lambda>_ _. 0), cpus_to_drain = {}, drain_wakeups = 0, newidle_kicks = [],
      system_32bit_el0_cpumask = {0}, cpu_active_mask = {0, 1, 2, 3, 4, 5}, cpu_dying_mask = {}\<rparr>"

lemma cpumask_first_singleton: "c < n \<Longrightarrow> cpumask_first n {c} = c"
proof -
  assume "c < n"
  then have "for_each_cpu n {c} = [c]"
    by (intro sorted_distinct_set_unique) auto
  then show ?thesis
    by (simp add: cpumask_first_def)
qed

lemma example_halt_simps [simp]:
  "nr_cpu_ids example_halt = 6" "walt_disabled example_halt = False"
  "client_vote_mask example_halt = (\<lambda>_ _. 0)" "cpus_to_drain example_halt = {}"
  "cpu_halt_mask example_halt = {}" "cpu_partial_halt_mask example_halt = {}"
  "drain_wakeups example_halt = 0" "cpu_active_mask example_halt = {0, 1, 2, 3, 4, 5}"
  "system_32bit_el0_cpumask example_halt = {0}"
  by (simp_all add: example_halt_def walt_globals.defs example_globals_def)

lemma example_halt_derived [simp]:
  "first_32bit_cpu example_halt = 0" "halt_mask_of t example_halt = {}"
  by (simp_all add: first_32bit_cpu_def cpumask_first_singleton halt_mask_of_def
      split: pause_type.splits)

lemma example_halt_inv: "halt_inv example_halt" "halt_exact example_halt"
  by (simp_all add: halt_inv_def halt_exact_def)

text \<open>
  C4 (invariant). Whatever sequence of pause, partial pause, resume and partial resume requests
  the clients make, a CPU that some client votes for is in the corresponding halt mask, and the
  first CPU able to run 32-bit tasks is in neither mask.
\<close>

theorem halt_votes_invariant:
  assumes "halt_inv s"
  shows "halt_inv (fold halt_op_exec ops s)"
  by (rule fold_invariant [where P = halt_inv]) (simp_all add: assms halt_op_exec_inv)

theorem halt_votes_invariant_witness:
  "halt_inv (fold halt_op_exec
     [Op_pause {1, 2} PAUSE_THERMAL, Op_pause {0} PAUSE_HYP, Op_resume {1} PAUSE_THERMAL] example_halt)"
  by (rule halt_votes_invariant) (rule example_halt_inv)

text \<open>
  C18 (functional). A halt request that succeeds makes exactly the requested CPUs join the halt
  mask of its type, leaves the other type alone, records the client's vote on every requested CPU,
  and keeps the masks equal to the CPUs with a vote.
\<close>

theorem walt_halt_cpus_success:
  assumes "walt_halt_cpus cpus client type s = (ret, cpus', s')" and "0 \<le> ret"
    and "client \<noteq> 0" and "halt_exact s"
  shows "halt_exact s'
    \<and> (\<forall>c < nr_cpu_ids s. \<forall>t. c \<in> halt_mask_of t s' \<longleftrightarrow> c \<in> halt_mask_of t s \<or> c \<in> cpus \<and> t = type)
    \<and> (\<forall>c < nr_cpu_ids s. c \<in> cpus \<longrightarrow> client_vote_mask s' c type AND client = client)"
  using walt_halt_cpus_exact [OF assms] assms(2,4)
  by (auto simp: walt_halt_cpus_result(2,3) [OF assms(1)] unvoted_def halt_exact_def
      or_and_absorb)

theorem walt_halt_cpus_success_witness:
  "case walt_halt_cpus {2, 4} PAUSE_THERMAL HALT example_halt of (ret, cpus', s') \<Rightarrow>
     ret = 0 \<and> halt_exact s' \<and> 2 \<in> halt_mask_of HALT s'"
proof -
  obtain ret cpus' s' where run: "walt_halt_cpus {2, 4} PAUSE_THERMAL HALT example_halt = (ret, cpus', s')"
    by (cases "walt_halt_cpus {2, 4} PAUSE_THERMAL HALT example_halt")
  have "ret = 0"
    using walt_halt_cpus_result(1) [OF run] by (simp add: unvoted_def)
  with walt_halt_cpus_success [OF run] show ?thesis
    by (simp add: run example_halt_inv)
qed

text \<open>
  C21 (error). A halt request that covers the first 32-bit capable CPU fails with -EINVAL and records
  no vote, but the requested CPUs with a smaller number stay in the halt mask: they are halted with
  no client to resume them, so the masks no longer equal the votes as soon as there is one.
\<close>

theorem walt_halt_cpus_error_leaks:
  assumes "walt_halt_cpus cpus client type s = (ret, cpus', s')" and "halt_exact s"
    and "first_32bit_cpu s \<in> unvoted cpus type s"
  shows "ret = - EINVAL \<and> client_vote_mask s' = client_vote_mask s
    \<and> halt_mask_of type s' = halt_mask_of type s \<union> {c \<in> unvoted cpus type s. c < first_32bit_cpu s}
    \<and> (halt_exact s' \<longleftrightarrow> \<not> (\<exists>c \<in> unvoted cpus type s. c < first_32bit_cpu s))"
proof -
  note r = walt_halt_cpus_result [OF assms(1)]
  have ret: "ret = - EINVAL"
    using r(1) assms(3) by simp
  have votes: "client_vote_mask s' = client_vote_mask s"
    by (intro ext) (simp add: r(3) ret)
  have mask: "halt_mask_of t s' = halt_mask_of t s \<union>
      (if t = type then {c \<in> unvoted cpus type s. c < first_32bit_cpu s} else {})" for t
    using r(2) [of t] by (simp add: ret)
  have "halt_exact s' \<longleftrightarrow> \<not> (\<exists>c \<in> unvoted cpus type s. c < first_32bit_cpu s)"
    using assms(2) unfolding halt_exact_def mask votes r(4)
    by (auto simp: unvoted_def split: if_splits)
  with ret votes mask [of type] show ?thesis
    by simp
qed

theorem walt_halt_cpus_error_leaks_witness:
  "let s = example_halt\<lparr>system_32bit_el0_cpumask := {3}\<rparr>
   in case walt_halt_cpus {2, 3} PAUSE_THERMAL HALT s of (ret, cpus', s') \<Rightarrow>
        ret = - EINVAL \<and> 2 \<in> halt_mask_of HALT s' \<and> \<not> halt_exact s'"
proof -
  let ?s = "example_halt\<lparr>system_32bit_el0_cpumask := {3}\<rparr>"
  have first: "first_32bit_cpu ?s = 3"
    by (simp add: first_32bit_cpu_def cpumask_first_singleton)
  have unv: "unvoted {2, 3} HALT ?s = {2, 3}"
    by (auto simp: unvoted_def)
  have exact: "halt_exact ?s"
    by (simp add: halt_exact_def halt_mask_of_def split: pause_type.splits)
  obtain ret cpus' s' where run: "walt_halt_cpus {2, 3} PAUSE_THERMAL HALT ?s = (ret, cpus', s')"
    by (cases "walt_halt_cpus {2, 3} PAUSE_THERMAL HALT ?s")
  have "first_32bit_cpu ?s \<in> unvoted {2, 3} HALT ?s"
    by (simp only: first unv) simp
  from walt_halt_cpus_error_leaks [OF run exact this] show ?thesis
    by (simp add: run first unv Let_def)
qed

text \<open>
  C19 (functional). Resuming CPUs withdraws only the caller's vote: a requested CPU leaves the halt
  mask exactly when no other client votes for it, no other CPU leaves a mask, and the operation
  cannot fail.
\<close>

theorem walt_start_cpus_other_votes:
  assumes "walt_start_cpus cpus client type s = (ret, cpus', s')" and "halt_exact s"
  shows "ret = 0 \<and> halt_exact s'
    \<and> (\<forall>c < nr_cpu_ids s. \<forall>t. c \<in> halt_mask_of t s' \<longleftrightarrow> c \<in> halt_mask_of t s
         \<and> \<not> (t = type \<and> c \<in> cpus \<and> client_vote_mask s c type AND NOT client = 0))"
  using walt_start_cpus_exact [OF assms] walt_start_cpus_result(1) [OF assms(1)]
  by (auto simp: walt_start_cpus_result(3) [OF assms(1)])

theorem walt_start_cpus_other_votes_witness:
  "let s = example_halt\<lparr>cpu_halt_mask := {2, 3},
         client_vote_mask := (\<lambda>c t. if t = HALT \<and> c = 2 then PAUSE_THERMAL OR PAUSE_HYP
                                    else if t = HALT \<and> c = 3 then PAUSE_HYP else 0)\<rparr>
   in case walt_start_cpus {2, 3} PAUSE_HYP HALT s of (ret, cpus', s') \<Rightarrow>
        ret = 0 \<and> 2 \<in> halt_mask_of HALT s' \<and> 3 \<notin> halt_mask_of HALT s'"
proof -
  let ?s = "example_halt\<lparr>cpu_halt_mask := {2, 3},
         client_vote_mask := (\<lambda>c t. if t = HALT \<and> c = 2 then PAUSE_THERMAL OR PAUSE_HYP
                                    else if t = HALT \<and> c = 3 then PAUSE_HYP else 0)\<rparr>"
  have exact: "halt_exact ?s"
    by (auto simp: halt_exact_def halt_mask_of_def split: pause_type.splits)
  obtain ret cpus' s' where run: "walt_start_cpus {2, 3} PAUSE_HYP HALT ?s = (ret, cpus', s')"
    by (cases "walt_start_cpus {2, 3} PAUSE_HYP HALT ?s")
  note claim = walt_start_cpus_other_votes [OF run exact]
  then have "c < 6 \<Longrightarrow> c \<in> halt_mask_of HALT s' \<longleftrightarrow> c \<in> halt_mask_of HALT ?s \<and>
      \<not> (c \<in> {2, 3} \<and> client_vote_mask ?s c HALT AND NOT PAUSE_HYP = 0)" for c
    by simp
  from this [of 2] this [of 3]
  have "2 \<in> halt_mask_of HALT s'" "3 \<notin> halt_mask_of HALT s'"
    by (simp_all add: halt_mask_of_def)
  with claim show ?thesis
    by (simp add: run Let_def)
qed

section \<open>Properties of the drain thread\<close>

text \<open>
  While the thread visits its copy of the mask, the copy is still pending and the CPUs of the copy
  that are no longer to be visited have been drained.
\<close>

definition drain_inv :: "halt_sys \<Rightarrow> bool" where
  "drain_inv w \<longleftrightarrow>
     (case drain_pc_of w of
        Drain_visit local cs \<Rightarrow>
          local \<subseteq> cpus_to_drain (halt_of w)
          \<and> (\<forall>c \<in> local. c < nr_cpu_ids (halt_of w) \<longrightarrow> c \<in> set cs \<or> c \<in> set (drained w))
      | _ \<Rightarrow> True)"

lemma walt_pause_cpus_pending:
  assumes "walt_pause_cpus cpus client s = (ret, cpus', s')"
  shows "cpus_to_drain s \<subseteq> cpus_to_drain s'" and "nr_cpu_ids s' = nr_cpu_ids s"
  using assms
  by (auto simp: walt_pause_cpus_def split: if_splits
      dest: walt_halt_cpus_drain(2) walt_halt_cpus_result(4))

lemma walt_resume_cpus_pending:
  assumes "walt_resume_cpus cpus client s = (ret, cpus', s')"
  shows "cpus_to_drain s' = cpus_to_drain s" and "nr_cpu_ids s' = nr_cpu_ids s"
  using assms
  by (auto simp: walt_resume_cpus_def split: if_splits
      dest: walt_start_cpus_result(4,7))

lemma halt_step_inv:
  assumes "halt_step w w'" and "drain_inv w"
  shows "drain_inv w'"
  using assms(1)
proof (cases rule: halt_step.cases)
  case (step_pause cpus client)
  obtain ret cpus' h where run: "walt_pause_cpus cpus client (halt_of w) = (ret, cpus', h)"
    by (cases "walt_pause_cpus cpus client (halt_of w)")
  show ?thesis
    using assms(2) walt_pause_cpus_pending [OF run]
    by (auto simp: step_pause pause_step_def run drain_inv_def wake_drain_thread_def
        split: drain_pc.splits)
next
  case (step_resume cpus client)
  obtain ret cpus' h where run: "walt_resume_cpus cpus client (halt_of w) = (ret, cpus', h)"
    by (cases "walt_resume_cpus cpus client (halt_of w)")
  show ?thesis
    using assms(2) walt_resume_cpus_pending [OF run]
    by (auto simp: step_resume resume_step_def run drain_inv_def split: drain_pc.splits)
next
  case step_drain
  show ?thesis
    using assms(2)
    by (auto simp: step_drain drain_step_def drain_inv_def Let_def split: drain_pc.splits list.splits)
qed

lemma halt_steps_inv: "rtranclp halt_step w w' \<Longrightarrow> drain_inv w \<Longrightarrow> drain_inv w'"
  by (induction rule: rtranclp_induct) (auto intro: halt_step_inv)

lemma halt_step_removes_drained:
  assumes "halt_step w w'" and "drain_inv w"
    and "c \<in> cpus_to_drain (halt_of w)" and "c \<notin> cpus_to_drain (halt_of w')"
    and "c < nr_cpu_ids (halt_of w)"
  shows "c \<in> set (drained w)"
  using assms(1)
proof (cases rule: halt_step.cases)
  case (step_pause cpus client)
  then show ?thesis
    using assms(3,4)
    by (auto simp: pause_step_def split: prod.splits dest: subsetD [OF walt_pause_cpus_pending(1)])
next
  case (step_resume cpus client)
  then show ?thesis
    using assms(3,4)
    by (auto simp: resume_step_def split: prod.splits dest: walt_resume_cpus_pending(1))
next
  case step_drain
  then show ?thesis
    using assms(2-5)
    by (auto simp: drain_step_def drain_inv_def Let_def split: drain_pc.splits list.splits if_splits)
qed

text \<open>
  C15 (safety). However pause and resume requests interleave with the steps of the drain thread, a
  CPU that waits to be drained stays pending until the thread has called
  \<^verbatim>\<open>cpu_drain_rq\<close> on it.
\<close>

theorem pending_until_drained:
  assumes "drain_pc_of w0 = Drain_check" and "rtranclp halt_step w0 w" and "halt_step w w'"
    and "c \<in> cpus_to_drain (halt_of w)" and "c \<notin> cpus_to_drain (halt_of w')"
    and "c < nr_cpu_ids (halt_of w)"
  shows "c \<in> set (drained w)"
  by (rule halt_step_removes_drained [OF assms(3) _ assms(4-6)], rule halt_steps_inv [OF assms(2)])
    (simp add: assms(1) drain_inv_def)

definition example_drain :: halt_sys where
  "example_drain = \<lparr>halt_of = example_halt\<lparr>cpus_to_drain := {2}\<rparr>, drain_pc_of = Drain_check, drained = []\<rparr>"

lemma for_each_cpu_singleton: "c < n \<Longrightarrow> for_each_cpu n {c} = [c]"
  by (intro sorted_distinct_set_unique) auto

theorem pending_until_drained_witness:
  "let w = drain_step (drain_step example_drain)
   in 2 \<in> cpus_to_drain (halt_of w) \<and> 2 \<notin> cpus_to_drain (halt_of (drain_step w)) \<and> 2 \<in> set (drained w)"
proof -
  let ?w1 = "drain_step example_drain"
  let ?w = "drain_step ?w1"
  have w1: "?w1 = example_drain\<lparr>drain_pc_of := Drain_visit {2} [2]\<rparr>"
    by (simp add: drain_step_def example_drain_def cpumask_weight_def for_each_cpu_singleton Let_def)
  have w: "?w = example_drain\<lparr>drain_pc_of := Drain_visit {2} [], drained := [2]\<rparr>"
    by (simp add: w1) (simp add: drain_step_def example_drain_def)
  have facts: "2 \<in> cpus_to_drain (halt_of ?w)" "2 \<notin> cpus_to_drain (halt_of (drain_step ?w))"
    "2 < nr_cpu_ids (halt_of ?w)"
    by (simp_all add: w) (simp_all add: drain_step_def example_drain_def)
  have "rtranclp halt_step example_drain ?w"
    by (meson halt_step.step_drain rtranclp.intros)
  from pending_until_drained [OF _ this step_drain facts] show ?thesis
    using facts by (simp add: Let_def example_drain_def)
qed

text \<open>
  C20 (liveness). The thread sets its task state to interruptible only after it has released the
  lock: a pause request that succeeds in between wakes a thread that is still running, which then
  goes to sleep with the newly halted CPUs pending and undrained, and no step of its own ever
  leaves that state.
\<close>

theorem drain_wakeup_lost:
  assumes "drain_pc_of w = Drain_unlocked"
    and "walt_pause_cpus cpus client (halt_of w) = (0, cpus', h)"
    and "unvoted cpus HALT (halt_of w) \<noteq> {}"
  shows "let w' = drain_step (drain_step (pause_step cpus client w))
         in drain_pc_of w' = Drain_asleep \<and> drained w' = drained w
            \<and> unvoted cpus HALT (halt_of w) \<subseteq> cpus_to_drain (halt_of w') \<inter> halt_mask_of HALT (halt_of w')
            \<and> (drain_step ^^ n) w' = w'"
proof -
  have h: "walt_halt_cpus cpus client HALT (halt_of w) = (0, cpus', h)"
    using assms(2) by (simp add: walt_pause_cpus_def split: if_splits)
  have sub: "unvoted cpus HALT (halt_of w) \<subseteq> cpus'"
    by (auto simp: walt_halt_cpus_drain(1) [OF h] update_halt_cpus_eq unvoted_def)
  have pause: "pause_step cpus client w = w\<lparr>halt_of := h\<rparr>"
    using assms(1,2) by (simp add: pause_step_def wake_drain_thread_def)
  have w': "drain_step (drain_step (w\<lparr>halt_of := h\<rparr>)) = w\<lparr>halt_of := h, drain_pc_of := Drain_asleep\<rparr>"
    using assms(1) by (simp add: drain_step_def)
  have "(drain_step ^^ n) (w\<lparr>halt_of := h, drain_pc_of := Drain_asleep\<rparr>)
      = w\<lparr>halt_of := h, drain_pc_of := Drain_asleep\<rparr>"
    by (induction n) (simp_all add: drain_step_def)
  then show ?thesis
    using sub assms(3) walt_halt_cpus_result(2) [OF h, of HALT]
    by (auto simp: Let_def pause w' walt_halt_cpus_drain(2) [OF h])
qed

theorem drain_wakeup_lost_witness:
  "let w = example_drain\<lparr>halt_of := example_halt, drain_pc_of := Drain_unlocked\<rparr>;
       w' = drain_step (drain_step (pause_step {2} PAUSE_THERMAL w))
   in drain_pc_of w' = Drain_asleep \<and> 2 \<in> cpus_to_drain (halt_of w') \<and> drained w' = []"
proof -
  let ?w = "example_drain\<lparr>halt_of := example_halt, drain_pc_of := Drain_unlocked\<rparr>"
  obtain ret m h where run: "walt_pause_cpus {2} PAUSE_THERMAL (halt_of ?w) = (ret, m, h)"
    by (cases "walt_pause_cpus {2} PAUSE_THERMAL (halt_of ?w)")
  then have "walt_halt_cpus {2} PAUSE_THERMAL HALT example_halt = (ret, m, h)"
    by (simp add: walt_pause_cpus_def)
  from walt_halt_cpus_result(1) [OF this] have "ret = 0"
    by (simp add: unvoted_def)
  with run drain_wakeup_lost [of ?w "{2}" PAUSE_THERMAL m h 0] show ?thesis
    by (auto simp: Let_def unvoted_def example_drain_def)
qed

section \<open>Properties of the scheduler hooks\<close>

text \<open>
  On an enabled system a halted CPU is allowed for a task exactly when the task
  is a 32-bit task inside execve, or when its affinity has no active CPU that is not halted (and,
  for a kernel thread, not dying); for every other CPU the scheduler's own answer stands.
\<close>

theorem is_cpu_allowed_spec:
  assumes "\<not> walt_disabled s"
  shows "android_rvh_is_cpu_allowed p cpu allowed s \<longleftrightarrow>
    (if cpu \<in> cpu_halt_mask s
     then p_compat p \<and> p_in_execve p
          \<or> \<not> (\<exists>c < nr_cpu_ids s. c \<in> cpu_active_mask s \<and> c \<in> p_cpus_ptr p \<and> c \<notin> cpu_halt_mask s
               \<and> (p_kthread p \<longrightarrow> c \<notin> cpu_dying_mask s))
     else allowed)"
  using assms by (auto simp: android_rvh_is_cpu_allowed_def Let_def cpumask_empty_iff)

theorem is_cpu_allowed_spec_witness:
  "\<not> android_rvh_is_cpu_allowed
     \<lparr>p_kthread = False, p_compat = False, p_in_execve = False, p_migration_disabled = False,
      p_cpus_ptr = {2, 3}\<rparr> 2 True (example_halt\<lparr>cpu_halt_mask := {2}\<rparr>)"
  by (subst is_cpu_allowed_spec) (auto intro: exI [of _ 3])

lemma find_SomeD: "find P xs = Some x \<Longrightarrow> x \<in> set xs \<and> P x"
  by (induction xs) (auto split: if_splits)

lemma cpumask_first_in: "c \<in> m \<Longrightarrow> c < n \<Longrightarrow> cpumask_first n m \<in> m \<and> cpumask_first n m < n"
proof -
  assume "c \<in> m" "c < n"
  then have "for_each_cpu n m \<noteq> []"
    using set_for_each_cpu [of n m] by (metis (mono_tags, lifting) empty_iff list.set(1) mem_Collect_eq)
  then have "hd (for_each_cpu n m) \<in> set (for_each_cpu n m)"
    by (rule hd_in_set)
  with \<open>for_each_cpu n m \<noteq> []\<close> show ?thesis
    by (auto simp: cpumask_first_def split: list.splits)
qed

text \<open>
  As long as some active CPU is not halted, the CPU chosen for an unpinned timer is
  not halted, whichever CPUs are idle, do housekeeping or share a scheduling domain.
\<close>

theorem nohz_timer_target_not_halted:
  assumes "c < nr_cpu_ids s" and "c \<in> cpu_active_mask s" and "c \<notin> cpu_halt_mask s"
  shows "android_rvh_get_nohz_timer_target hk idle spans cpu s \<notin> cpu_halt_mask s"
proof -
  let ?au = "cpu_active_mask s - cpu_halt_mask s"
  have w: "cpumask_weight (nr_cpu_ids s) ?au \<noteq> 0"
    using assms by (auto simp: cpumask_weight_zero)
  have f: "cpumask_first (nr_cpu_ids s) ?au \<in> ?au \<and> cpumask_first (nr_cpu_ids s) ?au < nr_cpu_ids s"
    using assms by (intro cpumask_first_in [of c]) auto
  show ?thesis
    using w f
    by (auto simp: android_rvh_get_nohz_timer_target_def Let_def cpu_halted_def
        split: option.splits dest!: find_SomeD)
qed

theorem nohz_timer_target_not_halted_witness:
  "android_rvh_get_nohz_timer_target {0, 2} (\<lambda>_. True) (\<lambda>_. []) 2 (example_halt\<lparr>cpu_halt_mask := {2}\<rparr>)
     \<notin> {2}"
  using nohz_timer_target_not_halted
    [of 3 "example_halt\<lparr>cpu_halt_mask := {2}\<rparr>" "{0, 2}" "\<lambda>_. True" "\<lambda>_. []" 2]
  by simp

end
