(* ===== verification/Walt_Corectl.thy ===== *)
theory Walt_Corectl
  imports Walt_Halt "HOL-Library.Multiset"
begin

text \<open>
  Core control (\<^verbatim>\<open>kernel/sched/walt/core_ctl.c\<close>): at every window rollover it computes how
  many CPUs each cluster needs from the run-queue statistics, and pauses or resumes CPUs through
  the halting interface. The theory also has the single-big-thread check, the boost of the need,
  the sysfs writers, the initialisation, and the protocol between the code that requests an
  adjustment and the thread that performs it.

  Statistics of the scheduler (\<^verbatim>\<open>sched_get_nr_running_avg\<close>, CPU utilisation, interrupt load)
  and the clock are arguments of the operations that read them. Text written to sysfs is the list
  of numbers that \<^verbatim>\<open>sscanf\<close> converted.
\<close>

section \<open>State\<close>

record cluster_data =
  inited :: bool
  min_cpus :: nat
  min_partial_cpus :: nat
  max_cpus :: nat
  offline_delay_ms :: nat
  busy_up_thres :: "nat \<Rightarrow> nat"
  busy_down_thres :: "nat \<Rightarrow> nat"
  active_cpus :: nat
  num_cpus :: nat
  nr_not_preferred_cpus :: nat
  cpu_mask :: cpumask
  need_cpus :: nat
  task_thres :: nat
  max_nr :: nat
  nr_assist :: nat
  nr_busy :: nat
  nr_big :: nat
  need_ts :: int
  lru :: "nat list"
  enable :: bool
  nrrun :: int
  first_cpu :: nat
  boost :: nat
  strict_nrrun :: nat
  nrrun_cpu_mask :: cpumask
  nrrun_cpu_misfit_mask :: cpumask
  nrrun_cpu_min_misfit :: nat
  assist_cpu_mask :: cpumask
  assist_cpu_misfit_mask :: cpumask
  assist_cpu_min_misfit :: nat

text \<open>The list \<open>lru\<close> holds CPU numbers, in the order of the linked list of their states.\<close>

record cpu_data =
  is_busy :: bool
  busy_pct :: nat
  not_preferred :: bool
  cpu_data_cluster :: "nat option"
  disabled :: bool

record sched_avg_stats =
  nr :: int
  nr_misfit :: int
  nr_max :: int
  nr_scaled :: int
  nr_giant :: int

record corectl = halt_state +
  cluster_state :: "nat \<Rightarrow> cluster_data"
  num_clusters :: nat
  cpu_state :: "nat \<Rightarrow> cpu_data"
  core_ctl_pending :: bool
  core_ctl_wakeups :: nat
  core_ctl_initialized :: bool
  assist_params_initialized :: bool
  last_nr_big :: nat
  core_ctl_check_timestamp :: nat
  cpus_for_sbt_pause :: cpumask
  now_is_sbt :: bool
  prev_is_sbt_windows :: int
  sysctl_sched_sbt_enable :: nat
  sysctl_sched_sbt_delay_windows :: nat
  cpu_array :: "nat \<Rightarrow> cpumask"
  cpu_possible_mask :: cpumask
  nr_cpumask_bits :: nat
  hmp_capable :: bool
  sysctl_sched_walt_rotate_big_tasks :: nat
  plenty_giant_tasks :: bool
  walt_rotation_enabled :: bool
  walt_rotation_stop_hyst_start_ts :: nat
  high_perf_state_hyst_start_ts :: nat
  high_perf_cluster_freq_cap :: "nat \<Rightarrow> nat"
  core_ctl_notifier_empty :: bool
  core_ctl_notified :: "nat list"

definition upd_cluster ::
  "nat \<Rightarrow> (cluster_data \<Rightarrow> cluster_data) \<Rightarrow> 'z corectl_scheme \<Rightarrow> 'z corectl_scheme" where
  "upd_cluster k f s = s\<lparr>cluster_state := (cluster_state s)(k := f (cluster_state s k))\<rparr>"

definition upd_cpu :: "nat \<Rightarrow> (cpu_data \<Rightarrow> cpu_data) \<Rightarrow> 'z corectl_scheme \<Rightarrow> 'z corectl_scheme" where
  "upd_cpu c f s = s\<lparr>cpu_state := (cpu_state s)(c := f (cpu_state s c))\<rparr>"

definition miui_corectl_cpu_busy ::
  "nat \<Rightarrow> nat \<Rightarrow> 'z corectl_scheme \<Rightarrow> 'z corectl_scheme" where
  "miui_corectl_cpu_busy flag val s =
     fold (\<lambda>k. upd_cluster k (\<lambda>c.
         if flag = 1 then c\<lparr>busy_up_thres := (\<lambda>i. if i < num_cpus c then val else busy_up_thres c i)\<rparr>
         else c\<lparr>busy_down_thres := (\<lambda>i. if i < num_cpus c then val else busy_down_thres c i)\<rparr>))
       [0..<num_clusters s] s"

section \<open>Counting CPUs\<close>

definition active_cpu_count_from_mask :: "cpumask \<Rightarrow> 'z halt_state_scheme \<Rightarrow> nat" where
  "active_cpu_count_from_mask cpus s =
     cpumask_weight (nr_cpu_ids s) ((cpus - cpu_halt_mask s) - cpu_partial_halt_mask s)"

definition get_active_cpu_count :: "nat \<Rightarrow> 'z corectl_scheme \<Rightarrow> nat" where
  "get_active_cpu_count k s = active_cpu_count_from_mask (cpu_mask (cluster_state s k)) s"

definition get_assist_active_cpu_count :: "nat \<Rightarrow> 'z corectl_scheme \<Rightarrow> nat" where
  "get_assist_active_cpu_count k s =
     cpumask_weight (nr_cpu_ids s)
       ((assist_cpu_mask (cluster_state s k) - cpu_halt_mask s) - cpu_partial_halt_mask s)"

definition cluster_paused_cpus :: "nat \<Rightarrow> 'z corectl_scheme \<Rightarrow> nat" where
  "cluster_paused_cpus k s =
     cpumask_weight (nr_cpu_ids s)
       (cpu_mask (cluster_state s k) \<inter> (cpus_paused_by_us s \<union> cpus_part_paused_by_us s))"

definition is_active :: "nat \<Rightarrow> 'z halt_state_scheme \<Rightarrow> bool" where
  "is_active c s \<longleftrightarrow> c \<in> cpu_active_mask s \<and> \<not> cpu_halted s c \<and> \<not> cpu_partial_halted s c"

section \<open>Demand of a cluster\<close>

definition sum_unhalted ::
  "(nat \<Rightarrow> int) \<Rightarrow> cpumask \<Rightarrow> 'z halt_state_scheme \<Rightarrow> int" where
  "sum_unhalted f m s =
     fold (\<lambda>c a. if cpu_partial_halted s c then a else a + f c) (for_each_cpu (nr_cpu_ids s) m) 0"

definition sum_cpus :: "(nat \<Rightarrow> int) \<Rightarrow> cpumask \<Rightarrow> 'z halt_state_scheme \<Rightarrow> int" where
  "sum_cpus f m s = fold (\<lambda>c a. a + f c) (for_each_cpu (nr_cpu_ids s) m) 0"

definition compute_cluster_nr_run ::
  "(nat \<Rightarrow> sched_avg_stats) \<Rightarrow> nat \<Rightarrow> 'z corectl_scheme \<Rightarrow> int" where
  "compute_cluster_nr_run nr_stats k s =
     (let m = nrrun_cpu_mask (cluster_state s k);
          nr_need = sum_unhalted (\<lambda>c. nr (nr_stats c)) m s
      in if cpumask_intersects (nr_cpu_ids s) m (cpu_partial_halt_mask s)
            \<and> active_cpu_count_from_mask m s \<le> u32_of_int nr_need
         then nr_need - int (active_cpu_count_from_mask m s) else nr_need)"

definition compute_cluster_nr_misfit ::
  "(nat \<Rightarrow> sched_avg_stats) \<Rightarrow> nat \<Rightarrow> 'z corectl_scheme \<Rightarrow> int" where
  "compute_cluster_nr_misfit nr_stats k s =
     sum_cpus (\<lambda>c. nr_misfit (nr_stats c)) (nrrun_cpu_misfit_mask (cluster_state s k)) s"

definition compute_cluster_max_nr ::
  "(nat \<Rightarrow> sched_avg_stats) \<Rightarrow> nat \<Rightarrow> 'z corectl_scheme \<Rightarrow> int" where
  "compute_cluster_max_nr nr_stats k s =
     fold (\<lambda>c a. if cpu_partial_halted s c then a else max a (nr_max (nr_stats c)))
       (for_each_cpu (nr_cpu_ids s) (cpu_mask (cluster_state s k))) 0"

definition compute_cluster_nr_run_assist ::
  "(nat \<Rightarrow> sched_avg_stats) \<Rightarrow> nat \<Rightarrow> 'z corectl_scheme \<Rightarrow> int" where
  "compute_cluster_nr_run_assist nr_stats k s =
     sum_unhalted (\<lambda>c. nr (nr_stats c)) (assist_cpu_mask (cluster_state s k)) s"

definition compute_cluster_nr_misfit_assist ::
  "(nat \<Rightarrow> sched_avg_stats) \<Rightarrow> nat \<Rightarrow> 'z corectl_scheme \<Rightarrow> int" where
  "compute_cluster_nr_misfit_assist nr_stats k s =
     sum_unhalted (\<lambda>c. nr_misfit (nr_stats c)) (assist_cpu_misfit_mask (cluster_state s k)) s"

definition cluster_real_big_tasks ::
  "(nat \<Rightarrow> sched_avg_stats) \<Rightarrow> nat \<Rightarrow> 'z corectl_scheme \<Rightarrow> int" where
  "cluster_real_big_tasks nr_stats k s =
     sum_cpus (\<lambda>c. if k = 0 then nr_misfit (nr_stats c) else nr (nr_stats c))
       (cpu_mask (cluster_state s k)) s"

text \<open>C's division truncates towards zero.\<close>

definition c_div :: "int \<Rightarrow> int \<Rightarrow> int" where
  "c_div a b = sgn a * sgn b * (\<bar>a\<bar> div \<bar>b\<bar>)"

definition compute_cluster_nr_strict_need ::
  "(nat \<Rightarrow> sched_avg_stats) \<Rightarrow> nat \<Rightarrow> 'z corectl_scheme \<Rightarrow> int" where
  "compute_cluster_nr_strict_need nr_stats k s =
     (if k \<noteq> 0 then 0
      else fold (\<lambda>j need.
             let scaled = c_div (sum_unhalted (\<lambda>c. nr_scaled (nr_stats c))
                                   (cpu_mask (cluster_state s j)) s) 100
             in if j = 0 then need + scaled
                else need + max 0 (scaled - s32 (int (active_cpus (cluster_state s j)))))
           [0..<num_clusters s] 0)"

definition nr_busy_step ::
  "(nat \<Rightarrow> bool) \<Rightarrow> nat \<Rightarrow> nat \<Rightarrow> nat \<Rightarrow> nat \<times> 'z corectl_scheme \<Rightarrow> nat \<times> 'z corectl_scheme" where
  "nr_busy_step high_irqload k thres_idx c a =
     (let (n, s) = a; cl = cluster_state s k; d = cpu_state s c
      in if cpu_partial_halted s c then (n, upd_cpu c (is_busy_update (\<lambda>_. False)) s)
         else let busy = (if busy_up_thres cl thres_idx \<le> busy_pct d \<or> high_irqload c then True
                          else if busy_pct d < busy_down_thres cl thres_idx then False
                          else is_busy d)
              in (if busy then n + 1 else n, upd_cpu c (is_busy_update (\<lambda>_. busy)) s))"

definition compute_cluster_nr_busy ::
  "(nat \<Rightarrow> bool) \<Rightarrow> nat \<Rightarrow> 'z corectl_scheme \<Rightarrow> nat \<times> 'z corectl_scheme" where
  "compute_cluster_nr_busy high_irqload k s =
     (let act = get_active_cpu_count k s;
          s1 = upd_cluster k (active_cpus_update (\<lambda>_. act)) s;
          thres_idx = (if act \<noteq> 0 then act - 1 else 0)
      in fold (nr_busy_step high_irqload k thres_idx) (lru (cluster_state s1 k)) (0, s1))"

definition update_cluster_avg ::
  "(nat \<Rightarrow> sched_avg_stats) \<Rightarrow> (nat \<Rightarrow> bool) \<Rightarrow> nat \<Rightarrow> int \<times> int \<times> 'z corectl_scheme
     \<Rightarrow> int \<times> int \<times> 'z corectl_scheme" where
  "update_cluster_avg nr_stats high_irqload k a =
     (let (big_avg, giant, s) = a; cl = cluster_state s k
      in if \<not> inited cl then (big_avg, giant, s)
         else
           let nr_need = compute_cluster_nr_run nr_stats k s;
               nr_misfit_need = compute_cluster_nr_misfit nr_stats k s;
               target_misfit = (if nrrun_cpu_min_misfit cl < u32_of_int nr_misfit_need
                                then u32_of_int nr_misfit_need else 0);
               nr_assist_need = compute_cluster_nr_run_assist nr_stats k s;
               nr_misfit_assist_need = compute_cluster_nr_misfit_assist nr_stats k s;
               target_assist = (if assist_cpu_min_misfit cl < u32_of_int nr_misfit_assist_need
                                then u32_of_int nr_misfit_assist_need else 0);
               strict = compute_cluster_nr_strict_need nr_stats k s;
               assist_active = get_assist_active_cpu_count k s;
               assist_sum = u32 (u32_of_int nr_assist_need + target_assist);
               assist = (if \<not> cpumask_intersects (nr_cpu_ids s) (assist_cpu_mask cl) (cpus_paused_by_us s)
                            \<and> \<not> cpumask_intersects (nr_cpu_ids s) (assist_cpu_mask cl)
                                  (cpus_part_paused_by_us s)
                            \<and> assist_active < assist_sum
                         then u32_sub assist_sum assist_active else 0);
               s1 = upd_cluster k (\<lambda>c. c\<lparr>nrrun := s32 (nr_need + int target_misfit),
                      max_nr := u32_of_int (compute_cluster_max_nr nr_stats k s),
                      strict_nrrun := u32_of_int strict, nr_assist := assist\<rparr>) s;
               (busy, s2) = compute_cluster_nr_busy high_irqload k s1;
               big = cluster_real_big_tasks nr_stats k s2;
               s3 = upd_cluster k (\<lambda>c. c\<lparr>nr_busy := busy, nr_big := u32_of_int big\<rparr>) s2
           in (big_avg + int (u32_of_int big),
               giant + sum_cpus (\<lambda>c. nr_giant (nr_stats c)) (cpu_mask (cluster_state s3 k)) s3, s3))"

text \<open>
  \<^verbatim>\<open>walt_rotation_checkpoint\<close> (\<^verbatim>\<open>walt.c\<close>): with at least as many giant tasks as CPUs the
  high-performance frequency caps apply, and they are kept for ten seconds after that.
\<close>

abbreviation (input) HIGH_PERF_CAP_HYST_NS :: nat where "HIGH_PERF_CAP_HYST_NS \<equiv> 10000000000"

definition set_high_perf_cap ::
  "(nat \<Rightarrow> nat) \<Rightarrow> 'z walt_globals_scheme \<Rightarrow> 'z walt_globals_scheme" where
  "set_high_perf_cap f s =
     s\<lparr>freq_cap := (freq_cap s)(HIGH_PERF_CAP :=
          (\<lambda>i. if i < length (sched_cluster s) then f i else freq_cap s HIGH_PERF_CAP i))\<rparr>"

definition walt_rotation_checkpoint ::
  "nat \<Rightarrow> int \<Rightarrow> 'z corectl_scheme \<Rightarrow> 'z corectl_scheme" where
  "walt_rotation_checkpoint window_start giant s =
     (if \<not> hmp_capable s then s
      else
        let prev = plenty_giant_tasks s;
            plenty = (cpumask_weight (nr_cpu_ids s) (cpu_possible_mask s) \<le> u32_of_int giant);
            rot = (if sysctl_sched_walt_rotate_big_tasks s = 0 \<or> sched_boost_type s \<noteq> NO_BOOST
                   then False else plenty);
            expired = (\<lambda>ts. ts \<noteq> 0 \<and> HIGH_PERF_CAP_HYST_NS \<le> u64_sub window_start ts);
            stop_ts = walt_rotation_stop_hyst_start_ts s;
            s1 = s\<lparr>plenty_giant_tasks := plenty, walt_rotation_enabled := rot,
                   walt_rotation_stop_hyst_start_ts :=
                     (if plenty \<and> \<not> prev then 0
                      else if \<not> plenty \<and> prev then window_start
                      else if expired stop_ts then 0 else stop_ts)\<rparr>;
            none = (\<lambda>_. FREQ_QOS_MAX_DEFAULT_VALUE s);
            s2 = (if sched_boost_type s1 \<noteq> NO_BOOST
                  then (set_high_perf_cap none s1)\<lparr>high_perf_state_hyst_start_ts := 0\<rparr>
                  else if plenty \<and> \<not> prev
                  then (set_high_perf_cap (high_perf_cluster_freq_cap s) s1)
                         \<lparr>high_perf_state_hyst_start_ts := 0\<rparr>
                  else if \<not> plenty \<and> prev
                  then s1\<lparr>high_perf_state_hyst_start_ts := window_start\<rparr>
                  else if expired (high_perf_state_hyst_start_ts s1)
                  then (set_high_perf_cap none s1)\<lparr>high_perf_state_hyst_start_ts := 0\<rparr>
                  else s1)
        in update_smart_freq_capacities s2)"

definition update_running_avg ::
  "(nat \<Rightarrow> sched_avg_stats) \<Rightarrow> (nat \<Rightarrow> bool) \<Rightarrow> nat \<Rightarrow> nat \<Rightarrow> 'z corectl_scheme
     \<Rightarrow> 'z corectl_scheme" where
  "update_running_avg nr_stats high_irqload window_start wakeup_ctr_sum s =
     (let (big_avg, giant, s1) =
            fold (update_cluster_avg nr_stats high_irqload) [0..<num_clusters s] (0, 0, s);
          s2 = walt_rotation_checkpoint window_start giant
                 (s1\<lparr>last_nr_big := u32_of_int big_avg\<rparr>)
      in smart_freq_update_reason_common window_start (u32_of_int big_avg) wakeup_ctr_sum s2)"

section \<open>Evaluating the need\<close>

abbreviation (input) MAX_NR_THRESHOLD :: nat where "MAX_NR_THRESHOLD \<equiv> 4"

definition apply_task_need :: "cluster_data \<Rightarrow> nat" where
  "apply_task_need c =
     (if task_thres c \<le> u32_of_int (nrrun c) then num_cpus c
      else
        let n1 = s32 (int (nr_busy c) + int (nr_assist c));
            n2 = (if n1 < nrrun c then n1 + 1 else n1);
            n3 = (if MAX_NR_THRESHOLD < max_nr c then n2 + 1 else n2);
            n4 = (if u32_of_int n3 < strict_nrrun c then s32 (int (strict_nrrun c)) else n3)
        in u32_of_int n4)"

definition apply_limits :: "cluster_data \<Rightarrow> nat \<Rightarrow> nat" where
  "apply_limits c need =
     (if \<not> enable c then num_cpus c else min (max (min_cpus c) need) (max_cpus c))"

definition adjustment_possible :: "nat \<Rightarrow> nat \<Rightarrow> 'z corectl_scheme \<Rightarrow> bool" where
  "adjustment_possible k need s \<longleftrightarrow>
     need < active_cpus (cluster_state s k)
     \<or> active_cpus (cluster_state s k) < need \<and> cluster_paused_cpus k s \<noteq> 0"

definition eval_need :: "int \<Rightarrow> nat \<Rightarrow> 'z corectl_scheme \<Rightarrow> bool \<times> 'z corectl_scheme" where
  "eval_need now k s =
     (let c = cluster_state s k
      in if \<not> inited c then (False, s)
         else
           let need = (if boost c \<noteq> 0 \<or> \<not> enable c then max_cpus c else apply_task_need c);
               new_need = apply_limits c need;
               last_need = need_cpus c
           in if \<not> active_cpus c < new_need \<and> new_need = last_need \<and> new_need = active_cpus c
              then (False, upd_cluster k (need_ts_update (\<lambda>_. now)) s)
              else let adj_now = (active_cpus c < new_need
                                  \<or> int (offline_delay_ms c) \<le> s64 (now - need_ts c))
                   in if adj_now
                      then (adjustment_possible k new_need s,
                            upd_cluster k (\<lambda>c. c\<lparr>need_ts := now, need_cpus := new_need\<rparr>) s)
                      else (False, s))"

definition wake_up_core_ctl_thread :: "'z corectl_scheme \<Rightarrow> 'z corectl_scheme" where
  "wake_up_core_ctl_thread s =
     s\<lparr>core_ctl_pending := True, core_ctl_wakeups := Suc (core_ctl_wakeups s)\<rparr>"

definition sysfs_param_changed :: "int \<Rightarrow> nat \<Rightarrow> 'z corectl_scheme \<Rightarrow> 'z corectl_scheme" where
  "sysfs_param_changed now k s =
     (let (adjust, s1) = eval_need now k s in if adjust then wake_up_core_ctl_thread s1 else s1)"

text \<open>Returns the error code, whether the boost state changed, and the cluster.\<close>

definition set_cluster_boost :: "bool \<Rightarrow> bool \<Rightarrow> cluster_data \<Rightarrow> int \<times> bool \<times> cluster_data" where
  "set_cluster_boost on changed c =
     (if on then (0, boost c = 0, c\<lparr>boost := u32 (boost c + 1)\<rparr>)
      else if boost c = 0 then (- EINVAL, changed, c)
      else (0, boost c - 1 = 0, c\<lparr>boost := boost c - 1\<rparr>))"

definition core_ctl_set_cluster_boost ::
  "int \<Rightarrow> int \<Rightarrow> bool \<Rightarrow> 'z corectl_scheme \<Rightarrow> int \<times> 'z corectl_scheme" where
  "core_ctl_set_cluster_boost now idx on s =
     (if num_clusters s \<le> u32_of_int idx then (- EINVAL, s)
      else let k = u32_of_int idx;
               (ret, changed, c) = set_cluster_boost on False (cluster_state s k);
               s1 = upd_cluster k (\<lambda>_. c) s
           in (ret, if changed then sysfs_param_changed now k s1 else s1))"

definition set_boost_step ::
  "bool \<Rightarrow> nat \<Rightarrow> int \<times> bool \<times> 'z corectl_scheme \<Rightarrow> int \<times> bool \<times> 'z corectl_scheme" where
  "set_boost_step on k a =
     (let (ret, changed, s) = a;
          (ret', changed', c) = set_cluster_boost on changed (cluster_state s k)
      in (ret', changed', upd_cluster k (\<lambda>_. c) s))"

definition core_ctl_set_boost ::
  "(nat \<Rightarrow> int) \<Rightarrow> bool \<Rightarrow> 'z corectl_scheme \<Rightarrow> int \<times> 'z corectl_scheme" where
  "core_ctl_set_boost now on s =
     (if walt_disabled s then (- EAGAIN, s)
      else if \<not> core_ctl_initialized s then (0, s)
      else let (ret, changed, s1) = fold (set_boost_step on) [0..<num_clusters s] (0, False, s)
           in (ret, if changed
                    then fold (\<lambda>k. sysfs_param_changed (now k) k) [0..<num_clusters s1] s1
                    else s1))"

section \<open>Choosing CPUs to pause and to resume\<close>

text \<open>
  \<^verbatim>\<open>list_for_each_entry_safe\<close> over the LRU list with a body that may move the current entry
  to the tail (\<^verbatim>\<open>move_cpu_lru\<close>). The list is split at the cursor; the next entry is
  determined before the body runs, so the walk ends when the cursor is at the last entry, and the
  counter \<^verbatim>\<open>num_cpus\<close> bounds the number of entries visited.
\<close>

datatype walk_act = Skip | Move | Stop

fun lru_walk ::
  "(nat \<Rightarrow> 'a \<Rightarrow> walk_act \<times> 'a) \<Rightarrow> nat \<Rightarrow> nat list \<Rightarrow> nat list \<Rightarrow> 'a \<Rightarrow> nat list \<times> 'a" where
  "lru_walk body n pre [] a = (pre, a)"
| "lru_walk body 0 pre (c # cs) a = (pre @ c # cs, a)"
| "lru_walk body (Suc n) pre (c # cs) a =
     (case body c a of
        (Skip, a') \<Rightarrow> lru_walk body n (pre @ [c]) cs a'
      | (Stop, a') \<Rightarrow> (pre @ c # cs, a')
      | (Move, a') \<Rightarrow>
          if cs = [] then (pre @ [c], a') else lru_walk body n pre (cs @ [c]) a')"

text \<open>The walk of \<^verbatim>\<open>try_to_partial_pause\<close> has no counter; each move lowers \<open>num\<close>.\<close>

function partial_pause_walk ::
  "cpumask \<Rightarrow> int \<Rightarrow> nat list \<Rightarrow> nat list \<Rightarrow> cpumask \<Rightarrow> cpumask \<Rightarrow> nat list \<times> cpumask \<times> cpumask" where
  "partial_pause_walk paused num pre [] pause part = (pre, pause, part)"
| "partial_pause_walk paused num pre (c # cs) pause part =
     (if num \<le> 0 then (pre @ c # cs, pause, part)
      else if c \<in> pause \<and> c \<notin> paused then
        (if cs = [] then (pre @ [c], pause - {c}, insert c part)
         else partial_pause_walk paused (num - 1) pre (cs @ [c]) (pause - {c}) (insert c part))
      else partial_pause_walk paused num (pre @ [c]) cs pause part)"
  by pat_completeness auto
termination
  by (relation "measures [\<lambda>(_, num, _). nat num, \<lambda>(_, _, _, rest, _). length rest]") auto

definition try_to_partial_pause ::
  "nat \<Rightarrow> cpumask \<times> cpumask \<times> 'z corectl_scheme \<Rightarrow> cpumask \<times> cpumask \<times> 'z corectl_scheme" where
  "try_to_partial_pause k a =
     (let (pause, part, s) = a; c = cluster_state s k;
          num = s32 (int (min_partial_cpus c)
                     - int (cpumask_weight (nr_cpu_ids s) (cpus_part_paused_by_us s)))
      in if num \<le> 0 then a
         else let (l, pause', part') =
                    partial_pause_walk (cpus_part_paused_by_us s) num [] (lru c) pause part
              in (pause', part', upd_cluster k (lru_update (\<lambda>_. l)) s))"

definition pause_body ::
  "'z corectl_scheme \<Rightarrow> nat \<Rightarrow> nat \<Rightarrow> nat \<Rightarrow> cpumask \<times> nat \<Rightarrow> walk_act \<times> cpumask \<times> nat" where
  "pause_body s k need c a =
     (let (pause, pending) = a; cl = cluster_state s k; d = cpu_state s c
      in if disabled d \<or> \<not> is_active c s then (Skip, a)
         else if u32_sub (active_cpus cl) pending = need then (Stop, a)
         else if is_busy d \<or> nr_not_preferred_cpus cl \<noteq> 0 \<and> \<not> not_preferred d then (Skip, a)
         else (Move, insert c pause, pending + 1))"

definition force_pause_body ::
  "'z corectl_scheme \<Rightarrow> nat \<Rightarrow> bool \<Rightarrow> nat \<Rightarrow> cpumask \<times> nat \<Rightarrow> walk_act \<times> cpumask \<times> nat" where
  "force_pause_body s k first_pass c a =
     (let (pause, pending) = a; cl = cluster_state s k; d = cpu_state s c
      in if disabled d \<or> \<not> is_active c s then (Skip, a)
         else if u32_sub (active_cpus cl) pending \<le> max_cpus cl then (Stop, a)
         else if first_pass \<and> \<not> not_preferred d then (Skip, a)
         else (Move, insert c pause, pending + 1))"

text \<open>The part after the label \<^verbatim>\<open>again\<close>, for one value of \<^verbatim>\<open>first_pass\<close>.\<close>

definition force_pause_pass ::
  "'z corectl_scheme \<Rightarrow> nat \<Rightarrow> bool \<Rightarrow> nat list \<times> cpumask \<times> nat \<Rightarrow> nat list \<times> cpumask \<times> nat" where
  "force_pause_pass s k first_pass a =
     (let (l, pause, pending) = a; cl = cluster_state s k
      in if u32_sub (active_cpus cl) pending \<le> max_cpus cl then a
         else lru_walk (force_pause_body s k first_pass) (num_cpus cl) [] l (pause, pending))"

definition select_to_pause ::
  "'z corectl_scheme \<Rightarrow> nat \<Rightarrow> nat \<Rightarrow> cpumask \<Rightarrow> nat list \<times> cpumask \<times> nat" where
  "select_to_pause s k need pause =
     (let cl = cluster_state s k;
          first_pass = (nr_not_preferred_cpus cl \<noteq> 0);
          a1 = lru_walk (pause_body s k need) (num_cpus cl) [] (lru cl) (pause, 0);
          a2 = force_pause_pass s k first_pass a1
      in if first_pass \<and> max_cpus cl < u32_sub (active_cpus cl) (snd (snd a2))
         then force_pause_pass s k False a2 else a2)"

definition try_to_pause ::
  "nat \<Rightarrow> nat \<Rightarrow> cpumask \<times> cpumask \<times> 'z corectl_scheme \<Rightarrow> cpumask \<times> cpumask \<times> 'z corectl_scheme" where
  "try_to_pause k need a =
     (let (pause, part, s) = a;
          (l, pause', pending) = select_to_pause s k need pause
      in try_to_partial_pause k (pause', part, upd_cluster k (lru_update (\<lambda>_. l)) s))"

definition resume_body ::
  "'z corectl_scheme \<Rightarrow> nat \<Rightarrow> nat \<Rightarrow> bool \<Rightarrow> nat \<Rightarrow> cpumask \<times> nat \<Rightarrow> walk_act \<times> cpumask \<times> nat" where
  "resume_body s k need force c a =
     (let (unpause, pending) = a; cl = cluster_state s k; d = cpu_state s c
      in if c \<notin> cpus_paused_by_us s \<and> c \<notin> cpus_part_paused_by_us s then (Skip, a)
         else if is_active c s \<or> \<not> force \<and> not_preferred d then (Skip, a)
         else if u32 (active_cpus cl + pending) = need then (Stop, a)
         else (Move, insert c unpause, pending + 1))"

text \<open>\<^verbatim>\<open>__try_to_resume\<close>\<close>

definition try_to_resume_pass ::
  "nat \<Rightarrow> nat \<Rightarrow> bool \<Rightarrow> cpumask \<times> 'z corectl_scheme \<Rightarrow> nat \<times> cpumask \<times> 'z corectl_scheme" where
  "try_to_resume_pass k need force a =
     (let (unpause, s) = a; cl = cluster_state s k;
          (l, unpause', pending) =
            lru_walk (resume_body s k need force) (num_cpus cl) [] (lru cl) (unpause, 0)
      in (pending, unpause', upd_cluster k (lru_update (\<lambda>_. l)) s))"

definition try_to_partial_resume :: "cpumask \<Rightarrow> 'z corectl_scheme \<Rightarrow> cpumask" where
  "try_to_partial_resume unpause s = unpause \<inter> cpus_part_paused_by_us s"

definition try_to_resume ::
  "nat \<Rightarrow> nat \<Rightarrow> cpumask \<times> cpumask \<times> 'z corectl_scheme \<Rightarrow> cpumask \<times> cpumask \<times> 'z corectl_scheme" where
  "try_to_resume k need a =
     (let (unpause, part, s) = a;
          (pending, unpause1, s1) = try_to_resume_pass k need False (unpause, s)
      in if u32 (active_cpus (cluster_state s1 k) + pending) = need then (unpause1, part, s1)
         else let (_, unpause2, s2) = try_to_resume_pass k need True (unpause1, s1)
              in (unpause2, try_to_partial_resume unpause2 s2, s2))"

section \<open>Pausing and resuming\<close>

definition core_ctl_part_pause_cpus :: "cpumask \<Rightarrow> 'z halt_state_scheme \<Rightarrow> 'z halt_state_scheme" where
  "core_ctl_part_pause_cpus cpus_to_part_pause s =
     (let saved_cpus = cpus_to_part_pause - cpus_part_paused_by_us s
      in if cpumask_empty (nr_cpu_ids s) saved_cpus then s
         else let (ret, _, s1) = walt_partial_pause_cpus saved_cpus PAUSE_CORE_CTL s
              in if ret < 0 then s1
                 else s1\<lparr>cpus_part_paused_by_us := cpus_part_paused_by_us s1 \<union> saved_cpus\<rparr>)"

definition core_ctl_full_pause_cpus :: "cpumask \<Rightarrow> 'z halt_state_scheme \<Rightarrow> 'z halt_state_scheme" where
  "core_ctl_full_pause_cpus cpus_to_pause s =
     (let saved_cpus = cpus_to_pause - cpus_paused_by_us s
      in if cpumask_empty (nr_cpu_ids s) saved_cpus then s
         else let (ret, _, s1) = walt_pause_cpus saved_cpus PAUSE_CORE_CTL s
              in if ret < 0 then s1
                 else s1\<lparr>cpus_paused_by_us := cpus_paused_by_us s1 \<union> saved_cpus\<rparr>)"

definition core_ctl_pause_cpus ::
  "cpumask \<Rightarrow> cpumask \<Rightarrow> 'z halt_state_scheme \<Rightarrow> 'z halt_state_scheme" where
  "core_ctl_pause_cpus cpus_to_pause cpus_to_part_pause s =
     core_ctl_full_pause_cpus cpus_to_pause (core_ctl_part_pause_cpus cpus_to_part_pause s)"

definition core_ctl_part_resume_cpus :: "cpumask \<Rightarrow> 'z halt_state_scheme \<Rightarrow> 'z halt_state_scheme" where
  "core_ctl_part_resume_cpus cpus_to_part_unpause s =
     (let saved_cpus = cpus_to_part_unpause \<inter> cpus_part_paused_by_us s
      in if cpumask_empty (nr_cpu_ids s) saved_cpus then s
         else let (ret, _, s1) = walt_partial_resume_cpus saved_cpus PAUSE_CORE_CTL s
              in if ret < 0 then s1
                 else s1\<lparr>cpus_part_paused_by_us := cpus_part_paused_by_us s1 - saved_cpus\<rparr>)"

definition core_ctl_full_resume_cpus :: "cpumask \<Rightarrow> 'z halt_state_scheme \<Rightarrow> 'z halt_state_scheme" where
  "core_ctl_full_resume_cpus cpus_to_unpause s =
     (let saved_cpus = cpus_to_unpause \<inter> cpus_paused_by_us s
      in if cpumask_empty (nr_cpu_ids s) saved_cpus then s
         else let (ret, _, s1) = walt_resume_cpus saved_cpus PAUSE_CORE_CTL s
              in if ret < 0 then s1
                 else s1\<lparr>cpus_paused_by_us := cpus_paused_by_us s1 - saved_cpus\<rparr>)"

definition core_ctl_resume_cpus ::
  "cpumask \<Rightarrow> cpumask \<Rightarrow> 'z halt_state_scheme \<Rightarrow> 'z halt_state_scheme" where
  "core_ctl_resume_cpus cpus_to_unpause cpus_to_part_unpause s =
     core_ctl_full_resume_cpus cpus_to_unpause (core_ctl_part_resume_cpus cpus_to_part_unpause s)"

text \<open>The masks collected by \<^verbatim>\<open>do_core_ctl\<close> for all clusters.\<close>

record adjust_masks =
  to_pause :: cpumask
  to_unpause :: cpumask
  to_part_pause :: cpumask
  to_part_unpause :: cpumask

definition adjust_cluster ::
  "nat \<Rightarrow> adjust_masks \<times> 'z corectl_scheme \<Rightarrow> adjust_masks \<times> 'z corectl_scheme" where
  "adjust_cluster k a =
     (let (m, s) = a;
          s1 = upd_cluster k (active_cpus_update (\<lambda>_. get_active_cpu_count k s)) s;
          c = cluster_state s1 k;
          need = apply_limits c (need_cpus c)
      in if \<not> adjustment_possible k need s1 then (m, s1)
         else if need < active_cpus c then
           let (p, pp, s2) = try_to_pause k need (to_pause m, to_part_pause m, s1)
           in (m\<lparr>to_pause := p, to_part_pause := pp\<rparr>, s2)
         else if active_cpus c < need then
           let (u, pu, s2) = try_to_resume k need (to_unpause m, to_part_unpause m, s1)
           in (m\<lparr>to_unpause := u, to_part_unpause := pu\<rparr>, s2)
         else (m, s1))"

definition no_adjustment :: adjust_masks where
  "no_adjustment = \<lparr>to_pause = {}, to_unpause = {}, to_part_pause = {}, to_part_unpause = {}\<rparr>"

definition do_core_ctl :: "'z corectl_scheme \<Rightarrow> 'z corectl_scheme" where
  "do_core_ctl s =
     (let (m, s1) = fold adjust_cluster [0..<num_clusters s] (no_adjustment, s)
      in core_ctl_resume_cpus (to_unpause m) (to_part_unpause m)
           (core_ctl_pause_cpus (to_pause m) (to_part_pause m) s1))"

section \<open>The check at window rollover\<close>

definition core_ctl_check_masks_set :: "'z corectl_scheme \<Rightarrow> bool" where
  "core_ctl_check_masks_set s \<longleftrightarrow>
     (let possible_cpus = cpumask_weight (nr_cpumask_bits s) (cpu_possible_mask s)
      in list_all (\<lambda>k. let c = cluster_state s k; w = cpumask_weight (nr_cpumask_bits s)
             in \<not> (possible_cpus < w (nrrun_cpu_mask c) \<or> possible_cpus < w (nrrun_cpu_misfit_mask c)
                  \<or> possible_cpus < w (assist_cpu_mask c) \<or> possible_cpus < w (assist_cpu_misfit_mask c)))
           [0..<num_clusters s])"

abbreviation (input) SBT_CPU_BUSY_PCT_THRESH :: nat where "SBT_CPU_BUSY_PCT_THRESH \<equiv> 20"
abbreviation (input) SBT_LIMIT :: nat where "SBT_LIMIT \<equiv> 45"
abbreviation (input) LARGE_CPU_THROTTLED_CAP_THRESH :: nat
  where "LARGE_CPU_THROTTLED_CAP_THRESH \<equiv> 700"

definition core_ctl_non_large_cpus_below_busy_pct :: "'z corectl_scheme \<Rightarrow> bool" where
  "core_ctl_non_large_cpus_below_busy_pct s =
     list_all (\<lambda>c. busy_pct (cpu_state s c) \<le> SBT_CPU_BUSY_PCT_THRESH)
       (for_each_cpu (nr_cpu_ids s)
          (fold (\<lambda>i m. m \<union> cpu_array s i) [0..<length (sched_cluster s) - 1] {}))"

definition is_large_cpu_cap_low :: "'z corectl_scheme \<Rightarrow> bool" where
  "is_large_cpu_cap_low s \<longleftrightarrow>
     cpu_capacity_orig s (cpumask_first (nr_cpu_ids s) (cpu_array s (length (sched_cluster s) - 1)))
       < LARGE_CPU_THROTTLED_CAP_THRESH"

definition core_ctl_is_sbt :: "nat \<Rightarrow> 'z corectl_scheme \<Rightarrow> bool" where
  "core_ctl_is_sbt wakeup_ctr_sum s \<longleftrightarrow>
     sysctl_sched_sbt_enable s \<noteq> 0 \<and> last_nr_big s = 1
     \<and> nr_big (cluster_state s (length (sched_cluster s) - 1)) = 1
     \<and> wakeup_ctr_sum \<le> SBT_LIMIT \<and> core_ctl_non_large_cpus_below_busy_pct s
     \<and> \<not> is_large_cpu_cap_low s"

definition sbt_ctl_check :: "nat \<Rightarrow> 'z corectl_scheme \<Rightarrow> 'z corectl_scheme" where
  "sbt_ctl_check wakeup_ctr_sum s0 =
     (let now = core_ctl_is_sbt wakeup_ctr_sum s0;
          s = s0\<lparr>now_is_sbt := now\<rparr>;
          delay = sysctl_sched_sbt_delay_windows s;
          win = prev_is_sbt_windows s
      in if cpumask_weight (nr_cpu_ids s) (cpus_for_sbt_pause s) = 0 then s\<lparr>prev_is_sbt := now\<rparr>
         else if prev_is_sbt s = now
         then (if u32_of_int win < delay then s\<lparr>prev_is_sbt_windows := s32 (int delay)\<rparr> else s)
         else if now \<and> 0 < win then s\<lparr>prev_is_sbt_windows := win - 1\<rparr>
         else let local_cpus = cpus_for_sbt_pause s;
                  s1 = (if now then snd (snd (walt_pause_cpus local_cpus PAUSE_SBT s))
                        else snd (snd (walt_resume_cpus local_cpus PAUSE_SBT s)))
              in s1\<lparr>prev_is_sbt_windows := s32 (int delay), prev_is_sbt := now\<rparr>)"

definition core_ctl_call_notifier :: "'z corectl_scheme \<Rightarrow> 'z corectl_scheme" where
  "core_ctl_call_notifier s =
     (if core_ctl_notifier_empty s then s
      else s\<lparr>core_ctl_notified := core_ctl_notified s @ [last_nr_big s]\<rparr>)"

definition update_busy_pct ::
  "(nat \<Rightarrow> nat) \<Rightarrow> 'z corectl_scheme \<Rightarrow> 'z corectl_scheme" where
  "update_busy_pct util_pct s =
     fold (\<lambda>cpu s. case cpu_data_cluster (cpu_state s cpu) of
              None \<Rightarrow> s
            | Some k \<Rightarrow> if inited (cluster_state s k)
                        then upd_cpu cpu (busy_pct_update (\<lambda>_. util_pct cpu)) s else s)
       (for_each_cpu (nr_cpu_ids s) (cpu_possible_mask s)) s"

definition eval_all ::
  "(nat \<Rightarrow> int) \<Rightarrow> 'z corectl_scheme \<Rightarrow> bool \<times> 'z corectl_scheme" where
  "eval_all now s =
     fold (\<lambda>k (w, s). let (b, s') = eval_need (now k) k s in (w \<or> b, s')) [0..<num_clusters s] (False, s)"

definition core_ctl_check ::
  "(nat \<Rightarrow> sched_avg_stats) \<Rightarrow> (nat \<Rightarrow> bool) \<Rightarrow> (nat \<Rightarrow> nat) \<Rightarrow> (nat \<Rightarrow> int) \<Rightarrow> nat \<Rightarrow> nat
     \<Rightarrow> 'z corectl_scheme \<Rightarrow> 'z corectl_scheme" where
  "core_ctl_check nr_stats high_irqload util_pct now window_start wakeup_ctr_sum s =
     (if \<not> core_ctl_initialized s then s
      else if \<not> assist_params_initialized s
      then s\<lparr>assist_params_initialized := core_ctl_check_masks_set s\<rparr>
      else if window_start = core_ctl_check_timestamp s then s
      else
        let s1 = update_busy_pct util_pct (s\<lparr>core_ctl_check_timestamp := window_start\<rparr>);
            s2 = update_running_avg nr_stats high_irqload window_start wakeup_ctr_sum s1;
            (wakeup, s3) = eval_all now s2;
            s4 = (if wakeup then do_core_ctl s3 else s3)
        in sbt_ctl_check wakeup_ctr_sum (core_ctl_call_notifier s4))"

section \<open>Parameters written through sysfs\<close>

definition store_min_cpus ::
  "int \<Rightarrow> nat \<Rightarrow> nat list \<Rightarrow> int \<Rightarrow> 'z corectl_scheme \<Rightarrow> int \<times> 'z corectl_scheme" where
  "store_min_cpus now k vals cnt s =
     (case vals of [] \<Rightarrow> (- EINVAL, s)
      | v # _ \<Rightarrow> (cnt, sysfs_param_changed now k
                    (upd_cluster k (\<lambda>c. c\<lparr>min_cpus := min v (num_cpus c)\<rparr>) s)))"

definition store_max_cpus ::
  "int \<Rightarrow> nat \<Rightarrow> nat list \<Rightarrow> int \<Rightarrow> 'z corectl_scheme \<Rightarrow> int \<times> 'z corectl_scheme" where
  "store_max_cpus now k vals cnt s =
     (case vals of [] \<Rightarrow> (- EINVAL, s)
      | v # _ \<Rightarrow> (cnt, sysfs_param_changed now k
                    (upd_cluster k (\<lambda>c. c\<lparr>max_cpus := min v (num_cpus c)\<rparr>) s)))"

definition store_min_partial_cpus ::
  "int \<Rightarrow> nat \<Rightarrow> nat list \<Rightarrow> int \<Rightarrow> 'z corectl_scheme \<Rightarrow> int \<times> 'z corectl_scheme" where
  "store_min_partial_cpus now k vals cnt s =
     (case vals of [] \<Rightarrow> (- EINVAL, s)
      | v # _ \<Rightarrow>
          let s1 = sysfs_param_changed now k
                     (upd_cluster k (\<lambda>c. c\<lparr>min_partial_cpus := min v (num_cpus c)\<rparr>) s);
              c = cluster_state s1 k
          in (cnt, s1\<lparr>part_haltable_cpus :=
                 (if min_partial_cpus c \<noteq> 0 then part_haltable_cpus s1 \<union> cpu_mask c
                  else part_haltable_cpus s1 - cpu_mask c)\<rparr>))"

definition store_offline_delay_ms ::
  "int \<Rightarrow> nat \<Rightarrow> nat list \<Rightarrow> int \<Rightarrow> 'z corectl_scheme \<Rightarrow> int \<times> 'z corectl_scheme" where
  "store_offline_delay_ms now k vals cnt s =
     (case vals of [] \<Rightarrow> (- EINVAL, s)
      | v # _ \<Rightarrow> (cnt, sysfs_param_changed now k (upd_cluster k (offline_delay_ms_update (\<lambda>_. v)) s)))"

definition store_task_thres ::
  "int \<Rightarrow> nat \<Rightarrow> nat list \<Rightarrow> int \<Rightarrow> 'z corectl_scheme \<Rightarrow> int \<times> 'z corectl_scheme" where
  "store_task_thres now k vals cnt s =
     (case vals of [] \<Rightarrow> (- EINVAL, s)
      | v # _ \<Rightarrow>
          if v < num_cpus (cluster_state s k) then (- EINVAL, s)
          else (cnt, sysfs_param_changed now k (upd_cluster k (task_thres_update (\<lambda>_. v)) s)))"

text \<open>One value for all CPUs, or as many values as the cluster has CPUs.\<close>

definition thres_of :: "nat list \<Rightarrow> nat \<Rightarrow> (nat \<Rightarrow> nat) \<Rightarrow> nat \<Rightarrow> nat" where
  "thres_of vals n old i = (if n \<le> i then old i else if length vals = 1 then vals ! 0 else vals ! i)"

definition store_busy_up_thres ::
  "int \<Rightarrow> nat \<Rightarrow> nat list \<Rightarrow> int \<Rightarrow> 'z corectl_scheme \<Rightarrow> int \<times> 'z corectl_scheme" where
  "store_busy_up_thres now k vals cnt s =
     (if length vals \<noteq> 1 \<and> length vals \<noteq> num_cpus (cluster_state s k) then (- EINVAL, s)
      else (cnt, sysfs_param_changed now k
              (upd_cluster k (\<lambda>c. c\<lparr>busy_up_thres := thres_of vals (num_cpus c) (busy_up_thres c)\<rparr>) s)))"

definition store_busy_down_thres ::
  "int \<Rightarrow> nat \<Rightarrow> nat list \<Rightarrow> int \<Rightarrow> 'z corectl_scheme \<Rightarrow> int \<times> 'z corectl_scheme" where
  "store_busy_down_thres now k vals cnt s =
     (if length vals \<noteq> 1 \<and> length vals \<noteq> num_cpus (cluster_state s k) then (- EINVAL, s)
      else (cnt, sysfs_param_changed now k
              (upd_cluster k (\<lambda>c. c\<lparr>busy_down_thres := thres_of vals (num_cpus c) (busy_down_thres c)\<rparr>) s)))"

definition store_enable ::
  "int \<Rightarrow> nat \<Rightarrow> nat list \<Rightarrow> int \<Rightarrow> 'z corectl_scheme \<Rightarrow> int \<times> 'z corectl_scheme" where
  "store_enable now k vals cnt s =
     (case vals of [] \<Rightarrow> (- EINVAL, s)
      | v # _ \<Rightarrow>
          if (v \<noteq> 0) \<noteq> enable (cluster_state s k)
          then (cnt, sysfs_param_changed now k (upd_cluster k (enable_update (\<lambda>_. v \<noteq> 0)) s))
          else (cnt, s))"

definition store_not_preferred ::
  "nat \<Rightarrow> nat list \<Rightarrow> int \<Rightarrow> 'z corectl_scheme \<Rightarrow> int \<times> 'z corectl_scheme" where
  "store_not_preferred k vals cnt s =
     (let c = cluster_state s k
      in if length vals \<noteq> num_cpus c then (- EINVAL, s)
         else (cnt,
           upd_cluster k (nr_not_preferred_cpus_update
               (\<lambda>_. length (filter (\<lambda>i. vals ! i \<noteq> 0) [0..<num_cpus c])))
             (fold (\<lambda>i. upd_cpu (i + first_cpu c) (not_preferred_update (\<lambda>_. vals ! i \<noteq> 0)))
               [0..<num_cpus c] s)))"

text \<open>
  The four mask writers store the lowest eight bits of the number that \<^verbatim>\<open>kstrtoul\<close> parsed;
  \<open>Inl\<close> is its error. The two thresholds are written like the other numbers.
\<close>

definition mask8 :: "nat \<Rightarrow> cpumask" where
  "mask8 v = {i. i < 8 \<and> bit v i}"

definition store_mask ::
  "(cpumask \<Rightarrow> cluster_data \<Rightarrow> cluster_data) \<Rightarrow> nat \<Rightarrow> int + nat \<Rightarrow> int \<Rightarrow> 'z corectl_scheme
     \<Rightarrow> int \<times> 'z corectl_scheme" where
  "store_mask f k parsed cnt s =
     (case parsed of Inl err \<Rightarrow> (err, s) | Inr v \<Rightarrow> (cnt, upd_cluster k (f (mask8 v)) s))"

definition store_nrrun_cpu_mask ::
  "nat \<Rightarrow> int + nat \<Rightarrow> int \<Rightarrow> 'z corectl_scheme \<Rightarrow> int \<times> 'z corectl_scheme" where
  "store_nrrun_cpu_mask = store_mask (\<lambda>m. nrrun_cpu_mask_update (\<lambda>_. m))"

definition store_nrrun_cpu_misfit_mask ::
  "nat \<Rightarrow> int + nat \<Rightarrow> int \<Rightarrow> 'z corectl_scheme \<Rightarrow> int \<times> 'z corectl_scheme" where
  "store_nrrun_cpu_misfit_mask = store_mask (\<lambda>m. nrrun_cpu_misfit_mask_update (\<lambda>_. m))"

definition store_assist_cpu_mask ::
  "nat \<Rightarrow> int + nat \<Rightarrow> int \<Rightarrow> 'z corectl_scheme \<Rightarrow> int \<times> 'z corectl_scheme" where
  "store_assist_cpu_mask = store_mask (\<lambda>m. assist_cpu_mask_update (\<lambda>_. m))"

definition store_assist_cpu_misfit_mask ::
  "nat \<Rightarrow> int + nat \<Rightarrow> int \<Rightarrow> 'z corectl_scheme \<Rightarrow> int \<times> 'z corectl_scheme" where
  "store_assist_cpu_misfit_mask = store_mask (\<lambda>m. assist_cpu_misfit_mask_update (\<lambda>_. m))"

definition store_assist_cpu_min_misfit ::
  "int \<Rightarrow> nat \<Rightarrow> nat list \<Rightarrow> int \<Rightarrow> 'z corectl_scheme \<Rightarrow> int \<times> 'z corectl_scheme" where
  "store_assist_cpu_min_misfit now k vals cnt s =
     (case vals of [] \<Rightarrow> (- EINVAL, s)
      | v # _ \<Rightarrow> (cnt, sysfs_param_changed now k (upd_cluster k (assist_cpu_min_misfit_update (\<lambda>_. v)) s)))"

definition store_nrrun_cpu_min_misfit ::
  "int \<Rightarrow> nat \<Rightarrow> nat list \<Rightarrow> int \<Rightarrow> 'z corectl_scheme \<Rightarrow> int \<times> 'z corectl_scheme" where
  "store_nrrun_cpu_min_misfit now k vals cnt s =
     (case vals of [] \<Rightarrow> (- EINVAL, s)
      | v # _ \<Rightarrow> (cnt, sysfs_param_changed now k (upd_cluster k (nrrun_cpu_min_misfit_update (\<lambda>_. v)) s)))"

section \<open>Initialisation\<close>

definition find_cluster_by_first_cpu :: "nat \<Rightarrow> 'z corectl_scheme \<Rightarrow> nat option" where
  "find_cluster_by_first_cpu c s = find (\<lambda>i. first_cpu (cluster_state s i) = c) [0..<num_clusters s]"

text \<open>
  \<open>has_device\<close> and \<open>offline_disabled\<close> describe the device of a CPU, \<open>added\<close> is the
  result of \<^verbatim>\<open>kobject_add\<close>.
\<close>

definition cluster_init ::
  "(nat \<Rightarrow> bool) \<Rightarrow> (nat \<Rightarrow> bool) \<Rightarrow> int \<Rightarrow> cpumask \<Rightarrow> 'z corectl_scheme \<Rightarrow> int \<times> 'z corectl_scheme" where
  "cluster_init has_device offline_disabled added cpus s =
     (let n = nr_cpu_ids s; fc = cpumask_first n cpus; k = num_clusters s; w = cpumask_weight n cpus;
          all_bits = {i. i < nr_cpumask_bits s}
      in if find_cluster_by_first_cpu fc s \<noteq> None then (0, s)
         else if \<not> has_device fc then (- ENODEV, s)
         else if k = MAX_CLUSTERS then (- EINVAL, s)
         else
           let s1 = upd_cluster k (\<lambda>c. c\<lparr>cpu_mask := cpus, num_cpus := w\<rparr>) (s\<lparr>num_clusters := k + 1\<rparr>)
           in if MAX_CPUS_PER_CLUSTER < w then (- EINVAL, s1)
              else
                let s2 = upd_cluster k (\<lambda>c. c\<lparr>first_cpu := fc, min_cpus := 1, min_partial_cpus := 0,
                           max_cpus := w, need_cpus := w, offline_delay_ms := 100,
                           task_thres := 4294967295, nrrun := int w, enable := False,
                           nr_not_preferred_cpus := 0, strict_nrrun := 0, nr_big := 0,
                           assist_cpu_min_misfit := 0, nrrun_cpu_min_misfit := 0,
                           nrrun_cpu_mask := all_bits, nrrun_cpu_misfit_mask := all_bits,
                           assist_cpu_mask := all_bits, assist_cpu_misfit_mask := all_bits,
                           lru := for_each_cpu n cpus\<rparr>) s1;
                    s3 = fold (\<lambda>cpu. upd_cpu cpu (\<lambda>d. d\<lparr>cpu_data_cluster := Some k,
                             disabled := has_device cpu \<and> offline_disabled cpu\<rparr>))
                           (for_each_cpu n cpus) s2;
                    s4 = upd_cluster k (\<lambda>c. c\<lparr>active_cpus := get_active_cpu_count k s3,
                           inited := True\<rparr>) s3
                in (added, s4))"

text \<open>\<open>thread\<close> is the error of \<^verbatim>\<open>kthread_run\<close>, or 0.\<close>

definition core_ctl_init ::
  "(nat \<Rightarrow> bool) \<Rightarrow> (nat \<Rightarrow> bool) \<Rightarrow> int \<Rightarrow> int \<Rightarrow> 'z corectl_scheme \<Rightarrow> int \<times> 'z corectl_scheme" where
  "core_ctl_init has_device offline_disabled added thread s =
     (if thread < 0 then (thread, s)
      else (0, (fold (\<lambda>cl s. snd (cluster_init has_device offline_disabled added (cluster_cpus cl) s))
                  (sched_cluster s) s)\<lparr>core_ctl_initialized := True\<rparr>))"

section \<open>The core control thread\<close>

text \<open>
  \<^verbatim>\<open>try_core_ctl\<close>, cut at the points where its task state or the lock changes.
  \<open>Ctl_top\<close> is the head of the loop, \<open>Ctl_intr\<close> follows
  \<^verbatim>\<open>set_current_state(TASK_INTERRUPTIBLE)\<close>, \<open>Ctl_unlocked\<close> follows the unlock when nothing
  is pending, \<open>Ctl_asleep\<close> is inside \<^verbatim>\<open>schedule\<close>, \<open>Ctl_run\<close> is before
  \<^verbatim>\<open>do_core_ctl\<close>. The flag of \<open>Ctl_intr\<close> and \<open>Ctl_unlocked\<close> says whether the task
  state is still interruptible.
\<close>

datatype ctl_pc = Ctl_top | Ctl_intr bool | Ctl_unlocked bool | Ctl_asleep | Ctl_woken | Ctl_run

text \<open>
  \<open>wakers\<close> counts the callers of \<^verbatim>\<open>wake_up_core_ctl_thread\<close> that have set
  \<^verbatim>\<open>core_ctl_pending\<close> and not yet called \<^verbatim>\<open>wake_up_process\<close>.
\<close>

record ctl_sys =
  ctl_pc_of :: ctl_pc
  pending :: bool
  wakers :: nat
  adjustments :: nat

fun wake_ctl :: "ctl_pc \<Rightarrow> ctl_pc" where
  "wake_ctl (Ctl_intr _) = Ctl_intr False"
| "wake_ctl (Ctl_unlocked _) = Ctl_unlocked False"
| "wake_ctl Ctl_asleep = Ctl_woken"
| "wake_ctl pc = pc"

definition ctl_thread_step :: "ctl_sys \<Rightarrow> ctl_sys" where
  "ctl_thread_step w =
     (case ctl_pc_of w of
        Ctl_top \<Rightarrow> w\<lparr>ctl_pc_of := Ctl_intr True\<rparr>
      | Ctl_intr i \<Rightarrow>
          if pending w then w\<lparr>ctl_pc_of := Ctl_run, pending := False\<rparr>
          else w\<lparr>ctl_pc_of := Ctl_unlocked i\<rparr>
      | Ctl_unlocked i \<Rightarrow> w\<lparr>ctl_pc_of := if i then Ctl_asleep else Ctl_woken\<rparr>
      | Ctl_asleep \<Rightarrow> w
      | Ctl_woken \<Rightarrow> w\<lparr>ctl_pc_of := Ctl_run, pending := False\<rparr>
      | Ctl_run \<Rightarrow> w\<lparr>ctl_pc_of := Ctl_top, adjustments := Suc (adjustments w)\<rparr>)"

inductive ctl_step :: "ctl_sys \<Rightarrow> ctl_sys \<Rightarrow> bool" where
  ctl_thread: "ctl_step w (ctl_thread_step w)"
| ctl_set_pending: "ctl_step w (w\<lparr>pending := True, wakers := Suc (wakers w)\<rparr>)"
| ctl_wake: "wakers w = Suc n \<Longrightarrow> ctl_step w (w\<lparr>wakers := n, ctl_pc_of := wake_ctl (ctl_pc_of w)\<rparr>)"

section \<open>Walks over the LRU list\<close>

lemma lru_walk_mset: "mset (fst (lru_walk body n pre rest a)) = mset pre + mset rest"
  by (induction body n pre rest a rule: lru_walk.induct) (auto split: prod.splits walk_act.splits)

lemma lru_walk_inv:
  assumes "\<And>c a. c \<in> S \<Longrightarrow> P a \<Longrightarrow> P (snd (body c a))"
    and "set rest \<subseteq> S" and "P a"
  shows "P (snd (lru_walk body n pre rest a))"
  using assms(2,3)
proof (induction n arbitrary: pre rest a)
  case 0
  then show ?case by (cases rest) auto
next
  case (Suc n)
  show ?case
  proof (cases rest)
    case (Cons c cs)
    obtain act a' where b: "body c a = (act, a')"
      by fastforce
    have "P a'"
      using assms(1) [of c a] Suc.prems Cons b by simp
    then show ?thesis
      using Suc.IH [of cs a' "pre @ [c]"] Suc.IH [of "cs @ [c]" a' pre] Suc.prems Cons b
      by (auto split: walk_act.splits)
  qed (use Suc.prems in simp)
qed

lemma partial_pause_walk_spec:
  assumes "partial_pause_walk paused num pre rest pause part = (l, pause', part')"
  shows "mset l = mset pre + mset rest" and "pause' \<union> part' = pause \<union> part" and "pause' \<subseteq> pause"
  using assms
  by (induction paused num pre rest pause part arbitrary: l pause' part'
      rule: partial_pause_walk.induct)
    (auto split: if_splits)

section \<open>Selecting CPUs to pause\<close>

text \<open>
  \<open>pausable\<close> CPUs are active and not excluded from hotplug. The invariant of the walks bounds
  the CPUs selected on top of \<open>P0\<close> by the counter and the counter by \<open>lim\<close>.
\<close>

definition pausable :: "nat \<Rightarrow> 'z corectl_scheme \<Rightarrow> cpumask" where
  "pausable k s = {c \<in> set (lru (cluster_state s k)). is_active c s \<and> \<not> disabled (cpu_state s c)}"

definition selected :: "cpumask \<Rightarrow> cpumask \<Rightarrow> nat \<Rightarrow> cpumask \<times> nat \<Rightarrow> bool" where
  "selected P0 ok lim a \<longleftrightarrow>
     (\<exists>new. fst a = P0 \<union> new \<and> new \<subseteq> ok \<and> finite new \<and> card new \<le> snd a) \<and> snd a \<le> lim"

lemma selected_insert:
  assumes "selected P0 ok lim (m, p)" and "c \<in> ok" and "p < lim"
  shows "selected P0 ok lim (insert c m, p + 1)"
proof -
  obtain new where new: "m = P0 \<union> new" "new \<subseteq> ok" "finite new" "card new \<le> p"
    using assms(1) by (auto simp: selected_def)
  then show ?thesis
    using assms(2,3) by (auto simp: selected_def card_insert_if intro!: exI [of _ "insert c new"])
qed

lemma selected_mono: "selected P0 ok lim a \<Longrightarrow> ok \<subseteq> ok' \<Longrightarrow> lim \<le> lim' \<Longrightarrow> selected P0 ok' lim' a"
  by (auto simp: selected_def intro: order_trans)

lemma pause_body_selected:
  fixes s :: "'z corectl_scheme"
  assumes "selected P0 {c \<in> pausable k s. \<not> is_busy (cpu_state s c)} (act - need) a"
    and "c \<in> set (lru (cluster_state s k))" and "act = active_cpus (cluster_state s k)"
    and "need \<le> act" and "act < 2 ^ 32"
  shows "selected P0 {c \<in> pausable k s. \<not> is_busy (cpu_state s c)} (act - need)
           (snd (pause_body s k need c a))"
proof -
  obtain m p where a: "a = (m, p)" by fastforce
  have p: "p \<le> act - need"
    using assms(1) by (simp add: a selected_def)
  then have sub: "u32_sub act p = act - p"
    using assms(4,5) by (intro u32_sub_id) auto
  show ?thesis
    using assms(1-4) p sub selected_insert [of P0 _ "act - need" m p c]
    by (auto simp: pause_body_def a Let_def pausable_def)
qed

lemma force_pause_body_selected:
  fixes s :: "'z corectl_scheme"
  assumes "selected P0 (pausable k s) lim a"
    and "c \<in> set (lru (cluster_state s k))" and "act = active_cpus (cluster_state s k)"
    and "act - max_cpus (cluster_state s k) \<le> lim" and "lim \<le> act" and "act < 2 ^ 32"
  shows "selected P0 (pausable k s) lim (snd (force_pause_body s k fp c a))"
proof -
  obtain m p where a: "a = (m, p)" by fastforce
  have p: "p \<le> lim"
    using assms(1) by (simp add: a selected_def)
  then have sub: "u32_sub act p = act - p"
    using assms(5,6) by (intro u32_sub_id) auto
  show ?thesis
    using assms(1-4) p sub selected_insert [of P0 "pausable k s" lim m p c]
    by (auto simp: force_pause_body_def a Let_def pausable_def)
qed

lemma force_pause_pass_selected:
  fixes s :: "'z corectl_scheme"
  assumes "selected P0 (pausable k s) lim (snd a)"
    and "set (fst a) = set (lru (cluster_state s k))" and "act = active_cpus (cluster_state s k)"
    and "act - max_cpus (cluster_state s k) \<le> lim" and "lim \<le> act" and "act < 2 ^ 32"
  shows "selected P0 (pausable k s) lim (snd (force_pause_pass s k fp a))"
    and "mset (fst (force_pause_pass s k fp a)) = mset (fst a)"
proof -
  obtain l m p where a: "a = (l, m, p)" by (cases a)
  show "selected P0 (pausable k s) lim (snd (force_pause_pass s k fp a))"
    using assms(1,2)
    by (auto simp: force_pause_pass_def a Let_def
        intro!: lru_walk_inv [where S = "set l" and P = "selected P0 (pausable k s) lim"]
          force_pause_body_selected [OF _ _ assms(3-6)])
  show "mset (fst (force_pause_pass s k fp a)) = mset (fst a)"
    by (simp add: force_pause_pass_def a Let_def lru_walk_mset)
qed

lemma select_to_pause_spec:
  fixes s :: "'z corectl_scheme"
  assumes "need \<le> act" and "act < 2 ^ 32" and "act = active_cpus (cluster_state s k)"
    and "lim = act - min need (max_cpus (cluster_state s k))"
  shows "selected P0 (pausable k s) lim (snd (select_to_pause s k need P0))"
    and "mset (fst (select_to_pause s k need P0)) = mset (lru (cluster_state s k))"
    and "act \<le> max_cpus (cluster_state s k) \<Longrightarrow>
           selected P0 {c \<in> pausable k s. \<not> is_busy (cpu_state s c)} (act - need)
             (snd (select_to_pause s k need P0))"
proof -
  let ?cl = "cluster_state s k"
  let ?idle = "{c \<in> pausable k s. \<not> is_busy (cpu_state s c)}"
  define a1 where "a1 = lru_walk (pause_body s k need) (num_cpus ?cl) [] (lru ?cl) (P0, 0)"
  define a2 where "a2 = force_pause_pass s k (nr_not_preferred_cpus ?cl \<noteq> 0) a1"
  have sel: "select_to_pause s k need P0 =
      (if nr_not_preferred_cpus ?cl \<noteq> 0 \<and> max_cpus ?cl < u32_sub act (snd (snd a2))
       then force_pause_pass s k False a2 else a2)"
    by (simp only: select_to_pause_def Let_def a1_def a2_def assms(3))
  have init: "selected P0 ?idle (act - need) (P0, 0)"
    unfolding selected_def by (auto intro!: exI [of _ "{}"])
  have i1: "selected P0 ?idle (act - need) (snd a1)"
    unfolding a1_def
  proof (rule lru_walk_inv [where S = "set (lru ?cl)" and P = "selected P0 ?idle (act - need)"])
    show "selected P0 ?idle (act - need) (snd (pause_body s k need c a))"
      if "c \<in> set (lru ?cl)" "selected P0 ?idle (act - need) a" for c a
      by (rule pause_body_selected [OF that(2,1) assms(3,1,2)])
  qed (simp_all add: init)
  have m1: "mset (fst a1) = mset (lru ?cl)"
    by (simp add: a1_def lru_walk_mset)
  have s1: "selected P0 (pausable k s) lim (snd a1)"
    by (rule selected_mono [OF i1]) (auto simp: assms(4) intro!: diff_le_mono2)
  have bounds: "act - max_cpus ?cl \<le> lim" "lim \<le> act"
    by (simp_all add: assms(4))
  note s2 = force_pause_pass_selected [OF s1 mset_eq_setD [OF m1] assms(3) bounds assms(2),
      of "nr_not_preferred_cpus ?cl \<noteq> 0", folded a2_def]
  have m2: "mset (fst a2) = mset (lru ?cl)"
    using s2(2) m1 by simp
  note s3 = force_pause_pass_selected [OF s2(1) mset_eq_setD [OF m2] assms(3) bounds assms(2), of False]
  show "selected P0 (pausable k s) lim (snd (select_to_pause s k need P0))"
    using s2(1) s3(1) by (simp add: sel)
  show "mset (fst (select_to_pause s k need P0)) = mset (lru ?cl)"
    using m2 s3(2) by (simp add: sel)
  assume le: "act \<le> max_cpus ?cl"
  have small: "u32_sub act (snd (snd a1)) \<le> max_cpus ?cl"
  proof -
    have "snd (snd a1) \<le> act"
      using i1 unfolding selected_def by linarith
    then show ?thesis
      using u32_sub_id [of "snd (snd a1)" act] assms(2) le by simp
  qed
  then have "a2 = a1"
    unfolding a2_def force_pause_pass_def assms(3) by (cases a1) simp
  then show "selected P0 ?idle (act - need) (snd (select_to_pause s k need P0))"
    using i1 small by (simp add: sel)
qed

section \<open>Bookkeeping of the paused CPUs\<close>

text \<open>
  What core control relies on in the halting interface: a successful request changes the CPUs held
  for it by exactly the CPUs requested, a failed one does not change them, and neither touches the
  mask in which core control tracks them. \<open>other\<close> is any part of the state the requests do not
  touch.
\<close>

locale cpu_pause =
  fixes pause resume :: "cpumask \<Rightarrow> 's \<Rightarrow> int \<times> cpumask \<times> 's"
    and ncpus :: "'s \<Rightarrow> nat"
    and held tracked :: "'s \<Rightarrow> cpumask"
    and set_tracked :: "cpumask \<Rightarrow> 's \<Rightarrow> 's"
    and other :: "'s \<Rightarrow> 'o"
  assumes pause_held: "pause m s = (ret, m', s') \<Longrightarrow>
        held s' = (if ret < 0 then held s else held s \<union> {c \<in> m. c < ncpus s})"
    and resume_held: "resume m s = (ret, m', s') \<Longrightarrow>
        held s' = (if ret < 0 then held s else held s - m)"
    and pause_frame: "pause m s = (ret, m', s') \<Longrightarrow>
        tracked s' = tracked s \<and> ncpus s' = ncpus s \<and> other s' = other s"
    and resume_frame: "resume m s = (ret, m', s') \<Longrightarrow>
        tracked s' = tracked s \<and> ncpus s' = ncpus s \<and> other s' = other s"
    and tracked_set: "tracked (set_tracked m s) = m"
    and set_frame: "held (set_tracked m s) = held s \<and> ncpus (set_tracked m s) = ncpus s
        \<and> other (set_tracked m s) = other s"
begin

definition in_sync :: "'s \<Rightarrow> bool" where
  "in_sync s \<longleftrightarrow> (\<forall>c < ncpus s. c \<in> tracked s \<longleftrightarrow> c \<in> held s)"

definition pause_tracked :: "cpumask \<Rightarrow> 's \<Rightarrow> 's" where
  "pause_tracked m s =
     (let saved = m - tracked s
      in if cpumask_empty (ncpus s) saved then s
         else let (ret, _, s1) = pause saved s
              in if ret < 0 then s1 else set_tracked (tracked s1 \<union> saved) s1)"

definition resume_tracked :: "cpumask \<Rightarrow> 's \<Rightarrow> 's" where
  "resume_tracked m s =
     (let saved = m \<inter> tracked s
      in if cpumask_empty (ncpus s) saved then s
         else let (ret, _, s1) = resume saved s
              in if ret < 0 then s1 else set_tracked (tracked s1 - saved) s1)"

lemma pause_tracked_in_sync:
  assumes "in_sync s"
  shows "in_sync (pause_tracked m s)"
proof -
  obtain ret m' s1 where p: "pause (m - tracked s) s = (ret, m', s1)"
    by (cases "pause (m - tracked s) s")
  show ?thesis
    using assms pause_held [OF p] pause_frame [OF p]
    by (auto simp: in_sync_def pause_tracked_def Let_def p set_frame tracked_set)
qed

lemma resume_tracked_in_sync:
  assumes "in_sync s"
  shows "in_sync (resume_tracked m s)"
proof -
  obtain ret m' s1 where p: "resume (m \<inter> tracked s) s = (ret, m', s1)"
    by (cases "resume (m \<inter> tracked s) s")
  show ?thesis
    using assms resume_held [OF p] resume_frame [OF p]
    by (auto simp: in_sync_def resume_tracked_def Let_def p set_frame tracked_set)
qed

lemma pause_tracked_frame: "other (pause_tracked m s) = other s \<and> ncpus (pause_tracked m s) = ncpus s"
proof -
  obtain ret m' s1 where p: "pause (m - tracked s) s = (ret, m', s1)"
    by (cases "pause (m - tracked s) s")
  show ?thesis
    using pause_frame [OF p] by (simp add: pause_tracked_def Let_def p set_frame)
qed

lemma resume_tracked_frame: "other (resume_tracked m s) = other s \<and> ncpus (resume_tracked m s) = ncpus s"
proof -
  obtain ret m' s1 where p: "resume (m \<inter> tracked s) s = (ret, m', s1)"
    by (cases "resume (m \<inter> tracked s) s")
  show ?thesis
    using resume_frame [OF p] by (simp add: resume_tracked_def Let_def p set_frame)
qed

end

text \<open>The CPUs a client votes for.\<close>

definition voted_by :: "8 word \<Rightarrow> pause_type \<Rightarrow> 'z halt_state_scheme \<Rightarrow> cpumask" where
  "voted_by client t s = {c. c < nr_cpu_ids s \<and> client_vote_mask s c t AND client \<noteq> 0}"

definition tracked_cpus :: "pause_type \<Rightarrow> 'z halt_state_scheme \<Rightarrow> cpumask" where
  "tracked_cpus t s = (case t of HALT \<Rightarrow> cpus_paused_by_us s | PARTIAL_HALT \<Rightarrow> cpus_part_paused_by_us s)"

definition other_pause :: "pause_type \<Rightarrow> 'z halt_state_scheme \<Rightarrow> cpumask \<times> cpumask" where
  "other_pause t s =
     (let t' = (if t = HALT then PARTIAL_HALT else HALT)
      in (voted_by PAUSE_CORE_CTL t' s, tracked_cpus t' s))"

lemma and_not_self: "(v AND NOT w) AND w = (0 :: 8 word)"
  by (auto simp: bit_eq_iff bit_and_iff bit_not_iff)

lemma walt_halt_cpus_tracked:
  assumes "walt_halt_cpus m client type s = (ret, m', s')"
  shows "tracked_cpus t s' = tracked_cpus t s"
proof -
  have loop: "tracked_cpus t (snd (halt_cpus_loop cs type s)) = tracked_cpus t s" for cs
    by (rule halt_cpus_loop_frame) (simp_all add: tracked_cpus_def split: pause_type.splits)
  have restr: "tracked_cpus t (restrict_cpus_and_freq cs u) = tracked_cpus t u"
    for cs and u :: "'a halt_state_scheme"
    by (rule restrict_cpus_and_freq_frame) (simp_all add: tracked_cpus_def split: pause_type.splits)
  have upd: "tracked_cpus t (update_clients cs b c type u) = tracked_cpus t u"
    for cs b c and u :: "'a halt_state_scheme"
    by (rule update_clients_frame) (simp add: tracked_cpus_def split: pause_type.splits)
  have drain: "tracked_cpus t (u\<lparr>cpus_to_drain := x, drain_wakeups := y\<rparr>) = tracked_cpus t u"
    for x y and u :: "'a halt_state_scheme"
    by (simp add: tracked_cpus_def split: pause_type.splits)
  have "tracked_cpus t (snd (halt_cpus cs type s)) = tracked_cpus t s" for cs
    using loop [of "for_each_cpu (nr_cpu_ids s) cs"]
    by (cases "halt_cpus_loop (for_each_cpu (nr_cpu_ids s) cs) type s")
      (simp add: halt_cpus_def Let_def restr drain)
  note halt = this [of "update_halt_cpus m type s"]
  obtain r s1 where h: "halt_cpus (update_halt_cpus m type s) type s = (r, s1)"
    by fastforce
  have "s' \<in> {update_clients m True client type s, s1, update_clients m True client type s1}"
    using assms by (auto simp: walt_halt_cpus_def Let_def empty_update_halt_cpus h split: if_splits)
  moreover have "tracked_cpus t s1 = tracked_cpus t s"
    using halt by (simp only: h snd_conv)
  ultimately show ?thesis
    by (elim insertE emptyE) (simp_all only: upd)
qed

lemma walt_start_cpus_tracked:
  assumes "walt_start_cpus m client type s = (ret, m', s')"
  shows "tracked_cpus t s' = tracked_cpus t s"
proof -
  have loop: "tracked_cpus t (fold (start_one_cpu type) cs u) = tracked_cpus t u"
    for cs and u :: "'a halt_state_scheme"
    by (rule start_loop_frame) (simp_all add: tracked_cpus_def split: pause_type.splits)
  have restr: "tracked_cpus t (restrict_cpus_and_freq cs u) = tracked_cpus t u"
    for cs and u :: "'a halt_state_scheme"
    by (rule restrict_cpus_and_freq_frame) (simp_all add: tracked_cpus_def split: pause_type.splits)
  have upd: "tracked_cpus t (update_clients cs b c type u) = tracked_cpus t u"
    for cs b c and u :: "'a halt_state_scheme"
    by (rule update_clients_frame) (simp add: tracked_cpus_def split: pause_type.splits)
  show ?thesis
  proof -
    let ?s1 = "update_clients m False client type s"
    let ?m = "update_halt_cpus m type ?s1"
    have "s' = restrict_cpus_and_freq ?m
        (fold (start_one_cpu type) (for_each_cpu (nr_cpu_ids ?s1) ?m) ?s1)"
      using assms by (auto simp: walt_start_cpus_def start_cpus_def Let_def)
    then show ?thesis
      by (simp only: loop restr upd)
  qed
qed

lemma or_and_zero: "((v :: 8 word) OR w) AND b = 0 \<longleftrightarrow> v AND b = 0 \<and> w AND b = 0"
  by (auto simp: bit_eq_iff bit_or_iff bit_and_iff)

lemma and_not_and: "(w :: 8 word) AND b = 0 \<Longrightarrow> (v AND NOT w) AND b = v AND b"
  by (auto simp: bit_eq_iff bit_and_iff bit_not_iff)

lemma walt_halt_cpus_voted:
  assumes "walt_halt_cpus m client type s = (ret, m', s')"
  shows "voted_by b t s' = (if ret < 0 \<or> t \<noteq> type \<or> client AND b = 0 then voted_by b t s
           else voted_by b t s \<union> {c \<in> m. c < nr_cpu_ids s})"
  unfolding voted_by_def walt_halt_cpus_result(3,4) [OF assms]
  by (auto simp: or_and_zero)

lemma walt_start_cpus_voted:
  assumes "walt_start_cpus m client type s = (ret, m', s')"
  shows "t \<noteq> type \<or> client AND b = 0 \<Longrightarrow> voted_by b t s' = voted_by b t s"
    and "t = type \<Longrightarrow> voted_by client t s' = voted_by client t s - m"
  unfolding voted_by_def walt_start_cpus_result(2,4) [OF assms]
  by (auto simp: and_not_and and_not_self)

lemma set_tracked_frame:
  "voted_by b t (s\<lparr>cpus_paused_by_us := m\<rparr>) = voted_by b t s"
  "voted_by b t (s\<lparr>cpus_part_paused_by_us := m\<rparr>) = voted_by b t s"
  "tracked_cpus t (s\<lparr>cpus_paused_by_us := m\<rparr>) = (if t = HALT then m else tracked_cpus t s)"
  "tracked_cpus t (s\<lparr>cpus_part_paused_by_us := m\<rparr>) = (if t = HALT then tracked_cpus t s else m)"
  by (auto simp: voted_by_def tracked_cpus_def split: pause_type.splits)

lemma pause_request:
  assumes "walt_halt_cpus m PAUSE_CORE_CTL t s = (ret, m', s') \<or> ret < 0 \<and> s' = s"
  shows "voted_by PAUSE_CORE_CTL t s' = (if ret < 0 then voted_by PAUSE_CORE_CTL t s
             else voted_by PAUSE_CORE_CTL t s \<union> {c \<in> m. c < nr_cpu_ids s})
         \<and> tracked_cpus t s' = tracked_cpus t s \<and> nr_cpu_ids s' = nr_cpu_ids s
         \<and> other_pause t s' = other_pause t s"
proof (cases "ret < 0 \<and> s' = s")
  case False
  then have h: "walt_halt_cpus m PAUSE_CORE_CTL t s = (ret, m', s')"
    using assms by blast
  show ?thesis
    by (simp add: walt_halt_cpus_voted [OF h] walt_halt_cpus_tracked [OF h]
        walt_halt_cpus_result(4) [OF h] other_pause_def Let_def)
qed simp

lemma resume_request:
  assumes "walt_start_cpus m PAUSE_CORE_CTL t s = (ret, m', s') \<or> ret < 0 \<and> s' = s"
  shows "voted_by PAUSE_CORE_CTL t s' = (if ret < 0 then voted_by PAUSE_CORE_CTL t s
             else voted_by PAUSE_CORE_CTL t s - m)
         \<and> tracked_cpus t s' = tracked_cpus t s \<and> nr_cpu_ids s' = nr_cpu_ids s
         \<and> other_pause t s' = other_pause t s"
proof (cases "ret < 0 \<and> s' = s")
  case False
  then have h: "walt_start_cpus m PAUSE_CORE_CTL t s = (ret, m', s')"
    using assms by blast
  show ?thesis
    by (simp add: walt_start_cpus_voted [OF h] walt_start_cpus_tracked [OF h]
        walt_start_cpus_result(1,4) [OF h] other_pause_def Let_def)
qed simp

lemma pause_entry_cases:
  "walt_pause_cpus m c s = (ret, m', s') \<Longrightarrow> walt_halt_cpus m c HALT s = (ret, m', s') \<or> ret < 0 \<and> s' = s"
  "walt_partial_pause_cpus m c s = (ret, m', s') \<Longrightarrow>
     walt_halt_cpus m c PARTIAL_HALT s = (ret, m', s') \<or> ret < 0 \<and> s' = s"
  "walt_resume_cpus m c s = (ret, m', s') \<Longrightarrow> walt_start_cpus m c HALT s = (ret, m', s') \<or> ret < 0 \<and> s' = s"
  "walt_partial_resume_cpus m c s = (ret, m', s') \<Longrightarrow>
     walt_start_cpus m c PARTIAL_HALT s = (ret, m', s') \<or> ret < 0 \<and> s' = s"
  by (auto simp: halt_entry_defs split: if_splits)

interpretation full: cpu_pause
  "\<lambda>m. walt_pause_cpus m PAUSE_CORE_CTL" "\<lambda>m. walt_resume_cpus m PAUSE_CORE_CTL"
  nr_cpu_ids "voted_by PAUSE_CORE_CTL HALT" "tracked_cpus HALT"
  "\<lambda>m s. s\<lparr>cpus_paused_by_us := m\<rparr>" "other_pause HALT"
proof (unfold_locales, goal_cases)
  case (1 m s ret m' s')
  show ?case
    using pause_request [OF pause_entry_cases(1) [OF 1]] by blast
next
  case (2 m s ret m' s')
  show ?case
    using resume_request [OF pause_entry_cases(3) [OF 2]] by blast
next
  case (3 m s ret m' s')
  show ?case
    using pause_request [OF pause_entry_cases(1) [OF 3]] by blast
next
  case (4 m s ret m' s')
  show ?case
    using resume_request [OF pause_entry_cases(3) [OF 4]] by blast
qed (simp_all add: set_tracked_frame other_pause_def Let_def)

interpretation part: cpu_pause
  "\<lambda>m. walt_partial_pause_cpus m PAUSE_CORE_CTL" "\<lambda>m. walt_partial_resume_cpus m PAUSE_CORE_CTL"
  nr_cpu_ids "voted_by PAUSE_CORE_CTL PARTIAL_HALT" "tracked_cpus PARTIAL_HALT"
  "\<lambda>m s. s\<lparr>cpus_part_paused_by_us := m\<rparr>" "other_pause PARTIAL_HALT"
proof (unfold_locales, goal_cases)
  case (1 m s ret m' s')
  show ?case
    using pause_request [OF pause_entry_cases(2) [OF 1]] by blast
next
  case (2 m s ret m' s')
  show ?case
    using resume_request [OF pause_entry_cases(4) [OF 2]] by blast
next
  case (3 m s ret m' s')
  show ?case
    using pause_request [OF pause_entry_cases(2) [OF 3]] by blast
next
  case (4 m s ret m' s')
  show ?case
    using resume_request [OF pause_entry_cases(4) [OF 4]] by blast
qed (simp_all add: set_tracked_frame other_pause_def Let_def)

text \<open>
  The masks of core control are in sync with its votes: a CPU is tracked as paused exactly when
  the halting component holds a vote of core control for it.
\<close>

definition paused_in_sync :: "'z halt_state_scheme \<Rightarrow> bool" where
  "paused_in_sync s \<longleftrightarrow>
     (\<forall>t. \<forall>c < nr_cpu_ids s. c \<in> tracked_cpus t s \<longleftrightarrow> client_vote_mask s c t AND PAUSE_CORE_CTL \<noteq> 0)"

lemma paused_in_sync_split: "paused_in_sync s \<longleftrightarrow> full.in_sync s \<and> part.in_sync s"
proof -
  have "(\<forall>t. P t) \<longleftrightarrow> P HALT \<and> P PARTIAL_HALT" for P
    by (metis pause_type.exhaust)
  then show ?thesis
    by (simp add: paused_in_sync_def full.in_sync_def part.in_sync_def voted_by_def)
qed

lemma part_in_sync_other: "part.in_sync s \<longleftrightarrow>
    (\<forall>c < nr_cpu_ids s. c \<in> snd (other_pause HALT s) \<longleftrightarrow> c \<in> fst (other_pause HALT s))"
  by (simp add: part.in_sync_def other_pause_def Let_def)

lemma full_in_sync_other: "full.in_sync s \<longleftrightarrow>
    (\<forall>c < nr_cpu_ids s. c \<in> snd (other_pause PARTIAL_HALT s) \<longleftrightarrow> c \<in> fst (other_pause PARTIAL_HALT s))"
  by (simp add: full.in_sync_def other_pause_def Let_def)

lemma core_ctl_pause_parts:
  "core_ctl_full_pause_cpus m s = full.pause_tracked m s"
  "core_ctl_part_pause_cpus m s = part.pause_tracked m s"
  "core_ctl_full_resume_cpus m s = full.resume_tracked m s"
  "core_ctl_part_resume_cpus m s = part.resume_tracked m s"
  by (simp_all add: core_ctl_full_pause_cpus_def core_ctl_part_pause_cpus_def
      core_ctl_full_resume_cpus_def core_ctl_part_resume_cpus_def full.pause_tracked_def
      part.pause_tracked_def full.resume_tracked_def part.resume_tracked_def tracked_cpus_def Let_def
      split: prod.splits)

lemma core_ctl_requests_in_sync:
  assumes "paused_in_sync s"
  shows "paused_in_sync (core_ctl_pause_cpus p pp s)" and "paused_in_sync (core_ctl_resume_cpus p pp s)"
proof -
  have full: "paused_in_sync u \<Longrightarrow> paused_in_sync (full.pause_tracked m u)"
    "paused_in_sync u \<Longrightarrow> paused_in_sync (full.resume_tracked m u)" for m u
    by (simp_all add: paused_in_sync_split full.pause_tracked_in_sync full.resume_tracked_in_sync
        part_in_sync_other full.pause_tracked_frame full.resume_tracked_frame)
  have part: "paused_in_sync u \<Longrightarrow> paused_in_sync (part.pause_tracked m u)"
    "paused_in_sync u \<Longrightarrow> paused_in_sync (part.resume_tracked m u)" for m u
    by (simp_all add: paused_in_sync_split part.pause_tracked_in_sync part.resume_tracked_in_sync
        full_in_sync_other part.pause_tracked_frame part.resume_tracked_frame)
  show "paused_in_sync (core_ctl_pause_cpus p pp s)" "paused_in_sync (core_ctl_resume_cpus p pp s)"
    by (simp_all add: core_ctl_pause_cpus_def core_ctl_resume_cpus_def core_ctl_pause_parts
        full part assms)
qed

section \<open>Frames of the evaluation\<close>

text \<open>What the evaluation of the need and the selection of CPUs leave unchanged.\<close>

definition sync_view where
  "sync_view s = (nr_cpu_ids s, client_vote_mask s, cpus_paused_by_us s, cpus_part_paused_by_us s)"

lemma paused_in_sync_view: "sync_view s = sync_view s' \<Longrightarrow> paused_in_sync s = paused_in_sync s'"
proof -
  assume v: "sync_view s = sync_view s'"
  then have "tracked_cpus t s = tracked_cpus t s'" for t
    by (cases t) (simp_all add: sync_view_def tracked_cpus_def)
  with v show ?thesis
    by (simp add: sync_view_def paused_in_sync_def)
qed

lemma upd_view [simp]:
  "sync_view (upd_cluster k f s) = sync_view s" "sync_view (upd_cpu c g s) = sync_view s"
  "num_clusters (upd_cluster k f s) = num_clusters s" "num_clusters (upd_cpu c g s) = num_clusters s"
  by (simp_all add: sync_view_def upd_cluster_def upd_cpu_def)

lemma try_to_partial_pause_view:
  "try_to_partial_pause k (p, q, s) = (p', q', s') \<Longrightarrow> sync_view s' = sync_view s"
  by (auto simp: try_to_partial_pause_def Let_def split: if_splits prod.splits)

lemma try_to_pause_view: "try_to_pause k need (p, q, s) = (p', q', s') \<Longrightarrow> sync_view s' = sync_view s"
  by (auto simp: try_to_pause_def Let_def split: prod.splits dest!: try_to_partial_pause_view)

lemma try_to_resume_view: "try_to_resume k need (p, q, s) = (p', q', s') \<Longrightarrow> sync_view s' = sync_view s"
  by (auto simp: try_to_resume_def try_to_resume_pass_def Let_def split: if_splits prod.splits)

lemma adjust_cluster_view: "sync_view (snd (adjust_cluster k a)) = sync_view (snd a)"
proof -
  obtain m s where a: "a = (m, s)" by fastforce
  show ?thesis
    by (auto simp: adjust_cluster_def a Let_def split: prod.splits
        dest!: try_to_pause_view try_to_resume_view)
qed

lemma do_core_ctl_in_sync:
  assumes "paused_in_sync s"
  shows "paused_in_sync (do_core_ctl s)"
proof -
  obtain m s1 where f: "fold adjust_cluster [0..<num_clusters s] (no_adjustment, s) = (m, s1)"
    by fastforce
  have "sync_view (snd (fold adjust_cluster ks a)) = sync_view (snd a)" for ks and a :: "adjust_masks \<times> 'a corectl_scheme"
    by (rule fold_field [where g = "\<lambda>a. sync_view (snd a)"]) (rule adjust_cluster_view)
  from this [of "[0..<num_clusters s]" "(no_adjustment, s)"] have "sync_view s1 = sync_view s"
    by (simp add: f)
  then have "paused_in_sync s1"
    using assms paused_in_sync_view by blast
  then show ?thesis
    by (simp add: do_core_ctl_def f core_ctl_requests_in_sync)
qed

lemma eval_need_view: "eval_need now k s = (b, s') \<Longrightarrow> sync_view s' = sync_view s"
  by (auto simp: eval_need_def Let_def split: if_splits)

lemma nr_busy_view: "compute_cluster_nr_busy irq k s = (b, s') \<Longrightarrow> sync_view s' = sync_view s"
proof -
  assume r: "compute_cluster_nr_busy irq k s = (b, s')"
  have "sync_view (snd (nr_busy_step irq k th c a)) = sync_view (snd a)"
    for th c and a :: "nat \<times> 'a corectl_scheme"
    by (simp add: nr_busy_step_def Let_def split: prod.splits)
  then have "sync_view (snd (fold (nr_busy_step irq k th) cs a)) = sync_view (snd a)"
    for th cs and a :: "nat \<times> 'a corectl_scheme"
    by (rule fold_field [where g = "\<lambda>a. sync_view (snd a)"])
  from arg_cong [OF r, of "\<lambda>x. sync_view (snd x)"] this show ?thesis
    by (simp add: compute_cluster_nr_busy_def Let_def)
qed

lemma update_cluster_avg_view:
  "sync_view (snd (snd (update_cluster_avg st irq k a))) = sync_view (snd (snd a))"
  by (auto simp: update_cluster_avg_def Let_def split: prod.splits dest!: nr_busy_view)

lemma rotation_view: "sync_view (walt_rotation_checkpoint w g s) = sync_view s"
proof -
  have "sync_view (update_smart_freq_capacities u) = sync_view u" for u :: "'a corectl_scheme"
    by (rule update_smart_freq_capacities_frame) (simp_all add: sync_view_def)
  then show ?thesis
    by (simp add: walt_rotation_checkpoint_def Let_def) (simp add: sync_view_def set_high_perf_cap_def)
qed

lemma update_running_avg_view: "sync_view (update_running_avg st irq w ctr s) = sync_view s"
proof -
  have smart: "sync_view (smart_freq_update_reason_common w b ctr u) = sync_view u"
    for b and u :: "'a corectl_scheme"
    by (rule smart_freq_update_reason_common_frame) (simp_all add: sync_view_def)
  obtain b g s1 where f: "fold (update_cluster_avg st irq) [0..<num_clusters s] (0, 0, s) = (b, g, s1)"
    by (cases "fold (update_cluster_avg st irq) [0..<num_clusters s] (0, 0, s)")
  have "sync_view (snd (snd (fold (update_cluster_avg st irq) ks a))) = sync_view (snd (snd a))"
    for ks and a :: "int \<times> int \<times> 'a corectl_scheme"
    by (rule fold_field [where g = "\<lambda>a. sync_view (snd (snd a))"]) (rule update_cluster_avg_view)
  from this [of "[0..<num_clusters s]" "(0, 0, s)"] have "sync_view s1 = sync_view s"
    by (simp add: f)
  then have "sync_view (s1\<lparr>last_nr_big := x\<rparr>) = sync_view s" for x
    by (simp add: sync_view_def)
  then show ?thesis
    by (simp add: update_running_avg_def f Let_def smart rotation_view)
qed

lemma update_busy_pct_view: "sync_view (update_busy_pct u s) = sync_view s"
  unfolding update_busy_pct_def by (rule fold_field) (simp split: option.splits)

lemma eval_all_view: "eval_all now s = (b, s') \<Longrightarrow> sync_view s' = sync_view s"
proof -
  assume r: "eval_all now s = (b, s')"
  have "sync_view (snd (fold (\<lambda>k (w, s). let (b, s') = eval_need (now k) k s in (w \<or> b, s')) ks a))
      = sync_view (snd a)" for ks and a :: "bool \<times> 'a corectl_scheme"
    by (rule fold_field [where g = "\<lambda>a. sync_view (snd a)"])
      (auto simp: Let_def split: prod.splits dest: eval_need_view)
  from arg_cong [OF r, of "\<lambda>x. sync_view (snd x)"] this show ?thesis
    by (simp add: eval_all_def)
qed

lemma in_sync_other_client:
  assumes "walt_halt_cpus m PAUSE_SBT t s = (ret, m', s') \<or> walt_start_cpus m PAUSE_SBT t s = (ret, m', s')
      \<or> s' = s"
    and "paused_in_sync s"
  shows "paused_in_sync s'"
proof -
  have bits: "PAUSE_SBT AND PAUSE_CORE_CTL = 0"
    by simp
  have "voted_by PAUSE_CORE_CTL u s' = voted_by PAUSE_CORE_CTL u s \<and> tracked_cpus u s' = tracked_cpus u s
      \<and> nr_cpu_ids s' = nr_cpu_ids s" for u
    using assms(1)
  proof (elim disjE)
    assume h: "walt_halt_cpus m PAUSE_SBT t s = (ret, m', s')"
    show ?thesis
      by (simp add: walt_halt_cpus_voted [OF h] walt_halt_cpus_tracked [OF h]
          walt_halt_cpus_result(4) [OF h] bits)
  next
    assume h: "walt_start_cpus m PAUSE_SBT t s = (ret, m', s')"
    show ?thesis
      by (simp add: walt_start_cpus_voted(1) [OF h] walt_start_cpus_tracked [OF h]
          walt_start_cpus_result(4) [OF h] bits)
  qed simp
  with assms(2) show ?thesis
    by (simp add: paused_in_sync_split full.in_sync_def part.in_sync_def)
qed

lemma sbt_ctl_check_in_sync:
  assumes "paused_in_sync s"
  shows "paused_in_sync (sbt_ctl_check ctr s)"
proof -
  have view: "sync_view (u\<lparr>now_is_sbt := b\<rparr>) = sync_view u" "sync_view (u\<lparr>prev_is_sbt := b\<rparr>) = sync_view u"
    "sync_view (u\<lparr>prev_is_sbt_windows := x\<rparr>) = sync_view u"
    "sync_view (u\<lparr>prev_is_sbt_windows := x, prev_is_sbt := b\<rparr>) = sync_view u"
    for u :: "'a corectl_scheme" and b x
    by (simp_all add: sync_view_def)
  note keep = view [THEN paused_in_sync_view]
  have requests: "paused_in_sync (snd (snd (walt_pause_cpus m PAUSE_SBT u)))"
    "paused_in_sync (snd (snd (walt_resume_cpus m PAUSE_SBT u)))"
    if "paused_in_sync u" for m and u :: "'a corectl_scheme"
    using that
    by (cases "walt_pause_cpus m PAUSE_SBT u"; cases "walt_resume_cpus m PAUSE_SBT u";
        auto dest!: pause_entry_cases(1,3) intro: in_sync_other_client)+
  show ?thesis
    by (simp add: sbt_ctl_check_def Let_def keep requests assms)
qed

lemma selectedD:
  "selected P0 ok lim (m, p) \<Longrightarrow> \<exists>new. m = P0 \<union> new \<and> new \<subseteq> ok \<and> finite new \<and> card new \<le> lim"
  unfolding selected_def by (auto intro: order_trans)

lemma try_to_partial_pause_spec:
  assumes "try_to_partial_pause k (P, Q, s) = (P', Q', s')"
  shows "P' \<union> Q' = P \<union> Q \<and> mset (lru (cluster_state s' k)) = mset (lru (cluster_state s k))"
proof -
  define num where "num = s32 (int (min_partial_cpus (cluster_state s k))
      - int (cpumask_weight (nr_cpu_ids s) (cpus_part_paused_by_us s)))"
  obtain l p q where w: "partial_pause_walk (cpus_part_paused_by_us s) num []
      (lru (cluster_state s k)) P Q = (l, p, q)"
    by (cases "partial_pause_walk (cpus_part_paused_by_us s) num [] (lru (cluster_state s k)) P Q")
  have "(P', Q', s') = (if num \<le> 0 then (P, Q, s) else (p, q, upd_cluster k (lru_update (\<lambda>_. l)) s))"
    using assms
    unfolding try_to_partial_pause_def Let_def prod.case num_def [symmetric] w by (simp split: if_splits)
  then show ?thesis
    using partial_pause_walk_spec(1,2) [OF w] by (simp add: upd_cluster_def split: if_splits)
qed

text \<open>Unfolding a walk with a numeral as counter.\<close>

lemma lru_walk_numeral:
  "lru_walk body (numeral n) pre (c # cs) a =
     (case body c a of
        (Skip, a') \<Rightarrow> lru_walk body (pred_numeral n) (pre @ [c]) cs a'
      | (Stop, a') \<Rightarrow> (pre @ c # cs, a')
      | (Move, a') \<Rightarrow>
          if cs = [] then (pre @ [c], a') else lru_walk body (pred_numeral n) pre (cs @ [c]) a')"
  by (simp add: numeral_eq_Suc [of n])

section \<open>Properties of core control\<close>

definition example_cluster :: cluster_data where
  "example_cluster =
     \<lparr>inited = True, min_cpus = 1, min_partial_cpus = 0, max_cpus = 4, offline_delay_ms = 100,
      busy_up_thres = (\<lambda>_. 60), busy_down_thres = (\<lambda>_. 30), active_cpus = 4, num_cpus = 4,
      nr_not_preferred_cpus = 0, cpu_mask = {2, 3, 4, 5}, need_cpus = 4, task_thres = 4294967295,
      max_nr = 0, nr_assist = 0, nr_busy = 1, nr_big = 0, need_ts = 0, lru = [2, 3, 4, 5],
      enable = True, nrrun = 1, first_cpu = 2, boost = 0, strict_nrrun = 0, nrrun_cpu_mask = {2, 3, 4, 5},
      nrrun_cpu_misfit_mask = {}, nrrun_cpu_min_misfit = 0, assist_cpu_mask = {},
      assist_cpu_misfit_mask = {}, assist_cpu_min_misfit = 0\<rparr>"

definition example_corectl :: corectl where
  "example_corectl = halt_state.extend example_halt
     \<lparr>cluster_state = (\<lambda>_. example_cluster), num_clusters = 1,
      cpu_state = (\<lambda>c. \<lparr>is_busy = (c = 2), busy_pct = 0, not_preferred = False,
                        cpu_data_cluster = Some 0, disabled = False\<rparr>),
      core_ctl_pending = False, core_ctl_wakeups = 0, core_ctl_initialized = True,
      assist_params_initialized = True, last_nr_big = 0, core_ctl_check_timestamp = 0,
      cpus_for_sbt_pause = {}, now_is_sbt = False, prev_is_sbt_windows = 0,
      sysctl_sched_sbt_enable = 1, sysctl_sched_sbt_delay_windows = 0,
      cpu_array = (\<lambda>k. if k = 0 then {0, 1, 2, 3} else {4, 5}), cpu_possible_mask = {0, 1, 2, 3, 4, 5},
      nr_cpumask_bits = 6, hmp_capable = True, sysctl_sched_walt_rotate_big_tasks = 0,
      plenty_giant_tasks = False, walt_rotation_enabled = False,
      walt_rotation_stop_hyst_start_ts = 0, high_perf_state_hyst_start_ts = 0,
      high_perf_cluster_freq_cap = (\<lambda>_. 2147483647), core_ctl_notifier_empty = True,
      core_ctl_notified = []\<rparr>"

lemma example_corectl_simps [simp]:
  "cluster_state example_corectl = (\<lambda>_. example_cluster)" "num_clusters example_corectl = 1"
  "cpu_state example_corectl = (\<lambda>c. \<lparr>is_busy = (c = 2), busy_pct = 0, not_preferred = False,
      cpu_data_cluster = Some 0, disabled = False\<rparr>)"
  "nr_cpu_ids example_corectl = 6" "walt_disabled example_corectl = False"
  "core_ctl_initialized example_corectl = True"
  "client_vote_mask example_corectl = (\<lambda>_ _. 0)" "cpu_halt_mask example_corectl = {}"
  "cpu_partial_halt_mask example_corectl = {}" "cpus_paused_by_us example_corectl = {}"
  "cpus_part_paused_by_us example_corectl = {}" "cpu_active_mask example_corectl = {0, 1, 2, 3, 4, 5}"
  by (simp_all add: example_corectl_def example_halt_def halt_state.defs walt_globals.defs
      example_globals_def)

text \<open>
  C11 (invariant). Core control's record of the CPUs it paused agrees with its votes in the halting
  component, for full and for partial pauses, after every check at a window rollover: also when a
  request fails, and whatever single-big-thread mode does with its own votes.
\<close>

theorem core_ctl_check_in_sync:
  assumes "paused_in_sync s"
  shows "paused_in_sync (core_ctl_check st irq util now w ctr s)"
proof -
  have view: "sync_view (u\<lparr>assist_params_initialized := b\<rparr>) = sync_view u"
    "sync_view (u\<lparr>core_ctl_check_timestamp := x\<rparr>) = sync_view u"
    "sync_view (core_ctl_call_notifier u) = sync_view u" for u :: "'a corectl_scheme" and b x
    by (simp_all add: sync_view_def core_ctl_call_notifier_def)
  note keep = view [THEN paused_in_sync_view] update_busy_pct_view [THEN paused_in_sync_view]
    update_running_avg_view [THEN paused_in_sync_view]
  show ?thesis
    by (auto simp: core_ctl_check_def Let_def keep assms split: prod.splits
        dest!: eval_all_view [THEN paused_in_sync_view] intro!: sbt_ctl_check_in_sync do_core_ctl_in_sync)
qed

theorem core_ctl_check_in_sync_witness:
  "paused_in_sync (core_ctl_check (\<lambda>_. \<lparr>nr = 0, nr_misfit = 0, nr_max = 0, nr_scaled = 0, nr_giant = 0\<rparr>)
     (\<lambda>_. False) (\<lambda>_. 0) (\<lambda>_. 200) 16 0 example_corectl)"
  by (rule core_ctl_check_in_sync)
    (simp add: paused_in_sync_def tracked_cpus_def split: pause_type.splits)

text \<open>
  C24 (safety). When core control reduces a cluster to \<open>need\<close> CPUs, the CPUs it selects are
  active and not excluded from hotplug, at least \<open>need\<close> of the active CPUs are not selected, and
  no busy CPU is selected unless more CPUs are active than the cluster may have. The LRU list keeps
  its entries.
\<close>

theorem try_to_pause_keeps_needed:
  fixes s :: "'z corectl_scheme"
  assumes "try_to_pause k need (P, Q, s) = (P', Q', s')"
    and "need \<le> active_cpus (cluster_state s k)" and "need \<le> max_cpus (cluster_state s k)"
    and "active_cpus (cluster_state s k) < 2 ^ 32"
  shows "\<exists>new. P' \<union> Q' = P \<union> Q \<union> new
    \<and> (\<forall>c \<in> new. c \<in> set (lru (cluster_state s k)) \<and> is_active c s \<and> \<not> disabled (cpu_state s c))
    \<and> finite new \<and> need \<le> active_cpus (cluster_state s k) - card new
    \<and> (active_cpus (cluster_state s k) \<le> max_cpus (cluster_state s k)
        \<longrightarrow> (\<forall>c \<in> new. \<not> is_busy (cpu_state s c)))
    \<and> mset (lru (cluster_state s' k)) = mset (lru (cluster_state s k))"
proof -
  let ?act = "active_cpus (cluster_state s k)" and ?max = "max_cpus (cluster_state s k)"
  obtain l P1 pend where sel: "select_to_pause s k need P = (l, P1, pend)"
    by (cases "select_to_pause s k need P")
  note spec = select_to_pause_spec [OF assms(2,4) refl refl, of P, unfolded sel fst_conv snd_conv]
  let ?s1 = "upd_cluster k (lru_update (\<lambda>_. l)) s"
  have partial: "try_to_partial_pause k (P1, Q, ?s1) = (P', Q', s')"
    using assms(1) by (simp add: try_to_pause_def sel Let_def)
  have lru1: "lru (cluster_state ?s1 k) = l"
    by (simp add: upd_cluster_def)
  have un: "P' \<union> Q' = P1 \<union> Q \<and> mset (lru (cluster_state s' k)) = mset l"
    using try_to_partial_pause_spec [OF partial] by (simp only: lru1)
  have min: "?act - min need ?max = ?act - need"
    using assms(3) by simp
  show ?thesis
  proof (cases "?act \<le> ?max")
    case True
    obtain new where new: "P1 = P \<union> new" "new \<subseteq> {c \<in> pausable k s. \<not> is_busy (cpu_state s c)}"
      "finite new" "card new \<le> ?act - need"
      using selectedD [OF spec(3) [OF True]] by blast
    have "need \<le> ?act - card new" "P' \<union> Q' = P \<union> Q \<union> new"
      using new(1,4) un assms(2) by auto
    then show ?thesis
      using new(2,3) un spec(2) by (intro exI [of _ new]) (auto simp: pausable_def)
  next
    case False
    obtain new where new: "P1 = P \<union> new" "new \<subseteq> pausable k s" "finite new" "card new \<le> ?act - need"
      using selectedD [OF spec(1)] unfolding min by blast
    have "need \<le> ?act - card new" "P' \<union> Q' = P \<union> Q \<union> new"
      using new(1,4) un assms(2) by auto
    then show ?thesis
      using new(2,3) un spec(2) False by (intro exI [of _ new]) (auto simp: pausable_def)
  qed
qed

theorem try_to_pause_keeps_needed_witness:
  "case try_to_pause 0 2 ({}, {}, example_corectl) of (P', Q', s') \<Rightarrow>
     \<exists>new. P' \<union> Q' = new \<and> finite new \<and> 2 \<le> 4 - card new \<and> 2 \<notin> new"
proof -
  obtain P' Q' s' where run: "try_to_pause 0 2 ({}, {}, example_corectl) = (P', Q', s')"
    by (cases "try_to_pause 0 2 ({}, {}, example_corectl)")
  have fields: "active_cpus example_cluster = 4" "max_cpus example_cluster = 4"
    by (simp_all add: example_cluster_def)
  have "is_busy (cpu_state example_corectl 2)"
    by simp
  then show ?thesis
    using try_to_pause_keeps_needed [OF run] by (fastforce simp: run fields)
qed

text \<open>
  C25 (functional). Evaluating the need of a cluster: a need above the number of active CPUs is
  adopted at once; a need that does not exceed it is adopted only after the offline delay has passed
  since the last time stamp; with the limits in order the new need lies between them; and a boosted
  cluster needs as many CPUs as it may have.
\<close>

theorem eval_need_spec:
  fixes s :: "'z corectl_scheme"
  assumes "eval_need now k s = (adjust, s')" and "inited (cluster_state s k)"
    and "enable (cluster_state s k)" and "min_cpus (cluster_state s k) \<le> max_cpus (cluster_state s k)"
  shows "let c = cluster_state s k; c' = cluster_state s' k;
             new = apply_limits c (if boost c \<noteq> 0 then max_cpus c else apply_task_need c)
         in min_cpus c \<le> new \<and> new \<le> max_cpus c \<and> (boost c \<noteq> 0 \<longrightarrow> new = max_cpus c)
            \<and> (active_cpus c < new \<longrightarrow> need_cpus c' = new \<and> need_ts c' = now
                 \<and> (adjust \<longleftrightarrow> cluster_paused_cpus k s \<noteq> 0))
            \<and> (new \<le> active_cpus c \<longrightarrow>
                 need_cpus c' = (if int (offline_delay_ms c) \<le> s64 (now - need_ts c) then new
                                 else need_cpus c))"
proof -
  define c where "c = cluster_state s k"
  define new where "new = apply_limits c (if boost c \<noteq> 0 then max_cpus c else apply_task_need c)"
  have limits: "min_cpus c \<le> new" "new \<le> max_cpus c" "boost c \<noteq> 0 \<Longrightarrow> new = max_cpus c"
    using assms(3,4) by (simp_all add: new_def apply_limits_def c_def)
  have ev: "(adjust, s') =
     (if \<not> active_cpus c < new \<and> new = need_cpus c \<and> new = active_cpus c
      then (False, upd_cluster k (need_ts_update (\<lambda>_. now)) s)
      else if active_cpus c < new \<or> int (offline_delay_ms c) \<le> s64 (now - need_ts c)
      then (adjustment_possible k new s, upd_cluster k (\<lambda>c. c\<lparr>need_ts := now, need_cpus := new\<rparr>) s)
      else (False, s))"
  proof -
    have "inited c" "enable c"
      using assms(2,3) by (simp_all add: c_def)
    then show ?thesis
      unfolding assms(1) [symmetric] eval_need_def Let_def c_def [symmetric] new_def
      by (simp only: simp_thms if_True if_False not_not)
  qed
  have up: "active_cpus c < new \<Longrightarrow> need_cpus (cluster_state s' k) = new
      \<and> need_ts (cluster_state s' k) = now \<and> (adjust \<longleftrightarrow> cluster_paused_cpus k s \<noteq> 0)"
    using ev by (simp add: upd_cluster_def adjustment_possible_def c_def)
  have down: "new \<le> active_cpus c \<Longrightarrow> need_cpus (cluster_state s' k) =
      (if int (offline_delay_ms c) \<le> s64 (now - need_ts c) then new else need_cpus c)"
    using ev by (simp add: upd_cluster_def c_def split: if_splits)
  show ?thesis
    unfolding Let_def c_def [symmetric] new_def [symmetric] using limits up down by blast
qed

theorem eval_need_spec_witness:
  "case eval_need 200 0 example_corectl of (adjust, s') \<Rightarrow>
     need_cpus (cluster_state s' 0) = 1 \<and>
     (case eval_need 50 0 example_corectl of (adjust, s') \<Rightarrow> need_cpus (cluster_state s' 0) = 4)"
proof -
  have need: "apply_task_need example_cluster = 1"
    by (simp add: apply_task_need_def example_cluster_def u32_of_int_def s32_def)
  have fields: "inited example_cluster" "enable example_cluster" "min_cpus example_cluster = 1"
    "max_cpus example_cluster = 4" "active_cpus example_cluster = 4" "need_ts example_cluster = 0"
    "offline_delay_ms example_cluster = 100" "boost example_cluster = 0" "need_cpus example_cluster = 4"
    by (simp_all add: example_cluster_def)
  obtain b1 s1 where e1: "eval_need 200 0 example_corectl = (b1, s1)" by fastforce
  obtain b2 s2 where e2: "eval_need 50 0 example_corectl = (b2, s2)" by fastforce
  show ?thesis
    using eval_need_spec [OF e1] eval_need_spec [OF e2]
    by (simp add: e1 e2 fields need apply_limits_def Let_def s64_def)
qed

definition ctl_inv :: "ctl_sys \<Rightarrow> bool" where
  "ctl_inv w \<longleftrightarrow> (pending w \<longrightarrow> 0 < wakers w \<or> ctl_pc_of w \<notin> {Ctl_unlocked True, Ctl_asleep})"

lemma ctl_step_inv: "ctl_step w w' \<Longrightarrow> ctl_inv w \<Longrightarrow> ctl_inv w'"
proof (induction rule: ctl_step.induct)
  case (ctl_thread w)
  then show ?case
    by (auto simp: ctl_inv_def ctl_thread_step_def split: ctl_pc.splits)
next
  case (ctl_wake w n)
  then show ?case
    by (cases "ctl_pc_of w") (auto simp: ctl_inv_def)
qed (simp add: ctl_inv_def)

lemma ctl_steps_inv: "rtranclp ctl_step w w' \<Longrightarrow> ctl_inv w \<Longrightarrow> ctl_inv w'"
  by (induction rule: rtranclp_induct) (auto intro: ctl_step_inv)

lemma ctl_serves:
  assumes "pending w" and "ctl_pc_of w \<notin> {Ctl_unlocked True, Ctl_asleep}"
  shows "\<exists>n \<le> 3. ctl_pc_of ((ctl_thread_step ^^ n) w) = Ctl_run \<and> \<not> pending ((ctl_thread_step ^^ n) w)"
proof -
  have "\<exists>n \<in> {1, 2, 3}. ctl_pc_of ((ctl_thread_step ^^ n) w) = Ctl_run \<and> \<not> pending ((ctl_thread_step ^^ n) w)"
  proof (cases "ctl_pc_of w")
    case (Ctl_unlocked i)
    then show ?thesis
      using assms by (auto simp: ctl_thread_step_def numeral_eq_Suc)
  qed (use assms in \<open>auto simp: ctl_thread_step_def numeral_eq_Suc\<close>)
  then obtain n where "n \<in> {1, 2, 3}" "ctl_pc_of ((ctl_thread_step ^^ n) w) = Ctl_run"
    "\<not> pending ((ctl_thread_step ^^ n) w)"
    by blast
  then show ?thesis
    by (intro exI [of _ n]) auto
qed

text \<open>
  C26 (liveness). An adjustment requested from the core control thread is not lost: under every
  interleaving, once the callers have finished waking it, a thread with a pending request reaches
  the adjustment within three of its own steps, with the request consumed.
\<close>

theorem ctl_request_served:
  assumes "ctl_pc_of w0 = Ctl_top" and "rtranclp ctl_step w0 w" and "pending w" and "wakers w = 0"
  shows "\<exists>n \<le> 3. ctl_pc_of ((ctl_thread_step ^^ n) w) = Ctl_run \<and> \<not> pending ((ctl_thread_step ^^ n) w)"
proof -
  have "ctl_inv w"
    by (rule ctl_steps_inv [OF assms(2)]) (simp add: ctl_inv_def assms(1))
  with assms(3,4) show ?thesis
    by (intro ctl_serves) (auto simp: ctl_inv_def)
qed

theorem ctl_request_served_witness:
  "let w = \<lparr>ctl_pc_of = Ctl_top, pending = True, wakers = 0, adjustments = 0\<rparr>
   in \<exists>n \<le> 3. ctl_pc_of ((ctl_thread_step ^^ n) w) = Ctl_run"
  using ctl_request_served [of "\<lparr>ctl_pc_of = Ctl_top, pending = True, wakers = 0, adjustments = 0\<rparr>",
      OF _ rtranclp.rtrancl_refl]
  by (auto simp: Let_def)

text \<open>
  \<^verbatim>\<open>try_to_resume\<close> returns before it looks at partially paused CPUs when its first
  pass finds enough CPUs. If core control has only partially paused CPUs, the CPUs it just chose are
  then resumed by nobody: the request changes neither the partial pauses nor the partial halt mask.
\<close>

theorem partial_resume_skipped:
  fixes s :: "'z corectl_scheme"
  assumes "try_to_resume_pass k need False ({}, s) = (p, U, s1)"
    and "u32 (active_cpus (cluster_state s k) + p) = need" and "cpus_paused_by_us s = {}"
  shows "case try_to_resume k need ({}, {}, s) of (u, pu, s2) \<Rightarrow>
    u = U \<and> core_ctl_resume_cpus u pu s2 = s2
    \<and> cpus_part_paused_by_us s2 = cpus_part_paused_by_us s
    \<and> cpu_partial_halt_mask s2 = cpu_partial_halt_mask s"
proof -
  obtain l where s1: "s1 = upd_cluster k (lru_update (\<lambda>_. l)) s"
    using assms(1) by (auto simp: try_to_resume_pass_def Let_def split: prod.splits)
  have "try_to_resume k need ({}, {}, s) = (U, {}, s1)"
    using assms(2) by (simp add: try_to_resume_def assms(1) s1 upd_cluster_def)
  then show ?thesis
    using assms(3)
    by (simp add: core_ctl_resume_cpus_def core_ctl_full_resume_cpus_def core_ctl_part_resume_cpus_def
        Let_def s1 upd_cluster_def cpumask_empty_iff)
qed

definition example_part_paused :: corectl where
  "example_part_paused = example_corectl\<lparr>cpus_part_paused_by_us := {5}, cpu_partial_halt_mask := {5},
     cluster_state := (\<lambda>_. example_cluster\<lparr>active_cpus := 3\<rparr>)\<rparr>"

theorem partial_resume_skipped_witness:
  "case try_to_resume 0 4 ({}, {}, example_part_paused) of (u, pu, s2) \<Rightarrow>
     u = {5} \<and> core_ctl_resume_cpus u pu s2 = s2 \<and> cpu_partial_halt_mask s2 = {5}"
proof -
  have body: "resume_body example_part_paused 0 4 False c (U, p) =
      (if c \<noteq> 5 then (Skip, U, p) else if u32 (3 + p) = 4 then (Stop, U, p) else (Move, insert c U, p + 1))"
    for c U p
    by (simp add: resume_body_def example_part_paused_def Let_def is_active_def cpu_halted_def
        cpu_partial_halted_def)
  have "lru_walk (resume_body example_part_paused 0 4 False) 4 [] [2, 3, 4, 5] ({}, 0)
      = ([2, 3, 4, 5], {5}, 1)"
    by (simp add: lru_walk_numeral body u32_def)
  then obtain s1 where "try_to_resume_pass 0 4 False ({}, example_part_paused) = (1, {5}, s1)"
    by (simp add: try_to_resume_pass_def example_part_paused_def example_cluster_def Let_def)
  from partial_resume_skipped [OF this] show ?thesis
    by (auto simp: example_part_paused_def u32_def split: prod.splits)
qed

definition example_over_limit :: corectl where
  "example_over_limit = example_corectl\<lparr>
     cpu_state := (\<lambda>c. \<lparr>is_busy = False, busy_pct = 0, not_preferred = (c = 2),
                        cpu_data_cluster = Some 0, disabled = False\<rparr>),
     cluster_state := (\<lambda>_. example_cluster\<lparr>max_cpus := 1, nr_not_preferred_cpus := 1\<rparr>)\<rparr>"

text \<open>
  The passes that force CPUs to pause count a CPU again that an earlier pass already
  selected, because it is still active. With four active CPUs, a limit of one and one CPU that is
  not preferred, the selection ends satisfied although two CPUs are left running.
\<close>

theorem select_to_pause_double_counts:
  "case select_to_pause example_over_limit 0 1 {} of (l, pause, pend) \<Rightarrow>
     pend = 3 \<and> pause = {2, 3}
     \<and> active_cpus (cluster_state example_over_limit 0) - pend
         \<le> max_cpus (cluster_state example_over_limit 0)
     \<and> \<not> active_cpus (cluster_state example_over_limit 0) - card pause
         \<le> max_cpus (cluster_state example_over_limit 0)"
proof -
  let ?s = "example_over_limit"
  have fields: "active_cpus (cluster_state ?s 0) = 4" "max_cpus (cluster_state ?s 0) = 1"
    "num_cpus (cluster_state ?s 0) = 4" "lru (cluster_state ?s 0) = [2, 3, 4, 5]"
    "nr_not_preferred_cpus (cluster_state ?s 0) = 1"
    by (simp_all add: example_over_limit_def example_cluster_def)
  have active: "is_active c ?s \<longleftrightarrow> c \<in> {0, 1, 2, 3, 4, 5}" for c
    by (simp add: is_active_def example_over_limit_def cpu_halted_def cpu_partial_halted_def)
  have cpu: "\<not> disabled (cpu_state ?s c)" "\<not> is_busy (cpu_state ?s c)"
    "not_preferred (cpu_state ?s c) \<longleftrightarrow> c = 2" for c
    by (simp_all add: example_over_limit_def)
  have sub: "u32_sub 4 0 = 4" "u32_sub 4 1 = 3" "u32_sub 4 (Suc 0) = 3" "u32_sub 4 2 = 2"
    "u32_sub 4 3 = 1"
    by (simp_all add: u32_sub_def)
  have body1: "c \<in> {2, 3, 4, 5} \<Longrightarrow> pause_body ?s 0 1 c (m, p) =
      (if u32_sub 4 p = 1 then (Stop, m, p) else if c = 2 then (Move, insert c m, p + 1) else (Skip, m, p))"
    for c m p
    by (auto simp: pause_body_def Let_def fields active cpu)
  have body2: "c \<in> {2, 3, 4, 5} \<Longrightarrow> force_pause_body ?s 0 fp c (m, p) =
      (if u32_sub 4 p \<le> 1 then (Stop, m, p) else if fp \<and> c \<noteq> 2 then (Skip, m, p)
       else (Move, insert c m, p + 1))" for fp c m p
    by (auto simp: force_pause_body_def Let_def fields active cpu)
  have p1: "lru_walk (pause_body ?s 0 1) 4 [] [2, 3, 4, 5] ({}, 0) = ([3, 4, 5, 2], {2}, 1)"
    by (simp add: lru_walk_numeral body1 [unfolded One_nat_def] sub)
  have p2: "force_pause_pass ?s 0 True ([3, 4, 5, 2], {2}, 1) = ([3, 4, 5, 2], {2}, 2)"
    by (simp add: force_pause_pass_def fields sub lru_walk_numeral body2)
  have p3: "force_pause_pass ?s 0 False ([3, 4, 5, 2], {2}, 2) = ([4, 5, 2, 3], {3, 2}, 3)"
    by (simp add: force_pause_pass_def fields sub lru_walk_numeral body2)
  have "select_to_pause ?s 0 1 {} = ([4, 5, 2, 3], {3, 2}, 3)"
    unfolding select_to_pause_def Let_def fields by (simp only: p1) (simp add: p2 [unfolded One_nat_def] p3 sub)
  then show ?thesis
    by (auto simp: fields)
qed

text \<open>The effect of \<^verbatim>\<open>core_ctl_set_boost\<close> on the counters of the clusters.\<close>

lemma sysfs_param_changed_boost:
  "boost (cluster_state (sysfs_param_changed now k s) j) = boost (cluster_state s j)"
  "num_clusters (sysfs_param_changed now k s) = num_clusters s"
  "walt_disabled (sysfs_param_changed now k s) = walt_disabled s"
  "core_ctl_initialized (sysfs_param_changed now k s) = core_ctl_initialized s"
  by (auto simp: sysfs_param_changed_def eval_need_def Let_def upd_cluster_def wake_up_core_ctl_thread_def
      split: prod.splits if_splits)

definition boost_count :: "bool \<Rightarrow> nat \<Rightarrow> nat" where
  "boost_count on b = (if on then u32 (b + 1) else b - 1)"

lemma set_boost_fold:
  assumes "distinct ks"
  shows "boost (cluster_state (snd (snd (fold (set_boost_step on) ks (r, c, s)))) j) =
      (if j \<in> set ks then boost_count on (boost (cluster_state s j)) else boost (cluster_state s j))"
  using assms
  by (induction ks arbitrary: r c s)
    (auto simp: set_boost_step_def set_cluster_boost_def upd_cluster_def boost_count_def)

lemma set_boost_fold_fields:
  "num_clusters (snd (snd (fold (set_boost_step on) ks a))) = num_clusters (snd (snd a))"
  "walt_disabled (snd (snd (fold (set_boost_step on) ks a))) = walt_disabled (snd (snd a))"
  "core_ctl_initialized (snd (snd (fold (set_boost_step on) ks a))) = core_ctl_initialized (snd (snd a))"
  by (rule fold_field [where g = "\<lambda>a. num_clusters (snd (snd a))"]
      fold_field [where g = "\<lambda>a. walt_disabled (snd (snd a))"]
      fold_field [where g = "\<lambda>a. core_ctl_initialized (snd (snd a))"];
      simp add: set_boost_step_def upd_cluster_def Let_def split: prod.splits)+

lemma core_ctl_set_boost_counts:
  assumes "core_ctl_set_boost now on s = (ret, s')"
  shows "boost (cluster_state s' k) =
      (if k < num_clusters s \<and> \<not> walt_disabled s \<and> core_ctl_initialized s
       then boost_count on (boost (cluster_state s k)) else boost (cluster_state s k))"
    and "num_clusters s' = num_clusters s" and "walt_disabled s' = walt_disabled s"
    and "core_ctl_initialized s' = core_ctl_initialized s"
proof -
  obtain r c s1 where f: "fold (set_boost_step on) [0..<num_clusters s] (0, False, s) = (r, c, s1)"
    by (cases "fold (set_boost_step on) [0..<num_clusters s] (0, False, s)")
  have b1: "boost (cluster_state s1 k) = (if k < num_clusters s
      then boost_count on (boost (cluster_state s k)) else boost (cluster_state s k))"
    using set_boost_fold [of "[0..<num_clusters s]" on 0 False s k] by (simp add: f)
  note f1 = set_boost_fold_fields [of on "[0..<num_clusters s]" "(0, False, s)", unfolded f snd_conv]
  let ?eval = "fold (\<lambda>k. sysfs_param_changed (now k) k)"
  have e: "boost (cluster_state (?eval ks u) k) = boost (cluster_state u k)"
    "num_clusters (?eval ks u) = num_clusters u" "walt_disabled (?eval ks u) = walt_disabled u"
    "core_ctl_initialized (?eval ks u) = core_ctl_initialized u" for ks and u :: "'a corectl_scheme"
    by (rule fold_field [where g = "\<lambda>u. boost (cluster_state u k)"] fold_field;
        simp add: sysfs_param_changed_boost)+
  have s': "s' = (if walt_disabled s \<or> \<not> core_ctl_initialized s then s
      else if c then ?eval [0..<num_clusters s1] s1 else s1)"
    using assms by (auto simp: core_ctl_set_boost_def f split: if_splits)
  show "boost (cluster_state s' k) =
      (if k < num_clusters s \<and> \<not> walt_disabled s \<and> core_ctl_initialized s
       then boost_count on (boost (cluster_state s k)) else boost (cluster_state s k))"
    by (simp add: s' e b1)
  show "num_clusters s' = num_clusters s" "walt_disabled s' = walt_disabled s"
    "core_ctl_initialized s' = core_ctl_initialized s"
    by (simp_all add: s' e f1)
qed

lemma core_ctl_set_boost_frame:
  assumes "\<And>f s. g (cluster_state_update f s) = g s" and "\<And>f s. g (core_ctl_pending_update f s) = g s"
    and "\<And>f s. g (core_ctl_wakeups_update f s) = g s"
  shows "g (snd (core_ctl_set_boost now on s)) = g s"
proof -
  have step: "g (snd (snd (set_boost_step on k a))) = g (snd (snd a))" for k a
    by (simp add: set_boost_step_def upd_cluster_def Let_def assms split: prod.splits)
  have "g (snd (snd (fold (set_boost_step on) ks a))) = g (snd (snd a))" for ks a
    by (rule fold_field [where g = "\<lambda>a. g (snd (snd a))"]) (rule step)
  note folds = this [of "[0..<num_clusters s]" "(0, False, s)"]
  have "g (sysfs_param_changed (now k) k u) = g u" for k u
    by (simp add: sysfs_param_changed_def eval_need_def upd_cluster_def wake_up_core_ctl_thread_def
        Let_def assms)
  then have "g (fold (\<lambda>k. sysfs_param_changed (now k) k) ks u) = g u" for ks u
    by (rule fold_field)
  with folds show ?thesis
    by (auto simp: core_ctl_set_boost_def split: prod.splits)
qed

end
