(* ===== verification/Walt_Boost.thy ===== *)
theory Walt_Boost
  imports Walt_Corectl
begin

text \<open>
  Scheduler boost (\<^verbatim>\<open>kernel/sched/walt/boost.c\<close>): clients enable and disable boost types, each
  type has a reference count, and the enabled type of the highest priority is in effect. Entering and
  leaving a type switches frequency aggregation and the boost of core control.
\<close>

datatype sched_boost_policy = SCHED_BOOST_NONE | SCHED_BOOST_ON_BIG | SCHED_BOOST_ON_ALL

record boost_state = corectl +
  boost_refcount :: "nat \<Rightarrow> int"
  boost_policy :: sched_boost_policy
  sched_freq_aggr_en :: bool
  sysctl_sched_boost :: int

section \<open>Task groups\<close>

datatype group_type =
  ANDROID_CGROUP_OTHER | ANDROID_CGROUP_TOPAPP | ANDROID_CGROUP_FOREGROUND | ANDROID_CGROUP_BACKGROUND

record walt_task_group =
  colocate :: bool
  sched_boost_enable_of :: "nat \<Rightarrow> bool"
  group_type_of :: group_type

definition boost_table :: "(nat \<Rightarrow> bool) \<Rightarrow> bool \<Rightarrow> bool \<Rightarrow> nat \<Rightarrow> bool" where
  "boost_table old conservative balance =
     old(NO_BOOST := False, FULL_THROTTLE_BOOST := True, CONSERVATIVE_BOOST := conservative,
         RESTRAINED_BOOST := False, STORAGE_BOOST := True, BALANCE_BOOST := balance)"

definition walt_init_tg :: "walt_task_group \<Rightarrow> walt_task_group" where
  "walt_init_tg wtg =
     wtg\<lparr>colocate := False, sched_boost_enable_of := boost_table (sched_boost_enable_of wtg) False False,
         group_type_of := ANDROID_CGROUP_OTHER\<rparr>"

definition walt_init_topapp_tg :: "bool \<Rightarrow> walt_task_group \<Rightarrow> walt_task_group" where
  "walt_init_topapp_tg conservative_boost_topapp wtg =
     wtg\<lparr>colocate := True,
         sched_boost_enable_of := boost_table (sched_boost_enable_of wtg) conservative_boost_topapp True,
         group_type_of := ANDROID_CGROUP_TOPAPP\<rparr>"

definition walt_init_foreground_tg :: "bool \<Rightarrow> walt_task_group \<Rightarrow> walt_task_group" where
  "walt_init_foreground_tg conservative_boost_fg wtg =
     wtg\<lparr>colocate := False,
         sched_boost_enable_of := boost_table (sched_boost_enable_of wtg) conservative_boost_fg True,
         group_type_of := ANDROID_CGROUP_FOREGROUND\<rparr>"

definition walt_init_background_tg :: "walt_task_group \<Rightarrow> walt_task_group" where
  "walt_init_background_tg wtg =
     wtg\<lparr>colocate := False, sched_boost_enable_of := boost_table (sched_boost_enable_of wtg) False False,
         group_type_of := ANDROID_CGROUP_BACKGROUND\<rparr>"

section \<open>Boosting\<close>

definition set_boost_policy :: "nat \<Rightarrow> 'z boost_state_scheme \<Rightarrow> 'z boost_state_scheme" where
  "set_boost_policy type s =
     s\<lparr>boost_policy := (if type = NO_BOOST \<or> type = RESTRAINED_BOOST then SCHED_BOOST_NONE
                        else if hmp_capable s then SCHED_BOOST_ON_BIG else SCHED_BOOST_ON_ALL)\<rparr>"

definition verify_boost_params :: "int \<Rightarrow> bool" where
  "verify_boost_params type \<longleftrightarrow> - 5 \<le> type \<and> type \<le> 5"

definition walt_enable_frequency_aggregation ::
  "bool \<Rightarrow> 'z boost_state_scheme \<Rightarrow> 'z boost_state_scheme" where
  "walt_enable_frequency_aggregation on s = s\<lparr>sched_freq_aggr_en := on\<rparr>"

text \<open>
  The callbacks of the table \<^verbatim>\<open>sched_boosts\<close>. The result of
  \<^verbatim>\<open>core_ctl_set_boost\<close> is ignored by the code; \<open>now\<close> is the clock core control reads.
\<close>

definition boost_core_ctl ::
  "(nat \<Rightarrow> int) \<Rightarrow> bool \<Rightarrow> 'z boost_state_scheme \<Rightarrow> 'z boost_state_scheme" where
  "boost_core_ctl now on s = snd (core_ctl_set_boost now on s)"

definition sched_boost_switch ::
  "(nat \<Rightarrow> int) \<Rightarrow> bool \<Rightarrow> nat \<Rightarrow> 'z boost_state_scheme \<Rightarrow> 'z boost_state_scheme" where
  "sched_boost_switch now on type s =
     (if type = FULL_THROTTLE_BOOST then walt_enable_frequency_aggregation on (boost_core_ctl now on s)
      else if type = RESTRAINED_BOOST then walt_enable_frequency_aggregation on s
      else if type = STORAGE_BOOST \<or> type = BALANCE_BOOST then boost_core_ctl now on s
      else s)"

definition boost_enter :: "(nat \<Rightarrow> int) \<Rightarrow> nat \<Rightarrow> 'z boost_state_scheme \<Rightarrow> 'z boost_state_scheme" where
  "boost_enter now = sched_boost_switch now True"

definition boost_exit :: "(nat \<Rightarrow> int) \<Rightarrow> nat \<Rightarrow> 'z boost_state_scheme \<Rightarrow> 'z boost_state_scheme" where
  "boost_exit now = sched_boost_switch now False"

definition sched_effective_boost :: "(nat \<Rightarrow> int) \<Rightarrow> nat" where
  "sched_effective_boost refs =
     (case find (\<lambda>i. 1 \<le> refs i) [FULL_THROTTLE_BOOST..<BALANCE_BOOST + 1] of
        Some i \<Rightarrow> i | None \<Rightarrow> NO_BOOST)"

definition boost_change ::
  "(nat \<Rightarrow> int) \<Rightarrow> 'z boost_state_scheme \<Rightarrow> 'z boost_state_scheme" where
  "boost_change now s =
     (let prev_boost = sched_boost_type s; next_boost = sched_effective_boost (boost_refcount s)
      in if next_boost = prev_boost then s
         else boost_enter now next_boost (boost_exit now prev_boost s))"

definition sched_boost_disable ::
  "(nat \<Rightarrow> int) \<Rightarrow> nat \<Rightarrow> 'z boost_state_scheme \<Rightarrow> 'z boost_state_scheme" where
  "sched_boost_disable now type s =
     (let r = boost_refcount s type
      in if r \<le> 0 then s
         else let s1 = s\<lparr>boost_refcount := (boost_refcount s)(type := r - 1)\<rparr>
              in if r - 1 \<noteq> 0 then s1 else boost_change now s1)"

definition sched_boost_enable ::
  "(nat \<Rightarrow> int) \<Rightarrow> nat \<Rightarrow> 'z boost_state_scheme \<Rightarrow> 'z boost_state_scheme" where
  "sched_boost_enable now type s =
     (let r = s32 (boost_refcount s type + 1); s1 = s\<lparr>boost_refcount := (boost_refcount s)(type := r)\<rparr>
      in if r \<noteq> 1 then s1 else boost_change now s1)"

definition sched_boost_disable_all ::
  "(nat \<Rightarrow> int) \<Rightarrow> 'z boost_state_scheme \<Rightarrow> 'z boost_state_scheme" where
  "sched_boost_disable_all now s =
     (if sched_boost_type s \<noteq> NO_BOOST
      then let s1 = boost_exit now (sched_boost_type s) s
           in s1\<lparr>boost_refcount := (\<lambda>i. if FULL_THROTTLE_BOOST \<le> i \<and> i < BALANCE_BOOST + 1 then 0
                                      else boost_refcount s1 i)\<rparr>
      else s)"

text \<open>\<^verbatim>\<open>_sched_set_boost\<close>\<close>

definition sched_set_boost_locked ::
  "(nat \<Rightarrow> int) \<Rightarrow> int \<Rightarrow> 'z boost_state_scheme \<Rightarrow> 'z boost_state_scheme" where
  "sched_set_boost_locked now type s =
     (let s1 = (if type = 0 then sched_boost_disable_all now s
                else if 0 < type then sched_boost_enable now (nat type) s
                else sched_boost_disable now (nat (- type)) s);
          eff = sched_effective_boost (boost_refcount s1)
      in set_boost_policy eff (s1\<lparr>sched_boost_type := eff, sysctl_sched_boost := int eff\<rparr>))"

definition sched_set_boost ::
  "(nat \<Rightarrow> int) \<Rightarrow> int \<Rightarrow> 'z boost_state_scheme \<Rightarrow> int \<times> 'z boost_state_scheme" where
  "sched_set_boost now type s =
     (if walt_disabled s then (- EAGAIN, s)
      else if verify_boost_params type then (0, sched_set_boost_locked now type s)
      else (- EINVAL, s))"

text \<open>
  The sysctl: \<open>ret\<close> is the result of \<^verbatim>\<open>proc_dointvec_minmax\<close>, which stores \<open>data\<close> into
  \<^verbatim>\<open>sysctl_sched_boost\<close> when it succeeds on a write.
\<close>

definition sched_boost_handler ::
  "(nat \<Rightarrow> int) \<Rightarrow> int \<Rightarrow> bool \<Rightarrow> int \<Rightarrow> 'z boost_state_scheme \<Rightarrow> int \<times> 'z boost_state_scheme" where
  "sched_boost_handler now ret write data s =
     (if ret \<noteq> 0 \<or> \<not> write then (ret, s)
      else let s1 = s\<lparr>sysctl_sched_boost := data\<rparr>
           in if verify_boost_params data then (ret, sched_set_boost_locked now data s1)
              else (- EINVAL, s1))"

definition walt_boost_init ::
  "(nat \<Rightarrow> int) \<Rightarrow> 'z boost_state_scheme \<Rightarrow> 'z boost_state_scheme" where
  "walt_boost_init now s = snd (sched_set_boost now (int FULL_THROTTLE_BOOST) s)"

section \<open>The target of a boost\<close>

text \<open>
  What the boost component relies on in core control: while it is ready, switching the boost on
  raises the level of every cluster by one, and switching it off lowers every level that is not
  zero.
\<close>

locale boost_target =
  fixes set_boost :: "bool \<Rightarrow> 's \<Rightarrow> 's"
    and ready :: "'s \<Rightarrow> bool"
    and level :: "'s \<Rightarrow> nat list"
    and bound :: nat
  assumes ready_set: "ready (set_boost on s) = ready s"
    and level_on: "ready s \<Longrightarrow> \<forall>n \<in> set (level s). n < bound \<Longrightarrow> level (set_boost True s) = map Suc (level s)"
    and level_off: "ready s \<Longrightarrow> level (set_boost False s) = map (\<lambda>n. n - 1) (level s)"
begin

definition contributes :: "nat list \<Rightarrow> bool \<Rightarrow> 's \<Rightarrow> bool" where
  "contributes base on s \<longleftrightarrow> ready s \<and> level s = map (\<lambda>n. if on then Suc n else n) base
     \<and> (\<forall>n \<in> set base. n < bound)"

lemma contributes_on: "contributes base False s \<Longrightarrow> contributes base True (set_boost True s)"
  by (simp add: contributes_def ready_set level_on)

lemma contributes_off: "contributes base True s \<Longrightarrow> contributes base False (set_boost False s)"
  by (simp add: contributes_def ready_set level_off comp_def)

lemma contributes_cong:
  "ready s' = ready s \<Longrightarrow> level s' = level s \<Longrightarrow> contributes base on s' = contributes base on s"
  by (simp add: contributes_def)

end

definition core_ctl_ready :: "'z corectl_scheme \<Rightarrow> bool" where
  "core_ctl_ready s \<longleftrightarrow> core_ctl_initialized s \<and> \<not> walt_disabled s"

definition boost_levels :: "'z corectl_scheme \<Rightarrow> nat list" where
  "boost_levels s = map (\<lambda>k. boost (cluster_state s k)) [0..<num_clusters s]"

interpretation ctl: boost_target "boost_core_ctl now" core_ctl_ready boost_levels 4294967295 for now
proof (unfold_locales, goal_cases)
  case (1 on s)
  show ?case
    using core_ctl_set_boost_counts(3,4) [OF prod.collapse [symmetric], of now on s]
    by (simp add: core_ctl_ready_def boost_core_ctl_def)
next
  case (2 s)
  then have "boost (cluster_state s k) < 4294967295" if "k < num_clusters s" for k
    using that by (simp add: boost_levels_def)
  then have "boost_count True (boost (cluster_state s k)) = Suc (boost (cluster_state s k))"
    if "k < num_clusters s" for k
    using that by (fastforce simp: boost_count_def u32_def)
  then show ?case
    using 2(1) core_ctl_set_boost_counts(1,2) [OF prod.collapse [symmetric], of now True s]
    by (simp add: boost_levels_def boost_core_ctl_def core_ctl_ready_def)
next
  case (3 s)
  then show ?case
    using core_ctl_set_boost_counts(1,2) [OF prod.collapse [symmetric], of now False s]
    by (simp add: boost_levels_def boost_core_ctl_def core_ctl_ready_def boost_count_def)
qed

section \<open>The invariant of the boost state\<close>

definition boost_raises :: "nat \<Rightarrow> bool" where
  "boost_raises type \<longleftrightarrow> type \<in> {FULL_THROTTLE_BOOST, STORAGE_BOOST, BALANCE_BOOST}"

definition boost_aggregates :: "nat \<Rightarrow> bool" where
  "boost_aggregates type \<longleftrightarrow> type \<in> {FULL_THROTTLE_BOOST, RESTRAINED_BOOST}"

text \<open>
  The effect of the boost type on the rest of the system, and the whole invariant. \<open>base\<close> are
  the boosts of core control's clusters that come from elsewhere.
\<close>

definition boost_effect :: "nat list \<Rightarrow> nat \<Rightarrow> 'z boost_state_scheme \<Rightarrow> bool" where
  "boost_effect base type s \<longleftrightarrow>
     ctl.contributes base (boost_raises type) s \<and> sched_freq_aggr_en s = boost_aggregates type"

definition policy_of :: "bool \<Rightarrow> nat \<Rightarrow> sched_boost_policy" where
  "policy_of hmp type =
     (if type \<in> {NO_BOOST, RESTRAINED_BOOST} then SCHED_BOOST_NONE
      else if hmp then SCHED_BOOST_ON_BIG else SCHED_BOOST_ON_ALL)"

definition boost_inv :: "nat list \<Rightarrow> 'z boost_state_scheme \<Rightarrow> bool" where
  "boost_inv base s \<longleftrightarrow>
     sched_boost_type s = sched_effective_boost (boost_refcount s)
     \<and> boost_policy s = policy_of (hmp_capable s) (sched_boost_type s)
     \<and> boost_effect base (sched_boost_type s) s
     \<and> (\<forall>i. 0 \<le> boost_refcount s i)"

lemma effective_boost_cong:
  assumes "\<And>i. FULL_THROTTLE_BOOST \<le> i \<Longrightarrow> i \<le> BALANCE_BOOST \<Longrightarrow> 1 \<le> refs i \<longleftrightarrow> 1 \<le> refs' i"
  shows "sched_effective_boost refs = sched_effective_boost refs'"
proof -
  have "find (\<lambda>i. 1 \<le> refs i) [FULL_THROTTLE_BOOST..<BALANCE_BOOST + 1]
      = find (\<lambda>i. 1 \<le> refs' i) [FULL_THROTTLE_BOOST..<BALANCE_BOOST + 1]"
    by (rule find_cong) (auto simp: assms)
  then show ?thesis
    by (simp only: sched_effective_boost_def)
qed

lemma effective_boost_none:
  "(\<And>i. FULL_THROTTLE_BOOST \<le> i \<Longrightarrow> i \<le> BALANCE_BOOST \<Longrightarrow> refs i < 1) \<Longrightarrow> sched_effective_boost refs = NO_BOOST"
  by (fastforce simp: sched_effective_boost_def split: option.splits dest!: find_SomeD)

lemma boost_core_ctl_fields [simp]:
  fixes s :: "'z boost_state_scheme"
  shows "boost_refcount (boost_core_ctl now on s) = boost_refcount s"
    and "boost_policy (boost_core_ctl now on s) = boost_policy s"
    and "sched_freq_aggr_en (boost_core_ctl now on s) = sched_freq_aggr_en s"
    and "sysctl_sched_boost (boost_core_ctl now on s) = sysctl_sched_boost s"
    and "sched_boost_type (boost_core_ctl now on s) = sched_boost_type s"
    and "hmp_capable (boost_core_ctl now on s) = hmp_capable s"
    and "walt_disabled (boost_core_ctl now on s) = walt_disabled s"
  unfolding boost_core_ctl_def by (rule core_ctl_set_boost_frame; simp)+

lemma switch_fields [simp]:
  "boost_refcount (sched_boost_switch now on b s) = boost_refcount s"
  "boost_policy (sched_boost_switch now on b s) = boost_policy s"
  "sysctl_sched_boost (sched_boost_switch now on b s) = sysctl_sched_boost s"
  "sched_boost_type (sched_boost_switch now on b s) = sched_boost_type s"
  "hmp_capable (sched_boost_switch now on b s) = hmp_capable s"
  "walt_disabled (sched_boost_switch now on b s) = walt_disabled s"
  by (simp_all add: sched_boost_switch_def walt_enable_frequency_aggregation_def)

lemma contributes_update [simp]:
  fixes s :: "'z boost_state_scheme"
  shows "ctl.contributes base on (s\<lparr>sched_freq_aggr_en := x\<rparr>) = ctl.contributes base on s"
    and "ctl.contributes base on (s\<lparr>boost_refcount := r\<rparr>) = ctl.contributes base on s"
    and "ctl.contributes base on (s\<lparr>boost_policy := p\<rparr>) = ctl.contributes base on s"
    and "ctl.contributes base on (s\<lparr>sched_boost_type := t\<rparr>) = ctl.contributes base on s"
    and "ctl.contributes base on (s\<lparr>sysctl_sched_boost := i\<rparr>) = ctl.contributes base on s"
  by (simp_all add: ctl.contributes_def core_ctl_ready_def boost_levels_def)

lemma boost_exit_effect:
  "boost_effect base a s \<Longrightarrow> boost_effect base NO_BOOST (boost_exit now a s)"
  using ctl.contributes_off [of base s now]
  by (auto simp: boost_effect_def boost_exit_def sched_boost_switch_def boost_raises_def
      boost_aggregates_def walt_enable_frequency_aggregation_def)

lemma boost_enter_effect:
  "boost_effect base NO_BOOST s \<Longrightarrow> boost_effect base b (boost_enter now b s)"
  using ctl.contributes_on [of base s now]
  by (auto simp: boost_effect_def boost_enter_def sched_boost_switch_def boost_raises_def
      boost_aggregates_def walt_enable_frequency_aggregation_def)

lemma boost_effect_update [simp]:
  "boost_effect base b (s\<lparr>boost_refcount := r\<rparr>) = boost_effect base b s"
  "boost_effect base b (s\<lparr>boost_policy := p\<rparr>) = boost_effect base b s"
  "boost_effect base b (s\<lparr>sched_boost_type := t\<rparr>) = boost_effect base b s"
  "boost_effect base b (s\<lparr>sysctl_sched_boost := i\<rparr>) = boost_effect base b s"
  by (simp_all add: boost_effect_def)

text \<open>
  The state between the change of a reference count and the update of the type: the effect is
  already that of the new counts.
\<close>

lemma boost_change_effect:
  "boost_effect base (sched_boost_type s) s \<Longrightarrow>
     boost_effect base (sched_effective_boost (boost_refcount s)) (boost_change now s)"
  by (auto simp: boost_change_def Let_def intro: boost_enter_effect boost_exit_effect)

lemma boost_change_fields [simp]:
  "boost_refcount (boost_change now s) = boost_refcount s"
  "hmp_capable (boost_change now s) = hmp_capable s"
  "walt_disabled (boost_change now s) = walt_disabled s"
  by (simp_all add: boost_change_def boost_enter_def boost_exit_def Let_def)

lemma boost_invD:
  assumes "boost_inv base s"
  shows "boost_effect base (sched_boost_type s) s"
    and "sched_boost_type s = sched_effective_boost (boost_refcount s)"
    and "boost_effect base (sched_effective_boost (boost_refcount s)) s" and "0 \<le> boost_refcount s i"
  using assms by (auto simp: boost_inv_def)

lemma sched_boost_enable_effect:
  assumes "boost_inv base s" and "boost_refcount s type + 1 < 2 ^ 31"
  shows "boost_effect base (sched_effective_boost (boost_refcount (sched_boost_enable now type s)))
           (sched_boost_enable now type s)"
    and "boost_refcount (sched_boost_enable now type s) =
           (boost_refcount s)(type := boost_refcount s type + 1)"
proof -
  have r: "s32 (boost_refcount s type + 1) = boost_refcount s type + 1"
    using boost_invD(4) [OF assms(1), of type] assms(2) by (simp add: width_simps)
  let ?refs = "(boost_refcount s)(type := boost_refcount s type + 1)"
  show refs: "boost_refcount (sched_boost_enable now type s) = ?refs"
    by (simp add: sched_boost_enable_def r Let_def)
  show "boost_effect base (sched_effective_boost (boost_refcount (sched_boost_enable now type s)))
           (sched_boost_enable now type s)"
  proof (cases "boost_refcount s type = 0")
    case True
    then show ?thesis
      using boost_change_effect [of base "s\<lparr>boost_refcount := ?refs\<rparr>" now] boost_invD(1) [OF assms(1)]
      by (simp add: sched_boost_enable_def r [unfolded True, simplified] Let_def)
  next
    case False
    then have "sched_effective_boost ?refs = sched_effective_boost (boost_refcount s)"
      using boost_invD(4) [OF assms(1), of type] by (intro effective_boost_cong) auto
    with False show ?thesis
      using boost_invD(3) [OF assms(1)] by (simp add: sched_boost_enable_def r Let_def)
  qed
qed

lemma sched_boost_disable_effect:
  assumes "boost_inv base s"
  shows "boost_effect base (sched_effective_boost (boost_refcount (sched_boost_disable now type s)))
           (sched_boost_disable now type s)"
    and "boost_refcount (sched_boost_disable now type s) =
           (boost_refcount s)(type := max 0 (boost_refcount s type - 1))"
proof -
  let ?r = "boost_refcount s type"
  let ?refs = "(boost_refcount s)(type := ?r - 1)"
  have nonneg: "0 \<le> ?r"
    using assms by (simp add: boost_inv_def)
  show refs: "boost_refcount (sched_boost_disable now type s) =
      (boost_refcount s)(type := max 0 (?r - 1))"
    using nonneg by (auto simp: sched_boost_disable_def Let_def fun_eq_iff)
  consider "?r = 0" | "?r = 1" | "2 \<le> ?r"
    using nonneg by linarith
  then show "boost_effect base (sched_effective_boost (boost_refcount (sched_boost_disable now type s)))
           (sched_boost_disable now type s)"
  proof cases
    case 1
    then show ?thesis
      using boost_invD(3) [OF assms] by (simp add: sched_boost_disable_def)
  next
    case 2
    then show ?thesis
      using boost_change_effect [of base "s\<lparr>boost_refcount := ?refs\<rparr>" now] boost_invD(1) [OF assms]
      by (simp add: sched_boost_disable_def Let_def)
  next
    case 3
    then have "sched_effective_boost ?refs = sched_effective_boost (boost_refcount s)"
      by (intro effective_boost_cong) auto
    with 3 show ?thesis
      using boost_invD(3) [OF assms] by (simp add: sched_boost_disable_def Let_def)
  qed
qed

lemma sched_boost_disable_all_effect:
  assumes "boost_inv base s"
  shows "boost_effect base (sched_effective_boost (boost_refcount (sched_boost_disable_all now s)))
           (sched_boost_disable_all now s)"
    and "sched_effective_boost (boost_refcount (sched_boost_disable_all now s)) = NO_BOOST"
    and "0 \<le> boost_refcount (sched_boost_disable_all now s) i"
proof -
  show none: "sched_effective_boost (boost_refcount (sched_boost_disable_all now s)) = NO_BOOST"
  proof (cases "sched_boost_type s = NO_BOOST")
    case True
    then show ?thesis
      using boost_invD(2) [OF assms] by (simp add: sched_boost_disable_all_def)
  next
    case False
    then show ?thesis
      by (intro effective_boost_none) (simp add: sched_boost_disable_all_def Let_def)
  qed
  show "boost_effect base (sched_effective_boost (boost_refcount (sched_boost_disable_all now s)))
           (sched_boost_disable_all now s)"
    unfolding none using boost_invD(1) [OF assms] boost_exit_effect [of base _ s now]
    by (auto simp: sched_boost_disable_all_def Let_def)
  show "0 \<le> boost_refcount (sched_boost_disable_all now s) i"
    using boost_invD(4) [OF assms] by (simp add: sched_boost_disable_all_def Let_def boost_exit_def)
qed

lemma sched_set_boost_locked_inv:
  assumes inv: "boost_inv base s" and room: "0 < type \<Longrightarrow> boost_refcount s (nat type) + 1 < 2 ^ 31"
  shows "boost_inv base (sched_set_boost_locked now type s)"
proof -
  define s1 where "s1 = (if type = 0 then sched_boost_disable_all now s
      else if 0 < type then sched_boost_enable now (nat type) s
      else sched_boost_disable now (nat (- type)) s)"
  have effect: "boost_effect base (sched_effective_boost (boost_refcount s1)) s1"
    using sched_boost_disable_all_effect(1) [OF inv] sched_boost_enable_effect(1) [OF inv room]
      sched_boost_disable_effect(1) [OF inv] by (simp add: s1_def)
  have nonneg: "0 \<le> boost_refcount s1 i" for i
    using sched_boost_disable_all_effect(3) [OF inv] sched_boost_enable_effect(2) [OF inv room]
      sched_boost_disable_effect(2) [OF inv] boost_invD(4) [OF inv] by (simp add: s1_def)
  have "sched_set_boost_locked now type s =
      (let eff = sched_effective_boost (boost_refcount s1)
       in set_boost_policy eff (s1\<lparr>sched_boost_type := eff, sysctl_sched_boost := int eff\<rparr>))"
    by (simp only: sched_set_boost_locked_def Let_def s1_def)
  with effect nonneg show ?thesis
    by (simp add: boost_inv_def set_boost_policy_def Let_def policy_of_def)
qed

text \<open>A request raises a count by at most one.\<close>

lemma sched_set_boost_keeps:
  assumes inv: "boost_inv base s" and room: "\<And>i. boost_refcount s i + 1 < 2 ^ 31"
  shows "boost_inv base (snd (sched_set_boost now type s)) \<and> boost_refcount (snd (sched_set_boost now type s)) i \<le> boost_refcount s i + 1"
proof -
  have "boost_refcount (sched_set_boost_locked now type s) i \<le> boost_refcount s i + 1"
    using sched_boost_enable_effect(2) [OF inv room] sched_boost_disable_effect(2) [OF inv] boost_invD(4) [OF inv]
    by (simp add: sched_set_boost_locked_def set_boost_policy_def sched_boost_disable_all_def boost_exit_def Let_def)
  then show ?thesis using sched_set_boost_locked_inv [OF inv room] inv by (simp add: sched_set_boost_def)
qed

section \<open>Properties of scheduler boost\<close>

text \<open>
  C27 (invariant). After any sequence of boost requests, valid or not, the boost type in effect is
  the enabled type of the highest priority; the placement policy is none exactly for no boost and
  restrained boost; frequency aggregation is on exactly for full throttle and restrained boost; and
  every cluster of core control carries exactly one boost from here if the type raises the need for
  CPUs, and none otherwise. The counts and the number of requests stay below \<open>2 ^ 31\<close>, where the count of a type would wrap around.
\<close>

theorem sched_boost_invariant:
  assumes "boost_inv base s" and "\<forall>i. boost_refcount s i + int (length reqs) < 2 ^ 31"
  shows "boost_inv base (fold (\<lambda>(now, type) s. snd (sched_set_boost now type s)) reqs s)"
  using assms
proof (induction reqs arbitrary: s)
  case (Cons q reqs)
  obtain now type where q: "q = (now, type)" by fastforce
  let ?s = "snd (sched_set_boost now type s)"
  have room: "boost_refcount s i + 1 < 2 ^ 31" for i using Cons.prems(2) [rule_format, of i] by simp
  note k = sched_set_boost_keeps [OF Cons.prems(1) room, of now type]
  have "boost_refcount ?s i + int (length reqs) < 2 ^ 31" for i
    using k [of i] Cons.prems(2) [rule_format, of i] by simp
  then show ?case using Cons.IH [of ?s] k by (simp add: q)
qed simp

definition example_boost :: boost_state where
  "example_boost = corectl.extend example_corectl
     \<lparr>boost_refcount = (\<lambda>_. 0), boost_policy = SCHED_BOOST_NONE, sched_freq_aggr_en = False,
      sysctl_sched_boost = 0\<rparr>"

lemma example_boost_inv: "boost_inv [0] example_boost" "\<not> walt_disabled example_boost"
proof -
  have fields: "boost_refcount example_boost = (\<lambda>_. 0)" "sched_boost_type example_boost = 0"
    "boost_policy example_boost = SCHED_BOOST_NONE" "\<not> sched_freq_aggr_en example_boost"
    "core_ctl_ready example_boost" "boost_levels example_boost = [0]"
    by (simp_all add: example_boost_def corectl.defs halt_state.defs walt_globals.defs example_corectl_def
        example_halt_def example_globals_def core_ctl_ready_def boost_levels_def example_cluster_def)
  then show "boost_inv [0] example_boost"
    by (simp add: boost_inv_def boost_effect_def ctl.contributes_def boost_raises_def
        boost_aggregates_def policy_of_def effective_boost_none)
  show "\<not> walt_disabled example_boost"
    using fields(5) by (simp add: core_ctl_ready_def)
qed

theorem sched_boost_invariant_witness:
  "boost_inv [0] (fold (\<lambda>(now, type) s. snd (sched_set_boost now type s))
     [(\<lambda>_. 1, 4), (\<lambda>_. 2, 3), (\<lambda>_. 3, -4), (\<lambda>_. 4, 9)] example_boost)"
  by (rule sched_boost_invariant [OF example_boost_inv(1)]) (simp add: example_boost_def corectl.defs)

lemma sched_set_boost_locked_fields:
  "hmp_capable (sched_set_boost_locked now type s) = hmp_capable s"
  "walt_disabled (sched_set_boost_locked now type s) = walt_disabled s"
  by (simp_all add: sched_set_boost_locked_def set_boost_policy_def Let_def sched_boost_enable_def
      sched_boost_disable_def sched_boost_disable_all_def boost_exit_def)

lemma sched_set_boost_locked_refs:
  assumes "boost_inv base s"
  shows "0 < t \<Longrightarrow> boost_refcount s (nat t) + 1 < 2 ^ 31 \<Longrightarrow> boost_refcount (sched_set_boost_locked now t s) =
           (boost_refcount s)(nat t := boost_refcount s (nat t) + 1)"
    and "t < 0 \<Longrightarrow> boost_refcount (sched_set_boost_locked now t s) =
           (boost_refcount s)(nat (- t) := max 0 (boost_refcount s (nat (- t)) - 1))"
  using sched_boost_enable_effect(2) [OF assms] sched_boost_disable_effect(2) [OF assms]
  by (simp_all add: sched_set_boost_locked_def set_boost_policy_def Let_def)

text \<open>
  Disabling a boost type right after enabling it restores the reference counts, the
  type in effect, the policy, frequency aggregation and the boost of every cluster of core control.
\<close>

theorem sched_boost_roundtrip:
  assumes "boost_inv base s" and "\<not> walt_disabled s" and "1 \<le> t" and "t \<le> 5" and "boost_refcount s (nat t) + 1 < 2 ^ 31"
  shows "let s2 = snd (sched_set_boost now' (- t) (snd (sched_set_boost now t s)))
         in boost_refcount s2 = boost_refcount s \<and> sched_boost_type s2 = sched_boost_type s
            \<and> boost_policy s2 = boost_policy s \<and> sched_freq_aggr_en s2 = sched_freq_aggr_en s
            \<and> boost_levels s2 = boost_levels s"
proof -
  let ?s1 = "sched_set_boost_locked now t s"
  let ?s2 = "sched_set_boost_locked now' (- t) ?s1"
  have run: "snd (sched_set_boost now' (- t) (snd (sched_set_boost now t s))) = ?s2"
    using assms(2-4) by (simp add: sched_set_boost_def verify_boost_params_def sched_set_boost_locked_fields)
  have inv1: "boost_inv base ?s1" and inv2: "boost_inv base ?s2"
    using sched_set_boost_locked_inv [OF assms(1)] sched_set_boost_locked_inv [of base ?s1 "- t" now'] assms(3,5) by simp_all
  have refs: "boost_refcount ?s2 = boost_refcount s"
    using sched_set_boost_locked_refs(1) [OF assms(1), of t now]
      sched_set_boost_locked_refs(2) [OF inv1, of "- t" now'] assms(3,5) boost_invD(4) [OF assms(1)]
    by simp
  then have type: "sched_boost_type ?s2 = sched_boost_type s"
    using boost_invD(2) [OF inv2] boost_invD(2) [OF assms(1)] by simp
  have "boost_policy ?s2 = boost_policy s"
    using inv2 assms(1) by (simp add: boost_inv_def type sched_set_boost_locked_fields)
  moreover have "sched_freq_aggr_en ?s2 = sched_freq_aggr_en s" "boost_levels ?s2 = boost_levels s"
    using boost_invD(1) [OF inv2] boost_invD(1) [OF assms(1)]
    by (simp_all add: boost_effect_def type ctl.contributes_def)
  ultimately show ?thesis
    using refs type by (simp add: run Let_def)
qed

theorem sched_boost_roundtrip_witness:
  "let s2 = snd (sched_set_boost (\<lambda>_. 7) (- 1) (snd (sched_set_boost (\<lambda>_. 3) 1 example_boost)))
   in boost_refcount s2 = boost_refcount example_boost \<and> boost_levels s2 = boost_levels example_boost"
  using sched_boost_roundtrip [OF example_boost_inv, of 1 "\<lambda>_. 7" "\<lambda>_. 3"]
  by (simp add: Let_def) (simp add: example_boost_def corectl.defs)

end
