(* ===== verification/Walt_Smartinit.thy ===== *)
theory Walt_Smartinit
  imports Walt_Smartfreq
begin

text \<open>
  Start-up of smart frequency (\<^verbatim>\<open>smart_freq_init\<close>) with the tables of the systems on chip, and what stays
  true of the configuration while the sysctl writers and the updates of the scheduler change it.
\<close>

section \<open>Start-up\<close>

text \<open>The default configuration of a cluster.\<close>

definition smart_freq_default :: "nat \<Rightarrow> smart_freq_cluster_info \<Rightarrow> smart_freq_cluster_info" where
  "smart_freq_default qos info = info\<lparr>smart_freq_participation_mask := set_bit NO_REASON_SMART_FREQ 0,
     cluster_active_reason := 0, min_cycles := 100, smart_freq_ipc_participation_mask := 0,
     deactivate_ns := (\<lambda>_. 0), legacy_hyst_ns := (\<lambda>_. 0), legacy_freq_allowed := (\<lambda>_. qos),
     ipc_ipc := (\<lambda>_. 0), ipc_freq_allowed := (\<lambda>_. qos)\<rparr>"

definition smart_freq_default_step :: "nat \<Rightarrow> 'z walt_globals_scheme \<Rightarrow> 'z walt_globals_scheme" where
  "smart_freq_default_step k s =
     (let qos = FREQ_QOS_MAX_DEFAULT_VALUE s in
      s\<lparr>default_freq_config := (default_freq_config s)(k := smart_freq_default qos (default_freq_config s k)),
        freq_cap := (freq_cap s)(SMART_FREQ := (freq_cap s SMART_FREQ)(k := qos)),
        sysctl_ipc_freq_levels := (\<lambda>c j. if c < MAX_CLUSTERS \<and> j < SMART_FMAX_IPC_MAX then qos else sysctl_ipc_freq_levels s c j)\<rparr>)"

text \<open>
  The tables: the frequency without a reason, the hysteresis of the trailblazer reason, and whether thermal
  rotation takes part; and for some systems the IPC levels with the least number of cycles.
\<close>

definition sun_names :: "string list" where
  "sun_names = [''SUN'', ''SUNP'', ''CANOE'', ''ALOR_INTERPOSER'']"

definition soc_legacy :: "string \<Rightarrow> nat \<Rightarrow> (nat \<times> nat \<times> bool) option" where
  "soc_legacy name k =
     (if name \<in> set sun_names \<or> name = ''ALOR'' then
        if k = 0 then Some (2400000, 300000000, True)
        else if k = 1 then Some (3513600, 300000000, True)
        else None
      else if name = ''TUNA'' then
        if k = 0 then Some (1804800, 300000000, False)
        else if k = 1 \<or> k = 2 then Some (2707200, 300000000, False)
        else if k = 3 then Some (2956800, 300000000, False)
        else None
      else if name = ''KERA'' then
        if k = 0 then Some (1708800, 1000000000, False)
        else if k = 1 then Some (2208000, 1000000000, False)
        else if k = 2 then Some (2147483647, 1000000000, False)
        else None
      else None)"

definition soc_ipc :: "string \<Rightarrow> nat \<Rightarrow> (nat list \<times> nat) option" where
  "soc_ipc name k =
     (if name \<in> set sun_names then
        if k = 0 then Some ([120, 180, 220, 260, 300], 5806080)
        else if k = 1 then Some ([220, 260, 280, 320, 400], 7004160)
        else None
      else None)"

definition soc_reasons :: "bool \<Rightarrow> nat list" where
  "soc_reasons thermal =
     [BOOST_SMART_FREQ, SUSTAINED_HIGH_UTIL_SMART_FREQ, BIG_TASKCNT_SMART_FREQ, TRAILBLAZER_SMART_FREQ, SBT_SMART_FREQ,
      PIPELINE_60FPS_OR_LESSER_SMART_FREQ, PIPELINE_90FPS_SMART_FREQ, PIPELINE_120FPS_OR_GREATER_SMART_FREQ]
     @ (if thermal then [THERMAL_ROTATION_SMART_FREQ] else [])"

definition set_soc_legacy :: "string \<Rightarrow> nat \<Rightarrow> smart_freq_cluster_info \<Rightarrow> smart_freq_cluster_info" where
  "set_soc_legacy name k info =
     (case soc_legacy name k of
        None \<Rightarrow> info
      | Some (freq, hyst, thermal) \<Rightarrow>
          info\<lparr>legacy_freq_allowed := (legacy_freq_allowed info)(0 := freq),
               legacy_hyst_ns := (legacy_hyst_ns info)(2 := 1000000000, 3 := 1000000000, 4 := hyst),
               smart_freq_participation_mask := fold set_bit (soc_reasons thermal) (smart_freq_participation_mask info)\<rparr>)"

definition soc_step :: "string \<Rightarrow> nat \<Rightarrow> 'z walt_globals_scheme \<Rightarrow> 'z walt_globals_scheme" where
  "soc_step name k s =
     (let info = set_soc_legacy name k (default_freq_config s k) in
      case soc_ipc name k of
        None \<Rightarrow> s\<lparr>default_freq_config := (default_freq_config s)(k := info)\<rparr>
      | Some (levels, cycles) \<Rightarrow>
          let sysctl = (\<lambda>j. if j < SMART_FMAX_IPC_MAX then levels ! j else sysctl_ipc_levels s k j) in
          s\<lparr>sysctl_ipc_levels := (sysctl_ipc_levels s)(k := sysctl),
            default_freq_config := (default_freq_config s)(k := info\<lparr>
              ipc_ipc := (\<lambda>j. if j < SMART_FMAX_IPC_MAX then sysctl j else ipc_ipc info j),
              smart_freq_ipc_participation_mask := 31, min_cycles := cycles\<rparr>)\<rparr>)"

definition smart_freq_init :: "string option \<Rightarrow> 'z walt_globals_scheme \<Rightarrow> 'z walt_globals_scheme" where
  "smart_freq_init name s =
     (let ks = [0..<length (sched_cluster s)];
          s1 = fold smart_freq_default_step ks s;
          s2 = (case name of None \<Rightarrow> s1 | Some n \<Rightarrow> fold (soc_step n) ks s1)
      in update_smart_freq_capacities (s2\<lparr>smart_freq_init_done := True\<rparr>))"

section \<open>The configuration after start-up\<close>

text \<open>The configuration a cluster gets.\<close>

definition soc_info :: "string \<Rightarrow> nat \<Rightarrow> smart_freq_cluster_info \<Rightarrow> smart_freq_cluster_info" where
  "soc_info name k info =
     (case soc_ipc name k of
        None \<Rightarrow> set_soc_legacy name k info
      | Some (levels, cycles) \<Rightarrow>
          (set_soc_legacy name k info)\<lparr>
            ipc_ipc := (\<lambda>j. if j < SMART_FMAX_IPC_MAX then levels ! j else ipc_ipc (set_soc_legacy name k info) j),
            smart_freq_ipc_participation_mask := 31, min_cycles := cycles\<rparr>)"

lemma soc_step_info:
  "default_freq_config (soc_step name k s) = (default_freq_config s)(k := soc_info name k (default_freq_config s k))"
  by (auto simp: soc_step_def soc_info_def Let_def fun_eq_iff split: option.split)

lemma fold_config:
  assumes "\<And>k s. default_freq_config (g k s) = (default_freq_config s)(k := h k (default_freq_config s k))"
  shows "default_freq_config (fold g [0..<n] s) k = (if k < n then h k (default_freq_config s k) else default_freq_config s k)"
  by (induction n) (auto simp: assms)

lemma fold_soc_config:
  "default_freq_config (fold (soc_step name) [0..<n] s) k =
     (if k < n then soc_info name k (default_freq_config s k) else default_freq_config s k)"
  by (rule fold_config) (rule soc_step_info)

lemma soc_step_frame:
  "freq_cap (soc_step name k s) = freq_cap s" "sched_cluster (soc_step name k s) = sched_cluster s"
  "FREQ_QOS_MAX_DEFAULT_VALUE (soc_step name k s) = FREQ_QOS_MAX_DEFAULT_VALUE s"
  "sysctl_walt_features (soc_step name k s) = sysctl_walt_features s"
  by (auto simp: soc_step_def Let_def split: option.split)

lemma default_step_frame:
  "sched_cluster (smart_freq_default_step k s) = sched_cluster s"
  "FREQ_QOS_MAX_DEFAULT_VALUE (smart_freq_default_step k s) = FREQ_QOS_MAX_DEFAULT_VALUE s"
  "sysctl_walt_features (smart_freq_default_step k s) = sysctl_walt_features s"
  by (simp_all add: smart_freq_default_step_def Let_def)

lemma fold_default_frame:
  "sched_cluster (fold smart_freq_default_step ks s) = sched_cluster s"
  "FREQ_QOS_MAX_DEFAULT_VALUE (fold smart_freq_default_step ks s) = FREQ_QOS_MAX_DEFAULT_VALUE s"
  by (rule fold_field, rule default_step_frame)+

lemma fold_default_config:
  "default_freq_config (fold smart_freq_default_step [0..<n] s) k =
     (if k < n then smart_freq_default (FREQ_QOS_MAX_DEFAULT_VALUE s) (default_freq_config s k) else default_freq_config s k)"
  "freq_cap (fold smart_freq_default_step [0..<n] s) SMART_FREQ k = (if k < n then FREQ_QOS_MAX_DEFAULT_VALUE s else freq_cap s SMART_FREQ k)"
  by (induction n) (auto simp: smart_freq_default_step_def Let_def fold_default_frame)

lemma fold_soc_cap: "freq_cap (fold (soc_step name) ks s) = freq_cap s"
  by (rule fold_field) (rule soc_step_frame)

lemma smart_freq_init_config:
  fixes s :: "'z walt_globals_scheme"
  assumes "k < length (sched_cluster s)"
  defines "d \<equiv> smart_freq_default (FREQ_QOS_MAX_DEFAULT_VALUE s) (default_freq_config s k)"
  shows "default_freq_config (smart_freq_init name s) k = (case name of None \<Rightarrow> d | Some n \<Rightarrow> soc_info n k d)"
    and "freq_cap (smart_freq_init name s) SMART_FREQ k = FREQ_QOS_MAX_DEFAULT_VALUE s"
proof -
  have u: "default_freq_config (update_smart_freq_capacities t) = default_freq_config t"
    "freq_cap (update_smart_freq_capacities t) = freq_cap t" for t :: "'z walt_globals_scheme"
    by (rule update_smart_freq_capacities_frame; simp)+
  show "default_freq_config (smart_freq_init name s) k = (case name of None \<Rightarrow> d | Some n \<Rightarrow> soc_info n k d)"
    using assms by (cases name) (simp_all add: smart_freq_init_def u fold_default_config fold_soc_config d_def Let_def)
  show "freq_cap (smart_freq_init name s) SMART_FREQ k = FREQ_QOS_MAX_DEFAULT_VALUE s"
    using assms(1) by (cases name) (simp_all add: smart_freq_init_def u fold_default_config fold_soc_cap Let_def)
qed

section \<open>What stays true of the configuration\<close>

text \<open>The IPC levels are in order, the legacy reasons take part only if they exist, and no reason is always one of them.\<close>

definition config_ok :: "smart_freq_cluster_info \<Rightarrow> bool" where
  "config_ok info \<longleftrightarrow> ipc_levels_sorted info \<and> bit (smart_freq_participation_mask info) NO_REASON_SMART_FREQ
     \<and> (\<forall>i. bit (smart_freq_participation_mask info) i \<longrightarrow> i < LEGACY_SMART_FREQ)"

lemma fold_set_bit: "bit (fold set_bit is (w :: 32 word)) j \<longleftrightarrow> bit w j \<or> j \<in> set is \<and> j < 32"
  by (induction "is" arbitrary: w) (auto simp: bit_set_bit_word dest: bit_imp_le_length)

lemma default_config_ok: "config_ok (smart_freq_default qos info)"
  by (auto simp: config_ok_def smart_freq_default_def ipc_levels_sorted_def bit_1_iff)

lemma soc_reasons_legacy: "i \<in> set (soc_reasons thermal) \<Longrightarrow> i < LEGACY_SMART_FREQ"
  by (auto simp: soc_reasons_def split: if_splits)

lemma soc_legacy_config_ok: "config_ok info \<Longrightarrow> config_ok (set_soc_legacy name k info)"
  by (auto simp: config_ok_def set_soc_legacy_def ipc_levels_sorted_def fold_set_bit dest: soc_reasons_legacy split: option.split)

lemma soc_config_ok: "config_ok info \<Longrightarrow> config_ok (soc_info name k info)"
proof -
  assume ok: "config_ok info"
  have "levels ! i \<le> levels ! Suc i" if "soc_ipc name k = Some (levels, c)" "Suc i < 5" for levels c i
  proof -
    have "i \<in> {0, 1, 2, 3}" using that(2) by auto
    then show ?thesis using that(1) by (auto simp: soc_ipc_def split: if_splits)
  qed
  then show ?thesis
    using soc_legacy_config_ok [OF ok, of name k]
    by (auto simp: soc_info_def config_ok_def ipc_levels_sorted_def split: option.split)
qed

text \<open>The writers and the updates, one after the other in any order.\<close>

inductive config_step :: "'z walt_globals_scheme \<Rightarrow> 'z walt_globals_scheme \<Rightarrow> bool" where
  legacy_write: "config_step s (snd (sched_smart_freq_legacy_freq_handler cid ret val s))"
| levels_write: "config_step s (snd (sched_smart_freq_ipc_levels_handler cid ret vals s))"
| freq_write: "config_step s (snd (sched_smart_freq_ipc_handler cid ret val s))"
| update: "config_step s (smart_freq_update_reason_common wallclock big ctr s)"
| ipc_update: "config_step s (snd (get_cluster_ipc_level_freq cpu time s))"

lemma legacy_freq_scan_reasons:
  assumes "legacy_freq_scan val n i sz f = Inr (sz', f')" and "i = sz" and "\<And>j. j < sz \<Longrightarrow> j mod 2 = 0 \<Longrightarrow> 0 \<le> val ! j \<and> val ! j < int LEGACY_SMART_FREQ"
  shows "\<forall>j < sz'. j mod 2 = 0 \<longrightarrow> 0 \<le> val ! j \<and> val ! j < int LEGACY_SMART_FREQ"
  using assms
proof (induction n arbitrary: i sz f)
  case (Suc n)
  show ?case
  proof (cases "val ! i = -1")
    case False
    have r: "legacy_freq_scan val n (i + 1) (sz + 1)
        (if i mod 2 = 0 \<and> val ! i = int NO_REASON_SMART_FREQ \<and> val ! (i + 1) \<noteq> -1 then ulong_of_int (val ! (i + 1)) else f) = Inr (sz', f')"
      and "i mod 2 = 0 \<Longrightarrow> 0 \<le> val ! i \<and> val ! i < int LEGACY_SMART_FREQ"
      using Suc.prems(1) False by (auto simp del: One_nat_def split: if_splits)
    then show ?thesis using Suc.prems(2,3) by (intro Suc.IH [OF r]) (auto simp: less_Suc_eq)
  qed (use Suc.prems in auto)
qed auto

lemma legacy_freq_store_ok:
  assumes "config_ok info" and "\<And>j. i \<le> j \<Longrightarrow> j < i + 2 * n \<Longrightarrow> j mod 2 = i mod 2 \<Longrightarrow> nat (val ! j) < LEGACY_SMART_FREQ"
  shows "config_ok (legacy_freq_store val n i info)"
  using assms
proof (induction n arbitrary: i info)
  case (Suc n)
  have "nat (val ! i) < LEGACY_SMART_FREQ" using Suc.prems(2) [of i] by simp
  then have "config_ok (info\<lparr>legacy_freq_allowed := (legacy_freq_allowed info)(nat (val ! i) := ulong_of_int (val ! (i + 1))),
      smart_freq_participation_mask := set_bit (nat (val ! i)) (smart_freq_participation_mask info)\<rparr>)"
    using Suc.prems(1) by (auto simp: config_ok_def ipc_levels_sorted_def bit_set_bit_word)
  then show ?case using Suc.prems(2) by (simp only: legacy_freq_store.simps) (intro Suc.IH, auto)
qed simp

lemma legacy_write_ok:
  assumes "config_ok (default_freq_config s k)"
  shows "config_ok (default_freq_config (snd (sched_smart_freq_legacy_freq_handler cid ret val s)) k)"
proof (cases "legacy_freq_scan val (2 * LEGACY_SMART_FREQ) 0 0 0")
  case (Inr p)
  obtain sz f where p: "p = (sz, f)" by fastforce
  have r: "nat (val ! j) < LEGACY_SMART_FREQ" if "j < 0 + 2 * (sz div 2)" "j mod 2 = 0 mod 2" for j
  proof -
    have "j < sz" using that(1) by linarith
    then show ?thesis using legacy_freq_scan_reasons [OF Inr [unfolded p]] that(2) by auto
  qed
  have "config_ok (legacy_freq_store val (sz div 2) 0 info)" if "config_ok info" for info
    using r by (intro legacy_freq_store_ok [OF that]) blast
  moreover have "config_ok (info\<lparr>legacy_freq_allowed := g, ipc_freq_allowed := g'\<rparr>) = config_ok info" for info g g'
    by (simp add: config_ok_def ipc_levels_sorted_def)
  ultimately show ?thesis
    using assms Inr p by (auto simp: sched_smart_freq_legacy_freq_handler_def Let_def simp del: legacy_freq_scan.simps split: if_splits)
qed (use assms in \<open>simp add: sched_smart_freq_legacy_freq_handler_def del: legacy_freq_scan.simps\<close>)

lemma levels_write_ok:
  assumes "config_ok (default_freq_config s k)"
  shows "config_ok (default_freq_config (snd (sched_smart_freq_ipc_levels_handler cid ret vals s)) k)"
proof -
  let ?s = "snd (sched_smart_freq_ipc_levels_handler cid ret vals s)"
  have "smart_freq_participation_mask (default_freq_config ?s k) = smart_freq_participation_mask (default_freq_config s k)"
    "k \<noteq> cid \<Longrightarrow> default_freq_config ?s k = default_freq_config s k"
    by (auto simp: sched_smart_freq_ipc_levels_handler_def Let_def split: option.split)
  then show ?thesis using assms ipc_levels_handler_sorted [of s cid ret vals] by (cases "k = cid") (auto simp: config_ok_def)
qed

lemma freq_write_ok:
  "config_ok (default_freq_config s k) \<Longrightarrow> config_ok (default_freq_config (snd (sched_smart_freq_ipc_handler cid ret val s)) k)"
  by (auto simp: sched_smart_freq_ipc_handler_def Let_def config_ok_def ipc_levels_sorted_def)

text \<open>The updates do not touch the levels and the participation.\<close>

definition same_config :: "smart_freq_cluster_info \<Rightarrow> smart_freq_cluster_info \<Rightarrow> bool" where
  "same_config info info' \<longleftrightarrow> ipc_ipc info' = ipc_ipc info \<and> smart_freq_participation_mask info' = smart_freq_participation_mask info"

lemma config_ok_same: "same_config info info' \<Longrightarrow> config_ok info' = config_ok info"
  by (simp add: same_config_def config_ok_def ipc_levels_sorted_def)

lemma same_config_refl: "same_config info info"
  by (simp add: same_config_def)

lemma same_config_fold:
  assumes "\<And>x a. same_config (p a) (p (g x a))"
  shows "same_config (p a) (p (fold g xs a))"
  using assms by (induction xs arbitrary: a) (simp_all add: same_config_def)

lemma update_one_same: "same_config (default_freq_config s j) (default_freq_config (smart_freq_update_one_cluster k reasons w s) j)"
proof -
  obtain info m where f: "fold (smart_freq_reason_step reasons w) [0..<LEGACY_SMART_FREQ]
      (default_freq_config s k, legacy_freq_allowed (default_freq_config s k) NO_REASON_SMART_FREQ) = (info, m)"
    by fastforce
  have "same_config (fst a) (fst (smart_freq_reason_step reasons w i a))" for i a
    by (auto simp: smart_freq_reason_step_def same_config_def Let_def split: prod.split)
  from same_config_fold [of fst "smart_freq_reason_step reasons w", OF this] f
  have "same_config (default_freq_config s k) info" by (metis fst_conv)
  then show ?thesis
    unfolding smart_freq_update_one_cluster_def Let_def f by (auto simp: same_config_def)
qed

lemma update_ok:
  fixes s :: "'z walt_globals_scheme"
  assumes "config_ok (default_freq_config s j)"
  shows "config_ok (default_freq_config (smart_freq_update_reason_common w big ctr s) j)"
proof -
  let ?p = "\<lambda>s. default_freq_config s j"
  let ?uncap = "\<lambda>k (b, s). let (b', s') = thres_based_uncap w k s in (b \<or> b', s')"
  obtain b s1 where f: "fold ?uncap [0..<length (sched_cluster s)] (False, s) = (b, s1)" by fastforce
  have "same_config (?p (snd a)) (?p (snd (?uncap k a)))" for k a
    by (auto simp: thres_based_uncap_def same_config_def Let_def split: prod.split)
  from same_config_fold [of "\<lambda>a. ?p (snd a)" ?uncap, OF this] f
  have s1: "same_config (?p s) (?p s1)" by (metis snd_conv)
  let ?one = "\<lambda>k s. let reasons = cluster_reasons_of s b big ctr k in
    if reasons \<noteq> 0 \<or> cluster_active_reason (default_freq_config s k) \<noteq> 0 then smart_freq_update_one_cluster k reasons w s else s"
  have "same_config (?p t) (?p (?one k t))" for k t
    by (simp add: Let_def update_one_same same_config_refl)
  from same_config_fold [of ?p ?one, OF this] have "same_config (?p s1) (?p (fold ?one ks s1))" for ks .
  with s1 have "config_ok (?p (fold ?one ks s1))" for ks using assms config_ok_same by blast
  then show ?thesis using assms unfolding smart_freq_update_reason_common_def f Let_def [of "(b, s1)"] prod.case by simp
qed

lemma ipc_update_ok:
  fixes s :: "'z walt_globals_scheme"
  assumes "config_ok (default_freq_config s j)"
  shows "config_ok (default_freq_config (snd (get_cluster_ipc_level_freq cpu time s)) j)"
proof -
  let ?k = "cpu_cluster s cpu"
  obtain i s1 where f: "fold (ipc_level_step time) (for_each_cpu (nr_cpu_ids s) (cluster_cpus (sched_cluster s ! ?k))) (0, s) = (i, s1)"
    by fastforce
  have "default_freq_config (snd (fold (ipc_level_step time) cs a)) = default_freq_config (snd a)" for cs and a :: "nat \<times> 'z walt_globals_scheme"
    by (rule fold_field [where g = "\<lambda>a. default_freq_config (snd a)"]) (simp add: ipc_level_step_def Let_def split: prod.split)
  from this [of _ "(0, s)"] f have "default_freq_config s1 = default_freq_config s" by (metis snd_conv)
  then show ?thesis
    using assms f by (auto simp: get_cluster_ipc_level_freq_def Let_def config_ok_def ipc_levels_sorted_def)
qed

lemma config_step_ok:
  "config_step s s' \<Longrightarrow> config_ok (default_freq_config s k) \<Longrightarrow> config_ok (default_freq_config s' k)"
  by (induction rule: config_step.induct) (auto intro: legacy_write_ok levels_write_ok freq_write_ok update_ok ipc_update_ok)

text \<open>
  C23 (invariant). After start-up on any system on chip, and after any writes to the sysctl files and any updates
  since then, the IPC levels of every cluster are in increasing order, the state without a reason takes part, and only
  existing reasons do.
\<close>

theorem smart_freq_config_kept:
  fixes s s' :: "'z walt_globals_scheme"
  assumes "config_step\<^sup>*\<^sup>* (smart_freq_init name s) s'" and "k < length (sched_cluster s)"
  shows "config_ok (default_freq_config s' k)"
  using assms(1)
proof (induction rule: rtranclp_induct)
  case base
  show ?case
    using default_config_ok soc_config_ok [OF default_config_ok]
    by (cases name) (simp_all add: smart_freq_init_config(1) [OF assms(2)])
qed (rule config_step_ok)

theorem smart_freq_config_kept_witness:
  "let s = snd (sched_smart_freq_ipc_levels_handler 0 0 [100, 150, 190, UINT_MAX, UINT_MAX] (smart_freq_init (Some ''SUN'') example_globals))
   in config_ok (default_freq_config s 0) \<and> config_ok (default_freq_config s 1)"
proof -
  let ?s = "snd (sched_smart_freq_ipc_levels_handler 0 0 [100, 150, 190, UINT_MAX, UINT_MAX] (smart_freq_init (Some ''SUN'') example_globals))"
  have "config_step\<^sup>*\<^sup>* (smart_freq_init (Some ''SUN'') example_globals) ?s" by (rule r_into_rtranclp, rule config_step.levels_write)
  from smart_freq_config_kept [OF this] show ?thesis by (simp add: example_globals_def Let_def)
qed

section \<open>Caps without effect\<close>

lemma update_smart_freq_capacities_length:
  fixes s :: "'z walt_globals_scheme"
  shows "length (sched_cluster (update_smart_freq_capacities s)) = length (sched_cluster s)"
proof -
  let ?g = "\<lambda>s :: 'z walt_globals_scheme. length (sched_cluster s)"
  have "?g (fold update_cpu_capacity_helper cs t) = ?g t" for cs t
    by (rule fold_field [where g = ?g]) (simp add: update_cpu_capacity_helper_def Let_def)
  moreover have "?g (snd (has_internal_freq_limit_changed k t)) = ?g t" for k t
    by (simp add: has_internal_freq_limit_changed_def Let_def)
  ultimately have "?g (update_smart_freq_capacities_one_cluster k t) = ?g t" for k t
    by (simp add: update_smart_freq_capacities_one_cluster_def case_prod_beta)
  then show ?thesis by (simp add: update_smart_freq_capacities_def fold_field [where g = ?g])
qed

lemma smart_freq_init_length:
  fixes s :: "'z walt_globals_scheme"
  shows "length (sched_cluster (smart_freq_init name s)) = length (sched_cluster s)"
proof -
  have "sched_cluster (fold (soc_step n) ks t) = sched_cluster t" for n ks and t :: "'z walt_globals_scheme"
    by (rule fold_field) (rule soc_step_frame)
  then show ?thesis
    by (cases name) (simp_all add: smart_freq_init_def update_smart_freq_capacities_length fold_default_frame Let_def)
qed

text \<open>
  On the systems with IPC levels, start-up turns them on with the largest frequency for every level. Until frequencies are
  written, the limit of the cluster is at least that frequency, whatever the caps are.
\<close>

theorem caps_without_effect:
  fixes s :: "'z walt_globals_scheme" and caps :: "freq_caps \<Rightarrow> nat \<Rightarrow> nat"
  assumes "name \<in> set sun_names" and "k < 2" and "k < length (sched_cluster s)" and "FREQ_QOS_MAX_DEFAULT_VALUE s = 2147483647"
  defines "t \<equiv> (smart_freq_init (Some name) s)\<lparr>freq_cap := caps\<rparr>"
  assumes "prev_cluster_limit k t < 2 ^ 32"
  shows "2147483647 \<le> walt_internal_freq_limit (sched_cluster (snd (has_internal_freq_limit_changed k t)) ! k)"
proof -
  have "\<exists>levels c. soc_ipc name k = Some (levels, c)" using assms(1,2) by (auto simp: soc_ipc_def less_2_cases_iff)
  then have "smart_freq_ipc_participation_mask (default_freq_config t k) \<noteq> 0" "ipc_freq_allowed (default_freq_config t k) = (\<lambda>_. 2147483647)"
    using smart_freq_init_config(1) [OF assms(3), of "Some name"] assms(4)
    by (auto simp: t_def soc_info_def set_soc_legacy_def smart_freq_default_def split: option.split)
  moreover have "length (sched_cluster t) = length (sched_cluster s)" by (simp add: t_def smart_freq_init_length)
  ultimately show ?thesis
    using internal_freq_limit_spec [of k t] assms(3,6) by (auto simp: ipc_freq_of_def Let_def width_simps split: prod.splits)
qed

end
