(* ===== verification/Kernel_Data.thy ===== *)
theory Kernel_Data
  imports Kernel_Prelude
begin

text \<open>
  Data structures of the kernel the messaging components share: the \<^verbatim>\<open>struct xarray\<close> as an index
  list in ascending order, with its interface as a locale, byte buffers with little-endian words, and
  memory objects with checked access.
\<close>

named_theorems xa_simps \<open>what an operation on an xarray makes visible\<close>

section \<open>The interface of an xarray\<close>

text \<open>
  What a client of \<^verbatim>\<open>xa_load\<close>, \<^verbatim>\<open>xa_store\<close>, \<^verbatim>\<open>xa_erase\<close> and \<^verbatim>\<open>xa_find\<close> relies on. \<open>find x lo\<close> is
  the first entry at an index of at least \<open>lo\<close>; \<^verbatim>\<open>xa_for_each\<close> calls it with the index
  after the last one visited.
\<close>

locale xarray_interface =
  fixes ok :: "'x \<Rightarrow> bool"
    and load :: "'x \<Rightarrow> nat \<Rightarrow> 'v option"
    and store :: "'x \<Rightarrow> nat \<Rightarrow> 'v \<Rightarrow> 'x"
    and erase :: "'x \<Rightarrow> nat \<Rightarrow> 'x"
    and find :: "'x \<Rightarrow> nat \<Rightarrow> (nat \<times> 'v) option"
  assumes load_store: "load (store x k v) j = (if j = k then Some v else load x j)"
    and load_erase: "load (erase x k) j = (if j = k then None else load x j)"
    and ok_store: "ok x \<Longrightarrow> ok (store x k v)"
    and ok_erase: "ok x \<Longrightarrow> ok (erase x k)"
    and find_Some: "ok x \<Longrightarrow> find x lo = Some (i, v) \<Longrightarrow>
      lo \<le> i \<and> load x i = Some v \<and> (\<forall>j. lo \<le> j \<and> j < i \<longrightarrow> load x j = None)"
    and find_None: "ok x \<Longrightarrow> find x lo = None \<Longrightarrow> lo \<le> j \<Longrightarrow> load x j = None"
begin

lemma erase_store: "load x k = None \<Longrightarrow> load (erase (store x k v) k) = load x"
  by (rule ext) (simp add: load_erase load_store)

lemma store_store: "load (store (store x k v) k w) = load (store x k w)"
  by (rule ext) (simp add: load_store)

text \<open>Erasing the entry a sweep has found moves the empty prefix past it.\<close>

lemma sweep_step:
  assumes ok: "ok x" and below: "\<And>j. j < lo \<Longrightarrow> load x j = None" and f: "find x lo = Some (i, v)"
    and j: "j < Suc i"
  shows "load (erase x i) j = None"
proof -
  note f' = find_Some [OF ok f]
  show ?thesis
  proof (cases "j = i")
    case True
    then show ?thesis by (simp add: load_erase)
  next
    case False
    then have "j < i" using j by simp
    then show ?thesis using f' below by (cases "j < lo") (simp_all add: load_erase)
  qed
qed

lemma sweep_end:
  assumes "ok x" and "\<And>j. j < lo \<Longrightarrow> load x j = None" and "find x lo = None"
  shows "load x j = None"
  using assms find_None by (cases "j < lo") simp_all

end

section \<open>The xarray as a sorted index list\<close>

type_synonym 'a xarray = "(nat \<times> 'a) list"

definition xa_ok :: "'a xarray \<Rightarrow> bool" where
  "xa_ok xa \<longleftrightarrow> sorted_wrt (<) (map fst xa)"

definition xa_load :: "'a xarray \<Rightarrow> nat \<Rightarrow> 'a option" where
  "xa_load xa k = map_of xa k"

fun xa_store :: "'a xarray \<Rightarrow> nat \<Rightarrow> 'a \<Rightarrow> 'a xarray" where
  "xa_store [] k v = [(k, v)]"
| "xa_store (e # xa) k v =
     (if k < fst e then (k, v) # e # xa
      else if k = fst e then (k, v) # xa
      else e # xa_store xa k v)"

definition xa_erase :: "'a xarray \<Rightarrow> nat \<Rightarrow> 'a xarray" where
  "xa_erase xa k = filter (\<lambda>e. fst e \<noteq> k) xa"

fun xa_find :: "'a xarray \<Rightarrow> nat \<Rightarrow> (nat \<times> 'a) option" where
  "xa_find [] lo = None"
| "xa_find (e # xa) lo = (if lo \<le> fst e then Some e else xa_find xa lo)"

lemma xa_load_store [xa_simps]: "xa_load (xa_store xa k v) j = (if j = k then Some v else xa_load xa j)"
  by (induction xa k v rule: xa_store.induct) (auto simp: xa_load_def)

lemma xa_load_erase [xa_simps]: "xa_load (xa_erase xa k) j = (if j = k then None else xa_load xa j)"
  by (induction xa) (auto simp: xa_load_def xa_erase_def)

lemma xa_load_Nil [simp]: "xa_load [] k = None"
  by (simp add: xa_load_def)

lemma fst_set_store: "fst ` set (xa_store xa k v) = insert k (fst ` set xa)"
  by (induction xa k v rule: xa_store.induct) auto

lemma xa_ok_Nil [simp]: "xa_ok []"
  by (simp add: xa_ok_def)

lemma xa_ok_store [simp, intro]: "xa_ok xa \<Longrightarrow> xa_ok (xa_store xa k v)"
proof (induction xa k v rule: xa_store.induct)
  case (2 e xa k v)
  have "\<forall>y \<in> fst ` set xa. fst e < y" and "xa_ok xa"
    using 2(2) by (auto simp: xa_ok_def)
  then show ?case
    using 2(1) fst_set_store [of xa k v] by (auto simp: xa_ok_def image_iff)
qed (simp add: xa_ok_def)

lemma xa_ok_erase [simp, intro]: "xa_ok xa \<Longrightarrow> xa_ok (xa_erase xa k)"
  by (induction xa) (auto simp: xa_ok_def xa_erase_def)

lemma xa_load_iff: "xa_ok xa \<Longrightarrow> xa_load xa k = Some v \<longleftrightarrow> (k, v) \<in> set xa"
  by (simp add: xa_load_def xa_ok_def strict_sorted_iff)

lemma xa_load_None: "xa_load xa k = None \<longleftrightarrow> k \<notin> fst ` set xa"
  by (simp add: xa_load_def map_of_eq_None_iff)

lemma xa_find_Some:
  "xa_ok xa \<Longrightarrow> xa_find xa lo = Some (i, v) \<Longrightarrow>
     lo \<le> i \<and> xa_load xa i = Some v \<and> (\<forall>j. lo \<le> j \<and> j < i \<longrightarrow> xa_load xa j = None)"
  by (induction xa) (auto simp: xa_ok_def xa_load_def map_of_eq_None_iff split: if_splits)

lemma xa_find_None: "xa_find xa lo = None \<Longrightarrow> lo \<le> j \<Longrightarrow> xa_load xa j = None"
  by (induction xa) (auto simp: xa_load_def split: if_splits)

lemma xa_find_mem: "xa_find xa lo = Some e \<Longrightarrow> e \<in> set xa \<and> lo \<le> fst e"
  by (induction xa) (auto split: if_splits)

interpretation xa: xarray_interface xa_ok xa_load xa_store xa_erase xa_find
  by unfold_locales
     (simp_all add: xa_simps xa_ok_store xa_ok_erase xa_find_Some [THEN conjunct1] xa_find_Some
        xa_find_None)

text \<open>Two well-formed arrays with the same contents are the same list.\<close>

lemma xa_eqI:
  assumes "xa_ok x" and "xa_ok y" and "\<And>k. xa_load x k = xa_load y k"
  shows "x = y"
proof -
  have "set x = set y"
    using assms by (metis (no_types, lifting) set_eqI surj_pair xa_load_iff)
  moreover have "sorted_wrt (\<lambda>a b. fst a < fst b) x" "sorted_wrt (\<lambda>a b. fst a < fst b) y"
    using assms by (simp_all add: xa_ok_def sorted_wrt_map)
  ultimately show ?thesis
  proof (induction x arbitrary: y)
    case (Cons a x)
    then obtain b y' where y: "y = b # y'" by (cases y) auto
    have "a = b"
    proof (rule ccontr)
      assume "a \<noteq> b"
      then have "fst a < fst b" "fst b < fst a"
        using Cons.prems y by auto
      then show False by simp
    qed
    moreover have "a \<notin> set x" "b \<notin> set y'" using Cons.prems y by auto
    ultimately have "set x = set y'" using Cons.prems(1) y by auto
    then show ?case using Cons y \<open>a = b\<close> by simp
  qed simp
qed

lemma xa_store_id: "xa_ok xa \<Longrightarrow> xa_load xa k = Some v \<Longrightarrow> xa_store xa k v = xa"
  by (rule xa_eqI) (auto simp: xa_simps)

section \<open>Little-endian words in byte buffers\<close>

type_synonym byte = "8 word"

definition le16_bytes :: "nat \<Rightarrow> byte list" where
  "le16_bytes n = map (\<lambda>k. word_of_nat (n div 256 ^ k)) [0, 1]"

definition le32_bytes :: "nat \<Rightarrow> byte list" where
  "le32_bytes n = map (\<lambda>k. word_of_nat (n div 256 ^ k)) [0, 1, 2, 3]"

definition le16_at :: "byte list \<Rightarrow> nat \<Rightarrow> nat" where
  "le16_at b i = unat (b ! i) + 256 * unat (b ! (i + 1))"

definition le32_at :: "byte list \<Rightarrow> nat \<Rightarrow> nat" where
  "le32_at b i = unat (b ! i) + 256 * unat (b ! (i + 1)) + 65536 * unat (b ! (i + 2))
     + 16777216 * unat (b ! (i + 3))"

lemma length_le_bytes [simp]: "length (le16_bytes n) = 2" "length (le32_bytes n) = 4"
  by (simp_all add: le16_bytes_def le32_bytes_def)

lemma unat_byte_of_nat: "unat (word_of_nat n :: byte) = n mod 256"
  by (simp add: unat_of_nat)

lemma byte_less: "unat (b :: byte) < 256"
  using unsigned_less [of b, where 'a = nat] by simp

lemma le32_at_less [simp]: "le32_at b i < 4294967296"
  using byte_less [of "b ! i"] byte_less [of "b ! (i + 1)"] byte_less [of "b ! (i + 2)"]
    byte_less [of "b ! (i + 3)"]
  by (simp add: le32_at_def)

lemma le16_at_less [simp]: "le16_at b i < 65536"
  using byte_less [of "b ! i"] byte_less [of "b ! (i + 1)"]
  by (simp add: le16_at_def)

lemma le_bytes_digits:
  fixes n :: nat
  shows "n mod 256 + 256 * (n div 256 mod 256) + 65536 * (n div 65536 mod 256)
     + 16777216 * (n div 16777216) = n"
proof -
  have d: "n div 65536 = n div 256 div 256" "n div 16777216 = n div 256 div 256 div 256"
    by (simp_all add: div_mult2_eq [symmetric])
  show ?thesis
    unfolding d
    using mult_div_mod_eq [of 256 n] mult_div_mod_eq [of 256 "n div 256"]
      mult_div_mod_eq [of 256 "n div 256 div 256"]
    by linarith
qed

lemma le32_at_bytes:
  assumes "n < 4294967296"
  shows "le32_at (xs @ le32_bytes n @ ys) (length xs) = n"
proof -
  have "n div 16777216 mod 256 = n div 16777216"
    using assms by simp
  then show ?thesis
    using le_bytes_digits [of n]
    by (simp add: le32_at_def le32_bytes_def nth_append unat_byte_of_nat)
qed

lemma le16_at_bytes:
  assumes "n < 65536"
  shows "le16_at (xs @ le16_bytes n @ ys) (length xs) = n"
proof -
  have "n div 256 < 256"
    using assms by simp
  then show ?thesis
    using mult_div_mod_eq [of 256 n]
    by (simp add: le16_at_def le16_bytes_def nth_append unat_byte_of_nat)
qed

section \<open>Memory objects\<close>

text \<open>
  An object of memory is a byte list; reading or writing outside of it is \<^term>\<open>None\<close>.
\<close>

definition rd :: "byte list \<Rightarrow> nat \<Rightarrow> nat \<Rightarrow> byte list option" where
  "rd m a n = (if a + n \<le> length m then Some (take n (drop a m)) else None)"

definition wr :: "byte list \<Rightarrow> nat \<Rightarrow> byte list \<Rightarrow> byte list option" where
  "wr m a bs = (if a + length bs \<le> length m then Some (take a m @ bs @ drop (a + length bs) m) else None)"

lemma length_rd: "rd m a n = Some bs \<Longrightarrow> length bs = n"
  by (auto simp: rd_def split: if_splits)

lemma length_wr: "wr m a bs = Some m' \<Longrightarrow> length m' = length m"
  by (auto simp: wr_def split: if_splits)

lemma wr_wr:
  assumes "d + length x + length y \<le> length m"
  shows "Option.bind (wr m d x) (\<lambda>m'. wr m' (d + length x) y) = wr m d (x @ y)"
  using assms by (simp add: wr_def min_absorb1 ac_simps)

end
