(* ===== verification/Qrtr_Proto.thy ===== *)
theory Qrtr_Proto
  imports Kernel_Data
begin

text \<open>
  The user-visible protocol of the IPC router (\<^verbatim>\<open>include/uapi/linux/qrtr.h\<close>): addresses, packet
  types and the control packet with its wire format.
\<close>

abbreviation (input) AF_QIPCRTR :: nat where "AF_QIPCRTR \<equiv> 42"
abbreviation (input) QRTR_NODE_BCAST :: nat where "QRTR_NODE_BCAST \<equiv> 4294967295"
abbreviation (input) QRTR_PORT_CTRL :: nat where "QRTR_PORT_CTRL \<equiv> 4294967294"

abbreviation (input) QRTR_TYPE_DATA :: nat where "QRTR_TYPE_DATA \<equiv> 1"
abbreviation (input) QRTR_TYPE_HELLO :: nat where "QRTR_TYPE_HELLO \<equiv> 2"
abbreviation (input) QRTR_TYPE_BYE :: nat where "QRTR_TYPE_BYE \<equiv> 3"
abbreviation (input) QRTR_TYPE_NEW_SERVER :: nat where "QRTR_TYPE_NEW_SERVER \<equiv> 4"
abbreviation (input) QRTR_TYPE_DEL_SERVER :: nat where "QRTR_TYPE_DEL_SERVER \<equiv> 5"
abbreviation (input) QRTR_TYPE_DEL_CLIENT :: nat where "QRTR_TYPE_DEL_CLIENT \<equiv> 6"
abbreviation (input) QRTR_TYPE_RESUME_TX :: nat where "QRTR_TYPE_RESUME_TX \<equiv> 7"
abbreviation (input) QRTR_TYPE_EXIT :: nat where "QRTR_TYPE_EXIT \<equiv> 8"
abbreviation (input) QRTR_TYPE_PING :: nat where "QRTR_TYPE_PING \<equiv> 9"
abbreviation (input) QRTR_TYPE_NEW_LOOKUP :: nat where "QRTR_TYPE_NEW_LOOKUP \<equiv> 10"
abbreviation (input) QRTR_TYPE_DEL_LOOKUP :: nat where "QRTR_TYPE_DEL_LOOKUP \<equiv> 11"
abbreviation (input) QRTR_TYPE_DEL_PROC :: nat where "QRTR_TYPE_DEL_PROC \<equiv> 13"

record sockaddr_qrtr =
  sq_family :: nat
  sq_node :: nat
  sq_port :: nat

text \<open>
  The packed control packet: the command and four words. The union overlays them: a server is
  (service, instance, node, port), a client (node, port) and a process (reserved, node).
\<close>

record qrtr_ctrl_pkt =
  pkt_cmd :: nat
  pkt_w0 :: nat
  pkt_w1 :: nat
  pkt_w2 :: nat
  pkt_w3 :: nat

abbreviation (input) server_service :: "qrtr_ctrl_pkt \<Rightarrow> nat" where "server_service \<equiv> pkt_w0"
abbreviation (input) server_instance :: "qrtr_ctrl_pkt \<Rightarrow> nat" where "server_instance \<equiv> pkt_w1"
abbreviation (input) server_node :: "qrtr_ctrl_pkt \<Rightarrow> nat" where "server_node \<equiv> pkt_w2"
abbreviation (input) server_port :: "qrtr_ctrl_pkt \<Rightarrow> nat" where "server_port \<equiv> pkt_w3"
abbreviation (input) client_node :: "qrtr_ctrl_pkt \<Rightarrow> nat" where "client_node \<equiv> pkt_w0"
abbreviation (input) client_port :: "qrtr_ctrl_pkt \<Rightarrow> nat" where "client_port \<equiv> pkt_w1"
abbreviation (input) proc_node :: "qrtr_ctrl_pkt \<Rightarrow> nat" where "proc_node \<equiv> pkt_w1"

abbreviation (input) ctrl_pkt_size :: nat where "ctrl_pkt_size \<equiv> 20"

definition zero_pkt :: qrtr_ctrl_pkt where
  "zero_pkt = \<lparr>pkt_cmd = 0, pkt_w0 = 0, pkt_w1 = 0, pkt_w2 = 0, pkt_w3 = 0\<rparr>"

definition ctrl_pkt_bytes :: "qrtr_ctrl_pkt \<Rightarrow> byte list" where
  "ctrl_pkt_bytes p = le32_bytes (pkt_cmd p) @ le32_bytes (pkt_w0 p) @ le32_bytes (pkt_w1 p)
     @ le32_bytes (pkt_w2 p) @ le32_bytes (pkt_w3 p)"

definition ctrl_pkt_of :: "byte list \<Rightarrow> qrtr_ctrl_pkt" where
  "ctrl_pkt_of b = \<lparr>pkt_cmd = le32_at b 0, pkt_w0 = le32_at b 4, pkt_w1 = le32_at b 8,
     pkt_w2 = le32_at b 12, pkt_w3 = le32_at b 16\<rparr>"

definition pkt_ok :: "qrtr_ctrl_pkt \<Rightarrow> bool" where
  "pkt_ok p \<longleftrightarrow> pkt_cmd p < 4294967296 \<and> pkt_w0 p < 4294967296 \<and> pkt_w1 p < 4294967296
     \<and> pkt_w2 p < 4294967296 \<and> pkt_w3 p < 4294967296"

lemma length_ctrl_pkt_bytes [simp]: "length (ctrl_pkt_bytes p) = 20"
  by (simp add: ctrl_pkt_bytes_def)

lemma ctrl_pkt_of_ok [simp]: "pkt_ok (ctrl_pkt_of b)"
  by (simp add: pkt_ok_def ctrl_pkt_of_def)

lemma ctrl_pkt_of_bytes:
  assumes "pkt_ok p"
  shows "ctrl_pkt_of (ctrl_pkt_bytes p @ rest) = p"
proof -
  note r = le32_at_bytes [where xs = "[]", simplified]
    le32_at_bytes [where xs = "le32_bytes a" for a, simplified]
    le32_at_bytes [where xs = "le32_bytes a @ le32_bytes b" for a b, simplified]
    le32_at_bytes [where xs = "le32_bytes a @ le32_bytes b @ le32_bytes c" for a b c, simplified]
    le32_at_bytes [where xs = "le32_bytes a @ le32_bytes b @ le32_bytes c @ le32_bytes d" for a b c d, simplified]
  show ?thesis
    using assms by (simp add: pkt_ok_def ctrl_pkt_of_def ctrl_pkt_bytes_def r)
qed

end
