(* ===== verification/Qrtr_Ns.thy ===== *)
theory Qrtr_Ns
  imports Qrtr_Proto
begin

text \<open>
  The name service of the IPC router (\<^verbatim>\<open>net/qrtr/ns.c\<close>): the registry of servers by node and
  port, the observers that look services up, one operation per control command, and the worker that
  takes packets off the control socket.

  A node is designated by its index in the table of nodes (nodes are never freed). The pieces outside
  the file are parameters: \<open>kzalloc_ok\<close> says whether the n-th allocation (of memory or inside
  \<^verbatim>\<open>xa_store\<close>) succeeds, \<open>sendmsg_ret\<close> what the n-th \<^verbatim>\<open>kernel_sendmsg\<close> returns, and the
  packets \<^verbatim>\<open>kernel_recvmsg\<close> delivers are an argument of the worker. \<open>sent\<close> records the attempts
  to send, in order, with their results.
\<close>

section \<open>State\<close>

record qrtr_server_filter =
  f_service :: nat
  f_instance :: nat
  f_ifilter :: nat

record qrtr_lookup =
  lk_service :: nat
  lk_instance :: nat
  lk_sq :: sockaddr_qrtr

record qrtr_server =
  srv_service :: nat
  srv_instance :: nat
  srv_node :: nat
  srv_port :: nat

record qrtr_node =
  node_id :: nat
  servers :: "qrtr_server xarray"

record qrtr_ns =
  nodes :: "qrtr_node xarray"
  lookups :: "qrtr_lookup list"
  local_node :: nat
  bcast_sq :: sockaddr_qrtr
  sent :: "(sockaddr_qrtr \<times> qrtr_ctrl_pkt \<times> int) list"
  allocs :: nat

record ns_env =
  kzalloc_ok :: "nat \<Rightarrow> bool"
  sendmsg_ret :: "nat \<Rightarrow> sockaddr_qrtr \<Rightarrow> qrtr_ctrl_pkt \<Rightarrow> int"

definition kzalloc :: "ns_env \<Rightarrow> 'z qrtr_ns_scheme \<Rightarrow> bool \<times> 'z qrtr_ns_scheme" where
  "kzalloc e s = (kzalloc_ok e (allocs s), s\<lparr>allocs := allocs s + 1\<rparr>)"

definition kernel_sendmsg ::
  "ns_env \<Rightarrow> sockaddr_qrtr \<Rightarrow> qrtr_ctrl_pkt \<Rightarrow> 'z qrtr_ns_scheme \<Rightarrow> int \<times> 'z qrtr_ns_scheme" where
  "kernel_sendmsg e dest pkt s =
     (let r = sendmsg_ret e (length (sent s)) dest pkt in (r, s\<lparr>sent := sent s @ [(dest, pkt, r)]\<rparr>))"

text \<open>The servers of a node, by the node's index.\<close>

definition servers_of :: "nat \<Rightarrow> 'z qrtr_ns_scheme \<Rightarrow> qrtr_server xarray" where
  "servers_of n s = (case xa_load (nodes s) n of None \<Rightarrow> [] | Some nd \<Rightarrow> servers nd)"

definition set_servers :: "nat \<Rightarrow> qrtr_server xarray \<Rightarrow> 'z qrtr_ns_scheme \<Rightarrow> 'z qrtr_ns_scheme" where
  "set_servers n sv s =
     (case xa_load (nodes s) n of None \<Rightarrow> s
      | Some nd \<Rightarrow> s\<lparr>nodes := xa_store (nodes s) n (nd\<lparr>servers := sv\<rparr>)\<rparr>)"

section \<open>Nodes and servers\<close>

definition node_get :: "ns_env \<Rightarrow> nat \<Rightarrow> 'z qrtr_ns_scheme \<Rightarrow> nat option \<times> 'z qrtr_ns_scheme" where
  "node_get e n s =
     (case xa_load (nodes s) n of Some nd \<Rightarrow> (Some n, s)
      | None \<Rightarrow>
        let (ok, s1) = kzalloc e s in
        if \<not> ok then (None, s1)
        else
          let (stored, s2) = kzalloc e s1 in
          if \<not> stored then (None, s2)
          else (Some n, s2\<lparr>nodes := xa_store (nodes s2) n \<lparr>node_id = n, servers = []\<rparr>\<rparr>))"

fun find_service :: "nat \<Rightarrow> nat \<Rightarrow> qrtr_server list \<Rightarrow> int" where
  "find_service n p [] = - EINVAL"
| "find_service n p (srv # r) =
     (if srv_node srv = n \<and> srv_port srv = p then s32 (int (srv_service srv)) else find_service n p r)"

definition qrtr_get_service_id :: "nat \<Rightarrow> nat \<Rightarrow> 'z qrtr_ns_scheme \<Rightarrow> int" where
  "qrtr_get_service_id n p s =
     (case xa_load (nodes s) n of None \<Rightarrow> - EINVAL
      | Some nd \<Rightarrow> find_service n p (map snd (servers nd)))"

unbundle bit_operations_syntax

definition server_match :: "qrtr_server \<Rightarrow> qrtr_server_filter \<Rightarrow> bool" where
  "server_match srv f =
     (if f_service f \<noteq> 0 \<and> srv_service srv \<noteq> f_service f then False
      else
        let ifilter = (if f_ifilter f = 0 \<and> f_instance f \<noteq> 0 then 4294967295 else f_ifilter f) in
        (srv_instance srv AND ifilter) = f_instance f)"

section \<open>Messages\<close>

definition server_pkt :: "nat \<Rightarrow> qrtr_server \<Rightarrow> qrtr_ctrl_pkt" where
  "server_pkt c srv = \<lparr>pkt_cmd = c, pkt_w0 = srv_service srv, pkt_w1 = srv_instance srv,
     pkt_w2 = srv_node srv, pkt_w3 = srv_port srv\<rparr>"

definition service_announce_new ::
  "ns_env \<Rightarrow> sockaddr_qrtr \<Rightarrow> qrtr_server \<Rightarrow> 'z qrtr_ns_scheme \<Rightarrow> int \<times> 'z qrtr_ns_scheme" where
  "service_announce_new e dest srv s = kernel_sendmsg e dest (server_pkt QRTR_TYPE_NEW_SERVER srv) s"

definition service_announce_del ::
  "ns_env \<Rightarrow> sockaddr_qrtr \<Rightarrow> qrtr_server \<Rightarrow> 'z qrtr_ns_scheme \<Rightarrow> 'z qrtr_ns_scheme" where
  "service_announce_del e dest srv s =
     snd (kernel_sendmsg e dest (server_pkt QRTR_TYPE_DEL_SERVER srv) s)"

definition lookup_pkt :: "qrtr_server option \<Rightarrow> bool \<Rightarrow> qrtr_ctrl_pkt" where
  "lookup_pkt srv new =
     (let c = (if new then QRTR_TYPE_NEW_SERVER else QRTR_TYPE_DEL_SERVER) in
      case srv of None \<Rightarrow> zero_pkt\<lparr>pkt_cmd := c\<rparr> | Some sv \<Rightarrow> server_pkt c sv)"

definition lookup_notify ::
  "ns_env \<Rightarrow> sockaddr_qrtr \<Rightarrow> qrtr_server option \<Rightarrow> bool \<Rightarrow> 'z qrtr_ns_scheme \<Rightarrow> 'z qrtr_ns_scheme" where
  "lookup_notify e dest srv new s = snd (kernel_sendmsg e dest (lookup_pkt srv new) s)"

text \<open>The two nested loops of \<^verbatim>\<open>announce_servers\<close>; only the state's trace changes during them.\<close>

fun announce_node ::
  "ns_env \<Rightarrow> sockaddr_qrtr \<Rightarrow> qrtr_server list \<Rightarrow> 'z qrtr_ns_scheme \<Rightarrow> int \<times> 'z qrtr_ns_scheme" where
  "announce_node e sq [] s = (0, s)"
| "announce_node e sq (srv # r) s =
     (let (ret, s1) = service_announce_new e sq srv s in
      if ret < 0 then
        if ret = - ENODEV then announce_node e sq r s1 else (ret, s1)
      else announce_node e sq r s1)"

fun announce_nodes ::
  "ns_env \<Rightarrow> sockaddr_qrtr \<Rightarrow> qrtr_node list \<Rightarrow> 'z qrtr_ns_scheme \<Rightarrow> int \<times> 'z qrtr_ns_scheme" where
  "announce_nodes e sq [] s = (0, s)"
| "announce_nodes e sq (nd # r) s =
     (if node_id nd = sq_node sq then announce_nodes e sq r s
      else
        let (ret, s1) = announce_node e sq (map snd (servers nd)) s in
        if ret < 0 then (ret, s1) else announce_nodes e sq r s1)"

definition announce_servers ::
  "ns_env \<Rightarrow> sockaddr_qrtr \<Rightarrow> 'z qrtr_ns_scheme \<Rightarrow> int \<times> 'z qrtr_ns_scheme" where
  "announce_servers e sq s = announce_nodes e sq (map snd (nodes s)) s"

section \<open>Registration\<close>

definition server_add ::
  "ns_env \<Rightarrow> nat \<Rightarrow> nat \<Rightarrow> nat \<Rightarrow> nat \<Rightarrow> 'z qrtr_ns_scheme \<Rightarrow> qrtr_server option \<times> 'z qrtr_ns_scheme" where
  "server_add e service inst n port s =
     (if service = 0 \<or> port = 0 then (None, s)
      else
        let (ok, s1) = kzalloc e s;
            srv = \<lparr>srv_service = service, srv_instance = inst, srv_node = n, srv_port = port\<rparr> in
        if \<not> ok then (None, s1)
        else case node_get e n s1 of
          (None, s2) \<Rightarrow> (None, s2)
        | (Some nd, s2) \<Rightarrow>
            let (stored, s3) = kzalloc e s2 in
            if \<not> stored then (None, s3)
            else (Some srv, set_servers nd (xa_store (servers_of nd s3) port srv) s3))"

text \<open>The condition under which an observer is told about a server, written with \<^verbatim>\<open>continue\<close> in the code.\<close>

definition lookup_wants :: "qrtr_lookup \<Rightarrow> nat \<Rightarrow> nat \<Rightarrow> bool" where
  "lookup_wants lk service inst \<longleftrightarrow>
     \<not> (lk_service lk \<noteq> 0 \<and> lk_service lk \<noteq> service) \<and> \<not> (lk_instance lk \<noteq> 0 \<and> lk_instance lk \<noteq> inst)"

fun notify_lookups ::
  "ns_env \<Rightarrow> qrtr_server \<Rightarrow> bool \<Rightarrow> qrtr_lookup list \<Rightarrow> 'z qrtr_ns_scheme \<Rightarrow> 'z qrtr_ns_scheme" where
  "notify_lookups e srv new [] s = s"
| "notify_lookups e srv new (lk # r) s =
     (if lookup_wants lk (srv_service srv) (srv_instance srv)
      then notify_lookups e srv new r (lookup_notify e (lk_sq lk) (Some srv) new s)
      else notify_lookups e srv new r s)"

definition server_del ::
  "ns_env \<Rightarrow> nat \<Rightarrow> nat \<Rightarrow> bool \<Rightarrow> 'z qrtr_ns_scheme \<Rightarrow> int \<times> 'z qrtr_ns_scheme" where
  "server_del e n port bcast s =
     (case xa_load (servers_of n s) port of None \<Rightarrow> (0, s)
      | Some srv \<Rightarrow>
        let s1 = set_servers n (xa_erase (servers_of n s) port) s;
            s2 = (if srv_node srv = local_node s1 \<and> bcast
                  then service_announce_del e (bcast_sq s1) srv s1 else s1) in
        (0, notify_lookups e srv False (lookups s2) s2))"

definition say_hello :: "ns_env \<Rightarrow> sockaddr_qrtr \<Rightarrow> 'z qrtr_ns_scheme \<Rightarrow> int \<times> 'z qrtr_ns_scheme" where
  "say_hello e dest s = kernel_sendmsg e dest (zero_pkt\<lparr>pkt_cmd := QRTR_TYPE_HELLO\<rparr>) s"

section \<open>Control commands\<close>

definition ctrl_cmd_hello :: "ns_env \<Rightarrow> sockaddr_qrtr \<Rightarrow> 'z qrtr_ns_scheme \<Rightarrow> int \<times> 'z qrtr_ns_scheme" where
  "ctrl_cmd_hello e sq s =
     (let (ret, s1) = say_hello e sq s in
      if ret < 0 then (ret, s1) else announce_servers e sq s1)"

lemma servers_of_set_servers:
  "servers_of m (set_servers n sv s) =
     (if m = n \<and> xa_load (nodes s) n \<noteq> None then sv else servers_of m s)"
  by (auto simp: servers_of_def set_servers_def xa_simps split: option.splits)

lemma servers_of_sendmsg [simp]: "servers_of n (snd (kernel_sendmsg e d p s)) = servers_of n s"
  by (simp add: servers_of_def kernel_sendmsg_def Let_def)

lemma servers_of_notify_lookups [simp]: "servers_of n (notify_lookups e srv new lks s) = servers_of n s"
  by (induction lks arbitrary: s) (simp_all add: lookup_notify_def)

lemma servers_of_server_del:
  "servers_of m (snd (server_del e n port bcast s)) =
     (if m = n then xa_erase (servers_of n s) port else servers_of m s)"
proof (cases "xa_load (servers_of n s) port")
  case None
  then have "xa_erase (servers_of n s) port = servers_of n s"
    by (auto simp: xa_erase_def xa_load_None filter_id_conv image_iff)
  with None show ?thesis by (simp add: server_del_def)
next
  case (Some srv)
  then have "xa_load (nodes s) n \<noteq> None"
    by (auto simp: servers_of_def split: option.splits)
  with Some show ?thesis
    by (simp add: server_del_def Let_def service_announce_del_def servers_of_set_servers)
qed

text \<open>
  The sweep of \<^verbatim>\<open>ctrl_cmd_bye\<close> over the live table: every round looks for the next entry and
  deletes the server at the port the entry records.
\<close>

function bye_servers :: "ns_env \<Rightarrow> nat \<Rightarrow> nat \<Rightarrow> 'z qrtr_ns_scheme \<Rightarrow> 'z qrtr_ns_scheme" where
  "bye_servers e n lo s =
     (case xa_find (servers_of n s) lo of None \<Rightarrow> s
      | Some (i, srv) \<Rightarrow> bye_servers e n (Suc i) (snd (server_del e n (srv_port srv) True s)))"
  by pat_completeness auto

lemma sweep_measure:
  assumes "xa_find xa lo = Some (i, v)"
  shows "length (filter (\<lambda>x. Suc i \<le> fst x) (xa_erase xa p)) < length (filter (\<lambda>x. lo \<le> fst x) xa)"
proof -
  have m: "(i, v) \<in> set xa" "lo \<le> i"
    using xa_find_mem [OF assms] by auto
  have "length (filter (\<lambda>x. Suc i \<le> fst x) (xa_erase xa p)) \<le> length (filter (\<lambda>x. Suc i \<le> fst x) xa)"
    by (simp add: xa_erase_def) (induction xa, auto)
  also have "filter (\<lambda>x. Suc i \<le> fst x) xa = filter (\<lambda>x. Suc i \<le> fst x) (filter (\<lambda>x. lo \<le> fst x) xa)"
    using m by (auto intro: filter_cong)
  also have "length \<dots> < length (filter (\<lambda>x. lo \<le> fst x) xa)"
    using m by (intro length_filter_less [where x = "(i, v)"]) auto
  finally show ?thesis .
qed

termination bye_servers
  by (relation "measure (\<lambda>(e, n, lo, s). length (filter (\<lambda>x. lo \<le> fst x) (servers_of n s)))")
     (auto simp: servers_of_server_del sweep_measure)

declare bye_servers.simps [simp del]

text \<open>The loop over the local servers that tells each of them about a client or node that left.\<close>

fun tell_servers ::
  "ns_env \<Rightarrow> qrtr_ctrl_pkt \<Rightarrow> qrtr_server list \<Rightarrow> 'z qrtr_ns_scheme \<Rightarrow> 'z qrtr_ns_scheme" where
  "tell_servers e pkt [] s = s"
| "tell_servers e pkt (srv # r) s =
     (let sq = \<lparr>sq_family = AF_QIPCRTR, sq_node = srv_node srv, sq_port = srv_port srv\<rparr> in
      tell_servers e pkt r (snd (kernel_sendmsg e sq pkt s)))"

definition ctrl_cmd_bye :: "ns_env \<Rightarrow> sockaddr_qrtr \<Rightarrow> 'z qrtr_ns_scheme \<Rightarrow> int \<times> 'z qrtr_ns_scheme" where
  "ctrl_cmd_bye e from s =
     (case node_get e (sq_node from) s of
        (None, s1) \<Rightarrow> (0, s1)
      | (Some nd, s1) \<Rightarrow>
        let s2 = bye_servers e nd 0 s1 in
        case node_get e (local_node s2) s2 of
          (None, s3) \<Rightarrow> (0, s3)
        | (Some ln, s3) \<Rightarrow>
          let pkt = zero_pkt\<lparr>pkt_cmd := QRTR_TYPE_BYE, pkt_w0 := sq_node from\<rparr> in
          (0, tell_servers e pkt (map snd (servers_of ln s3)) s3))"

definition drop_client :: "nat \<Rightarrow> nat \<Rightarrow> 'z qrtr_ns_scheme \<Rightarrow> 'z qrtr_ns_scheme" where
  "drop_client n port s =
     s\<lparr>lookups := filter (\<lambda>lk. \<not> (sq_node (lk_sq lk) = n \<and> sq_port (lk_sq lk) = port)) (lookups s)\<rparr>"

definition ctrl_cmd_del_client ::
  "ns_env \<Rightarrow> sockaddr_qrtr \<Rightarrow> nat \<Rightarrow> nat \<Rightarrow> 'z qrtr_ns_scheme \<Rightarrow> int \<times> 'z qrtr_ns_scheme" where
  "ctrl_cmd_del_client e from n port s =
     (if sq_node from \<noteq> n then (- EINVAL, s)
      else if sq_node from = local_node s \<and> sq_port from \<noteq> port then (- EINVAL, s)
      else
        let (nd, s2) = node_get e n (drop_client n port s);
            s3 = (case nd of None \<Rightarrow> s2 | Some k \<Rightarrow> snd (server_del e k port False s2)) in
        case node_get e (local_node s3) s3 of
          (None, s4) \<Rightarrow> (0, s4)
        | (Some ln, s4) \<Rightarrow>
          let pkt = zero_pkt\<lparr>pkt_cmd := QRTR_TYPE_DEL_CLIENT, pkt_w0 := n, pkt_w1 := port\<rparr> in
          (0, tell_servers e pkt (map snd (servers_of ln s4)) s4))"

definition ctrl_cmd_new_server ::
  "ns_env \<Rightarrow> sockaddr_qrtr \<Rightarrow> nat \<Rightarrow> nat \<Rightarrow> nat \<Rightarrow> nat \<Rightarrow> 'z qrtr_ns_scheme
     \<Rightarrow> int \<times> 'z qrtr_ns_scheme" where
  "ctrl_cmd_new_server e from service inst n port s =
     (let (n, port) = (if sq_node from = local_node s then (sq_node from, sq_port from) else (n, port)) in
      case server_add e service inst n port s of
        (None, s1) \<Rightarrow> (- EINVAL, s1)
      | (Some srv, s1) \<Rightarrow>
        let (ret, s2) = (if srv_node srv = local_node s1
                         then service_announce_new e (bcast_sq s1) srv s1 else (0, s1)) in
        if ret < 0 then (ret, s2)
        else (ret, notify_lookups e srv True (lookups s2) s2))"

definition ctrl_cmd_del_server ::
  "ns_env \<Rightarrow> sockaddr_qrtr \<Rightarrow> nat \<Rightarrow> nat \<Rightarrow> nat \<Rightarrow> nat \<Rightarrow> 'z qrtr_ns_scheme
     \<Rightarrow> int \<times> 'z qrtr_ns_scheme" where
  "ctrl_cmd_del_server e from service inst n port s =
     (let (n, port) = (if sq_node from = local_node s then (sq_node from, sq_port from) else (n, port)) in
      if sq_node from = local_node s \<and> sq_port from \<noteq> port then (- EINVAL, s)
      else case node_get e n s of
        (None, s1) \<Rightarrow> (- ENOENT, s1)
      | (Some nd, s1) \<Rightarrow> (0, snd (server_del e nd port True s1)))"

fun list_servers ::
  "ns_env \<Rightarrow> sockaddr_qrtr \<Rightarrow> qrtr_server_filter \<Rightarrow> qrtr_server list \<Rightarrow> 'z qrtr_ns_scheme
     \<Rightarrow> 'z qrtr_ns_scheme" where
  "list_servers e from f [] s = s"
| "list_servers e from f (srv # r) s =
     (if \<not> server_match srv f then list_servers e from f r s
      else list_servers e from f r (lookup_notify e from (Some srv) True s))"

definition ctrl_cmd_new_lookup ::
  "ns_env \<Rightarrow> sockaddr_qrtr \<Rightarrow> nat \<Rightarrow> nat \<Rightarrow> 'z qrtr_ns_scheme \<Rightarrow> int \<times> 'z qrtr_ns_scheme" where
  "ctrl_cmd_new_lookup e from service inst s =
     (if sq_node from \<noteq> local_node s then (- EINVAL, s)
      else
        let (ok, s1) = kzalloc e s in
        if \<not> ok then (- ENOMEM, s1)
        else
          let s2 = s1\<lparr>lookups := lookups s1 @ [\<lparr>lk_service = service, lk_instance = inst, lk_sq = from\<rparr>]\<rparr>;
              f = \<lparr>f_service = service, f_instance = inst, f_ifilter = 0\<rparr>;
              s3 = fold (\<lambda>nd. list_servers e from f (map snd (servers nd))) (map snd (nodes s2)) s2 in
          (0, lookup_notify e from None True s3))"

definition ctrl_cmd_del_lookup ::
  "sockaddr_qrtr \<Rightarrow> nat \<Rightarrow> nat \<Rightarrow> 'z qrtr_ns_scheme \<Rightarrow> 'z qrtr_ns_scheme" where
  "ctrl_cmd_del_lookup from service inst s =
     s\<lparr>lookups := filter (\<lambda>lk. sq_node (lk_sq lk) \<noteq> sq_node from
        \<or> sq_port (lk_sq lk) \<noteq> sq_port from
        \<or> lk_service lk \<noteq> service
        \<or> (lk_instance lk \<noteq> 0 \<and> lk_instance lk \<noteq> inst)) (lookups s)\<rparr>"

section \<open>The worker\<close>

text \<open>The switch over the command of a packet.\<close>

definition ns_dispatch ::
  "ns_env \<Rightarrow> sockaddr_qrtr \<Rightarrow> qrtr_ctrl_pkt \<Rightarrow> 'z qrtr_ns_scheme \<Rightarrow> int \<times> 'z qrtr_ns_scheme" where
  "ns_dispatch e sq pkt s =
     (let c = pkt_cmd pkt in
      if c = QRTR_TYPE_HELLO then ctrl_cmd_hello e sq s
      else if c = QRTR_TYPE_BYE then ctrl_cmd_bye e sq s
      else if c = QRTR_TYPE_DEL_CLIENT then ctrl_cmd_del_client e sq (client_node pkt) (client_port pkt) s
      else if c = QRTR_TYPE_NEW_SERVER then
        ctrl_cmd_new_server e sq (server_service pkt) (server_instance pkt) (server_node pkt) (server_port pkt) s
      else if c = QRTR_TYPE_DEL_SERVER then
        ctrl_cmd_del_server e sq (server_service pkt) (server_instance pkt) (server_node pkt) (server_port pkt) s
      else if c = QRTR_TYPE_NEW_LOOKUP then
        ctrl_cmd_new_lookup e sq (server_service pkt) (server_instance pkt) s
      else if c = QRTR_TYPE_DEL_LOOKUP then
        (0, ctrl_cmd_del_lookup sq (server_service pkt) (server_instance pkt) s)
      else (0, s))"

text \<open>
  What \<^verbatim>\<open>kernel_recvmsg\<close> yields: a negative value, or a datagram with its sender. The data
  is copied to the start of the receive buffer; the rest of the buffer keeps what it held.
\<close>

datatype recv_result = Recv_err int | Recv_msg sockaddr_qrtr "byte list"

abbreviation (input) recv_buf_size :: nat where "recv_buf_size \<equiv> 4096"

definition recv_into :: "byte list \<Rightarrow> byte list \<Rightarrow> byte list" where
  "recv_into buf data = take (length buf) data @ drop (length data) buf"

fun ns_worker_loop ::
  "ns_env \<Rightarrow> byte list \<Rightarrow> recv_result list \<Rightarrow> 'z qrtr_ns_scheme \<Rightarrow> 'z qrtr_ns_scheme" where
  "ns_worker_loop e buf [] s = s"
| "ns_worker_loop e buf (Recv_err r # inbox) s = s"
| "ns_worker_loop e buf (Recv_msg sq data # inbox) s =
     (let buf' = recv_into buf data;
          (ret, s1) = ns_dispatch e sq (ctrl_pkt_of buf') s in
      ns_worker_loop e buf' inbox s1)"

text \<open>The end of the inbox stands for \<^verbatim>\<open>-EAGAIN\<close>; \<^verbatim>\<open>recv_buf\<close> starts out zeroed.\<close>

definition qrtr_ns_worker :: "ns_env \<Rightarrow> recv_result list \<Rightarrow> 'z qrtr_ns_scheme \<Rightarrow> 'z qrtr_ns_scheme" where
  "qrtr_ns_worker e inbox s =
     (let (ok, s1) = kzalloc e s in
      if \<not> ok then s1 else ns_worker_loop e (replicate recv_buf_size 0) inbox s1)"

section \<open>Start and stop\<close>

text \<open>
  The resources \<^verbatim>\<open>qrtr_ns_init\<close> acquires: the socket, the worker thread, and the references on
  the module, which creating the socket takes twice.
\<close>

record ns_module = qrtr_ns +
  sock_open :: bool
  data_ready_set :: bool
  task_running :: bool
  bound_port :: "nat option"
  module_refs :: int

record ns_init_env =
  create_ret :: int
  getsockname_ret :: int
  getsockname_sq :: sockaddr_qrtr
  kthread_ok :: bool
  bind_ret :: int

definition sock_release :: "'z ns_module_scheme \<Rightarrow> 'z ns_module_scheme" where
  "sock_release s = s\<lparr>sock_open := False, bound_port := None, module_refs := module_refs s - 2\<rparr>"

definition kthread_stop :: "'z ns_module_scheme \<Rightarrow> 'z ns_module_scheme" where
  "kthread_stop s = s\<lparr>task_running := False\<rparr>"

definition qrtr_ns_init ::
  "ns_env \<Rightarrow> ns_init_env \<Rightarrow> 'z ns_module_scheme \<Rightarrow> int \<times> 'z ns_module_scheme" where
  "qrtr_ns_init e ie s =
     (let s1 = s\<lparr>lookups := []\<rparr> in
      if create_ret ie < 0 then (create_ret ie, s1)
      else
        let s2 = s1\<lparr>sock_open := True, module_refs := module_refs s1 + 2\<rparr>;
            ret = getsockname_ret ie in
        if ret < 0 then (ret, sock_release s2)
        else if \<not> kthread_ok ie then (ret, sock_release s2)
        else
          let sq = (getsockname_sq ie)\<lparr>sq_port := QRTR_PORT_CTRL\<rparr>;
              s3 = s2\<lparr>task_running := True, data_ready_set := True, local_node := sq_node sq\<rparr>;
              ret = bind_ret ie in
          if ret < 0 then (ret, sock_release (kthread_stop s3))
          else
            let s4 = s3\<lparr>bound_port := Some (sq_port sq),
                  bcast_sq := \<lparr>sq_family = AF_QIPCRTR, sq_node = QRTR_NODE_BCAST, sq_port = QRTR_PORT_CTRL\<rparr>\<rparr>;
                (ret, s5) = say_hello e (bcast_sq s4) s4 in
            if ret < 0 then (ret, sock_release (kthread_stop s5))
            else (0, s5\<lparr>module_refs := module_refs s5 - 2\<rparr>))"

definition qrtr_ns_remove :: "'z ns_module_scheme \<Rightarrow> 'z ns_module_scheme" where
  "qrtr_ns_remove s =
     (let s1 = kthread_stop s in sock_release (s1\<lparr>module_refs := module_refs s1 + 2\<rparr>))"

section \<open>Well-formedness\<close>

definition server_ok :: "nat \<Rightarrow> nat \<times> qrtr_server \<Rightarrow> bool" where
  "server_ok n e \<longleftrightarrow> srv_node (snd e) = n \<and> srv_port (snd e) = fst e \<and> srv_service (snd e) \<noteq> 0 \<and> fst e \<noteq> 0
     \<and> srv_service (snd e) < 4294967296 \<and> srv_instance (snd e) < 4294967296"

definition node_ok :: "nat \<times> qrtr_node \<Rightarrow> bool" where
  "node_ok e \<longleftrightarrow> node_id (snd e) = fst e \<and> xa_ok (servers (snd e)) \<and> list_all (server_ok (fst e)) (servers (snd e))"

definition ns_inv :: "'z qrtr_ns_scheme \<Rightarrow> bool" where
  "ns_inv s \<longleftrightarrow> xa_ok (nodes s) \<and> list_all node_ok (nodes s)
     \<and> list_all (\<lambda>lk. sq_node (lk_sq lk) = local_node s) (lookups s)"

text \<open>The registry as a client sees it: which service and instance a node and port offer.\<close>

definition reg :: "'z qrtr_ns_scheme \<Rightarrow> nat \<times> nat \<Rightarrow> (nat \<times> nat) option" where
  "reg s a = map_option (\<lambda>srv. (srv_service srv, srv_instance srv)) (xa_load (servers_of (fst a) s) (snd a))"

text \<open>The messages sent, without the results of sending them.\<close>

definition msgs :: "'z qrtr_ns_scheme \<Rightarrow> (sockaddr_qrtr \<times> qrtr_ctrl_pkt) list" where
  "msgs s = map (\<lambda>m. (fst m, fst (snd m))) (sent s)"

text \<open>A step that only sends the messages \<open>ms\<close>.\<close>

definition sends :: "'z qrtr_ns_scheme \<Rightarrow> (sockaddr_qrtr \<times> qrtr_ctrl_pkt) list \<Rightarrow> 'z qrtr_ns_scheme \<Rightarrow> bool" where
  "sends s ms s' \<longleftrightarrow> s' = s\<lparr>sent := sent s'\<rparr> \<and> msgs s' = msgs s @ ms"

lemma sends_refl [simp]: "sends s [] s"
  by (simp add: sends_def)

lemma sends_trans: "sends s a s1 \<Longrightarrow> sends s1 b s2 \<Longrightarrow> sends s (a @ b) s2"
  unfolding sends_def by (metis (no_types, lifting) append.assoc qrtr_ns.surjective
      qrtr_ns.update_convs(5))

lemma sends_field:
  assumes "sends s ms s'"
  shows "nodes s' = nodes s" "lookups s' = lookups s" "local_node s' = local_node s"
    "bcast_sq s' = bcast_sq s" "allocs s' = allocs s" "servers_of n s' = servers_of n s" "reg s' = reg s"
    "ns_inv s' = ns_inv s" "msgs s' = msgs s @ ms"
proof -
  obtain l where s': "s' = s\<lparr>sent := l\<rparr>"
    using assms unfolding sends_def by blast
  then show "nodes s' = nodes s" "lookups s' = lookups s" "local_node s' = local_node s"
    "bcast_sq s' = bcast_sq s" "allocs s' = allocs s" "servers_of n s' = servers_of n s" "reg s' = reg s"
    "ns_inv s' = ns_inv s"
    by (simp_all add: servers_of_def reg_def ns_inv_def fun_eq_iff)
  show "msgs s' = msgs s @ ms"
    using assms unfolding sends_def by blast
qed

lemma sends_sendmsg: "sends s [(d, p)] (snd (kernel_sendmsg e d p s))"
  by (simp add: sends_def kernel_sendmsg_def msgs_def Let_def)

lemma sends_notify_lookups:
  "sends s (map (\<lambda>lk. (lk_sq lk, lookup_pkt (Some srv) new))
              (filter (\<lambda>lk. lookup_wants lk (srv_service srv) (srv_instance srv)) lks))
     (notify_lookups e srv new lks s)"
proof (induction lks arbitrary: s)
  case (Cons lk lks)
  show ?case
    using Cons sends_trans [OF sends_sendmsg Cons] by (simp add: lookup_notify_def)
qed simp

lemma sends_tell_servers:
  "sends s (map (\<lambda>srv. (\<lparr>sq_family = AF_QIPCRTR, sq_node = srv_node srv, sq_port = srv_port srv\<rparr>, pkt)) svs)
     (tell_servers e pkt svs s)"
proof (induction svs arbitrary: s)
  case (Cons srv svs)
  show ?case
    using sends_trans [OF sends_sendmsg Cons] by (simp add: Let_def)
qed simp

lemma sends_list_servers:
  "sends s (map (\<lambda>srv. (from, lookup_pkt (Some srv) True)) (filter (\<lambda>srv. server_match srv f) svs))
     (list_servers e from f svs s)"
proof (induction svs arbitrary: s)
  case (Cons srv svs)
  show ?case
    using Cons sends_trans [OF sends_sendmsg Cons] by (simp add: lookup_notify_def)
qed simp

lemma sends_announce_node: "\<exists>ms. sends s ms (snd (announce_node e sq svs s)) \<and> fst ` set ms \<subseteq> {sq}"
proof (induction svs arbitrary: s)
  case Nil
  show ?case by (rule exI [of _ "[]"]) simp
next
  case (Cons srv svs)
  obtain r s1 where k: "service_announce_new e sq srv s = (r, s1)"
    by fastforce
  have s1: "sends s [(sq, server_pkt QRTR_TYPE_NEW_SERVER srv)] s1"
    using sends_sendmsg [of s sq "server_pkt QRTR_TYPE_NEW_SERVER srv" e] k
    by (simp add: service_announce_new_def)
  obtain ms where ms: "sends s1 ms (snd (announce_node e sq svs s1))" "fst ` set ms \<subseteq> {sq}"
    using Cons by blast
  show ?case
    using s1 sends_trans [OF s1 ms(1)] ms(2)
    by (cases "r < 0 \<and> r \<noteq> - ENODEV") (fastforce simp: k)+
qed

lemma sends_announce_nodes: "\<exists>ms. sends s ms (snd (announce_nodes e sq nds s)) \<and> fst ` set ms \<subseteq> {sq}"
proof (induction nds arbitrary: s)
  case Nil
  show ?case by (rule exI [of _ "[]"]) simp
next
  case (Cons nd nds)
  obtain r s1 where k: "announce_node e sq (map snd (servers nd)) s = (r, s1)"
    by fastforce
  obtain a where a: "sends s a s1" "fst ` set a \<subseteq> {sq}"
    using sends_announce_node [of s e sq "map snd (servers nd)"] k by auto
  obtain b where b: "sends s1 b (snd (announce_nodes e sq nds s1))" "fst ` set b \<subseteq> {sq}"
    using Cons by blast
  have "sends s (a @ b) (snd (announce_nodes e sq nds s1))" "fst ` set (a @ b) \<subseteq> {sq}"
    using sends_trans [OF a(1) b(1)] a(2) b(2) by auto
  then have "\<exists>ms. sends s ms (snd (announce_nodes e sq nds s1)) \<and> fst ` set ms \<subseteq> {sq}"
    by blast
  then show ?case
    using Cons [of s] a by (cases "node_id nd = sq_node sq"; cases "r < 0") (simp_all add: k, blast)
qed

section \<open>Effect of the operations on the registry\<close>

lemma ns_inv_nodes: "ns_inv s \<Longrightarrow> xa_load (nodes s) n = Some nd \<Longrightarrow> node_ok (n, nd)"
  by (auto simp: ns_inv_def xa_load_iff list_all_iff)

lemma ns_inv_servers_of:
  assumes "ns_inv s"
  shows "xa_ok (servers_of n s)" "list_all (server_ok n) (servers_of n s)"
  using ns_inv_nodes [OF assms] by (auto simp: servers_of_def node_ok_def split: option.splits)

lemma ns_inv_server:
  assumes "ns_inv s" and "xa_load (servers_of n s) p = Some srv"
  shows "srv_node srv = n" "srv_port srv = p" "srv_service srv \<noteq> 0" "p \<noteq> 0" "srv_instance srv < 4294967296"
  using ns_inv_servers_of [OF assms(1), of n] assms(2)
  by (auto simp: xa_load_iff list_all_iff server_ok_def)

text \<open>The invariant is kept when one entry of the table of nodes is replaced by a good one.\<close>

lemma list_all_store: "list_all P xa \<Longrightarrow> P (k, v) \<Longrightarrow> list_all P (xa_store xa k v)"
  by (induction xa k v rule: xa_store.induct) auto

lemma list_all_erase: "list_all P xa \<Longrightarrow> list_all P (xa_erase xa k)"
  by (auto simp: list_all_iff xa_erase_def)

lemma ns_inv_store_node:
  "ns_inv s \<Longrightarrow> node_ok (n, nd) \<Longrightarrow> ns_inv (s\<lparr>nodes := xa_store (nodes s) n nd\<rparr>)"
  by (simp add: ns_inv_def list_all_store xa_ok_store)

lemma ns_inv_set_servers:
  assumes "ns_inv s" and "xa_ok sv" and "list_all (server_ok n) sv"
  shows "ns_inv (set_servers n sv s)"
proof (cases "xa_load (nodes s) n")
  case (Some nd)
  then have "node_ok (n, nd\<lparr>servers := sv\<rparr>)"
    using ns_inv_nodes [OF assms(1) Some] assms by (simp add: node_ok_def)
  then show ?thesis
    using Some ns_inv_store_node [OF assms(1)] by (simp add: set_servers_def)
qed (simp add: set_servers_def assms)

lemma set_servers_field [simp]:
  "lookups (set_servers n sv s) = lookups s" "local_node (set_servers n sv s) = local_node s"
  "bcast_sq (set_servers n sv s) = bcast_sq s" "msgs (set_servers n sv s) = msgs s"
  by (auto simp: set_servers_def msgs_def split: option.splits)

lemma kzalloc_field [simp]:
  "nodes (snd (kzalloc e s)) = nodes s" "lookups (snd (kzalloc e s)) = lookups s"
  "local_node (snd (kzalloc e s)) = local_node s" "bcast_sq (snd (kzalloc e s)) = bcast_sq s"
  "msgs (snd (kzalloc e s)) = msgs s" "servers_of n (snd (kzalloc e s)) = servers_of n s"
  "reg (snd (kzalloc e s)) = reg s" "ns_inv (snd (kzalloc e s)) = ns_inv s"
  by (simp_all add: kzalloc_def msgs_def servers_of_def reg_def ns_inv_def fun_eq_iff)

lemma fst_kzalloc: "fst (kzalloc e s) = kzalloc_ok e (allocs s)"
  by (simp add: kzalloc_def)

text \<open>Looking up a node changes nothing a client can see, whether or not it succeeds.\<close>

lemma node_get_spec:
  assumes "node_get e n s = (r, s')"
  shows "lookups s' = lookups s" "local_node s' = local_node s" "bcast_sq s' = bcast_sq s"
    "msgs s' = msgs s" "servers_of m s' = servers_of m s" "reg s' = reg s"
    "ns_inv s \<Longrightarrow> ns_inv s'"
    "r = Some k \<Longrightarrow> k = n \<and> xa_load (nodes s') n \<noteq> None"
    "r = None \<Longrightarrow> servers_of n s = []" "(\<And>i. kzalloc_ok e i) \<Longrightarrow> r \<noteq> None"
proof -
  obtain ok1 s1 where k1: "kzalloc e s = (ok1, s1)" by fastforce
  obtain ok2 s2 where k2: "kzalloc e s1 = (ok2, s2)" by fastforce
  note f1 = kzalloc_field [where e = e and s = s, unfolded k1 snd_conv] and f2 = kzalloc_field [where e = e and s = s1, unfolded k2 snd_conv]
  note o = fst_kzalloc [of e s, unfolded k1 fst_conv] fst_kzalloc [of e s1, unfolded k2 fst_conv]
  consider nd where "xa_load (nodes s) n = Some nd" "r = Some n" "s' = s"
    | "xa_load (nodes s) n = None" "r = None" "s' = s1 \<or> s' = s2" "\<not> ok1 \<or> \<not> ok2"
    | "xa_load (nodes s) n = None" "r = Some n"
      "s' = s2\<lparr>nodes := xa_store (nodes s2) n \<lparr>node_id = n, servers = []\<rparr>\<rparr>"
    using assms by (auto simp: node_get_def k1 k2 split: option.splits if_splits)
  then have "lookups s' = lookups s \<and> local_node s' = local_node s \<and> bcast_sq s' = bcast_sq s \<and>
    msgs s' = msgs s \<and> servers_of m s' = servers_of m s \<and> reg s' = reg s \<and>
    (ns_inv s \<longrightarrow> ns_inv s') \<and> (r = Some k \<longrightarrow> k = n \<and> xa_load (nodes s') n \<noteq> None) \<and>
    (r = None \<longrightarrow> servers_of n s = []) \<and> ((\<forall>i. kzalloc_ok e i) \<longrightarrow> r \<noteq> None)"
  proof cases
    case 1
    then show ?thesis by auto
  next
    case 2
    then show ?thesis using f1 f2 o by (elim disjE) (auto simp: servers_of_def)
  next
    case 3
    have "ns_inv s \<Longrightarrow> ns_inv s'"
      unfolding 3 by (rule ns_inv_store_node) (simp_all add: f1 f2 node_ok_def)
    moreover have "servers_of m s' = servers_of m s" for m
      using 3 f1 f2 by (simp add: servers_of_def xa_simps)
    ultimately show ?thesis
      using 3 f1 f2 by (simp add: reg_def fun_eq_iff msgs_def xa_simps)
  qed
  then show "lookups s' = lookups s" "local_node s' = local_node s" "bcast_sq s' = bcast_sq s"
    "msgs s' = msgs s" "servers_of m s' = servers_of m s" "reg s' = reg s"
    "ns_inv s \<Longrightarrow> ns_inv s'" "r = Some k \<Longrightarrow> k = n \<and> xa_load (nodes s') n \<noteq> None"
    "r = None \<Longrightarrow> servers_of n s = []" "(\<And>i. kzalloc_ok e i) \<Longrightarrow> r \<noteq> None"
    by blast+
qed

definition del_msgs :: "nat \<Rightarrow> nat \<Rightarrow> bool \<Rightarrow> 'z qrtr_ns_scheme \<Rightarrow> (sockaddr_qrtr \<times> qrtr_ctrl_pkt) list" where
  "del_msgs n port bcast s =
     (case xa_load (servers_of n s) port of None \<Rightarrow> []
      | Some srv \<Rightarrow>
        (if n = local_node s \<and> bcast then [(bcast_sq s, server_pkt QRTR_TYPE_DEL_SERVER srv)] else [])
        @ map (\<lambda>lk. (lk_sq lk, server_pkt QRTR_TYPE_DEL_SERVER srv))
            (filter (\<lambda>lk. lookup_wants lk (srv_service srv) (srv_instance srv)) (lookups s)))"

lemma reg_server_del: "reg (snd (server_del e n port b s)) = (reg s)((n, port) := None)"
  by (auto simp: fun_eq_iff reg_def servers_of_server_del xa_simps)

lemma server_del_spec:
  assumes inv: "ns_inv s" and s': "s' = snd (server_del e n port b s)"
  shows "lookups s' = lookups s" "local_node s' = local_node s" "bcast_sq s' = bcast_sq s" "ns_inv s'"
    "msgs s' = msgs s @ del_msgs n port b s"
proof -
  have "lookups s' = lookups s \<and> local_node s' = local_node s \<and> bcast_sq s' = bcast_sq s \<and> ns_inv s' \<and>
    msgs s' = msgs s @ del_msgs n port b s"
  proof (cases "xa_load (servers_of n s) port")
    case None
    then show ?thesis using s' inv by (simp add: server_del_def del_msgs_def)
  next
    case (Some srv)
    define s1 where "s1 = set_servers n (xa_erase (servers_of n s) port) s"
    define s2 where "s2 = (if srv_node srv = local_node s1 \<and> b
      then service_announce_del e (bcast_sq s1) srv s1 else s1)"
    define a where "a = (if n = local_node s \<and> b then [(bcast_sq s, server_pkt QRTR_TYPE_DEL_SERVER srv)] else [])"
    have n: "srv_node srv = n" using ns_inv_server [OF inv Some] by simp
    have i1: "ns_inv s1"
      using ns_inv_servers_of [OF inv] unfolding s1_def
      by (intro ns_inv_set_servers [OF inv]) (simp_all add: list_all_erase xa_ok_erase)
    have f1: "lookups s1 = lookups s" "local_node s1 = local_node s" "bcast_sq s1 = bcast_sq s" "msgs s1 = msgs s"
      by (simp_all add: s1_def)
    have t2: "sends s1 a s2"
      using sends_sendmsg [of s1 "bcast_sq s1" "server_pkt QRTR_TYPE_DEL_SERVER srv" e]
      by (simp add: s2_def a_def n f1 service_announce_del_def)
    have "s' = notify_lookups e srv False (lookups s2) s2"
      using Some by (simp add: s' server_del_def s1_def [symmetric] s2_def [symmetric] Let_def)
    then have t3: "sends s1 (a @ map (\<lambda>lk. (lk_sq lk, server_pkt QRTR_TYPE_DEL_SERVER srv))
        (filter (\<lambda>lk. lookup_wants lk (srv_service srv) (srv_instance srv)) (lookups s))) s'"
      using sends_trans [OF t2 sends_notify_lookups [of s2 srv False "lookups s2" e]]
      by (simp add: lookup_pkt_def f1 sends_field(2) [OF t2])
    show ?thesis
      using i1 by (simp add: sends_field [OF t3] f1 del_msgs_def Some a_def)
  qed
  then show "lookups s' = lookups s" "local_node s' = local_node s" "bcast_sq s' = bcast_sq s" "ns_inv s'"
    "msgs s' = msgs s @ del_msgs n port b s"
    by blast+
qed

lemma reg_set_servers_store:
  assumes "xa_load (nodes s) n \<noteq> None"
  shows "reg (set_servers n (xa_store (servers_of n s) p srv) s)
     = (reg s)((n, p) \<mapsto> (srv_service srv, srv_instance srv))"
  using assms by (auto simp: fun_eq_iff reg_def servers_of_set_servers xa_simps)

lemma server_add_spec:
  assumes inv: "ns_inv s" and eq: "server_add e sv i n p s = (r, s')"
    and wd: "sv < 4294967296" "i < 4294967296"
  shows "lookups s' = lookups s" "local_node s' = local_node s" "bcast_sq s' = bcast_sq s" "ns_inv s'"
    "msgs s' = msgs s" "r = None \<Longrightarrow> reg s' = reg s"
    "r = Some srv \<Longrightarrow> srv = \<lparr>srv_service = sv, srv_instance = i, srv_node = n, srv_port = p\<rparr>
       \<and> sv \<noteq> 0 \<and> p \<noteq> 0 \<and> reg s' = (reg s)((n, p) \<mapsto> (sv, i))"
    "(\<And>j. kzalloc_ok e j) \<Longrightarrow> sv \<noteq> 0 \<Longrightarrow> p \<noteq> 0 \<Longrightarrow> r \<noteq> None"
proof -
  obtain ok1 s1 where k1: "kzalloc e s = (ok1, s1)" by fastforce
  obtain r2 s2 where k2: "node_get e n s1 = (r2, s2)" by fastforce
  obtain ok3 s3 where k3: "kzalloc e s2 = (ok3, s3)" by fastforce
  let ?srv = "\<lparr>srv_service = sv, srv_instance = i, srv_node = n, srv_port = p\<rparr>"
  note f1 = kzalloc_field [where e = e and s = s, unfolded k1 snd_conv]
  note f2 = node_get_spec [OF k2]
  note f3 = kzalloc_field [where e = e and s = s2, unfolded k3 snd_conv]
  note o = fst_kzalloc [of e s, unfolded k1 fst_conv] fst_kzalloc [of e s2, unfolded k3 fst_conv]
  have i3: "ns_inv s3" "ns_inv s2" "ns_inv s1" using inv f1 f2 f3 by simp_all
  have r2: "r2 = None \<or> r2 = Some n"
    using f2(8) by (cases r2) blast+
  consider "r = None" "s' \<in> {s, s1, s2, s3}" "sv = 0 \<or> p = 0 \<or> \<not> ok1 \<or> r2 = None \<or> \<not> ok3"
    | "r = Some ?srv" "sv \<noteq> 0" "p \<noteq> 0" "r2 = Some n"
      "s' = set_servers n (xa_store (servers_of n s3) p ?srv) s3"
    using eq r2 by (auto simp: server_add_def Let_def k1 k2 k3 split: if_splits)
  then have "lookups s' = lookups s \<and> local_node s' = local_node s \<and> bcast_sq s' = bcast_sq s \<and> ns_inv s' \<and>
    msgs s' = msgs s \<and> (r = None \<longrightarrow> reg s' = reg s) \<and>
    (r = Some srv \<longrightarrow> srv = ?srv \<and> sv \<noteq> 0 \<and> p \<noteq> 0 \<and> reg s' = (reg s)((n, p) \<mapsto> (sv, i))) \<and>
    ((\<forall>j. kzalloc_ok e j) \<longrightarrow> sv \<noteq> 0 \<longrightarrow> p \<noteq> 0 \<longrightarrow> r \<noteq> None)"
  proof cases
    case 1
    have "(\<forall>j. kzalloc_ok e j) \<Longrightarrow> ok1 \<and> r2 \<noteq> None \<and> ok3" using o f2(10) by simp
    moreover have "lookups s' = lookups s \<and> local_node s' = local_node s \<and> bcast_sq s' = bcast_sq s \<and>
      ns_inv s' \<and> msgs s' = msgs s \<and> reg s' = reg s"
      using 1(2) i3 inv by (elim insertE emptyE) (simp_all add: f1 f2(1-4,6) f3)
    ultimately show ?thesis using 1 by blast
  next
    case 2
    have "xa_load (nodes s3) n \<noteq> None" using f2(8) [of n] 2(4) f3 by simp
    then have "reg s' = (reg s)((n, p) \<mapsto> (sv, i))"
      unfolding 2(5) by (subst reg_set_servers_store) (simp_all add: f1(7) f2(6) f3(7))
    moreover have "ns_inv s'"
      unfolding 2 using wd 2(2,3) ns_inv_servers_of [OF i3(1)]
      by (intro ns_inv_set_servers [OF i3(1)]) (simp_all add: xa_ok_store list_all_store server_ok_def)
    moreover have "lookups s' = lookups s \<and> local_node s' = local_node s \<and> bcast_sq s' = bcast_sq s
      \<and> msgs s' = msgs s"
      by (simp add: 2(5) f1 f2(1-4) f3)
    ultimately show ?thesis using 2(1-3) by (metis option.distinct(1) option.inject)
  qed
  then show "lookups s' = lookups s" "local_node s' = local_node s" "bcast_sq s' = bcast_sq s" "ns_inv s'"
    "msgs s' = msgs s" "r = None \<Longrightarrow> reg s' = reg s"
    "r = Some srv \<Longrightarrow> srv = ?srv \<and> sv \<noteq> 0 \<and> p \<noteq> 0 \<and> reg s' = (reg s)((n, p) \<mapsto> (sv, i))"
    "(\<And>j. kzalloc_ok e j) \<Longrightarrow> sv \<noteq> 0 \<Longrightarrow> p \<noteq> 0 \<Longrightarrow> r \<noteq> None"
    by blast+
qed

text \<open>
  The sweep leaves the node without servers: what is below the cursor is already gone, and an entry
  found is deleted because it is stored under its own port.
\<close>

lemma bye_servers_spec:
  assumes "ns_inv s" and "\<And>p. p < lo \<Longrightarrow> xa_load (servers_of n s) p = None"
  shows "lookups (bye_servers e n lo s) = lookups s" "local_node (bye_servers e n lo s) = local_node s"
    "bcast_sq (bye_servers e n lo s) = bcast_sq s" "ns_inv (bye_servers e n lo s)"
    "reg (bye_servers e n lo s) = (\<lambda>a. if fst a = n then None else reg s a)"
proof -
  have "lookups (bye_servers e n lo s) = lookups s \<and> local_node (bye_servers e n lo s) = local_node s \<and>
    bcast_sq (bye_servers e n lo s) = bcast_sq s \<and> ns_inv (bye_servers e n lo s) \<and>
    reg (bye_servers e n lo s) = (\<lambda>a. if fst a = n then None else reg s a)"
    using assms
  proof (induction e n lo s rule: bye_servers.induct)
    case (1 e n lo s)
    have ok: "xa_ok (servers_of n s)" using ns_inv_servers_of 1(2) by blast
    show ?case
    proof (cases "xa_find (servers_of n s) lo")
      case None
      then have "xa_load (servers_of n s) p = None" for p
        using xa.sweep_end [OF ok _ None] 1(3) by blast
      then show ?thesis
        using None 1(2) by (auto simp: bye_servers.simps [of e n lo s] reg_def)
    next
      case (Some a)
      then obtain i srv where f: "xa_find (servers_of n s) lo = Some (i, srv)" by (cases a) auto
      have p: "srv_port srv = i"
        using ns_inv_server(2) [OF 1(2)] xa.find_Some [OF ok f] by blast
      let ?s1 = "snd (server_del e n i True s)"
      note d = server_del_spec [OF 1(2) refl, of e n i True]
      have "xa_load (servers_of n ?s1) q = None" if "q < Suc i" for q
        using xa.sweep_step [OF ok _ f that] 1(3) by (simp add: servers_of_server_del)
      then have IH: "lookups (bye_servers e n (Suc i) ?s1) = lookups ?s1 \<and>
        local_node (bye_servers e n (Suc i) ?s1) = local_node ?s1 \<and>
        bcast_sq (bye_servers e n (Suc i) ?s1) = bcast_sq ?s1 \<and> ns_inv (bye_servers e n (Suc i) ?s1) \<and>
        reg (bye_servers e n (Suc i) ?s1) = (\<lambda>a. if fst a = n then None else reg ?s1 a)"
        using 1(1) [OF f refl, unfolded p] d(4) by blast
      have "bye_servers e n lo s = bye_servers e n (Suc i) ?s1"
        using f p by (simp add: bye_servers.simps [of e n lo s])
      then show ?thesis
        using IH d by (auto simp: reg_server_del fun_eq_iff)
    qed
  qed
  then show "lookups (bye_servers e n lo s) = lookups s" "local_node (bye_servers e n lo s) = local_node s"
    "bcast_sq (bye_servers e n lo s) = bcast_sq s" "ns_inv (bye_servers e n lo s)"
    "reg (bye_servers e n lo s) = (\<lambda>a. if fst a = n then None else reg s a)"
    by blast+
qed

section \<open>The name service refines a registry of services\<close>

text \<open>
  The specification: a map from node and port to service and instance, and the list of observers.
  It has no nodes, no messages and no failures.
\<close>

record ns_spec =
  registry :: "nat \<times> nat \<Rightarrow> (nat \<times> nat) option"
  observers :: "qrtr_lookup list"

definition ns_abs :: "'z qrtr_ns_scheme \<Rightarrow> ns_spec" where
  "ns_abs s = \<lparr>registry = reg s, observers = lookups s\<rparr>"

text \<open>Local senders register and withdraw only the address they send from.\<close>

definition server_addr :: "nat \<Rightarrow> sockaddr_qrtr \<Rightarrow> qrtr_ctrl_pkt \<Rightarrow> nat \<times> nat" where
  "server_addr ln sq pkt = (if sq_node sq = ln then (sq_node sq, sq_port sq) else (server_node pkt, server_port pkt))"

definition spec_step :: "nat \<Rightarrow> sockaddr_qrtr \<Rightarrow> qrtr_ctrl_pkt \<Rightarrow> ns_spec \<Rightarrow> ns_spec" where
  "spec_step ln sq pkt a =
     (let c = pkt_cmd pkt in
      if c = QRTR_TYPE_BYE then a\<lparr>registry := (\<lambda>x. if fst x = sq_node sq then None else registry a x)\<rparr>
      else if c = QRTR_TYPE_DEL_CLIENT then
        if sq_node sq = client_node pkt \<and> (sq_node sq = ln \<longrightarrow> sq_port sq = client_port pkt)
        then a\<lparr>registry := (registry a)((client_node pkt, client_port pkt) := None),
               observers := filter (\<lambda>lk. (sq_node (lk_sq lk), sq_port (lk_sq lk)) \<noteq> (client_node pkt, client_port pkt))
                 (observers a)\<rparr>
        else a
      else if c = QRTR_TYPE_NEW_SERVER then
        if server_service pkt \<noteq> 0 \<and> snd (server_addr ln sq pkt) \<noteq> 0
        then a\<lparr>registry := (registry a)(server_addr ln sq pkt \<mapsto> (server_service pkt, server_instance pkt))\<rparr>
        else a
      else if c = QRTR_TYPE_DEL_SERVER then a\<lparr>registry := (registry a)(server_addr ln sq pkt := None)\<rparr>
      else if c = QRTR_TYPE_NEW_LOOKUP then
        if sq_node sq = ln
        then a\<lparr>observers := observers a @ [\<lparr>lk_service = server_service pkt, lk_instance = server_instance pkt, lk_sq = sq\<rparr>]\<rparr>
        else a
      else if c = QRTR_TYPE_DEL_LOOKUP then
        a\<lparr>observers := filter (\<lambda>lk. \<not> (sq_node (lk_sq lk) = sq_node sq \<and> sq_port (lk_sq lk) = sq_port sq
            \<and> lk_service lk = server_service pkt \<and> (lk_instance lk = 0 \<or> lk_instance lk = server_instance pkt)))
          (observers a)\<rparr>
      else a)"

text \<open>What every handler keeps: the invariant and the identity of the local node.\<close>

definition keeps :: "'z qrtr_ns_scheme \<Rightarrow> 'z qrtr_ns_scheme \<Rightarrow> bool" where
  "keeps s s' \<longleftrightarrow> ns_inv s' \<and> local_node s' = local_node s \<and> bcast_sq s' = bcast_sq s"

lemma reg_unchanged_at_missing: "servers_of n s = [] \<Longrightarrow> (reg s)((n, p) := None) = reg s"
  by (auto simp: fun_eq_iff reg_def)

lemma hello_step:
  assumes "ns_inv s" and s': "s' = snd (ctrl_cmd_hello e sq s)"
  shows "keeps s s'" "ns_abs s' = ns_abs s" "\<exists>ms. msgs s' = msgs s @ ms \<and> fst ` set ms \<subseteq> {sq}"
proof -
  let ?p = "zero_pkt\<lparr>pkt_cmd := QRTR_TYPE_HELLO\<rparr>"
  obtain r s1 where k: "say_hello e sq s = (r, s1)" by fastforce
  have s1: "sends s [(sq, ?p)] s1"
    using sends_sendmsg [of s sq ?p e] k by (simp add: say_hello_def)
  obtain ms where ms: "sends s1 ms (snd (announce_servers e sq s1))" "fst ` set ms \<subseteq> {sq}"
    using sends_announce_nodes [of s1 e sq] unfolding announce_servers_def by blast
  have "\<exists>ms. sends s ms s' \<and> fst ` set ms \<subseteq> {sq}"
  proof (cases "r < 0")
    case True
    then have "sends s [(sq, ?p)] s'" using s1 by (simp add: s' ctrl_cmd_hello_def k)
    then show ?thesis by (intro exI) (auto intro: conjI)
  next
    case False
    then have "sends s ([(sq, ?p)] @ ms) s'" using sends_trans [OF s1 ms(1)] by (simp add: s' ctrl_cmd_hello_def k)
    then show ?thesis using ms(2) by (intro exI [of _ "[(sq, ?p)] @ ms"]) simp
  qed
  then obtain l where l: "sends s l s'" "fst ` set l \<subseteq> {sq}" by blast
  show "keeps s s'" "ns_abs s' = ns_abs s" "\<exists>ms. msgs s' = msgs s @ ms \<and> fst ` set ms \<subseteq> {sq}"
    using assms(1) l(2) by (auto simp: keeps_def ns_abs_def sends_field [OF l(1)])
qed

text \<open>The last part of \<^verbatim>\<open>BYE\<close> and \<^verbatim>\<open>DEL_CLIENT\<close>: every local server is told.\<close>

lemma tell_local_step:
  assumes "ns_inv s" and "node_get e (local_node s) s = (r, s1)"
    and "s' = (case r of None \<Rightarrow> s1 | Some ln \<Rightarrow> tell_servers e pkt (map snd (servers_of ln s1)) s1)"
  shows "keeps s s'" "ns_abs s' = ns_abs s" "\<exists>ms. msgs s' = msgs s @ ms \<and> snd ` set ms \<subseteq> {pkt}"
proof -
  note g = node_get_spec [OF assms(2)]
  have "\<exists>ms. sends s1 ms s' \<and> snd ` set ms \<subseteq> {pkt}"
  proof (cases r)
    case None
    then show ?thesis using assms(3) by (intro exI [of _ "[]"]) simp
  next
    case (Some ln)
    show ?thesis
      using sends_tell_servers [of s1 pkt "map snd (servers_of ln s1)" e]
      by (intro exI conjI) (auto simp: assms(3) Some)
  qed
  then obtain l where l: "sends s1 l s'" "snd ` set l \<subseteq> {pkt}" by blast
  show "keeps s s'" "ns_abs s' = ns_abs s" "\<exists>ms. msgs s' = msgs s @ ms \<and> snd ` set ms \<subseteq> {pkt}"
    using assms(1) l(2) g by (auto simp: keeps_def ns_abs_def sends_field [OF l(1)])
qed

lemma bye_step:
  assumes inv: "ns_inv s" and s': "s' = snd (ctrl_cmd_bye e sq s)"
  shows "keeps s s'" "registry (ns_abs s') = (\<lambda>x. if fst x = sq_node sq then None else reg s x)"
    "lookups s' = lookups s" "fst (ctrl_cmd_bye e sq s) = 0"
proof -
  obtain r s1 where k: "node_get e (sq_node sq) s = (r, s1)" by fastforce
  note g = node_get_spec [OF k]
  have i1: "ns_inv s1" using g inv by simp
  have "keeps s s' \<and> registry (ns_abs s') = (\<lambda>x. if fst x = sq_node sq then None else reg s x) \<and>
    lookups s' = lookups s"
  proof (cases r)
    case None
    then have "s' = s1" by (simp add: s' ctrl_cmd_bye_def k)
    moreover have "reg s = (\<lambda>x. if fst x = sq_node sq then None else reg s x)"
      using g(9) [OF None] by (auto simp: fun_eq_iff reg_def)
    ultimately show ?thesis using g i1 by (simp add: keeps_def ns_abs_def)
  next
    case (Some nd)
    then have nd: "nd = sq_node sq" using g(8) by simp
    define s2 where "s2 = bye_servers e nd 0 s1"
    have b: "lookups s2 = lookups s1" "local_node s2 = local_node s1" "bcast_sq s2 = bcast_sq s1" "ns_inv s2"
      "reg s2 = (\<lambda>a. if fst a = nd then None else reg s1 a)"
      unfolding s2_def by (rule bye_servers_spec [OF i1]; simp)+
    obtain r3 s3 where k3: "node_get e (local_node s2) s2 = (r3, s3)" by fastforce
    have "s' = (case r3 of None \<Rightarrow> s3 | Some ln \<Rightarrow> tell_servers e
        (zero_pkt\<lparr>pkt_cmd := QRTR_TYPE_BYE, pkt_w0 := sq_node sq\<rparr>) (map snd (servers_of ln s3)) s3)"
      using Some by (simp add: s' ctrl_cmd_bye_def k s2_def [symmetric] k3 Let_def split: option.splits)
    note t = tell_local_step [OF b(4) k3 this]
    show ?thesis using t(1,2) b g(1-4,6) by (simp add: keeps_def ns_abs_def nd fun_eq_iff)
  qed
  then show "keeps s s'" "registry (ns_abs s') = (\<lambda>x. if fst x = sq_node sq then None else reg s x)"
    "lookups s' = lookups s" by blast+
  show "fst (ctrl_cmd_bye e sq s) = 0"
    by (simp add: ctrl_cmd_bye_def Let_def split: prod.splits option.splits)
qed

lemma ns_inv_drop_lookups: "ns_inv s \<Longrightarrow> ns_inv (s\<lparr>lookups := filter P (lookups s)\<rparr>)"
  by (auto simp: ns_inv_def list_all_iff)

lemma lookups_update_field [simp]:
  "servers_of n (s\<lparr>lookups := l\<rparr>) = servers_of n s" "reg (s\<lparr>lookups := l\<rparr>) = reg s"
  "msgs (s\<lparr>lookups := l\<rparr>) = msgs s"
  by (simp_all add: servers_of_def reg_def msgs_def fun_eq_iff)

lemma drop_client_field [simp]:
  "local_node (drop_client n p s) = local_node s" "bcast_sq (drop_client n p s) = bcast_sq s"
  "reg (drop_client n p s) = reg s" "msgs (drop_client n p s) = msgs s"
  "servers_of m (drop_client n p s) = servers_of m s" "ns_inv s \<Longrightarrow> ns_inv (drop_client n p s)"
  by (simp_all add: drop_client_def ns_inv_drop_lookups)

text \<open>
  An accepted \<^verbatim>\<open>DEL_CLIENT\<close> goes through the states after dropping the lookups, after finding the
  node, after deleting the server and after telling the local servers.
\<close>

lemma del_client_run:
  assumes inv: "ns_inv s" and ok: "sq_node sq = n" "sq_node sq = local_node s \<longrightarrow> sq_port sq = port"
    and s': "s' = snd (ctrl_cmd_del_client e sq n port s)"
  obtains s2 s3 r4 s4 pkt where "lookups s2 = lookups (drop_client n port s)" "keeps s s2" "reg s2 = reg s"
    "msgs s2 = msgs s" "s3 = s2 \<and> servers_of n s = [] \<or> s3 = snd (server_del e n port False s2)"
    "node_get e (local_node s3) s3 = (r4, s4)" "pkt_cmd pkt = QRTR_TYPE_DEL_CLIENT"
    "s' = (case r4 of None \<Rightarrow> s4 | Some ln \<Rightarrow> tell_servers e pkt (map snd (servers_of ln s4)) s4)"
    "fst (ctrl_cmd_del_client e sq n port s) = 0"
proof -
  obtain r s2 where k: "node_get e n (drop_client n port s) = (r, s2)" by fastforce
  note g = node_get_spec [OF k]
  define s3 where "s3 = (case r of None \<Rightarrow> s2 | Some k \<Rightarrow> snd (server_del e k port False s2))"
  obtain r4 s4 where k4: "node_get e (local_node s3) s3 = (r4, s4)" by fastforce
  let ?pkt = "zero_pkt\<lparr>pkt_cmd := QRTR_TYPE_DEL_CLIENT, pkt_w0 := n, pkt_w1 := port\<rparr>"
  have run: "ctrl_cmd_del_client e sq n port s =
    (0, case r4 of None \<Rightarrow> s4 | Some ln \<Rightarrow> tell_servers e ?pkt (map snd (servers_of ln s4)) s4)"
    using ok by (auto simp: ctrl_cmd_del_client_def Let_def k s3_def [symmetric] k4 split: option.splits)
  show thesis
  proof (rule that [of s2 s3 r4 s4 ?pkt])
    show "s3 = s2 \<and> servers_of n s = [] \<or> s3 = snd (server_del e n port False s2)"
      using g(8,9) by (cases r) (auto simp: s3_def)
  qed (use g inv run k4 in \<open>simp_all add: keeps_def s'\<close>)
qed

lemma del_client_step:
  assumes inv: "ns_inv s" and s': "s' = snd (ctrl_cmd_del_client e sq n port s)"
  shows "keeps s s'"
    "ns_abs s' = (if sq_node sq = n \<and> (sq_node sq = local_node s \<longrightarrow> sq_port sq = port)
       then \<lparr>registry = (reg s)((n, port) := None), observers = lookups (drop_client n port s)\<rparr>
       else ns_abs s)"
proof -
  let ?c = "sq_node sq = n \<and> (sq_node sq = local_node s \<longrightarrow> sq_port sq = port)"
  have "keeps s s' \<and> ns_abs s' = (if ?c
       then \<lparr>registry = (reg s)((n, port) := None), observers = lookups (drop_client n port s)\<rparr>
       else ns_abs s)"
  proof (cases ?c)
    case False
    then have "s' = s" by (auto simp: s' ctrl_cmd_del_client_def)
    then show ?thesis using False inv by (auto simp: keeps_def)
  next
    case True
    obtain s2 s3 r4 s4 pkt where run: "lookups s2 = lookups (drop_client n port s)" "keeps s s2" "reg s2 = reg s"
      "msgs s2 = msgs s" "s3 = s2 \<and> servers_of n s = [] \<or> s3 = snd (server_del e n port False s2)"
      "node_get e (local_node s3) s3 = (r4, s4)" "pkt_cmd pkt = QRTR_TYPE_DEL_CLIENT"
      "s' = (case r4 of None \<Rightarrow> s4 | Some ln \<Rightarrow> tell_servers e pkt (map snd (servers_of ln s4)) s4)"
      "fst (ctrl_cmd_del_client e sq n port s) = 0"
      by (rule del_client_run [OF inv conjunct1 [OF True] conjunct2 [OF True] s'])
    have i2: "ns_inv s2" using run(2) by (simp add: keeps_def)
    have s3: "keeps s2 s3 \<and> lookups s3 = lookups s2 \<and> reg s3 = (reg s)((n, port) := None)"
      using run(5)
    proof
      assume "s3 = s2 \<and> servers_of n s = []"
      then show ?thesis using i2 run(3) reg_unchanged_at_missing [of n s] by (simp add: keeps_def)
    next
      assume d: "s3 = snd (server_del e n port False s2)"
      show ?thesis using server_del_spec [OF i2 d] by (simp add: keeps_def d reg_server_del run(3))
    qed
    then have "ns_inv s3" by (simp add: keeps_def)
    note t = tell_local_step [OF this run(6,8)]
    show ?thesis using True s3 t(1,2) run(1,2) by (simp add: keeps_def ns_abs_def)
  qed
  then show "keeps s s'" "ns_abs s' = (if ?c
       then \<lparr>registry = (reg s)((n, port) := None), observers = lookups (drop_client n port s)\<rparr>
       else ns_abs s)" by blast+
qed

text \<open>
  \<^verbatim>\<open>NEW_SERVER\<close> either fails without touching the registry, or registers the server, announces a
  local one to the network, and then tells the observers unless the announcement failed.
\<close>

definition new_msgs :: "qrtr_server \<Rightarrow> bool \<Rightarrow> 'z qrtr_ns_scheme \<Rightarrow> (sockaddr_qrtr \<times> qrtr_ctrl_pkt) list" where
  "new_msgs srv told s =
     (if srv_node srv = local_node s then [(bcast_sq s, server_pkt QRTR_TYPE_NEW_SERVER srv)] else [])
     @ (if told then map (\<lambda>lk. (lk_sq lk, server_pkt QRTR_TYPE_NEW_SERVER srv))
          (filter (\<lambda>lk. lookup_wants lk (srv_service srv) (srv_instance srv)) (lookups s)) else [])"

lemma new_server_run:
  assumes inv: "ns_inv s" and run: "ctrl_cmd_new_server e sq sv i n0 p0 s = (ret, s')"
    and wd: "sv < 4294967296" "i < 4294967296"
    and addr: "(n, p) = (if sq_node sq = local_node s then (sq_node sq, sq_port sq) else (n0, p0))"
  obtains "ret = - EINVAL" "reg s' = reg s" "msgs s' = msgs s" "lookups s' = lookups s" "keeps s s'"
      "sv = 0 \<or> p = 0 \<or> (\<exists>j. \<not> kzalloc_ok e j)"
    | "sv \<noteq> 0" "p \<noteq> 0" "reg s' = (reg s)((n, p) \<mapsto> (sv, i))" "lookups s' = lookups s" "keeps s s'"
      "msgs s' = msgs s @ new_msgs \<lparr>srv_service = sv, srv_instance = i, srv_node = n, srv_port = p\<rparr> (0 \<le> ret) s"
      "n \<noteq> local_node s \<longrightarrow> ret = 0" "(\<And>j d q. 0 \<le> sendmsg_ret e j d q) \<Longrightarrow> 0 \<le> ret"
proof -
  let ?srv = "\<lparr>srv_service = sv, srv_instance = i, srv_node = n, srv_port = p\<rparr>"
  obtain r s1 where k: "server_add e sv i n p s = (r, s1)" by fastforce
  note a = server_add_spec [OF inv k wd]
  have eq: "ctrl_cmd_new_server e sq sv i n0 p0 s =
    (case server_add e sv i n p s of (None, s1) \<Rightarrow> (- EINVAL, s1)
      | (Some srv, s1) \<Rightarrow>
        let (ret, s2) = (if srv_node srv = local_node s1
                         then service_announce_new e (bcast_sq s1) srv s1 else (0, s1)) in
        if ret < 0 then (ret, s2) else (ret, notify_lookups e srv True (lookups s2) s2))"
    unfolding ctrl_cmd_new_server_def addr [symmetric] by simp
  show thesis
  proof (cases r)
    case None
    have "(ret, s') = (- EINVAL, s1)" using run eq k None by simp
    moreover have "sv = 0 \<or> p = 0 \<or> (\<exists>j. \<not> kzalloc_ok e j)" using a(8) None by blast
    ultimately show thesis using that(1) a None by (simp add: keeps_def)
  next
    case (Some srv)
    note srv = a(7) [OF Some]
    have srv': "srv = ?srv" and sn: "srv_node srv = n" using srv by simp_all
    obtain ret2 s2 where k2: "(if n = local_node s1 then service_announce_new e (bcast_sq s1) srv s1 else (0, s1))
      = (ret2, s2)" by fastforce
    define a1 where "a1 = (if n = local_node s then [(bcast_sq s, server_pkt QRTR_TYPE_NEW_SERVER srv)] else [])"
    have t2: "sends s1 a1 s2"
      using k2 sends_sendmsg [of s1 "bcast_sq s1" "server_pkt QRTR_TYPE_NEW_SERVER srv" e] a(2,3)
      by (auto simp: a1_def service_announce_new_def split: if_splits)
    have out: "(ret, s') = (ret2, if ret2 < 0 then s2 else notify_lookups e srv True (lookups s2) s2)"
      using run eq k Some k2 srv' by (simp split: if_splits)
    have t3: "sends s1 (new_msgs srv (0 \<le> ret) s) s'"
    proof (cases "ret2 < 0")
      case True
      then show ?thesis using t2 out by (simp add: new_msgs_def a1_def sn)
    next
      case False
      show ?thesis
        using sends_trans [OF t2 sends_notify_lookups [of s2 srv True "lookups s2" e]] out False
        by (simp add: new_msgs_def a1_def sn sends_field(2) [OF t2] a(1) lookup_pkt_def)
    qed
    have "n \<noteq> local_node s \<longrightarrow> ret = 0" using k2 out a(2) by auto
    moreover have "0 \<le> ret" if "\<And>j d q. 0 \<le> sendmsg_ret e j d q"
      using k2 out that [of "length (sent s1)" "bcast_sq s1" "server_pkt QRTR_TYPE_NEW_SERVER srv"]
      by (auto simp: service_announce_new_def kernel_sendmsg_def Let_def split: if_splits)
    ultimately show thesis
      using that(2) srv a by (simp add: sends_field [OF t3] keeps_def)
  qed
qed

lemma del_server_step:
  assumes inv: "ns_inv s" and s': "s' = snd (ctrl_cmd_del_server e sq sv i n0 p0 s)"
    and addr: "(n, p) = (if sq_node sq = local_node s then (sq_node sq, sq_port sq) else (n0, p0))"
  obtains s1 where "keeps s s1" "reg s1 = reg s" "lookups s1 = lookups s" "msgs s1 = msgs s"
    "s' = s1 \<and> servers_of n s = [] \<or> s' = snd (server_del e n p True s1)"
proof -
  obtain r s1 where k: "node_get e n s = (r, s1)" by fastforce
  note g = node_get_spec [OF k]
  have c: "\<not> (sq_node sq = local_node s \<and> sq_port sq \<noteq> p)"
    using addr by (auto split: if_splits)
  have "s' = (case r of None \<Rightarrow> s1 | Some nd \<Rightarrow> snd (server_del e nd p True s1))"
    unfolding s' ctrl_cmd_del_server_def addr [symmetric] using c k by (auto split: option.splits)
  then have "s' = s1 \<and> servers_of n s = [] \<or> s' = snd (server_del e n p True s1)"
    using g(8,9) by (cases r) auto
  then show thesis using that [of s1] g inv by (simp add: keeps_def)
qed

lemma sends_fold:
  assumes "\<And>x s. sends s (g x) (f x s)"
  shows "sends s (concat (map g xs)) (fold f xs s)"
proof (induction xs arbitrary: s)
  case (Cons x xs)
  show ?case using sends_trans [OF assms Cons] by simp
qed simp

definition all_servers :: "'z qrtr_ns_scheme \<Rightarrow> qrtr_server list" where
  "all_servers s = concat (map (\<lambda>nd. map snd (servers (snd nd))) (nodes s))"

lemma new_lookup_run:
  assumes "ns_inv s" and run: "ctrl_cmd_new_lookup e sq sv i s = (ret, s')"
  obtains "ret = - EINVAL" "s' = s" "sq_node sq \<noteq> local_node s"
    | "ret = - ENOMEM" "ns_abs s' = ns_abs s" "msgs s' = msgs s" "keeps s s'" "\<exists>j. \<not> kzalloc_ok e j"
      "sq_node sq = local_node s"
    | "ret = 0" "sq_node sq = local_node s" "keeps s s'" "reg s' = reg s"
      "lookups s' = lookups s @ [\<lparr>lk_service = sv, lk_instance = i, lk_sq = sq\<rparr>]"
      "msgs s' = msgs s @ map (\<lambda>srv. (sq, server_pkt QRTR_TYPE_NEW_SERVER srv))
         (filter (\<lambda>srv. server_match srv \<lparr>f_service = sv, f_instance = i, f_ifilter = 0\<rparr>) (all_servers s))
       @ [(sq, zero_pkt\<lparr>pkt_cmd := QRTR_TYPE_NEW_SERVER\<rparr>)]"
proof -
  obtain ok s1 where k: "kzalloc e s = (ok, s1)" by fastforce
  note f = kzalloc_field [where e = e and s = s, unfolded k snd_conv]
  let ?lk = "\<lparr>lk_service = sv, lk_instance = i, lk_sq = sq\<rparr>"
  let ?f = "\<lparr>f_service = sv, f_instance = i, f_ifilter = 0\<rparr>"
  show thesis
  proof (cases "sq_node sq = local_node s")
    case False
    then show thesis using that(1) run by (simp add: ctrl_cmd_new_lookup_def)
  next
    case local: True
    show thesis
    proof (cases ok)
      case False
      then have "\<exists>j. \<not> kzalloc_ok e j" using fst_kzalloc [of e s] k by auto
      then show thesis
        using that(2) run local k False f assms(1) by (simp add: ctrl_cmd_new_lookup_def ns_abs_def keeps_def)
    next
      case True
      define s2 where "s2 = s1\<lparr>lookups := lookups s1 @ [?lk]\<rparr>"
      have s2: "ns_inv s2" "local_node s2 = local_node s" "bcast_sq s2 = bcast_sq s" "reg s2 = reg s"
        "lookups s2 = lookups s @ [?lk]" "msgs s2 = msgs s" "nodes s2 = nodes s"
        using assms(1) f local by (simp_all add: s2_def) (simp add: ns_inv_def)
      let ?s3 = "fold (\<lambda>nd. list_servers e sq ?f (map snd (servers nd))) (map snd (nodes s2)) s2"
      have "sends s2 (concat (map (\<lambda>nd. map (\<lambda>srv. (sq, lookup_pkt (Some srv) True))
          (filter (\<lambda>srv. server_match srv ?f) (map snd (servers nd)))) (map snd (nodes s2)))) ?s3"
        by (rule sends_fold) (rule sends_list_servers)
      then have t: "sends s2 (map (\<lambda>srv. (sq, server_pkt QRTR_TYPE_NEW_SERVER srv))
          (filter (\<lambda>srv. server_match srv ?f) (all_servers s))) ?s3"
        by (simp add: all_servers_def s2(7) lookup_pkt_def comp_def filter_concat map_concat)
      have "s' = lookup_notify e sq None True ?s3" and ret: "ret = 0"
        using run local k True by (simp_all add: ctrl_cmd_new_lookup_def s2_def Let_def)
      then have "sends s2 (map (\<lambda>srv. (sq, server_pkt QRTR_TYPE_NEW_SERVER srv))
          (filter (\<lambda>srv. server_match srv ?f) (all_servers s))
          @ [(sq, zero_pkt\<lparr>pkt_cmd := QRTR_TYPE_NEW_SERVER\<rparr>)]) s'"
        using sends_trans [OF t sends_sendmsg [of ?s3 sq "lookup_pkt None True" e]]
        by (simp add: lookup_notify_def lookup_pkt_def)
      note t = sends_field [OF this]
      show thesis
        using that(3) ret local s2 t by (simp add: keeps_def)
    qed
  qed
qed

lemma del_lookup_step:
  "ns_inv s \<Longrightarrow> keeps s (ctrl_cmd_del_lookup sq sv i s)" "reg (ctrl_cmd_del_lookup sq sv i s) = reg s"
  "msgs (ctrl_cmd_del_lookup sq sv i s) = msgs s"
  by (simp_all add: ctrl_cmd_del_lookup_def keeps_def ns_inv_drop_lookups)

lemma server_addr_unfold:
  "server_addr ln sq pkt = (if sq_node sq = ln then (sq_node sq, sq_port sq) else (server_node pkt, server_port pkt))"
  by (simp add: server_addr_def)

lemma dispatch_new_server:
  assumes inv: "ns_inv s" and run: "ns_dispatch e sq pkt s = (r, s')" and c: "pkt_cmd pkt = QRTR_TYPE_NEW_SERVER"
    and pk: "pkt_ok pkt"
  shows "keeps s s'" and "ns_abs s' = spec_step (local_node s) sq pkt (ns_abs s) \<or>
    ns_abs s' = ns_abs s \<and> r = - EINVAL \<and> (\<exists>j. \<not> kzalloc_ok e j)"
proof -
  obtain n p where a: "server_addr (local_node s) sq pkt = (n, p)" by fastforce
  have "ctrl_cmd_new_server e sq (server_service pkt) (server_instance pkt) (server_node pkt) (server_port pkt) s = (r, s')"
    using run c by (simp add: ns_dispatch_def)
  note run' = this
  have wd: "server_service pkt < 4294967296" "server_instance pkt < 4294967296"
    using pk by (simp_all add: pkt_ok_def)
  from new_server_run [OF inv run' wd a [symmetric, unfolded server_addr_def]]
  have "keeps s s' \<and> (ns_abs s' = spec_step (local_node s) sq pkt (ns_abs s) \<or>
    ns_abs s' = ns_abs s \<and> r = - EINVAL \<and> (\<exists>j. \<not> kzalloc_ok e j))"
    by cases (auto simp: spec_step_def c a ns_abs_def)
  then show "keeps s s'" "ns_abs s' = spec_step (local_node s) sq pkt (ns_abs s) \<or>
    ns_abs s' = ns_abs s \<and> r = - EINVAL \<and> (\<exists>j. \<not> kzalloc_ok e j)" by blast+
qed

lemma dispatch_del_server:
  assumes inv: "ns_inv s" and run: "ns_dispatch e sq pkt s = (r, s')" and c: "pkt_cmd pkt = QRTR_TYPE_DEL_SERVER"
  shows "keeps s s'" and "ns_abs s' = spec_step (local_node s) sq pkt (ns_abs s)"
proof -
  obtain n p where a: "server_addr (local_node s) sq pkt = (n, p)" by fastforce
  have "s' = snd (ctrl_cmd_del_server e sq (server_service pkt) (server_instance pkt) (server_node pkt) (server_port pkt) s)"
    using run c by (simp add: ns_dispatch_def)
  from del_server_step [OF inv this a [symmetric, unfolded server_addr_def]]
  obtain s1 where s1: "keeps s s1" "reg s1 = reg s" "lookups s1 = lookups s"
    "s' = s1 \<and> servers_of n s = [] \<or> s' = snd (server_del e n p True s1)" by metis
  have i1: "ns_inv s1" using s1(1) by (simp add: keeps_def)
  have "keeps s s' \<and> reg s' = (reg s)((n, p) := None) \<and> lookups s' = lookups s"
    using s1(4)
  proof
    assume "s' = s1 \<and> servers_of n s = []"
    then show ?thesis using s1(1-3) reg_unchanged_at_missing [of n s] by simp
  next
    assume d: "s' = snd (server_del e n p True s1)"
    show ?thesis using server_del_spec [OF i1 d] s1 by (simp add: keeps_def d reg_server_del)
  qed
  then show "keeps s s'" "ns_abs s' = spec_step (local_node s) sq pkt (ns_abs s)"
    by (simp_all add: spec_step_def c a ns_abs_def)
qed

lemma dispatch_lookup:
  assumes inv: "ns_inv s" and run: "ns_dispatch e sq pkt s = (r, s')" and c: "pkt_cmd pkt = QRTR_TYPE_NEW_LOOKUP"
  shows "keeps s s'" and "ns_abs s' = spec_step (local_node s) sq pkt (ns_abs s) \<or>
    ns_abs s' = ns_abs s \<and> r = - ENOMEM \<and> (\<exists>j. \<not> kzalloc_ok e j)"
proof -
  have "ctrl_cmd_new_lookup e sq (server_service pkt) (server_instance pkt) s = (r, s')"
    using run c by (simp add: ns_dispatch_def)
  from new_lookup_run [OF inv this]
  have "keeps s s' \<and> (ns_abs s' = spec_step (local_node s) sq pkt (ns_abs s) \<or>
    ns_abs s' = ns_abs s \<and> r = - ENOMEM \<and> (\<exists>j. \<not> kzalloc_ok e j))"
    using inv by cases (simp_all add: spec_step_def c ns_abs_def, simp add: keeps_def)
  then show "keeps s s'" "ns_abs s' = spec_step (local_node s) sq pkt (ns_abs s) \<or>
    ns_abs s' = ns_abs s \<and> r = - ENOMEM \<and> (\<exists>j. \<not> kzalloc_ok e j)" by blast+
qed

lemma dispatch_step:
  assumes inv: "ns_inv s" and pk: "pkt_ok pkt" and run: "ns_dispatch e sq pkt s = (r, s')"
  shows "keeps s s'" and "ns_abs s' = spec_step (local_node s) sq pkt (ns_abs s) \<or>
    ns_abs s' = ns_abs s \<and> r \<in> {- EINVAL, - ENOMEM} \<and> (\<exists>j. \<not> kzalloc_ok e j)"
proof -
  have s': "s' = snd (ns_dispatch e sq pkt s)" using run by simp
  consider "pkt_cmd pkt = QRTR_TYPE_HELLO" | "pkt_cmd pkt = QRTR_TYPE_BYE" | "pkt_cmd pkt = QRTR_TYPE_DEL_CLIENT"
    | "pkt_cmd pkt = QRTR_TYPE_NEW_SERVER" | "pkt_cmd pkt = QRTR_TYPE_DEL_SERVER"
    | "pkt_cmd pkt = QRTR_TYPE_NEW_LOOKUP" | "pkt_cmd pkt = QRTR_TYPE_DEL_LOOKUP"
    | "pkt_cmd pkt \<notin> {2, 3, 4, 5, 6, 10, 11}"
    by (simp only: insert_iff empty_iff) metis
  then have "keeps s s' \<and> (ns_abs s' = spec_step (local_node s) sq pkt (ns_abs s) \<or>
    ns_abs s' = ns_abs s \<and> r \<in> {- EINVAL, - ENOMEM} \<and> (\<exists>j. \<not> kzalloc_ok e j))"
  proof cases
    case 1
    then have "s' = snd (ctrl_cmd_hello e sq s)" using s' by (simp add: ns_dispatch_def)
    from hello_step [OF inv this] show ?thesis by (simp add: spec_step_def 1)
  next
    case 2
    then have "s' = snd (ctrl_cmd_bye e sq s)" using s' by (simp add: ns_dispatch_def)
    from bye_step [OF inv this] show ?thesis by (simp add: spec_step_def 2 ns_abs_def cong: if_cong)
  next
    case 3
    then have "s' = snd (ctrl_cmd_del_client e sq (client_node pkt) (client_port pkt) s)"
      using s' by (simp add: ns_dispatch_def)
    note d = del_client_step [OF inv this]
    have "lookups (drop_client (client_node pkt) (client_port pkt) s) = filter (\<lambda>lk.
        (sq_node (lk_sq lk), sq_port (lk_sq lk)) \<noteq> (client_node pkt, client_port pkt)) (lookups s)"
      by (simp add: drop_client_def)
    then have "ns_abs s' = spec_step (local_node s) sq pkt (ns_abs s)"
      unfolding d(2) by (simp only: spec_step_def 3 ns_abs_def Let_def) (simp, metis)
    then show ?thesis using d(1) by blast
  next
    case 4
    from dispatch_new_server [OF inv run 4 pk] show ?thesis by blast
  next
    case 5
    from dispatch_del_server [OF inv run 5] show ?thesis by blast
  next
    case 6
    from dispatch_lookup [OF inv run 6] show ?thesis by blast
  next
    case 7
    have "s' = ctrl_cmd_del_lookup sq (server_service pkt) (server_instance pkt) s"
      using s' 7 by (simp add: ns_dispatch_def)
    note d = this
    have l: "lookups s' = filter (\<lambda>lk. \<not> (sq_node (lk_sq lk) = sq_node sq \<and> sq_port (lk_sq lk) = sq_port sq
        \<and> lk_service lk = server_service pkt \<and> (lk_instance lk = 0 \<or> lk_instance lk = server_instance pkt)))
      (lookups s)"
      by (simp only: d ctrl_cmd_del_lookup_def) simp
    have "keeps s s'" "reg s' = reg s"
      unfolding d by (rule del_lookup_step(1) [OF inv]) (rule del_lookup_step(2))
    then show ?thesis
      using l by (simp add: spec_step_def 7 ns_abs_def)
  next
    case 8
    then have "s' = s" using s' by (simp add: ns_dispatch_def)
    then show ?thesis using inv 8 by (simp add: spec_step_def keeps_def)
  qed
  then show "keeps s s'" "ns_abs s' = spec_step (local_node s) sq pkt (ns_abs s) \<or>
    ns_abs s' = ns_abs s \<and> r \<in> {- EINVAL, - ENOMEM} \<and> (\<exists>j. \<not> kzalloc_ok e j)" by blast+
qed

section \<open>What an observer learns\<close>

text \<open>
  The picture an observer has after a list of messages, starting from the picture \<open>v\<close>. A new server at
  node and port zero marks the end of the list an observer is sent first.
\<close>

definition learn ::
  "qrtr_ctrl_pkt \<Rightarrow> (nat \<times> nat \<Rightarrow> (nat \<times> nat) option) \<Rightarrow> nat \<times> nat \<Rightarrow> (nat \<times> nat) option" where
  "learn p v =
     (if pkt_cmd p = QRTR_TYPE_NEW_SERVER \<and> (server_node p, server_port p) \<noteq> (0, 0)
      then v((server_node p, server_port p) \<mapsto> (server_service p, server_instance p))
      else if pkt_cmd p = QRTR_TYPE_DEL_SERVER then v((server_node p, server_port p) := None)
      else v)"

fun replay ::
  "sockaddr_qrtr \<Rightarrow> (sockaddr_qrtr \<times> qrtr_ctrl_pkt) list \<Rightarrow> (nat \<times> nat \<Rightarrow> (nat \<times> nat) option)
     \<Rightarrow> nat \<times> nat \<Rightarrow> (nat \<times> nat) option" where
  "replay d [] v = v"
| "replay d (m # ms) v = replay d ms (if fst m = d then learn (snd m) v else v)"

text \<open>The registered servers some lookup of the observer at \<open>d\<close> asks for.\<close>

definition wanted :: "sockaddr_qrtr \<Rightarrow> 'z qrtr_ns_scheme \<Rightarrow> nat \<times> nat \<Rightarrow> bool" where
  "wanted d s x \<longleftrightarrow> list_ex (\<lambda>lk. lk_sq lk = d \<and> lookup_wants lk (fst x) (snd x)) (lookups s)"

definition matching :: "sockaddr_qrtr \<Rightarrow> 'z qrtr_ns_scheme \<Rightarrow> nat \<times> nat \<Rightarrow> (nat \<times> nat) option" where
  "matching d s a = (case reg s a of None \<Rightarrow> None | Some x \<Rightarrow> if wanted d s x then Some x else None)"

definition tracks :: "sockaddr_qrtr \<Rightarrow> 'z qrtr_ns_scheme \<Rightarrow> 'z qrtr_ns_scheme \<Rightarrow> bool" where
  "tracks d s s' \<longleftrightarrow> (\<exists>ms. msgs s' = msgs s @ ms \<and> replay d ms (matching d s) = matching d s')"

lemma replay_append [simp]: "replay d (a @ b) v = replay d b (replay d a v)"
  by (induction a arbitrary: v) simp_all

lemma tracksI: "msgs s' = msgs s @ ms \<Longrightarrow> replay d ms (matching d s) = matching d s' \<Longrightarrow> tracks d s s'"
  by (auto simp: tracks_def)

lemma tracks_trans: "tracks d s s1 \<Longrightarrow> tracks d s1 s2 \<Longrightarrow> tracks d s s2"
  by (auto simp: tracks_def)

lemma matching_cong: "reg s' = reg s \<Longrightarrow> wanted d s' = wanted d s \<Longrightarrow> matching d s' = matching d s"
  by (rule ext) (simp add: matching_def split: option.split)

lemma wanted_cong: "lookups s' = lookups s \<Longrightarrow> wanted d s' = wanted d s"
  by (simp add: wanted_def fun_eq_iff)

lemma learn_idem [simp]: "learn p (learn p v) = learn p v"
  by (auto simp: learn_def)

lemma replay_elsewhere: "d \<notin> fst ` set ms \<Longrightarrow> replay d ms v = v"
  by (induction ms arbitrary: v) auto

lemma replay_no_server: "(\<And>m. m \<in> set ms \<Longrightarrow> pkt_cmd (snd m) \<notin> {4, 5}) \<Longrightarrow> replay d ms v = v"
  by (induction ms arbitrary: v) (auto simp: learn_def)

lemma replay_same:
  "replay d (map (\<lambda>lk. (lk_sq lk, p)) lks) v = (if list_ex (\<lambda>lk. lk_sq lk = d) lks then learn p v else v)"
  by (induction lks arbitrary: v) auto

lemma notified_iff:
  "list_ex (\<lambda>lk. lk_sq lk = d) (filter (\<lambda>lk. lookup_wants lk sv i) (lookups s)) \<longleftrightarrow> wanted d s (sv, i)"
  by (auto simp: list_ex_iff wanted_def)

lemma learn_new: "srv_port srv \<noteq> 0 \<Longrightarrow>
  learn (server_pkt QRTR_TYPE_NEW_SERVER srv) v
    = v((srv_node srv, srv_port srv) \<mapsto> (srv_service srv, srv_instance srv))"
  by (simp add: learn_def server_pkt_def)

lemma learn_del: "learn (server_pkt QRTR_TYPE_DEL_SERVER srv) v = v((srv_node srv, srv_port srv) := None)"
  by (simp add: learn_def server_pkt_def)

lemma matching_reg_del:
  "reg s' = (reg s)(a := None) \<Longrightarrow> lookups s' = lookups s \<Longrightarrow> matching d s' = (matching d s)(a := None)"
  by (rule ext) (simp add: matching_def wanted_cong [of s' s] split: option.split)

lemma tracks_server_del:
  assumes inv: "ns_inv s" and s': "s' = snd (server_del e n port b s)" and d: "d \<noteq> bcast_sq s"
  shows "tracks d s s'"
proof (rule tracksI)
  note spec = server_del_spec [OF inv s']
  show "msgs s' = msgs s @ del_msgs n port b s" by (rule spec)
  have m: "matching d s' = (matching d s)((n, port) := None)"
    using spec by (intro matching_reg_del) (simp_all add: s' reg_server_del)
  show "replay d (del_msgs n port b s) (matching d s) = matching d s'"
  proof (cases "xa_load (servers_of n s) port")
    case None
    then have "matching d s (n, port) = None" by (simp add: matching_def reg_def)
    then have "(matching d s)((n, port) := None) = matching d s" by (rule fun_upd_idem)
    then show ?thesis unfolding m using None by (simp add: del_msgs_def)
  next
    case (Some srv)
    note srv = ns_inv_server [OF inv Some]
    have r: "reg s (n, port) = Some (srv_service srv, srv_instance srv)" using Some by (simp add: reg_def)
    have "replay d (del_msgs n port b s) (matching d s)
      = (if wanted d s (srv_service srv, srv_instance srv) then (matching d s)((n, port) := None) else matching d s)"
      using d by (simp add: del_msgs_def Some replay_same notified_iff learn_del srv)
    moreover have "\<not> wanted d s (srv_service srv, srv_instance srv) \<Longrightarrow> matching d s (n, port) = None"
      using r by (simp add: matching_def)
    ultimately show ?thesis unfolding m by (simp add: fun_upd_idem)
  qed
qed

lemma tracks_bye_servers:
  assumes "ns_inv s" and "d \<noteq> bcast_sq s"
  shows "tracks d s (bye_servers e n lo s)"
  using assms
proof (induction e n lo s rule: bye_servers.induct)
  case (1 e n lo s)
  show ?case
  proof (cases "xa_find (servers_of n s) lo")
    case None
    then show ?thesis by (simp add: bye_servers.simps [of e n lo s] tracks_def)
  next
    case (Some a)
    then obtain i srv where f: "xa_find (servers_of n s) lo = Some (i, srv)" by (cases a) auto
    let ?s1 = "snd (server_del e n (srv_port srv) True s)"
    have "ns_inv ?s1" "bcast_sq ?s1 = bcast_sq s"
      using server_del_spec [OF 1(2) refl] by blast+
    then have "tracks d ?s1 (bye_servers e n (Suc i) ?s1)" using 1(1) [OF f refl] 1(3) by simp
    moreover have "tracks d s ?s1" by (rule tracks_server_del [OF 1(2) refl 1(3)])
    ultimately show ?thesis using f tracks_trans by (simp add: bye_servers.simps [of e n lo s])
  qed
qed

lemma tracks_quiet:
  "msgs s' = msgs s \<Longrightarrow> reg s' = reg s \<Longrightarrow> wanted d s' = wanted d s \<Longrightarrow> tracks d s s'"
  using matching_cong [of s' s d] by (intro tracksI [of s' s "[]"]) simp_all

lemma tracks_tell_local:
  assumes "ns_inv s" and "node_get e (local_node s) s = (r, s1)"
    and "s' = (case r of None \<Rightarrow> s1 | Some ln \<Rightarrow> tell_servers e pkt (map snd (servers_of ln s1)) s1)"
    and "pkt_cmd pkt \<notin> {4, 5}"
  shows "tracks d s s'"
proof -
  from tell_local_step [OF assms(1-3)]
  obtain ms where "msgs s' = msgs s @ ms" "snd ` set ms \<subseteq> {pkt}" "ns_abs s' = ns_abs s" by blast
  moreover from this have "replay d ms (matching d s) = matching d s"
    using assms(4) by (intro replay_no_server) auto
  moreover have "matching d s' = matching d s"
    using \<open>ns_abs s' = ns_abs s\<close> by (intro matching_cong wanted_cong) (simp_all add: ns_abs_def)
  ultimately show ?thesis
    by (intro tracksI [of s' s ms]) simp_all
qed

lemma server_match_wants:
  assumes "srv_instance srv < 4294967296"
  shows "server_match srv \<lparr>f_service = sv, f_instance = i, f_ifilter = 0\<rparr>
     \<longleftrightarrow> lookup_wants \<lparr>lk_service = sv, lk_instance = i, lk_sq = d\<rparr> (srv_service srv) (srv_instance srv)"
proof -
  have "srv_instance srv AND mask 32 = srv_instance srv"
    using assms by (simp add: take_bit_eq_mask [symmetric] take_bit_nat_eq_self_iff)
  then have "srv_instance srv AND 4294967295 = srv_instance srv"
    by (simp add: mask_eq_exp_minus_1)
  then show ?thesis
    by (auto simp: server_match_def lookup_wants_def Let_def)
qed

lemma all_servers_load:
  assumes inv: "ns_inv s"
  shows "srv \<in> set (all_servers s) \<longleftrightarrow> (\<exists>n p. xa_load (servers_of n s) p = Some srv)"
proof -
  have "xa_ok (nodes s)" using inv by (simp add: ns_inv_def)
  then have "srv \<in> set (all_servers s) \<longleftrightarrow> (\<exists>n nd. xa_load (nodes s) n = Some nd \<and> srv \<in> snd ` set (servers nd))"
    by (force simp: all_servers_def xa_load_iff)
  also have "\<dots> \<longleftrightarrow> (\<exists>n. srv \<in> snd ` set (servers_of n s))"
  proof -
    have "(\<exists>nd. xa_load (nodes s) n = Some nd \<and> srv \<in> snd ` set (servers nd)) \<longleftrightarrow> srv \<in> snd ` set (servers_of n s)" for n
      by (cases "xa_load (nodes s) n") (simp_all add: servers_of_def)
    then show ?thesis by simp
  qed
  also have "\<dots> \<longleftrightarrow> (\<exists>n p. xa_load (servers_of n s) p = Some srv)"
    using ns_inv_servers_of(1) [OF inv] by (force simp: xa_load_iff)
  finally show ?thesis .
qed

lemma all_servers_reg:
  assumes "ns_inv s" and "srv \<in> set (all_servers s)"
  shows "reg s (srv_node srv, srv_port srv) = Some (srv_service srv, srv_instance srv)" "srv_port srv \<noteq> 0"
    "srv_instance srv < 4294967296"
proof -
  obtain n p where l: "xa_load (servers_of n s) p = Some srv"
    using assms all_servers_load by blast
  show "reg s (srv_node srv, srv_port srv) = Some (srv_service srv, srv_instance srv)" "srv_port srv \<noteq> 0"
    "srv_instance srv < 4294967296"
    using ns_inv_server [OF assms(1) l] l by (simp_all add: reg_def)
qed

lemma reg_all_servers:
  assumes "ns_inv s" and "reg s a = Some x"
  obtains srv where "srv \<in> set (all_servers s)" "(srv_node srv, srv_port srv) = a"
    "x = (srv_service srv, srv_instance srv)"
proof -
  obtain srv where l: "xa_load (servers_of (fst a) s) (snd a) = Some srv"
    "x = (srv_service srv, srv_instance srv)"
    using assms(2) by (auto simp: reg_def)
  have "srv \<in> set (all_servers s)" using l all_servers_load [OF assms(1)] by blast
  then show thesis using that l(2) ns_inv_server(1,2) [OF assms(1) l(1)] by simp
qed

text \<open>Replaying announcements of registered servers adds exactly their entries of the registry.\<close>

lemma replay_servers:
  assumes "\<And>srv. srv \<in> set srvs \<Longrightarrow> srv_port srv \<noteq> 0 \<and>
      g (srv_node srv, srv_port srv) = Some (srv_service srv, srv_instance srv)"
  shows "replay d (map (\<lambda>srv. (d, server_pkt QRTR_TYPE_NEW_SERVER srv)) srvs) v
    = (\<lambda>a. if \<exists>srv \<in> set srvs. (srv_node srv, srv_port srv) = a then g a else v a)"
  using assms
proof (induction srvs arbitrary: v)
  case (Cons srv srvs)
  have g: "g (srv_node srv, srv_port srv) = Some (srv_service srv, srv_instance srv)" "srv_port srv \<noteq> 0"
    using Cons.prems by simp_all
  have "replay d (map (\<lambda>srv. (d, server_pkt QRTR_TYPE_NEW_SERVER srv)) (srv # srvs)) v
    = (\<lambda>a. if \<exists>srv \<in> set srvs. (srv_node srv, srv_port srv) = a then g a
         else (v((srv_node srv, srv_port srv) \<mapsto> (srv_service srv, srv_instance srv))) a)"
    using Cons.IH Cons.prems by (simp add: learn_new g(2))
  also have "\<dots> = (\<lambda>a. if \<exists>srv \<in> set (srv # srvs). (srv_node srv, srv_port srv) = a then g a else v a)"
    using g(1) by (rule_tac ext) auto
  finally show ?case .
qed simp

lemma tracks_new_lookup:
  assumes inv: "ns_inv s" and run: "ctrl_cmd_new_lookup e sq sv i s = (r, s')"
  shows "tracks d s s'"
  using new_lookup_run [OF inv run]
proof cases
  case 1
  then show ?thesis by (simp add: tracks_def)
next
  case 2
  then have "reg s' = reg s" "lookups s' = lookups s" by (simp_all add: ns_abs_def)
  then show ?thesis using 2(3) by (intro tracks_quiet wanted_cong)
next
  case 3
  let ?f = "\<lparr>f_service = sv, f_instance = i, f_ifilter = 0\<rparr>"
  let ?lk = "\<lparr>lk_service = sv, lk_instance = i, lk_sq = sq\<rparr>"
  let ?m = "filter (\<lambda>srv. server_match srv ?f) (all_servers s)"
  let ?stop = "(sq, zero_pkt\<lparr>pkt_cmd := QRTR_TYPE_NEW_SERVER\<rparr>)"
  have w: "wanted d s' x \<longleftrightarrow> wanted d s x \<or> sq = d \<and> lookup_wants ?lk (fst x) (snd x)" for x
    by (auto simp: wanted_def 3(5))
  show ?thesis
  proof (rule tracksI [OF 3(6)])
    show "replay d (map (\<lambda>srv. (sq, server_pkt QRTR_TYPE_NEW_SERVER srv)) ?m @ [?stop]) (matching d s)
      = matching d s'"
    proof (cases "sq = d")
      case False
      then have "wanted d s' = wanted d s" using w by (intro ext) simp
      then have "matching d s' = matching d s" using 3(4) by (intro matching_cong)
      then show ?thesis using False by (subst replay_elsewhere) auto
    next
      case True
      have e: "replay d [?stop] v = v" for v by (simp add: learn_def zero_pkt_def)
      have r: "replay d (map (\<lambda>srv. (d, server_pkt QRTR_TYPE_NEW_SERVER srv)) ?m) (matching d s)
        = (\<lambda>a. if \<exists>srv \<in> set ?m. (srv_node srv, srv_port srv) = a then reg s a else matching d s a)"
        by (rule replay_servers) (use all_servers_reg [OF inv] in auto)
      have "(if \<exists>srv \<in> set ?m. (srv_node srv, srv_port srv) = a then reg s a else matching d s a)
        = matching d s' a" for a
      proof (cases "reg s a")
        case None
        then show ?thesis by (simp add: matching_def 3(4))
      next
        case (Some x)
        obtain srv where srv: "srv \<in> set (all_servers s)" "(srv_node srv, srv_port srv) = a"
          "x = (srv_service srv, srv_instance srv)"
          by (rule reg_all_servers [OF inv Some])
        have "(\<exists>srv \<in> set ?m. (srv_node srv, srv_port srv) = a) \<longleftrightarrow> lookup_wants ?lk (fst x) (snd x)"
        proof
          assume "\<exists>srv \<in> set ?m. (srv_node srv, srv_port srv) = a"
          then obtain t where t: "t \<in> set (all_servers s)" "server_match t ?f" "(srv_node t, srv_port t) = a"
            by auto
          have "x = (srv_service t, srv_instance t)" using all_servers_reg(1) [OF inv t(1)] t(3) Some by simp
          then show "lookup_wants ?lk (fst x) (snd x)"
            using t(2) server_match_wants [OF all_servers_reg(3) [OF inv t(1)]] by simp
        next
          assume "lookup_wants ?lk (fst x) (snd x)"
          then show "\<exists>srv \<in> set ?m. (srv_node srv, srv_port srv) = a"
            using srv server_match_wants [OF all_servers_reg(3) [OF inv srv(1)]] by auto
        qed
        then show ?thesis using Some w [of x] True by (simp add: matching_def 3(4))
      qed
      then show ?thesis unfolding True replay_append r e [unfolded True] by (rule ext)
    qed
  qed
qed

lemma tracks_new_server:
  assumes inv: "ns_inv s" and run: "ctrl_cmd_new_server e sq sv i n0 p0 s = (r, s')"
    and wd: "sv < 4294967296" "i < 4294967296"
    and addr: "(n, p) = (if sq_node sq = local_node s then (sq_node sq, sq_port sq) else (n0, p0))"
    and d: "d \<noteq> bcast_sq s" and sent: "\<And>j d q. 0 \<le> sendmsg_ret e j d q"
    and fresh: "reg s (n, p) = None \<or> reg s (n, p) = Some (sv, i)"
  shows "tracks d s s'"
  using new_server_run [OF inv run wd addr]
proof cases
  case 1
  then show ?thesis by (intro tracks_quiet wanted_cong)
next
  case 2
  let ?srv = "\<lparr>srv_service = sv, srv_instance = i, srv_node = n, srv_port = p\<rparr>"
  have told: "0 \<le> r" by (rule 2(8)) (rule sent)
  show ?thesis
  proof (rule tracksI [OF 2(6)])
    have "replay d (new_msgs ?srv (0 \<le> r) s) (matching d s)
      = (if wanted d s (sv, i) then (matching d s)((n, p) \<mapsto> (sv, i)) else matching d s)"
      using d told 2(1) by (simp add: new_msgs_def replay_same notified_iff learn_new 2(2))
    also have "\<dots> = matching d s'"
      using fresh wanted_cong [OF 2(4), of d]
      by (intro ext) (auto simp: matching_def 2(3) split: option.splits)
    finally show "replay d (new_msgs ?srv (0 \<le> r) s) (matching d s) = matching d s'" .
  qed
qed

lemma tracks_del_client:
  assumes inv: "ns_inv s" and s': "s' = snd (ctrl_cmd_del_client e sq n port s)" and d: "d \<noteq> bcast_sq s"
    and kept: "\<And>lk. lk \<in> set (lookups s) \<Longrightarrow> lk_sq lk = d \<Longrightarrow> lk \<in> set (lookups s')"
  shows "tracks d s s'"
proof (cases "sq_node sq = n \<and> (sq_node sq = local_node s \<longrightarrow> sq_port sq = port)")
  case False
  then have "s' = s" by (auto simp: s' ctrl_cmd_del_client_def)
  then show ?thesis by (simp add: tracks_def)
next
  case True
  obtain s2 s3 r4 s4 pkt where run: "lookups s2 = lookups (drop_client n port s)" "keeps s s2" "reg s2 = reg s"
    "msgs s2 = msgs s" "s3 = s2 \<and> servers_of n s = [] \<or> s3 = snd (server_del e n port False s2)"
    "node_get e (local_node s3) s3 = (r4, s4)" "pkt_cmd pkt = QRTR_TYPE_DEL_CLIENT"
    "s' = (case r4 of None \<Rightarrow> s4 | Some ln \<Rightarrow> tell_servers e pkt (map snd (servers_of ln s4)) s4)"
    "fst (ctrl_cmd_del_client e sq n port s) = 0"
    by (rule del_client_run [OF inv conjunct1 [OF True] conjunct2 [OF True] s'])
  have i2: "ns_inv s2" "bcast_sq s2 = bcast_sq s" using run(2) by (simp_all add: keeps_def)
  have "lookups s' = lookups (drop_client n port s)"
    using del_client_step(2) [OF inv s'] True by (simp add: ns_abs_def)
  then have "lk \<in> set (lookups s2) \<longleftrightarrow> lk \<in> set (lookups s)" if "lk_sq lk = d" for lk
    using kept [of lk] that run(1) by (auto simp: drop_client_def)
  then have "wanted d s2 = wanted d s"
    by (intro ext) (auto simp: wanted_def list_ex_iff)
  then have t1: "tracks d s s2" using run(3,4) by (intro tracks_quiet)
  have t2: "tracks d s2 s3" and i3: "ns_inv s3"
    using run(5) tracks_server_del [OF i2(1) refl] server_del_spec(4) [OF i2(1) refl] d i2
    by (auto simp: tracks_def)
  have "tracks d s3 s'"
    using run(7) by (intro tracks_tell_local [OF i3 run(6,8)]) simp
  then show ?thesis using t1 t2 tracks_trans by blast
qed

lemma tracks_bye:
  assumes inv: "ns_inv s" and s': "s' = snd (ctrl_cmd_bye e sq s)" and d: "d \<noteq> bcast_sq s"
  shows "tracks d s s'"
proof -
  obtain r s1 where k: "node_get e (sq_node sq) s = (r, s1)" by fastforce
  note g = node_get_spec [OF k]
  have i1: "ns_inv s1" "bcast_sq s1 = bcast_sq s" using g inv by simp_all
  have t1: "tracks d s s1" using g by (intro tracks_quiet wanted_cong)
  show ?thesis
  proof (cases r)
    case None
    then show ?thesis using t1 by (simp add: s' ctrl_cmd_bye_def k)
  next
    case (Some nd)
    define s2 where "s2 = bye_servers e nd 0 s1"
    have t2: "tracks d s1 s2" unfolding s2_def using i1 d by (intro tracks_bye_servers) simp_all
    have i2: "ns_inv s2" unfolding s2_def by (rule bye_servers_spec(4) [OF i1(1)]) simp
    obtain r3 s3 where k3: "node_get e (local_node s2) s2 = (r3, s3)" by fastforce
    have "s' = (case r3 of None \<Rightarrow> s3 | Some ln \<Rightarrow> tell_servers e
        (zero_pkt\<lparr>pkt_cmd := QRTR_TYPE_BYE, pkt_w0 := sq_node sq\<rparr>) (map snd (servers_of ln s3)) s3)"
      using Some by (simp add: s' ctrl_cmd_bye_def k s2_def [symmetric] k3 Let_def split: option.splits)
    from tracks_tell_local [OF i2 k3 this] have "tracks d s2 s'" by simp
    then show ?thesis using t1 t2 tracks_trans by blast
  qed
qed

lemma tracks_del_server:
  assumes inv: "ns_inv s" and s': "s' = snd (ctrl_cmd_del_server e sq sv i n0 p0 s)" and d: "d \<noteq> bcast_sq s"
    and addr: "(n, p) = (if sq_node sq = local_node s then (sq_node sq, sq_port sq) else (n0, p0))"
  shows "tracks d s s'"
proof (rule del_server_step [OF inv s' addr])
  fix s1
  assume s1: "keeps s s1" "reg s1 = reg s" "lookups s1 = lookups s" "msgs s1 = msgs s"
    and s': "s' = s1 \<and> servers_of n s = [] \<or> s' = snd (server_del e n p True s1)"
  have i1: "ns_inv s1" "bcast_sq s1 = bcast_sq s" using s1(1) by (simp_all add: keeps_def)
  have t1: "tracks d s s1" using s1 by (intro tracks_quiet wanted_cong)
  have "tracks d s1 s'"
    using s' tracks_server_del [OF i1(1) refl] d i1(2) by (auto simp: tracks_def)
  then show ?thesis using t1 tracks_trans by blast
qed

lemma dispatch_tracks:
  assumes inv: "ns_inv s" and pk: "pkt_ok pkt" and run: "ns_dispatch e sq pkt s = (r, s')"
    and d: "d \<noteq> bcast_sq s" and sent: "\<And>j a q. 0 \<le> sendmsg_ret e j a q"
    and kept: "\<And>lk. lk \<in> set (lookups s) \<Longrightarrow> lk_sq lk = d \<Longrightarrow> lk \<in> set (lookups s')"
    and hello: "pkt_cmd pkt = QRTR_TYPE_HELLO \<Longrightarrow> sq \<noteq> d"
    and fresh: "pkt_cmd pkt = QRTR_TYPE_NEW_SERVER \<Longrightarrow>
      reg s (server_addr (local_node s) sq pkt) \<in> {None, Some (server_service pkt, server_instance pkt)}"
  shows "tracks d s s'"
proof -
  have s': "s' = snd (ns_dispatch e sq pkt s)" using run by simp
  obtain n p where a: "server_addr (local_node s) sq pkt = (n, p)" by fastforce
  note addr = a [symmetric, unfolded server_addr_def]
  have wd: "server_service pkt < 4294967296" "server_instance pkt < 4294967296"
    using pk by (simp_all add: pkt_ok_def)
  consider "pkt_cmd pkt = QRTR_TYPE_HELLO" | "pkt_cmd pkt = QRTR_TYPE_BYE" | "pkt_cmd pkt = QRTR_TYPE_DEL_CLIENT"
    | "pkt_cmd pkt = QRTR_TYPE_NEW_SERVER" | "pkt_cmd pkt = QRTR_TYPE_DEL_SERVER"
    | "pkt_cmd pkt = QRTR_TYPE_NEW_LOOKUP" | "pkt_cmd pkt = QRTR_TYPE_DEL_LOOKUP"
    | "pkt_cmd pkt \<notin> {2, 3, 4, 5, 6, 10, 11}"
    by (simp only: insert_iff empty_iff) metis
  then show ?thesis
  proof cases
    case 1
    then have "s' = snd (ctrl_cmd_hello e sq s)" using s' by (simp add: ns_dispatch_def)
    note h = hello_step(2,3) [OF inv this]
    then obtain ms where ms: "msgs s' = msgs s @ ms" "fst ` set ms \<subseteq> {sq}" by blast
    have "matching d s' = matching d s" using h(1) by (intro matching_cong wanted_cong) (simp_all add: ns_abs_def)
    then show ?thesis using ms hello [OF 1] by (intro tracksI [OF ms(1)]) (simp, subst replay_elsewhere, auto)
  next
    case 2
    then show ?thesis using s' by (intro tracks_bye [OF inv _ d]) (simp add: ns_dispatch_def)
  next
    case 3
    then have "s' = snd (ctrl_cmd_del_client e sq (client_node pkt) (client_port pkt) s)"
      using s' by (simp add: ns_dispatch_def)
    then show ?thesis by (rule tracks_del_client [OF inv _ d kept])
  next
    case 4
    have "ctrl_cmd_new_server e sq (server_service pkt) (server_instance pkt) (server_node pkt) (server_port pkt) s = (r, s')"
      using run 4 by (simp add: ns_dispatch_def)
    from tracks_new_server [OF inv this wd addr d sent] show ?thesis using fresh [OF 4] a by simp
  next
    case 5
    then have "s' = snd (ctrl_cmd_del_server e sq (server_service pkt) (server_instance pkt) (server_node pkt) (server_port pkt) s)"
      using s' by (simp add: ns_dispatch_def)
    then show ?thesis by (rule tracks_del_server [OF inv _ d addr])
  next
    case 6
    have "ctrl_cmd_new_lookup e sq (server_service pkt) (server_instance pkt) s = (r, s')"
      using run 6 by (simp add: ns_dispatch_def)
    then show ?thesis by (rule tracks_new_lookup [OF inv])
  next
    case 7
    have l: "s' = ctrl_cmd_del_lookup sq (server_service pkt) (server_instance pkt) s"
      using s' 7 by (simp add: ns_dispatch_def)
    have "set (lookups s') \<subseteq> set (lookups s)" unfolding l by (auto simp: ctrl_cmd_del_lookup_def)
    then have "wanted d s' = wanted d s"
      using kept by (intro ext) (auto simp: wanted_def list_ex_iff)
    then show ?thesis using del_lookup_step(2,3) [of sq "server_service pkt" "server_instance pkt" s]
      by (intro tracks_quiet) (simp_all add: l)
  next
    case 8
    then have "s' = s" using s' by (simp add: ns_dispatch_def)
    then show ?thesis by (simp add: tracks_def)
  qed
qed

section \<open>The worker\<close>

text \<open>The packets a run of the worker handles: each decoded from the buffer the datagram was copied into.\<close>

fun received :: "byte list \<Rightarrow> recv_result list \<Rightarrow> (sockaddr_qrtr \<times> qrtr_ctrl_pkt) list" where
  "received buf [] = []"
| "received buf (Recv_err r # inbox) = []"
| "received buf (Recv_msg sq data # inbox) =
     (let buf' = recv_into buf data in (sq, ctrl_pkt_of buf') # received buf' inbox)"

lemma worker_loop_keeps: "ns_inv s \<Longrightarrow> keeps s (ns_worker_loop e buf inbox s)"
proof (induction e buf inbox s rule: ns_worker_loop.induct)
  case (3 e buf sq data inbox s)
  obtain r s1 where k: "ns_dispatch e sq (ctrl_pkt_of (recv_into buf data)) s = (r, s1)" by fastforce
  have "keeps s s1" using dispatch_step(1) [OF 3(2) ctrl_pkt_of_ok k] .
  moreover from this have "keeps s1 (ns_worker_loop e (recv_into buf data) inbox s1)"
    using 3(1) [OF refl k [symmetric] refl] by (simp add: keeps_def)
  ultimately show ?case by (simp add: k keeps_def)
qed (simp_all add: keeps_def)

lemma worker_loop_refines:
  assumes "\<And>j. kzalloc_ok e j"
  shows "ns_inv s \<Longrightarrow> ns_abs (ns_worker_loop e buf inbox s)
    = fold (\<lambda>m. spec_step (local_node s) (fst m) (snd m)) (received buf inbox) (ns_abs s)"
proof (induction buf inbox arbitrary: s rule: received.induct)
  case (3 buf sq data inbox)
  obtain r s1 where k: "ns_dispatch e sq (ctrl_pkt_of (recv_into buf data)) s = (r, s1)" by fastforce
  have "keeps s s1" using dispatch_step(1) [OF 3(2) ctrl_pkt_of_ok k] .
  then have i1: "ns_inv s1" "local_node s1 = local_node s" by (simp_all add: keeps_def)
  have "ns_abs s1 = spec_step (local_node s) sq (ctrl_pkt_of (recv_into buf data)) (ns_abs s)"
    using dispatch_step(2) [OF 3(2) ctrl_pkt_of_ok k] assms by blast
  then show ?case using 3(1) [OF refl i1(1)] i1(2) by (simp add: k Let_def)
qed simp_all

lemma find_service_load:
  "xa_ok sv \<Longrightarrow> list_all (server_ok n) sv \<Longrightarrow>
     find_service n p (map snd sv) = (case xa_load sv p of None \<Rightarrow> - EINVAL | Some srv \<Rightarrow> s32 (int (srv_service srv)))"
  by (induction sv) (auto simp: xa_ok_def xa_load_def server_ok_def)

lemma get_service_id_reg:
  assumes "ns_inv s"
  shows "qrtr_get_service_id n p s = (case reg s (n, p) of None \<Rightarrow> - EINVAL | Some x \<Rightarrow> s32 (int (fst x)))"
proof (cases "xa_load (nodes s) n")
  case None
  then show ?thesis by (simp add: qrtr_get_service_id_def reg_def servers_of_def)
next
  case (Some nd)
  then show ?thesis
    using ns_inv_servers_of [OF assms, of n] find_service_load [of "servers nd" n p]
    by (simp add: qrtr_get_service_id_def reg_def servers_of_def split: option.splits)
qed

lemma recv_into_full: "length data \<le> length buf \<Longrightarrow> recv_into buf data = data @ drop (length data) buf"
  by (simp add: recv_into_def)

lemma length_recv_into [simp]: "length (recv_into buf data) = length buf"
  by (simp add: recv_into_def)

lemma received_pkt:
  "pkt_ok p \<Longrightarrow> 20 \<le> length buf \<Longrightarrow>
     ctrl_pkt_of (recv_into buf (ctrl_pkt_bytes p)) = p"
  by (simp add: recv_into_full ctrl_pkt_of_bytes)

text \<open>A datagram of four bytes replaces the command and leaves the rest of the previous packet.\<close>

lemma recv_command_only:
  assumes "pkt_ok p" and "c < 4294967296" and "20 \<le> length buf"
  shows "ctrl_pkt_of (recv_into (recv_into buf (ctrl_pkt_bytes p)) (le32_bytes c)) = p\<lparr>pkt_cmd := c\<rparr>"
proof -
  have "recv_into (recv_into buf (ctrl_pkt_bytes p)) (le32_bytes c)
    = ctrl_pkt_bytes (p\<lparr>pkt_cmd := c\<rparr>) @ drop 20 buf"
    using assms(3) by (simp add: recv_into_full) (simp add: ctrl_pkt_bytes_def)
  moreover have "pkt_ok (p\<lparr>pkt_cmd := c\<rparr>)" using assms by (simp add: pkt_ok_def)
  ultimately show ?thesis by (simp add: ctrl_pkt_of_bytes)
qed

section \<open>Claims\<close>

text \<open>The concrete system of the witnesses: node 9 offers a service that a client of local node 7 looks up.\<close>

definition example_client :: sockaddr_qrtr where
  "example_client = \<lparr>sq_family = AF_QIPCRTR, sq_node = 7, sq_port = 20\<rparr>"

definition example_peer :: sockaddr_qrtr where
  "example_peer = \<lparr>sq_family = AF_QIPCRTR, sq_node = 9, sq_port = QRTR_PORT_CTRL\<rparr>"

definition example_ns :: qrtr_ns where
  "example_ns = \<lparr>
     nodes = [(9, \<lparr>node_id = 9, servers = [(5, \<lparr>srv_service = 66, srv_instance = 3, srv_node = 9, srv_port = 5\<rparr>)]\<rparr>)],
     lookups = [\<lparr>lk_service = 66, lk_instance = 0, lk_sq = example_client\<rparr>],
     local_node = 7,
     bcast_sq = \<lparr>sq_family = AF_QIPCRTR, sq_node = QRTR_NODE_BCAST, sq_port = QRTR_PORT_CTRL\<rparr>,
     sent = [], allocs = 0\<rparr>"

definition example_env :: ns_env where
  "example_env = \<lparr>kzalloc_ok = (\<lambda>_. True), sendmsg_ret = (\<lambda>_ _ _. 20)\<rparr>"

definition example_new :: qrtr_ctrl_pkt where
  "example_new = \<lparr>pkt_cmd = QRTR_TYPE_NEW_SERVER, pkt_w0 = 66, pkt_w1 = 4, pkt_w2 = 9, pkt_w3 = 6\<rparr>"

lemma example_ns_inv: "ns_inv example_ns"
  by (simp add: ns_inv_def example_ns_def xa_ok_def node_ok_def server_ok_def example_client_def)

lemma example_env_simps [simp]: "kzalloc_ok example_env j" "sendmsg_ret example_env j d q = 20"
  by (simp_all add: example_env_def)

lemma example_new_ok: "pkt_ok example_new"
  by (simp add: pkt_ok_def example_new_def)

text \<open>
  C2 (refinement). Without allocation failures, a run of the worker over any sequence of datagrams
  changes the registry and the observers exactly as the specification says for the packets received, one
  after the other: nodes, tables and the order of messages do not matter to what is registered.
\<close>

theorem qrtr_ns_worker_refines:
  assumes "ns_inv s" and "\<forall>j. kzalloc_ok e j"
  shows "ns_abs (qrtr_ns_worker e inbox s)
    = fold (\<lambda>m. spec_step (local_node s) (fst m) (snd m)) (received (replicate recv_buf_size 0) inbox) (ns_abs s)"
proof -
  obtain ok s1 where k: "kzalloc e s = (ok, s1)" by fastforce
  note f = kzalloc_field [where e = e and s = s, unfolded k snd_conv]
  have ok using fst_kzalloc [of e s] assms(2) k by simp
  then show ?thesis
    using worker_loop_refines [of e s1 "replicate recv_buf_size 0" inbox] assms f
    by (simp add: qrtr_ns_worker_def k ns_abs_def)
qed

theorem qrtr_ns_worker_refines_witness:
  "registry (ns_abs (qrtr_ns_worker example_env [Recv_msg example_peer (ctrl_pkt_bytes example_new)] example_ns)) (9, 6)
     = Some (66, 4)"
  using qrtr_ns_worker_refines [OF example_ns_inv, of example_env "[Recv_msg example_peer (ctrl_pkt_bytes example_new)]"]
  by (simp add: received_pkt example_new_ok)
     (simp add: spec_step_def server_addr_def example_new_def example_peer_def example_ns_def)

text \<open>
  C28 (type). Whatever arrives and whichever allocations and transmissions fail, the tables stay
  well-formed: indices ascend, every node and server is stored under its own identifiers, services and
  ports are not zero, all words fit in 32 bits, and only local clients are observers.
\<close>

theorem qrtr_ns_worker_well_formed:
  assumes "ns_inv s"
  shows "ns_inv (qrtr_ns_worker e inbox s) \<and> local_node (qrtr_ns_worker e inbox s) = local_node s"
proof -
  obtain ok s1 where k: "kzalloc e s = (ok, s1)" by fastforce
  note f = kzalloc_field [where e = e and s = s, unfolded k snd_conv]
  show ?thesis
    using worker_loop_keeps [of s1 e "replicate recv_buf_size 0" inbox] assms f
    by (simp add: qrtr_ns_worker_def k keeps_def)
qed

theorem qrtr_ns_worker_well_formed_witness:
  "ns_inv (qrtr_ns_worker example_env [Recv_msg example_client [7], Recv_err (- 11)] example_ns)"
  using qrtr_ns_worker_well_formed [OF example_ns_inv] by blast

text \<open>
  Observers are kept up to date: while an observer keeps its lookups, the messages a
  packet causes turn its picture of the matching servers into the new set of matching servers. The
  transmissions have to succeed, the observer does not say hello itself, and a new server does not
  replace a different one on the same port.
\<close>

theorem observers_track_registry:
  assumes "ns_inv s" and "pkt_ok pkt" and "ns_dispatch e sq pkt s = (r, s')"
    and "d \<noteq> bcast_sq s" and "\<forall>j a q. 0 \<le> sendmsg_ret e j a q"
    and "\<forall>lk \<in> set (lookups s). lk_sq lk = d \<longrightarrow> lk \<in> set (lookups s')"
    and "pkt_cmd pkt = QRTR_TYPE_HELLO \<longrightarrow> sq \<noteq> d"
    and "pkt_cmd pkt = QRTR_TYPE_NEW_SERVER \<longrightarrow>
      reg s (server_addr (local_node s) sq pkt) \<in> {None, Some (server_service pkt, server_instance pkt)}"
  shows "\<exists>ms. msgs s' = msgs s @ ms \<and> replay d ms (matching d s) = matching d s'"
  using dispatch_tracks [OF assms(1-4), folded tracks_def] assms(5-8)
  by (simp add: tracks_def)

theorem observers_track_registry_witness:
  "\<exists>ms. msgs (snd (ns_dispatch example_env example_peer example_new example_ns)) = msgs example_ns @ ms \<and>
     replay example_client ms (matching example_client example_ns)
       = matching example_client (snd (ns_dispatch example_env example_peer example_new example_ns))"
proof (rule observers_track_registry [OF example_ns_inv example_new_ok prod.collapse [symmetric]])
  show "pkt_cmd example_new = QRTR_TYPE_NEW_SERVER \<longrightarrow>
    reg example_ns (server_addr (local_node example_ns) example_peer example_new)
      \<in> {None, Some (server_service example_new, server_instance example_new)}"
    by (simp add: reg_def server_addr_def servers_of_def xa_load_def example_ns_def example_peer_def example_new_def)
  have "lookups (snd (ns_dispatch example_env example_peer example_new example_ns)) = lookups example_ns"
    using dispatch_step(2) [OF example_ns_inv example_new_ok prod.collapse [symmetric]]
    by (fastforce simp: ns_abs_def spec_step_def example_new_def split: if_splits)
  then show "\<forall>lk \<in> set (lookups example_ns). lk_sq lk = example_client \<longrightarrow>
    lk \<in> set (lookups (snd (ns_dispatch example_env example_peer example_new example_ns)))" by simp
qed (simp_all add: example_ns_def example_client_def example_new_def)

text \<open>
  The masked comparison that selects servers for a new lookup and the two
  tests that select lookups for a new or removed server are the same relation, so an observer is told
  of a server's end exactly if a lookup would have listed it.
\<close>

theorem server_match_agrees_with_notification:
  assumes "srv_instance srv < 2 ^ 32"
  shows "server_match srv \<lparr>f_service = lk_service lk, f_instance = lk_instance lk, f_ifilter = 0\<rparr>
    \<longleftrightarrow> lookup_wants lk (srv_service srv) (srv_instance srv)"
proof -
  have "srv_instance srv < 4294967296" using assms by simp
  from server_match_wants [OF this, of "lk_service lk" "lk_instance lk" "lk_sq lk"]
  show ?thesis by (simp add: lookup_wants_def)
qed

theorem server_match_agrees_with_notification_witness:
  "server_match \<lparr>srv_service = 66, srv_instance = 3, srv_node = 9, srv_port = 5\<rparr>
     \<lparr>f_service = 66, f_instance = 3, f_ifilter = 0\<rparr>"
  using server_match_agrees_with_notification
    [of "\<lparr>srv_service = 66, srv_instance = 3, srv_node = 9, srv_port = 5\<rparr>"
        "\<lparr>lk_service = 66, lk_instance = 3, lk_sq = example_client\<rparr>"]
  by (simp add: lookup_wants_def)

text \<open>
  A remote server that registers is found by \<^verbatim>\<open>qrtr_get_service_id\<close> with its
  service, and after it withdraws the same query fails.
\<close>

theorem register_query_withdraw:
  assumes "ns_inv s" and "\<forall>j. kzalloc_ok e j" and "sq_node sq \<noteq> local_node s" and "pkt_ok pkt"
    and "pkt_cmd pkt = QRTR_TYPE_NEW_SERVER" and "server_service pkt \<noteq> 0" and "server_port pkt \<noteq> 0"
    and "s1 = snd (ns_dispatch e sq pkt s)"
    and "s2 = snd (ns_dispatch e sq (pkt\<lparr>pkt_cmd := QRTR_TYPE_DEL_SERVER\<rparr>) s1)"
  shows "qrtr_get_service_id (server_node pkt) (server_port pkt) s1 = s32 (int (server_service pkt)) \<and>
    qrtr_get_service_id (server_node pkt) (server_port pkt) s2 = - EINVAL"
proof -
  let ?q = "pkt\<lparr>pkt_cmd := QRTR_TYPE_DEL_SERVER\<rparr>"
  have r1: "ns_dispatch e sq pkt s = (fst (ns_dispatch e sq pkt s), s1)"
    and r2: "ns_dispatch e sq ?q s1 = (fst (ns_dispatch e sq ?q s1), s2)"
    using assms(8,9) by simp_all
  have q: "pkt_ok ?q" using assms(4) by (simp add: pkt_ok_def)
  have k1: "keeps s s1" and a1: "ns_abs s1 = spec_step (local_node s) sq pkt (ns_abs s)"
    using dispatch_step [OF assms(1,4) r1] assms(2) by blast+
  then have i1: "ns_inv s1" "local_node s1 = local_node s" by (simp_all add: keeps_def)
  have k2: "keeps s1 s2" and a2: "ns_abs s2 = spec_step (local_node s) sq ?q (ns_abs s1)"
    using dispatch_step [OF i1(1) q r2] assms(2) i1(2) by auto
  have "reg s1 (server_node pkt, server_port pkt) = Some (server_service pkt, server_instance pkt)"
    using a1 assms(3,5-7) by (simp add: ns_abs_def spec_step_def server_addr_def)
  moreover have "reg s2 (server_node pkt, server_port pkt) = None"
    using a2 assms(3) by (simp add: ns_abs_def spec_step_def server_addr_def)
  moreover have "ns_inv s2" using k2 by (simp add: keeps_def)
  ultimately show ?thesis using i1(1) by (simp add: get_service_id_reg)
qed

theorem register_query_withdraw_witness:
  "qrtr_get_service_id 9 6 (snd (ns_dispatch example_env example_peer example_new example_ns)) = 66"
  using register_query_withdraw [OF example_ns_inv _ _ example_new_ok _ _ _ refl refl, of example_env example_peer]
  by (simp add: example_new_def example_peer_def example_ns_def s32_def)

text \<open>
  A lookup by a local client answers with one announcement for each
  matching server, in the order of nodes and ports, and an empty announcement at the end; the client is
  recorded as an observer and the registry does not change.
\<close>

theorem new_lookup_lists_matching:
  assumes "ns_inv s" and "sq_node sq = local_node s" and "kzalloc_ok e (allocs s)"
    and "ctrl_cmd_new_lookup e sq service inst s = (r, s')"
  shows "r = 0 \<and> reg s' = reg s \<and>
    lookups s' = lookups s @ [\<lparr>lk_service = service, lk_instance = inst, lk_sq = sq\<rparr>] \<and>
    msgs s' = msgs s @ map (\<lambda>srv. (sq, server_pkt QRTR_TYPE_NEW_SERVER srv))
        (filter (\<lambda>srv. (service = 0 \<or> srv_service srv = service) \<and> (inst = 0 \<or> srv_instance srv = inst))
          (all_servers s))
      @ [(sq, zero_pkt\<lparr>pkt_cmd := QRTR_TYPE_NEW_SERVER\<rparr>)]"
  using new_lookup_run [OF assms(1,4)]
proof cases
  case 1
  then show ?thesis using assms(2) by simp
next
  case 2
  then show ?thesis using assms by (simp add: ctrl_cmd_new_lookup_def kzalloc_def Let_def)
next
  case 3
  have "filter (\<lambda>srv. server_match srv \<lparr>f_service = service, f_instance = inst, f_ifilter = 0\<rparr>) (all_servers s)
    = filter (\<lambda>srv. (service = 0 \<or> srv_service srv = service) \<and> (inst = 0 \<or> srv_instance srv = inst)) (all_servers s)"
  proof (rule filter_cong [OF refl])
    fix srv
    assume "srv \<in> set (all_servers s)"
    from server_match_wants [OF all_servers_reg(3) [OF assms(1) this], of service inst sq]
    show "server_match srv \<lparr>f_service = service, f_instance = inst, f_ifilter = 0\<rparr> \<longleftrightarrow>
      (service = 0 \<or> srv_service srv = service) \<and> (inst = 0 \<or> srv_instance srv = inst)"
      by (auto simp: lookup_wants_def)
  qed
  then show ?thesis using 3 by simp
qed

theorem new_lookup_lists_matching_witness:
  "length (msgs (snd (ctrl_cmd_new_lookup example_env example_client 66 3 example_ns))) = 2"
proof -
  have "all_servers example_ns = [\<lparr>srv_service = 66, srv_instance = 3, srv_node = 9, srv_port = 5\<rparr>]"
    and "msgs example_ns = []"
    by (simp_all add: all_servers_def example_ns_def msgs_def)
  then show ?thesis
    using new_lookup_lists_matching [OF example_ns_inv _ _ prod.collapse [symmetric], of example_client example_env 66 3]
    by (simp add: example_ns_def example_client_def)
qed

text \<open>
  The worker never looks at the length of a datagram and never clears its buffer: a
  datagram of only four bytes is handled as the previous packet with the new command, whoever sent that.
\<close>

theorem short_datagram_completed_from_previous:
  assumes "pkt_ok p" and "c < 2 ^ 32" and "kzalloc_ok e (allocs s)"
  shows "qrtr_ns_worker e [Recv_msg a (ctrl_pkt_bytes p), Recv_msg b (le32_bytes c)] s
    = snd (ns_dispatch e b (p\<lparr>pkt_cmd := c\<rparr>) (snd (ns_dispatch e a p (s\<lparr>allocs := allocs s + 1\<rparr>))))"
proof -
  have "c < 4294967296" using assms(2) by simp
  then show ?thesis
    using assms(1,3) by (simp add: qrtr_ns_worker_def kzalloc_def Let_def received_pkt recv_command_only
        split_beta)
qed

theorem short_datagram_completed_from_previous_witness:
  "qrtr_ns_worker example_env [Recv_msg example_peer (ctrl_pkt_bytes example_new),
       Recv_msg example_peer (le32_bytes QRTR_TYPE_DEL_SERVER)] example_ns
     = snd (ns_dispatch example_env example_peer (example_new\<lparr>pkt_cmd := QRTR_TYPE_DEL_SERVER\<rparr>)
         (snd (ns_dispatch example_env example_peer example_new (example_ns\<lparr>allocs := allocs example_ns + 1\<rparr>))))"
  by (rule short_datagram_completed_from_previous) (simp_all add: example_new_ok)

text \<open>
  When a server registers on a port that another service held, the old one vanishes
  silently: an observer of the old service is sent nothing and keeps believing in it.
\<close>

theorem replaced_server_not_withdrawn:
  assumes "ns_inv s" and "\<forall>j. kzalloc_ok e j" and "sq_node sq \<noteq> local_node s" and "pkt_ok pkt"
    and "pkt_cmd pkt = QRTR_TYPE_NEW_SERVER" and "server_service pkt \<noteq> 0" and "server_port pkt \<noteq> 0"
    and "server_node pkt \<noteq> local_node s"
    and "matching d s (server_node pkt, server_port pkt) = Some old"
    and "\<not> wanted d s (server_service pkt, server_instance pkt)"
    and "ns_dispatch e sq pkt s = (r, s')"
  shows "reg s' (server_node pkt, server_port pkt) = Some (server_service pkt, server_instance pkt) \<and>
    old \<noteq> (server_service pkt, server_instance pkt) \<and>
    (\<exists>ms. msgs s' = msgs s @ ms \<and> d \<notin> fst ` set ms)"
proof -
  have old: "wanted d s old"
    using assms(9) by (auto simp: matching_def split: option.splits if_splits)
  have run: "ctrl_cmd_new_server e sq (server_service pkt) (server_instance pkt) (server_node pkt) (server_port pkt) s = (r, s')"
    using assms(5,11) by (simp add: ns_dispatch_def)
  have wd: "server_service pkt < 4294967296" "server_instance pkt < 4294967296"
    using assms(4) by (simp_all add: pkt_ok_def)
  have addr: "(server_node pkt, server_port pkt)
    = (if sq_node sq = local_node s then (sq_node sq, sq_port sq) else (server_node pkt, server_port pkt))"
    using assms(3) by simp
  from new_server_run [OF assms(1) run wd addr] show ?thesis
  proof cases
    case 1
    then show ?thesis using assms(2,6,7) by blast
  next
    case 2
    let ?srv = "\<lparr>srv_service = server_service pkt, srv_instance = server_instance pkt,
      srv_node = server_node pkt, srv_port = server_port pkt\<rparr>"
    have "d \<notin> fst ` set (new_msgs ?srv (0 \<le> r) s)"
      using assms(8,10) by (auto simp: new_msgs_def wanted_def list_ex_iff)
    then show ?thesis using 2(3,6) old assms(10) by auto
  qed
qed

theorem replaced_server_not_withdrawn_witness:
  "reg (snd (ns_dispatch example_env example_peer (example_new\<lparr>pkt_w0 := 77, pkt_w3 := 5\<rparr>) example_ns)) (9, 5)
     = Some (77, 4)"
proof -
  have "matching example_client example_ns (9, 5) = Some (66, 3)"
    by (simp add: matching_def reg_def servers_of_def xa_load_def wanted_def lookup_wants_def example_ns_def)
  moreover have "\<not> wanted example_client example_ns (77, 4)"
    by (simp add: wanted_def lookup_wants_def example_ns_def)
  ultimately show ?thesis
    using replaced_server_not_withdrawn [OF example_ns_inv, of example_env example_peer
        "example_new\<lparr>pkt_w0 := 77, pkt_w3 := 5\<rparr>" example_client "(66, 3)", OF _ _ _ _ _ _ _ _ _ prod.collapse [symmetric]]
    by (simp add: pkt_ok_def example_new_def example_peer_def example_ns_def)
qed

text \<open>
  Start-up never leaks: the references on the module are balanced and the socket
  and the thread exist together or not at all. But when the thread cannot be created the result is
  that of \<^verbatim>\<open>kernel_getsockname\<close>, which is not negative, although the socket has been released.
\<close>

theorem qrtr_ns_init_outcome:
  assumes "\<not> sock_open s" and "\<not> task_running s" and "qrtr_ns_init e ie s = (r, s')"
  shows "module_refs s' = module_refs s \<and> sock_open s' = task_running s' \<and>
    (sock_open s' \<longrightarrow> r = 0 \<and> bound_port s' = Some QRTR_PORT_CTRL \<and> local_node s' = sq_node (getsockname_sq ie)) \<and>
    (\<not> sock_open s' \<longrightarrow>
      r < 0 \<or> 0 \<le> create_ret ie \<and> 0 \<le> getsockname_ret ie \<and> \<not> kthread_ok ie \<and> r = getsockname_ret ie)"
proof -
  define h where "h = zero_pkt\<lparr>pkt_cmd := QRTR_TYPE_HELLO\<rparr>"
  show ?thesis
    using assms
    by (simp add: qrtr_ns_init_def sock_release_def kthread_stop_def say_hello_def kernel_sendmsg_def Let_def
        h_def [symmetric] split: if_splits)
      (auto simp: not_less)
qed

definition example_module :: ns_module where
  "example_module = qrtr_ns.extend example_ns
     \<lparr>sock_open = False, data_ready_set = False, task_running = False, bound_port = None, module_refs = 4\<rparr>"

theorem qrtr_ns_init_outcome_witness:
  "fst (qrtr_ns_init example_env \<lparr>create_ret = 0, getsockname_ret = 12, getsockname_sq = example_client,
      kthread_ok = False, bind_ret = 0\<rparr> example_module) = 12"
  using qrtr_ns_init_outcome [of example_module example_env "\<lparr>create_ret = 0, getsockname_ret = 12,
      getsockname_sq = example_client, kthread_ok = False, bind_ret = 0\<rparr>", OF _ _ prod.collapse [symmetric]]
  by (simp add: example_module_def qrtr_ns.defs qrtr_ns_init_def Let_def sock_release_def)

end
