(* ===== verification/Qmi_Encdec.thy ===== *)
theory Qmi_Encdec
  imports Kernel_Data "HOL-Library.Monad_Syntax"
begin

text \<open>
  The encoder and decoder of QMI messages (\<^verbatim>\<open>drivers/soc/qcom/qmi_encdec.c\<close>): a message is a
  sequence of type-length-value groups, described by an array of \<^verbatim>\<open>struct qmi_elem_info\<close>, with
  nested arrays for nested structures.

  Every object of memory (the C structure, the message buffer, a local variable) is a byte list, and
  an access outside of its object makes the whole computation \<^term>\<open>None\<close>; so does running off the end
  of a descriptor array. A result \<^term>\<open>Some (r, m)\<close> is the value returned and the contents of the
  object written. Lengths and counts are 32 bits wide, as the code has them.
\<close>

section \<open>Descriptors\<close>

datatype qmi_elem_type =
  QMI_EOTI | QMI_OPT_FLAG | QMI_DATA_LEN | QMI_UNSIGNED_1_BYTE | QMI_UNSIGNED_2_BYTE | QMI_UNSIGNED_4_BYTE
| QMI_UNSIGNED_8_BYTE | QMI_SIGNED_2_BYTE_ENUM | QMI_SIGNED_4_BYTE_ENUM | QMI_STRUCT | QMI_STRING

datatype qmi_array_type = NO_ARRAY | STATIC_ARRAY | VAR_LEN_ARRAY

datatype qmi_elem_info = Elem
  (data_type: qmi_elem_type) (elem_len: nat) (elem_size: nat) (array_type: qmi_array_type)
  (tlv_type: nat) (offset: nat) (ei_array: "qmi_elem_info list option")

definition is_basic :: "qmi_elem_type \<Rightarrow> bool" where
  "is_basic t \<longleftrightarrow> t \<in> {QMI_UNSIGNED_1_BYTE, QMI_UNSIGNED_2_BYTE, QMI_UNSIGNED_4_BYTE, QMI_UNSIGNED_8_BYTE,
     QMI_SIGNED_2_BYTE_ENUM, QMI_SIGNED_4_BYTE_ENUM}"

section \<open>Memory\<close>

text \<open>A number from its bytes, the lowest first; the first \<open>k\<close> bytes of a number.\<close>

fun le_nat :: "byte list \<Rightarrow> nat" where
  "le_nat [] = 0"
| "le_nat (b # bs) = unat b + 256 * le_nat bs"

fun le_bytes :: "nat \<Rightarrow> nat \<Rightarrow> byte list" where
  "le_bytes 0 n = []"
| "le_bytes (Suc k) n = word_of_nat n # le_bytes k (n div 256)"

text \<open>Copying bytes over the low end of a 32-bit variable; the other bytes keep their value.\<close>

definition put_low :: "nat \<Rightarrow> byte list \<Rightarrow> nat option" where
  "put_low v bs = map_option le_nat (wr (le_bytes 4 v) 0 bs)"

fun copy_elems :: "byte list \<Rightarrow> nat \<Rightarrow> byte list \<Rightarrow> nat \<Rightarrow> nat \<Rightarrow> nat \<Rightarrow> byte list option" where
  "copy_elems dst d src a 0 sz = Some dst"
| "copy_elems dst d src a (Suc n) sz = do {
     bs \<leftarrow> rd src a sz;
     dst' \<leftarrow> wr dst d bs;
     copy_elems dst' (d + sz) src (a + sz) n sz }"

text \<open>The scan of \<^verbatim>\<open>strlen\<close> inside an object.\<close>

fun strlen_from :: "byte list \<Rightarrow> nat option" where
  "strlen_from [] = None"
| "strlen_from (b # bs) = (if b = 0 then Some 0 else map_option Suc (strlen_from bs))"

definition strlen :: "byte list \<Rightarrow> nat \<Rightarrow> nat option" where
  "strlen m a = strlen_from (drop a m)"

section \<open>Helpers of both directions\<close>

fun skip_same :: "nat \<Rightarrow> qmi_elem_info list \<Rightarrow> qmi_elem_info list option" where
  "skip_same t [] = None"
| "skip_same t (e # r) = (if t = tlv_type e then skip_same (tlv_type e) r else Some (e # r))"

definition skip_to_next_elem :: "qmi_elem_info list \<Rightarrow> nat \<Rightarrow> qmi_elem_info list option" where
  "skip_to_next_elem l level =
     (case l of [] \<Rightarrow> None | e # r \<Rightarrow> if level > 1 then Some r else skip_same (tlv_type e) r)"

abbreviation (input) tlv_hdr :: nat where "tlv_hdr \<equiv> 3"

definition len_size :: "qmi_elem_info \<Rightarrow> nat" where
  "len_size e = (if elem_size e = 1 then 1 else 2)"

definition string_len_size :: "qmi_elem_info \<Rightarrow> nat" where
  "string_len_size e = (if elem_len e \<le> 255 then 1 else 2)"

lemma len_sizes [simp]: "len_size e \<le> 4" "string_len_size e \<le> 4"
  by (simp_all add: len_size_def string_len_size_def)

lemma skip_same_size: "skip_same t l = Some r \<Longrightarrow> size_list size r \<le> size_list size l"
  by (induction l arbitrary: t) (auto split: if_splits intro: le_SucI trans_le_add2)

lemma skip_to_next_size:
  "skip_to_next_elem (e # l) level = Some r \<Longrightarrow> size_list size r \<le> size_list size l"
  by (auto simp: skip_to_next_elem_def split: if_splits dest: skip_same_size)

lemma size_ei_array: "ei_array e = Some l \<Longrightarrow> size_list size l < size e"
  by (cases e) auto

function qmi_calc_min_msg_len :: "qmi_elem_info list option \<Rightarrow> nat \<Rightarrow> nat option"
  and calc_min_loop :: "qmi_elem_info list \<Rightarrow> nat \<Rightarrow> nat \<Rightarrow> nat option" where
  "qmi_calc_min_msg_len ei level = (case ei of None \<Rightarrow> Some 0 | Some l \<Rightarrow> calc_min_loop l level 0)"
| "calc_min_loop [] level len = None"
| "calc_min_loop (e # r) level len =
     (if data_type e = QMI_EOTI then Some len
      else if data_type e = QMI_OPT_FLAG then do {
        r' \<leftarrow> skip_to_next_elem (e # r) level;
        calc_min_loop r' level len }
      else if data_type e = QMI_DATA_LEN then calc_min_loop r level (u32 (len + len_size e))
      else do {
        n \<leftarrow> (if data_type e = QMI_STRUCT then qmi_calc_min_msg_len (ei_array e) (level + 1)
              else if data_type e = QMI_STRING
              then Some ((if level > 1 then string_len_size e else 0) + u32 (elem_len e * elem_size e))
              else Some (u32 (elem_len e * elem_size e)));
        calc_min_loop r level (u32 (len + n + (if level = 1 then tlv_hdr else 0))) })"
  by pat_completeness auto
termination
  by (relation "measure (\<lambda>x. case x of Inl (ei, _) \<Rightarrow> (case ei of None \<Rightarrow> 1 | Some l \<Rightarrow> 2 * size_list size l + 1)
        | Inr (l, _, _) \<Rightarrow> 2 * size_list size l)")
     (auto dest!: skip_to_next_size size_ei_array split: option.splits)

section \<open>Encoding\<close>

text \<open>
  \<^verbatim>\<open>qmi_encode_basic_elem\<close> returns the number of bytes written as a 32-bit value. It reads from
  the C structure or from a local variable, whose bytes are then the source.
\<close>

definition qmi_encode_basic_elem ::
  "byte list \<Rightarrow> nat \<Rightarrow> byte list \<Rightarrow> nat \<Rightarrow> nat \<Rightarrow> nat \<Rightarrow> (nat \<times> byte list) option" where
  "qmi_encode_basic_elem dst d src a n sz = do {
     dst' \<leftarrow> copy_elems dst d src a n sz;
     Some (u32 (n * sz), dst') }"

definition qmi_encode_string_elem ::
  "qmi_elem_info \<Rightarrow> byte list \<Rightarrow> nat \<Rightarrow> byte list \<Rightarrow> nat \<Rightarrow> nat \<Rightarrow> nat \<Rightarrow> (int \<times> byte list) option" where
  "qmi_encode_string_elem e dst d src a out_buf_len level = do {
     sl \<leftarrow> strlen src a;
     let string_len = u32 sl;
     let string_len_sz = string_len_size e;
     if string_len > elem_len e then Some (- EINVAL, dst)
     else if level = 1 then
       if string_len + tlv_hdr > out_buf_len then Some (- ETOOSMALL, dst)
       else do {
         (rc, dst1) \<leftarrow> qmi_encode_basic_elem dst d src a string_len (elem_size e);
         Some (s32 (int rc), dst1) }
     else
       if u32 (string_len + string_len_sz) > out_buf_len then Some (- ETOOSMALL, dst)
       else do {
         (rc1, dst1) \<leftarrow> qmi_encode_basic_elem dst d (le_bytes 4 string_len) 0 1 string_len_sz;
         (rc2, dst2) \<leftarrow> qmi_encode_basic_elem dst1 (d + rc1) src a string_len (elem_size e);
         Some (s32 (int rc1 + int rc2), dst2) } }"

text \<open>The local variables of \<^verbatim>\<open>qmi_encode\<close> that live across rounds of its loop, and the buffer.\<close>

record enc_vars =
  data_len_value :: nat
  buf_dst :: nat
  tlv_pointer :: nat
  tlv_len :: nat
  encoded_bytes :: nat
  encode_tlv :: bool
  out_buf :: "byte list"

definition update_encode_variables :: "nat \<Rightarrow> enc_vars \<Rightarrow> enc_vars" where
  "update_encode_variables rc v =
     v\<lparr>buf_dst := buf_dst v + rc, encoded_bytes := u32 (encoded_bytes v + rc), tlv_len := u32 (tlv_len v + rc),
       encode_tlv := True\<rparr>"

text \<open>The number of elements a descriptor stands for; \<^term>\<open>None\<close> is the error of a bad length.\<close>

definition encode_count :: "qmi_elem_info \<Rightarrow> nat \<Rightarrow> nat option" where
  "encode_count e dlv =
     (case array_type e of NO_ARRAY \<Rightarrow> Some 1 | STATIC_ARRAY \<Rightarrow> Some (elem_len e)
      | VAR_LEN_ARRAY \<Rightarrow> if dlv = 0 \<or> elem_len e < dlv then None else Some dlv)"

text \<open>The end of a round: a complete group of the outermost level gets its type and length.\<close>

definition finish_tlv :: "qmi_elem_info \<Rightarrow> nat \<Rightarrow> enc_vars \<Rightarrow> enc_vars option" where
  "finish_tlv e level v =
     (if encode_tlv v \<and> level = 1 then do {
        out \<leftarrow> wr (out_buf v) (tlv_pointer v)
                 [word_of_nat (tlv_type e), word_of_nat (tlv_len v), word_of_nat (tlv_len v div 256)];
        Some (v\<lparr>out_buf := out, encoded_bytes := u32 (encoded_bytes v + tlv_hdr), tlv_pointer := buf_dst v,
               tlv_len := 0, buf_dst := buf_dst v + tlv_hdr, encode_tlv := False\<rparr>) }
      else Some v)"

text \<open>The rounds without recursion: the remaining descriptors and the variables, or an error.\<close>

definition encode_opt_flag ::
  "qmi_elem_info \<Rightarrow> qmi_elem_info list \<Rightarrow> nat \<Rightarrow> byte list \<Rightarrow> nat \<Rightarrow> enc_vars
     \<Rightarrow> (int + qmi_elem_info list \<times> enc_vars) option" where
  "encode_opt_flag e r level src a v = do {
     b \<leftarrow> rd src a 1;
     r' \<leftarrow> (if b \<noteq> [0] then Some r else skip_to_next_elem (e # r) level);
     Some (Inr (r', v)) }"

definition encode_data_len ::
  "qmi_elem_info \<Rightarrow> qmi_elem_info list \<Rightarrow> nat \<Rightarrow> nat \<Rightarrow> byte list \<Rightarrow> nat \<Rightarrow> enc_vars
     \<Rightarrow> (int + qmi_elem_info list \<times> enc_vars) option" where
  "encode_data_len e r level out_buf_len src a v = do {
     bs \<leftarrow> rd src a (elem_size e);
     dl \<leftarrow> put_low (data_len_value v) bs;
     if u32 (len_size e + encoded_bytes v) + tlv_hdr > out_buf_len then Some (Inl (- ETOOSMALL))
     else do {
       (rc, out) \<leftarrow> qmi_encode_basic_elem (out_buf v) (buf_dst v) (le_bytes 4 dl) 0 1 (len_size e);
       let v1 = update_encode_variables rc (v\<lparr>data_len_value := dl, out_buf := out\<rparr>);
       if dl = 0 then do {
         r' \<leftarrow> skip_to_next_elem r level;
         Some (Inr (r', v1)) }
       else Some (Inr (r, v1\<lparr>encode_tlv := False\<rparr>)) } }"

definition encode_basic ::
  "qmi_elem_info \<Rightarrow> nat \<Rightarrow> byte list \<Rightarrow> nat \<Rightarrow> enc_vars \<Rightarrow> (int + enc_vars) option" where
  "encode_basic e out_buf_len src a v =
     (if u32 (u32 (data_len_value v * elem_size e) + encoded_bytes v) + tlv_hdr > out_buf_len
      then Some (Inl (- ETOOSMALL))
      else do {
        (rc, out) \<leftarrow> qmi_encode_basic_elem (out_buf v) (buf_dst v) src a (data_len_value v) (elem_size e);
        Some (Inr (update_encode_variables rc (v\<lparr>out_buf := out\<rparr>))) })"

lemma encode_opt_flag_size:
  "encode_opt_flag e r level src a v = Some (Inr (r', v')) \<Longrightarrow> size_list size r' \<le> size_list size r"
  by (auto simp: encode_opt_flag_def bind_eq_Some_conv dest: skip_to_next_size split: if_splits)

lemma skip_to_next_size': "skip_to_next_elem l level = Some r \<Longrightarrow> size_list size r \<le> size_list size l"
  by (cases l) (auto simp: skip_to_next_elem_def split: if_splits dest: skip_same_size)

lemma encode_data_len_size:
  "encode_data_len e r level ol src a v = Some (Inr (r', v')) \<Longrightarrow> size_list size r' \<le> size_list size r"
  by (auto simp: encode_data_len_def bind_eq_Some_conv Let_def dest: skip_to_next_size' split: if_splits)

function qmi_encode ::
    "qmi_elem_info list option \<Rightarrow> byte list \<Rightarrow> nat \<Rightarrow> byte list \<Rightarrow> nat \<Rightarrow> nat \<Rightarrow> nat \<Rightarrow> (int \<times> byte list) option"
  and encode_loop ::
    "qmi_elem_info list \<Rightarrow> byte list \<Rightarrow> nat \<Rightarrow> nat \<Rightarrow> nat \<Rightarrow> enc_vars \<Rightarrow> (int \<times> byte list) option"
  and qmi_encode_struct_elem ::
    "qmi_elem_info \<Rightarrow> byte list \<Rightarrow> nat \<Rightarrow> byte list \<Rightarrow> nat \<Rightarrow> nat \<Rightarrow> nat \<Rightarrow> nat \<Rightarrow> int \<Rightarrow> (int \<times> byte list) option" where
  "qmi_encode ei out o' src base out_buf_len level =
     (case ei of None \<Rightarrow> Some (0, out)
      | Some l \<Rightarrow> encode_loop l src base out_buf_len level
          \<lparr>data_len_value = 0, buf_dst = (if level = 1 then o' + tlv_hdr else o'), tlv_pointer = o', tlv_len = 0,
           encoded_bytes = 0, encode_tlv = False, out_buf = out\<rparr>)"
| "encode_loop [] src base out_buf_len level v = None"
| "encode_loop (e # r) src base out_buf_len level v =
     (if data_type e = QMI_EOTI then Some (s32 (int (encoded_bytes v)), out_buf v)
      else case encode_count e (data_len_value v) of
        None \<Rightarrow> Some (- EINVAL, out_buf v)
      | Some n \<Rightarrow>
        let v0 = v\<lparr>data_len_value := n\<rparr>; a = base + offset e in
        if data_type e = QMI_OPT_FLAG then do {
          x \<leftarrow> encode_opt_flag e r level src a v0;
          case x of Inl err \<Rightarrow> Some (err, out_buf v0)
          | Inr (r', v1) \<Rightarrow> do {
              v2 \<leftarrow> finish_tlv e level v1;
              encode_loop r' src base out_buf_len level v2 } }
        else if data_type e = QMI_DATA_LEN then do {
          x \<leftarrow> encode_data_len e r level out_buf_len src a v0;
          case x of Inl err \<Rightarrow> Some (err, out_buf v0)
          | Inr (r', v1) \<Rightarrow> do {
              v2 \<leftarrow> finish_tlv e level v1;
              encode_loop r' src base out_buf_len level v2 } }
        else if is_basic (data_type e) then do {
          x \<leftarrow> encode_basic e out_buf_len src a v0;
          case x of Inl err \<Rightarrow> Some (err, out_buf v0)
          | Inr v1 \<Rightarrow> do {
              v2 \<leftarrow> finish_tlv e level v1;
              encode_loop r src base out_buf_len level v2 } }
        else do {
          (rc, out) \<leftarrow>
            (if data_type e = QMI_STRUCT
             then qmi_encode_struct_elem e (out_buf v0) (buf_dst v0) src a n
                    (u32_sub out_buf_len (encoded_bytes v0)) (level + 1) 0
             else qmi_encode_string_elem e (out_buf v0) (buf_dst v0) src a
                    (u32_sub out_buf_len (encoded_bytes v0)) level);
          if rc < 0 then Some (rc, out)
          else do {
            v2 \<leftarrow> finish_tlv e level (update_encode_variables (nat rc) (v0\<lparr>out_buf := out\<rparr>));
            encode_loop r src base out_buf_len level v2 } })"
| "qmi_encode_struct_elem e out d src a 0 out_buf_len level enc = Some (enc, out)"
| "qmi_encode_struct_elem e out d src a (Suc n) out_buf_len level enc = do {
     (rc, out1) \<leftarrow> qmi_encode (ei_array e) out d src a (u32_sub out_buf_len (u32_of_int enc)) level;
     if rc < 0 then Some (rc, out1)
     else qmi_encode_struct_elem e out1 (d + nat rc) src (a + elem_size e) n out_buf_len level (s32 (enc + rc)) }"
  by pat_completeness auto
termination
  by (relation "inv_image (less_than <*lex*> less_than) (\<lambda>x. case x of
          Inl (ei, _) \<Rightarrow> (case ei of None \<Rightarrow> 0 | Some l \<Rightarrow> 2 * size_list size l + 1, 0)
        | Inr (Inl (l, _)) \<Rightarrow> (2 * size_list size l, 0)
        | Inr (Inr (e, _, _, _, _, n, _)) \<Rightarrow> (2 * size e, n))")
     (auto dest!: encode_opt_flag_size encode_data_len_size size_ei_array split: option.splits)

section \<open>Decoding\<close>

definition qmi_decode_basic_elem ::
  "byte list \<Rightarrow> nat \<Rightarrow> byte list \<Rightarrow> nat \<Rightarrow> nat \<Rightarrow> nat \<Rightarrow> nat \<Rightarrow> (int \<times> byte list) option" where
  "qmi_decode_basic_elem dst d src a n sz src_len =
     (if u32 (n * sz) > src_len then Some (- EINVAL, dst)
      else do {
        dst' \<leftarrow> copy_elems dst d src a n sz;
        Some (s32 (int (u32 (n * sz))), dst') })"

text \<open>The same into a local 32-bit variable.\<close>

definition decode_local :: "nat \<Rightarrow> byte list \<Rightarrow> nat \<Rightarrow> nat \<Rightarrow> nat \<Rightarrow> (int \<times> nat) option" where
  "decode_local var src a sz src_len = do {
     (rc, bs) \<leftarrow> qmi_decode_basic_elem (le_bytes 4 var) 0 src a 1 sz src_len;
     Some (rc, le_nat bs) }"

definition qmi_decode_string_elem ::
  "qmi_elem_info \<Rightarrow> byte list \<Rightarrow> nat \<Rightarrow> byte list \<Rightarrow> nat \<Rightarrow> nat \<Rightarrow> nat \<Rightarrow> nat \<Rightarrow> (int \<times> byte list) option" where
  "qmi_decode_string_elem e dst d src a tvl level src_len = do {
     (rc1, string_len) \<leftarrow>
       (if level = 1 then Some (0, tvl) else decode_local 0 src a (string_len_size e) src_len);
     if rc1 < 0 then Some (rc1, dst)
     else if string_len \<ge> elem_len e then Some (- ETOOSMALL, dst)
     else if string_len > tvl then Some (- EFAULT, dst)
     else do {
       (rc2, dst1) \<leftarrow> qmi_decode_basic_elem dst d src (a + nat rc1) string_len (elem_size e)
                        (u32_sub src_len (nat rc1));
       if rc2 < 0 then Some (rc2, dst1)
       else do {
         dst2 \<leftarrow> wr dst1 (d + string_len) [0];
         Some (s32 (rc1 + rc2), dst2) } } }"

text \<open>\<^term>\<open>None\<close> is running off the array, \<^term>\<open>Some None\<close> the null pointer.\<close>

fun find_ei :: "qmi_elem_info list \<Rightarrow> nat \<Rightarrow> qmi_elem_info list option option" where
  "find_ei [] t = None"
| "find_ei (e # r) t =
     (if data_type e = QMI_EOTI then Some None
      else if tlv_type e = u8 t then Some (Some (e # r))
      else find_ei r t)"

text \<open>An optional element: its flag is set in the structure and the descriptor after it is taken.\<close>

definition decode_opt_flag ::
  "qmi_elem_info list \<Rightarrow> nat \<Rightarrow> byte list \<Rightarrow> (qmi_elem_info list \<times> byte list) option" where
  "decode_opt_flag t base out =
     (case t of [] \<Rightarrow> None
      | e # r \<Rightarrow>
        if data_type e = QMI_OPT_FLAG then do {
          out' \<leftarrow> wr out (base + offset e) [1];
          Some (r, out') }
        else Some (t, out))"

text \<open>The variables of \<^verbatim>\<open>qmi_decode\<close> that live across rounds of its loop, and the structure.\<close>

record dec_vars =
  dec_len_value :: nat
  buf_src :: nat
  decoded_bytes :: nat
  out_struct :: "byte list"

definition update_decode_variables :: "nat \<Rightarrow> dec_vars \<Rightarrow> dec_vars" where
  "update_decode_variables rc v = v\<lparr>buf_src := buf_src v + rc, decoded_bytes := u32 (decoded_bytes v + rc)\<rparr>"

text \<open>A length field: it is stored as 32 bits and the descriptor after it is taken.\<close>

definition decode_data_len ::
  "qmi_elem_info list \<Rightarrow> nat \<Rightarrow> byte list \<Rightarrow> nat \<Rightarrow> nat \<Rightarrow> dec_vars
     \<Rightarrow> (int + qmi_elem_info list \<times> nat \<times> dec_vars) option" where
  "decode_data_len t base buf in_buf_len tvl v =
     (case t of [] \<Rightarrow> None
      | e # r \<Rightarrow>
        if data_type e = QMI_DATA_LEN then do {
          (rc, dl) \<leftarrow> decode_local (dec_len_value v) buf (buf_src v) (len_size e)
                        (u32_sub in_buf_len (decoded_bytes v));
          if rc < 0 then Some (Inl rc)
          else do {
            out' \<leftarrow> wr (out_struct v) (base + offset e) (le_bytes 4 dl);
            Some (Inr (r, u32_sub tvl (len_size e),
              update_decode_variables (nat rc) (v\<lparr>dec_len_value := dl, out_struct := out'\<rparr>))) } }
        else Some (Inr (t, tvl, v)))"

definition decode_count :: "qmi_elem_info \<Rightarrow> nat \<Rightarrow> nat option" where
  "decode_count e dlv =
     (case array_type e of NO_ARRAY \<Rightarrow> Some 1 | STATIC_ARRAY \<Rightarrow> Some (elem_len e)
      | VAR_LEN_ARRAY \<Rightarrow> if dlv > elem_len e then None else Some dlv)"

lemma decode_opt_flag_size: "decode_opt_flag t base out = Some (t', out') \<Longrightarrow> size_list size t' \<le> size_list size t"
  by (auto simp: decode_opt_flag_def bind_eq_Some_conv split: list.splits if_splits)

lemma decode_data_len_size:
  assumes "decode_data_len t base buf L tvl v = Some (Inr (t', tvl', v'))"
  shows "size_list size t' \<le> size_list size t \<and> buf_src v \<le> buf_src v'"
  using assms
  by (auto simp: decode_data_len_def bind_eq_Some_conv update_decode_variables_def split: list.splits if_splits)

lemma find_ei_size: "find_ei l t = Some (Some r) \<Longrightarrow> size_list size r \<le> size_list size l"
  by (induction l) (auto split: if_splits intro: le_SucI trans_le_add2)

definition dec_weight :: "nat \<Rightarrow> byte list \<Rightarrow> nat \<Rightarrow> nat \<Rightarrow> nat" where
  "dec_weight level buf pos extra = (if level = 1 then 2 * (length buf - pos) + extra else 1 - extra)"

function qmi_decode ::
    "qmi_elem_info list option \<Rightarrow> byte list \<Rightarrow> nat \<Rightarrow> byte list \<Rightarrow> nat \<Rightarrow> nat \<Rightarrow> nat \<Rightarrow> (int \<times> byte list) option"
  and decode_loop ::
    "qmi_elem_info list \<Rightarrow> qmi_elem_info list \<Rightarrow> nat \<Rightarrow> byte list \<Rightarrow> nat \<Rightarrow> nat \<Rightarrow> dec_vars \<Rightarrow> (int \<times> byte list) option"
  and decode_elem ::
    "qmi_elem_info list \<Rightarrow> qmi_elem_info list \<Rightarrow> nat \<Rightarrow> byte list \<Rightarrow> nat \<Rightarrow> nat \<Rightarrow> nat \<Rightarrow> dec_vars
       \<Rightarrow> (int \<times> byte list) option"
  and qmi_decode_struct_elem ::
    "qmi_elem_info \<Rightarrow> byte list \<Rightarrow> nat \<Rightarrow> byte list \<Rightarrow> nat \<Rightarrow> nat \<Rightarrow> nat \<Rightarrow> nat \<Rightarrow> nat \<Rightarrow> (int \<times> byte list) option"
  and decode_struct_loop ::
    "qmi_elem_info \<Rightarrow> byte list \<Rightarrow> nat \<Rightarrow> byte list \<Rightarrow> nat \<Rightarrow> nat \<Rightarrow> nat \<Rightarrow> nat \<Rightarrow> int \<Rightarrow> (int \<times> byte list) option" where
  "qmi_decode ei out base buf pos in_buf_len level =
     (case ei of None \<Rightarrow> if 0 < in_buf_len then None else Some (0, out)
      | Some l \<Rightarrow> decode_loop l l base buf in_buf_len level
          \<lparr>dec_len_value = 0, buf_src = pos, decoded_bytes = 0, out_struct = out\<rparr>)"
| "decode_loop arr t base buf in_buf_len level v =
     (if \<not> decoded_bytes v < in_buf_len then Some (s32 (int (decoded_bytes v)), out_struct v)
      else if level = 1 then
        if decoded_bytes v + tlv_hdr > in_buf_len then Some (- EINVAL, out_struct v)
        else do {
          h \<leftarrow> rd buf (buf_src v) 3;
          let ty = unat (h ! 0);
          let tvl = unat (h ! 1) + 256 * unat (h ! 2);
          let v1 = update_decode_variables tlv_hdr v;
          f \<leftarrow> find_ei arr ty;
          case f of
            None \<Rightarrow> if ty < 16 then Some (- EINVAL, out_struct v)
                    else decode_loop arr t base buf in_buf_len level (update_decode_variables tvl v1)
          | Some t' \<Rightarrow> decode_elem arr t' base buf in_buf_len level tvl v1 }
      else case t of [] \<Rightarrow> None
        | e # r \<Rightarrow>
          if 2 \<le> level \<and> data_type e = QMI_EOTI then Some (s32 (int (decoded_bytes v)), out_struct v)
          else decode_elem arr (e # r) base buf in_buf_len level (u32_sub in_buf_len (decoded_bytes v)) v)"
| "decode_elem arr t base buf in_buf_len level tvl v = do {
     (t1, out1) \<leftarrow> decode_opt_flag t base (out_struct v);
     x \<leftarrow> decode_data_len t1 base buf in_buf_len tvl (v\<lparr>out_struct := out1\<rparr>);
     case x of Inl err \<Rightarrow> Some (err, out1)
     | Inr (t2, tvl2, v2) \<Rightarrow>
       (case t2 of [] \<Rightarrow> None
        | e # r \<Rightarrow>
          (case decode_count e (dec_len_value v2) of
             None \<Rightarrow> Some (- ETOOSMALL, out_struct v2)
           | Some n \<Rightarrow>
             let d = base + offset e; src_len = u32_sub in_buf_len (decoded_bytes v2) in
             if is_basic (data_type e) \<or> data_type e = QMI_STRUCT \<or> data_type e = QMI_STRING then do {
               (rc, out3) \<leftarrow>
                 (if is_basic (data_type e)
                  then qmi_decode_basic_elem (out_struct v2) d buf (buf_src v2) n (elem_size e) src_len
                  else if data_type e = QMI_STRUCT
                  then qmi_decode_struct_elem e (out_struct v2) d buf (buf_src v2) n tvl2 (level + 1) src_len
                  else qmi_decode_string_elem e (out_struct v2) d buf (buf_src v2) tvl2 level src_len);
               if rc < 0 then Some (rc, out3)
               else decode_loop arr r base buf in_buf_len level
                      (update_decode_variables (nat rc) (v2\<lparr>dec_len_value := n, out_struct := out3\<rparr>)) }
             else Some (- EINVAL, out_struct v2))) }"
| "qmi_decode_struct_elem e out d buf a n tvl level src_len =
     (if tvl > src_len then Some (- EINVAL, out) else decode_struct_loop e out d buf a n tvl level 0)"
| "decode_struct_loop e out d buf a n tvl level dec =
     (case n of
        Suc m \<Rightarrow>
          if u32_of_int dec < tvl then do {
            (rc, out1) \<leftarrow> qmi_decode (ei_array e) out d buf a (u32_sub tvl (u32_of_int dec)) level;
            if rc < 0 then Some (rc, out1)
            else decode_struct_loop e out1 (d + elem_size e) buf (a + nat rc) m tvl level (s32 (dec + rc)) }
          else if level \<le> 2 \<and> u32_of_int dec \<noteq> tvl \<or> level > 2 then Some (- EFAULT, out)
          else Some (dec, out)
      | 0 \<Rightarrow>
          if level \<le> 2 \<and> u32_of_int dec \<noteq> tvl \<or> level > 2 \<and> u32_of_int dec > tvl then Some (- EFAULT, out)
          else Some (dec, out))"
  by pat_completeness auto

termination
  by (relation "inv_image (less_than <*lex*> less_than <*lex*> less_than) (\<lambda>x. case x of
         Inl (Inl (ei, _, _, buf, _, _, _)) \<Rightarrow>
           (case ei of None \<Rightarrow> 0 | Some l \<Rightarrow> 2 * size_list size l + 1, 0, 0)
       | Inl (Inr (arr, t, _, buf, _, level, v)) \<Rightarrow>
           (2 * (if level = 1 then size_list size arr else size_list size t), 0, dec_weight level buf (buf_src v) 0)
       | Inr (Inl (arr, t, _, buf, _, level, _, v)) \<Rightarrow>
           (2 * (if level = 1 then max (size_list size arr) (size_list size t) else size_list size t), 0,
             dec_weight level buf (buf_src v) 1)
       | Inr (Inr (Inl (e, _, _, _, _, n, _))) \<Rightarrow> (2 * size e, Suc n, 1)
       | Inr (Inr (Inr (e, _, _, _, _, n, _))) \<Rightarrow> (2 * size e, n, 0))")
     (auto simp: dec_weight_def rd_def update_decode_variables_def
       dest!: decode_opt_flag_size decode_data_len_size find_ei_size size_ei_array split: if_splits option.splits)

declare qmi_decode.simps [simp del] decode_loop.simps [simp del] decode_elem.simps [simp del]
  qmi_decode_struct_elem.simps [simp del] decode_struct_loop.simps [simp del] qmi_encode.simps [simp del]

section \<open>Messages\<close>

definition qmi_header_bytes :: "nat \<Rightarrow> nat \<Rightarrow> nat \<Rightarrow> nat \<Rightarrow> byte list" where
  "qmi_header_bytes type txn_id msg_id msg_len =
     word_of_nat type # le_bytes 2 txn_id @ le_bytes 2 msg_id @ le_bytes 2 msg_len"

abbreviation (input) qmi_header_size :: nat where "qmi_header_size \<equiv> 7"

text \<open>\<open>alloc_ok\<close> says whether \<^verbatim>\<open>kzalloc\<close> succeeds; the result is an error or the buffer with the new length.\<close>

definition qmi_encode_message ::
  "bool \<Rightarrow> nat \<Rightarrow> nat \<Rightarrow> nat \<Rightarrow> nat \<Rightarrow> qmi_elem_info list option \<Rightarrow> byte list option
     \<Rightarrow> (int + byte list \<times> nat) option" where
  "qmi_encode_message alloc_ok type msg_id len txn_id ei c_struct = do {
     min_len \<leftarrow> (case c_struct of None \<Rightarrow> qmi_calc_min_msg_len ei 1 | Some _ \<Rightarrow> Some 0);
     if min_len \<noteq> 0 then Some (Inl (- EINVAL))
     else if \<not> alloc_ok then Some (Inl (- ENOMEM))
     else do {
       (msglen, body) \<leftarrow>
         (case c_struct of None \<Rightarrow> Some (0, replicate len 0)
          | Some src \<Rightarrow> qmi_encode ei (replicate len 0) 0 src 0 (u32 len) 1);
       if msglen < 0 then Some (Inl msglen)
       else Some (Inr (qmi_header_bytes type txn_id msg_id (nat msglen) @ body, qmi_header_size + nat msglen)) } }"

definition qmi_decode_message ::
  "byte list option \<Rightarrow> nat \<Rightarrow> qmi_elem_info list option \<Rightarrow> byte list option \<Rightarrow> (int \<times> byte list) option" where
  "qmi_decode_message buf len ei c_struct =
     (case (ei, c_struct, buf) of
        (Some l, Some out, Some b) \<Rightarrow>
          if len = 0 then Some (- EINVAL, out)
          else qmi_decode ei out 0 b qmi_header_size (u32 (u64_sub len qmi_header_size)) 1
      | (_, Some out, _) \<Rightarrow> Some (- EINVAL, out)
      | _ \<Rightarrow> Some (- EINVAL, []))"

definition qmi_response_type_v01_ei :: "qmi_elem_info list" where
  "qmi_response_type_v01_ei =
     [Elem QMI_SIGNED_2_BYTE_ENUM 1 2 NO_ARRAY 0 0 None,
      Elem QMI_SIGNED_2_BYTE_ENUM 1 2 NO_ARRAY 0 2 None,
      Elem QMI_EOTI 0 0 NO_ARRAY 0 0 None]"

section \<open>Memory lemmas\<close>

lemma length_le_bytes_n [simp]: "length (le_bytes k n) = k"
  by (induction k arbitrary: n) simp_all

lemma le_nat_less: "le_nat bs < 256 ^ length bs"
proof (induction bs)
  case (Cons b bs)
  have "unat b + 256 * le_nat bs < 256 * (le_nat bs + 1)"
    using byte_less [of b] by simp
  also have "\<dots> \<le> 256 * 256 ^ length bs"
    using Cons by (intro mult_le_mono2) simp
  finally show ?case by simp
qed simp

text \<open>Copying elements one by one is copying all of their bytes at once.\<close>

lemma copy_elems_eq:
  assumes "a + n * sz \<le> length src" and "d + n * sz \<le> length dst"
  shows "copy_elems dst d src a n sz = wr dst d (take (n * sz) (drop a src))"
  using assms
proof (induction n arbitrary: dst d a)
  case 0
  then show ?case by (simp add: wr_def)
next
  case (Suc n)
  let ?x = "take sz (drop a src)" and ?y = "take (n * sz) (drop (a + sz) src)"
  have x: "length ?x = sz" and y: "length ?y = n * sz" using Suc.prems by simp_all
  have r: "rd src a sz = Some ?x" using Suc.prems by (simp add: rd_def)
  obtain dst' where w: "wr dst d ?x = Some dst'"
    using Suc.prems x by (auto simp: wr_def)
  have "copy_elems dst d src a (Suc n) sz = copy_elems dst' (d + sz) src (a + sz) n sz"
    by (simp add: r w)
  also have "\<dots> = wr dst' (d + sz) ?y"
    using Suc.prems length_wr [OF w] by (intro Suc.IH) (simp_all add: algebra_simps)
  also have "\<dots> = Option.bind (wr dst d ?x) (\<lambda>m'. wr m' (d + length ?x) ?y)"
    using w x by simp
  also have "\<dots> = wr dst d (?x @ ?y)"
    using Suc.prems x y by (intro wr_wr) (simp add: algebra_simps)
  also have "?x @ ?y = take (Suc n * sz) (drop a src)"
    by (simp add: take_add add.commute)
  finally show ?case .
qed

lemma copy_elems_Some:
  assumes "a + n * sz \<le> length src" and "d + n * sz \<le> length dst"
  shows "\<exists>dst'. copy_elems dst d src a n sz = Some dst' \<and> length dst' = length dst"
  using assms by (simp add: copy_elems_eq wr_def)

section \<open>Decoding is memory safe\<close>

text \<open>
  A descriptor array is sound for a structure of \<open>S\<close> bytes: it has an end marker, every element
  lies inside the structure (a length field with the four bytes the decoder stores), strings are bytes,
  and nested arrays are sound for the size of one element.
\<close>

definition elem_fits :: "qmi_elem_info \<Rightarrow> nat \<Rightarrow> bool" where
  "elem_fits e S \<longleftrightarrow>
     (if data_type e = QMI_OPT_FLAG then offset e + 1 \<le> S
      else if data_type e = QMI_DATA_LEN then offset e + 4 \<le> S
      else 1 \<le> elem_len e \<and> offset e + elem_len e * elem_size e \<le> S
        \<and> (data_type e = QMI_STRING \<longrightarrow> elem_size e = 1))"

function wf_ei :: "qmi_elem_info list \<Rightarrow> nat \<Rightarrow> bool" where
  "wf_ei [] S = False"
| "wf_ei (e # r) S =
     (data_type e = QMI_EOTI
      \<or> elem_fits e S \<and> (data_type e = QMI_STRUCT \<longrightarrow> (case ei_array e of None \<Rightarrow> False | Some l \<Rightarrow> wf_ei l (elem_size e)))
        \<and> wf_ei r S)"
  by pat_completeness auto
termination
  by (relation "measure (\<lambda>(l, S). size_list size l)") (auto dest!: size_ei_array)

definition bounded :: "(int \<times> byte list) option \<Rightarrow> nat \<Rightarrow> nat \<Rightarrow> bool" where
  "bounded x len bound \<longleftrightarrow> (\<exists>rc out. x = Some (rc, out) \<and> length out = len \<and> rc \<le> int bound)"

lemma boundedI: "length out = len \<Longrightarrow> rc \<le> int bound \<Longrightarrow> bounded (Some (rc, out)) len bound"
  by (simp add: bounded_def)

lemma boundedE:
  assumes "bounded x len bound"
  obtains rc out where "x = Some (rc, out)" "length out = len" "rc \<le> int bound"
  using assms by (auto simp: bounded_def)

lemma decode_basic_bounded:
  assumes "n * sz < 2 ^ 31" and "d + n * sz \<le> length dst" and "a + src_len \<le> length src"
  shows "bounded (qmi_decode_basic_elem dst d src a n sz src_len) (length dst) src_len"
proof -
  have u: "u32 (n * sz) = n * sz" using assms(1) by (simp add: width_simps)
  show ?thesis
  proof (cases "n * sz > src_len")
    case True
    then show ?thesis by (simp add: qmi_decode_basic_elem_def u boundedI)
  next
    case False
    have s: "s32 (int (n * sz)) = int (n * sz)" using assms(1) by (rule s32_int_id)
    obtain dst' where "copy_elems dst d src a n sz = Some dst'" "length dst' = length dst"
      using copy_elems_Some [of a n sz src d dst] assms False by auto
    then show ?thesis using False
      by (simp add: qmi_decode_basic_elem_def u s boundedI del: of_nat_mult)
  qed
qed

lemma decode_local_bounded:
  assumes "sz \<le> 4" and "a + src_len \<le> length src"
  shows "\<exists>rc v. decode_local var src a sz src_len = Some (rc, v) \<and> rc \<le> int src_len \<and> v < 2 ^ 32"
proof -
  have "bounded (qmi_decode_basic_elem (le_bytes 4 var) 0 src a 1 sz src_len) 4 src_len"
    using decode_basic_bounded [of 1 sz 0 "le_bytes 4 var" a src_len src] assms by simp
  then obtain rc bs where b: "qmi_decode_basic_elem (le_bytes 4 var) 0 src a 1 sz src_len = Some (rc, bs)"
    "length bs = 4" "rc \<le> int src_len" by (rule boundedE)
  then show ?thesis using le_nat_less [of bs] by (simp add: decode_local_def)
qed

lemma decode_string_bounded:
  assumes e: "elem_size e = 1" "elem_len e < 2 ^ 31" and d: "d + elem_len e \<le> length dst"
    and a: "a + src_len \<le> length src" and sl: "src_len < 2 ^ 31"
  shows "bounded (qmi_decode_string_elem e dst d src a tvl level src_len) (length dst) src_len"
proof -
  obtain rc1 sn where k1: "(if level = 1 then Some (0, tvl) else decode_local 0 src a (string_len_size e) src_len)
    = Some (rc1, sn)" "rc1 \<le> int src_len"
    using decode_local_bounded [of "string_len_size e" a src_len src 0] a
    by (cases "level = 1") auto
  define s2 where "s2 = u32_sub src_len (nat rc1)"
  have unf: "qmi_decode_string_elem e dst d src a tvl level src_len =
    (if rc1 < 0 then Some (rc1, dst)
     else if sn \<ge> elem_len e then Some (- ETOOSMALL, dst)
     else if sn > tvl then Some (- EFAULT, dst)
     else do {
       (rc2, dst1) \<leftarrow> qmi_decode_basic_elem dst d src (a + nat rc1) sn (elem_size e) s2;
       if rc2 < 0 then Some (rc2, dst1)
       else do {
         dst2 \<leftarrow> wr dst1 (d + sn) [0];
         Some (s32 (rc1 + rc2), dst2) } })"
    unfolding qmi_decode_string_elem_def k1(1) s2_def by simp
  show ?thesis
  proof (cases "rc1 < 0 \<or> sn \<ge> elem_len e \<or> sn > tvl")
    case True
    then show ?thesis unfolding unf using k1(2)
      by (cases "rc1 < 0"; cases "elem_len e \<le> sn"; cases "tvl < sn") (simp_all add: bounded_def)
  next
    case False
    have s2: "s2 = src_len - nat rc1" unfolding s2_def using k1(2) sl by (intro u32_sub_id) simp_all
    have "bounded (qmi_decode_basic_elem dst d src (a + nat rc1) sn (elem_size e) s2) (length dst) s2"
      using False e d a k1(2) s2 by (intro decode_basic_bounded) simp_all
    then obtain rc2 dst1 where k2: "qmi_decode_basic_elem dst d src (a + nat rc1) sn (elem_size e) s2 = Some (rc2, dst1)"
      "length dst1 = length dst" "rc2 \<le> int s2" by (rule boundedE)
    obtain dst2 where k3: "wr dst1 (d + sn) [0] = Some dst2"
      using False d k2(2) by (simp add: wr_def)
    note k3' = length_wr [OF k3]
    show ?thesis
    proof (cases "rc2 < 0")
      case True
      then show ?thesis unfolding unf using False k2(1,2) by (simp add: bounded_def)
    next
      case nonneg: False
      have "s32 (rc1 + rc2) = rc1 + rc2"
        using False nonneg k2(3) s2 sl k1(2) by (intro s32_id) simp_all
      moreover have "rc1 + rc2 \<le> int src_len" using False k1(2) k2(3) s2 by linarith
      ultimately show ?thesis unfolding unf using False nonneg k2(1,2) k3 k3' by (simp add: bounded_def)
    qed
  qed
qed

lemma decode_opt_flag_safe:
  assumes "wf_ei t S" and "base + S \<le> length out"
  shows "\<exists>t' out'. decode_opt_flag t base out = Some (t', out') \<and> wf_ei t' S \<and> length out' = length out"
proof (cases t)
  case (Cons e r)
  show ?thesis
  proof (cases "data_type e = QMI_OPT_FLAG")
    case True
    then have "elem_fits e S" "wf_ei r S" using assms Cons by simp_all
    moreover from this obtain out' where "wr out (base + offset e) [1] = Some out'"
      using True assms(2) by (auto simp: elem_fits_def wr_def)
    ultimately show ?thesis using Cons True length_wr by (simp add: decode_opt_flag_def)
  qed (use assms Cons in \<open>simp add: decode_opt_flag_def\<close>)
qed (use assms in simp)

definition dec_inv :: "nat \<Rightarrow> nat \<Rightarrow> byte list \<Rightarrow> nat \<Rightarrow> dec_vars \<Rightarrow> bool" where
  "dec_inv base S buf L v \<longleftrightarrow> base + S \<le> length (out_struct v) \<and> buf_src v + L \<le> length buf + decoded_bytes v
     \<and> decoded_bytes v < 2 ^ 31 + 2 ^ 17"

lemma dec_inv_advance:
  assumes "dec_inv base S buf L v" and "decoded_bytes v \<le> L" and "L < 2 ^ 31" and "rc \<le> L - decoded_bytes v + 65535"
  shows "dec_inv base S buf L (update_decode_variables rc v)"
    "decoded_bytes (update_decode_variables rc v) = decoded_bytes v + rc"
proof -
  have "u32 (decoded_bytes v + rc) = decoded_bytes v + rc"
    using assms by (intro u32_id) (simp add: dec_inv_def)
  then show "dec_inv base S buf L (update_decode_variables rc v)"
    "decoded_bytes (update_decode_variables rc v) = decoded_bytes v + rc"
    using assms by (simp_all add: dec_inv_def update_decode_variables_def)
qed

lemma decode_data_len_safe:
  assumes wf: "wf_ei t S" and inv: "dec_inv base S buf L v" and le: "decoded_bytes v \<le> L" and L: "L < 2 ^ 31"
    and len: "length (out_struct v) = n"
  shows "(\<exists>err. decode_data_len t base buf L tvl v = Some (Inl err) \<and> err < 0) \<or>
    (\<exists>t' tvl' v'. decode_data_len t base buf L tvl v = Some (Inr (t', tvl', v')) \<and> wf_ei t' S \<and>
       dec_inv base S buf L v' \<and> decoded_bytes v' \<le> L \<and> length (out_struct v') = n)"
proof (cases t)
  case (Cons e r)
  show ?thesis
  proof (cases "data_type e = QMI_DATA_LEN")
    case True
    then have f: "elem_fits e S" "wf_ei r S" using wf Cons by simp_all
    have sub: "u32_sub L (decoded_bytes v) = L - decoded_bytes v" using le L by (intro u32_sub_id) simp_all
    have src: "buf_src v + (L - decoded_bytes v) \<le> length buf" using inv le unfolding dec_inv_def by linarith
    obtain rc dl where k: "decode_local (dec_len_value v) buf (buf_src v) (len_size e) (L - decoded_bytes v) = Some (rc, dl)"
      "rc \<le> int (L - decoded_bytes v)"
      using decode_local_bounded [OF len_sizes(1) src] by blast
    show ?thesis
    proof (cases "rc < 0")
      case True
      then show ?thesis using Cons \<open>data_type e = QMI_DATA_LEN\<close> k(1) by (simp add: decode_data_len_def sub)
    next
      case False
      obtain out' where w: "wr (out_struct v) (base + offset e) (le_bytes 4 dl) = Some out'"
        using f(1) True inv by (auto simp: elem_fits_def wr_def dec_inv_def)
      let ?v = "v\<lparr>dec_len_value := dl, out_struct := out'\<rparr>"
      have i: "dec_inv base S buf L ?v" using inv length_wr [OF w] by (simp add: dec_inv_def)
      have "dec_inv base S buf L (update_decode_variables (nat rc) ?v)"
        "decoded_bytes (update_decode_variables (nat rc) ?v) = decoded_bytes v + nat rc"
        using dec_inv_advance [OF i, of "nat rc"] k(2) le L by simp_all
      moreover have "nat rc \<le> L - decoded_bytes v" using k(2) by simp
      moreover have "length (out_struct (update_decode_variables (nat rc) ?v)) = n"
        using length_wr [OF w] len by (simp add: update_decode_variables_def)
      ultimately show ?thesis
        using Cons True False k(1) w f(2) le by (simp add: decode_data_len_def sub)
    qed
  qed (use assms Cons in \<open>simp add: decode_data_len_def\<close>)
qed (use wf in simp)

lemma find_ei_safe: "wf_ei l S \<Longrightarrow> \<exists>x. find_ei l t = Some x \<and> (\<forall>r. x = Some r \<longrightarrow> wf_ei r S)"
  by (induction l) (auto split: if_splits)

lemma wf_ei_tail: "wf_ei (e # r) S \<Longrightarrow> data_type e \<noteq> QMI_EOTI \<Longrightarrow> wf_ei r S \<and> elem_fits e S"
  by simp

lemma wf_ei_struct:
  "wf_ei (e # r) S \<Longrightarrow> data_type e = QMI_STRUCT \<Longrightarrow> \<exists>l. ei_array e = Some l \<and> wf_ei l (elem_size e)"
  by (auto split: option.splits)

lemma decode_count_fits:
  assumes "decode_count e dlv = Some n" and "elem_fits e S"
    and "data_type e \<noteq> QMI_OPT_FLAG" "data_type e \<noteq> QMI_DATA_LEN"
  shows "n \<le> elem_len e" "n * elem_size e \<le> elem_len e * elem_size e" "offset e + elem_len e * elem_size e \<le> S"
proof -
  show "n \<le> elem_len e"
    using assms by (auto simp: decode_count_def elem_fits_def split: qmi_array_type.splits if_splits)
  then show "n * elem_size e \<le> elem_len e * elem_size e" by (rule mult_le_mono1)
  show "offset e + elem_len e * elem_size e \<le> S"
    using assms by (simp add: elem_fits_def)
qed

abbreviation (input) dec_bound :: "nat \<Rightarrow> nat \<Rightarrow> nat" where
  "dec_bound level L \<equiv> if level = 1 then L + 65535 else L"

text \<open>One round of the loop, given what the rest of the run does.\<close>

lemma decode_loop_top_step:
  assumes inv: "dec_inv base S buf L v" and L: "L < 2 ^ 31" and lt: "decoded_bytes v < L" and wf: "wf_ei arr S"
    and skip: "\<And>h v'. rd buf (buf_src v) 3 = Some h \<Longrightarrow> \<not> L < decoded_bytes v + 3 \<Longrightarrow>
      find_ei arr (unat (h ! 0)) = Some None \<Longrightarrow> \<not> unat (h ! 0) < 16 \<Longrightarrow>
      v' = update_decode_variables (unat (h ! 1) + 256 * unat (h ! 2)) (update_decode_variables 3 v) \<Longrightarrow>
      dec_inv base S buf L v' \<Longrightarrow> decoded_bytes v' \<le> L + 65535 \<Longrightarrow>
      bounded (decode_loop arr t base buf L 1 v') (length (out_struct v')) (L + 65535)"
    and elem: "\<And>h t'. rd buf (buf_src v) 3 = Some h \<Longrightarrow> \<not> L < decoded_bytes v + 3 \<Longrightarrow>
      find_ei arr (unat (h ! 0)) = Some (Some t') \<Longrightarrow> wf_ei t' S \<Longrightarrow>
      dec_inv base S buf L (update_decode_variables 3 v) \<Longrightarrow>
      decoded_bytes (update_decode_variables 3 v) \<le> L \<Longrightarrow>
      bounded (decode_elem arr t' base buf L 1 (unat (h ! 1) + 256 * unat (h ! 2)) (update_decode_variables 3 v))
        (length (out_struct (update_decode_variables 3 v))) (L + 65535)"
  shows "bounded (decode_loop arr t base buf L 1 v) (length (out_struct v)) (L + 65535)"
proof (cases "L < decoded_bytes v + 3")
  case True
  then show ?thesis using lt unfolding decode_loop.simps [of arr t base buf L 1 v] by (simp add: bounded_def)
next
  case False
  have "buf_src v + 3 \<le> length buf" using inv False unfolding dec_inv_def by linarith
  then obtain h where h: "rd buf (buf_src v) 3 = Some h" by (simp add: rd_def)
  define tvl where "tvl = unat (h ! 1) + 256 * unat (h ! 2)"
  define v1 where "v1 = update_decode_variables 3 v"
  define v2 where "v2 = update_decode_variables tvl v1"
  have tl: "tvl \<le> 65535" using byte_less [of "h ! 1"] byte_less [of "h ! 2"] by (simp add: tvl_def)
  have i1: "dec_inv base S buf L v1" "decoded_bytes v1 = decoded_bytes v + 3"
    using dec_inv_advance [OF inv, of 3] lt L by (simp_all add: v1_def)
  have i2: "dec_inv base S buf L v2" "decoded_bytes v2 = decoded_bytes v + 3 + tvl"
    using dec_inv_advance [OF i1(1), of tvl] i1(2) False L tl by (simp_all add: v2_def)
  have out: "out_struct v1 = out_struct v" "out_struct v2 = out_struct v"
    by (simp_all add: v1_def v2_def update_decode_variables_def)
  obtain f where f: "find_ei arr (unat (h ! 0)) = Some f" "\<And>r. f = Some r \<Longrightarrow> wf_ei r S"
    using find_ei_safe [OF wf] by blast
  have unf: "decode_loop arr t base buf L 1 v = (case f of
      None \<Rightarrow> if unat (h ! 0) < 16 then Some (- EINVAL, out_struct v) else decode_loop arr t base buf L 1 v2
    | Some t' \<Rightarrow> decode_elem arr t' base buf L 1 tvl v1)"
    unfolding decode_loop.simps [of arr t base buf L 1 v] v2_def v1_def tvl_def using lt False h f(1)
    by (cases f) (simp_all add: Let_def)
  show ?thesis
  proof (cases f)
    case None
    have "\<not> unat (h ! 0) < 16 \<Longrightarrow> bounded (decode_loop arr t base buf L 1 v2) (length (out_struct v2)) (L + 65535)"
      using f(1) None i2 False tl by (intro skip [OF h False]) (simp_all add: v2_def v1_def tvl_def)
    then show ?thesis unfolding unf None out by (simp add: bounded_def)
  next
    case (Some t')
    have "bounded (decode_elem arr t' base buf L 1 tvl v1) (length (out_struct v1)) (L + 65535)"
      using f Some i1 False unfolding v1_def tvl_def by (intro elem [OF h False]) simp_all
    then show ?thesis unfolding unf Some out by simp
  qed
qed

definition decode_payload ::
  "qmi_elem_info \<Rightarrow> nat \<Rightarrow> byte list \<Rightarrow> nat \<Rightarrow> nat \<Rightarrow> nat \<Rightarrow> nat \<Rightarrow> dec_vars \<Rightarrow> (int \<times> byte list) option" where
  "decode_payload e base buf L level tvl n v =
     (let d = base + offset e; src_len = u32_sub L (decoded_bytes v) in
      if is_basic (data_type e)
      then qmi_decode_basic_elem (out_struct v) d buf (buf_src v) n (elem_size e) src_len
      else if data_type e = QMI_STRUCT
      then qmi_decode_struct_elem e (out_struct v) d buf (buf_src v) n tvl (level + 1) src_len
      else qmi_decode_string_elem e (out_struct v) d buf (buf_src v) tvl level src_len)"

lemma decode_payload_bounded:
  assumes wf: "wf_ei (e # r) S" and inv: "dec_inv base S buf L v" and S: "S < 2 ^ 31" and L: "L < 2 ^ 31"
    and le: "decoded_bytes v \<le> L" and n: "decode_count e dlv = Some n"
    and ty: "is_basic (data_type e) \<or> data_type e = QMI_STRUCT \<or> data_type e = QMI_STRING"
    and struct: "\<And>l. data_type e = QMI_STRUCT \<Longrightarrow> ei_array e = Some l \<Longrightarrow> wf_ei l (elem_size e) \<Longrightarrow>
      base + offset e + n * elem_size e \<le> length (out_struct v) \<Longrightarrow> elem_size e < 2 ^ 31 \<Longrightarrow>
      buf_src v + (L - decoded_bytes v) \<le> length buf \<Longrightarrow> u32_sub L (decoded_bytes v) = L - decoded_bytes v \<Longrightarrow>
      bounded (qmi_decode_struct_elem e (out_struct v) (base + offset e) buf (buf_src v) n tvl (level + 1)
        (L - decoded_bytes v)) (length (out_struct v)) (L - decoded_bytes v)"
  shows "bounded (decode_payload e base buf L level tvl n v) (length (out_struct v)) (L - decoded_bytes v)"
proof -
  have t: "data_type e \<noteq> QMI_EOTI" "data_type e \<noteq> QMI_OPT_FLAG" "data_type e \<noteq> QMI_DATA_LEN"
    using ty by (auto simp: is_basic_def)
  have fits: "elem_fits e S" using wf t(1) by simp
  note c = decode_count_fits [OF n fits t(2,3)]
  have sub: "u32_sub L (decoded_bytes v) = L - decoded_bytes v" using le L by (intro u32_sub_id) simp_all
  have src: "buf_src v + (L - decoded_bytes v) \<le> length buf" using inv le unfolding dec_inv_def by linarith
  have dst: "base + S \<le> length (out_struct v)" using inv by (simp add: dec_inv_def)
  have el: "1 \<le> elem_len e" using fits t by (simp add: elem_fits_def)
  show ?thesis
  proof (cases "is_basic (data_type e)")
    case True
    have "bounded (qmi_decode_basic_elem (out_struct v) (base + offset e) buf (buf_src v) n (elem_size e)
      (L - decoded_bytes v)) (length (out_struct v)) (L - decoded_bytes v)"
      using c S dst src by (intro decode_basic_bounded) linarith+
    then show ?thesis using True by (simp add: decode_payload_def sub)
  next
    case nb: False
    show ?thesis
    proof (cases "data_type e = QMI_STRUCT")
      case True
      obtain l where l: "ei_array e = Some l" "wf_ei l (elem_size e)" using wf_ei_struct [OF wf True] by blast
      have "elem_size e \<le> elem_len e * elem_size e" using el by simp
      then have "bounded (qmi_decode_struct_elem e (out_struct v) (base + offset e) buf (buf_src v) n tvl (level + 1)
        (L - decoded_bytes v)) (length (out_struct v)) (L - decoded_bytes v)"
        using c S dst by (intro struct [OF True l _ _ src sub]) linarith+
      then show ?thesis using True nb by (simp add: decode_payload_def sub)
    next
      case False
      then have str: "data_type e = QMI_STRING" using ty nb by blast
      then have es: "elem_size e = 1" using fits by (simp add: elem_fits_def)
      then have "bounded (qmi_decode_string_elem e (out_struct v) (base + offset e) buf (buf_src v) tvl level
        (L - decoded_bytes v)) (length (out_struct v)) (L - decoded_bytes v)"
        using c S dst src L by (intro decode_string_bounded) simp_all
      then show ?thesis using False nb by (simp add: decode_payload_def sub)
    qed
  qed
qed

lemma decode_elem_step:
  assumes wf: "wf_ei t S" and inv: "dec_inv base S buf L v" and S: "S < 2 ^ 31" and L: "L < 2 ^ 31"
    and le: "decoded_bytes v \<le> L"
    and payload: "\<And>t1 out1 tvl2 v2 e r n. decode_opt_flag t base (out_struct v) = Some (t1, out1) \<Longrightarrow>
      decode_data_len t1 base buf L tvl (v\<lparr>out_struct := out1\<rparr>) = Some (Inr (e # r, tvl2, v2)) \<Longrightarrow>
      decode_count e (dec_len_value v2) = Some n \<Longrightarrow>
      is_basic (data_type e) \<or> data_type e = QMI_STRUCT \<or> data_type e = QMI_STRING \<Longrightarrow>
      wf_ei (e # r) S \<Longrightarrow> dec_inv base S buf L v2 \<Longrightarrow> decoded_bytes v2 \<le> L \<Longrightarrow>
      bounded (decode_payload e base buf L level tvl2 n v2) (length (out_struct v2)) (L - decoded_bytes v2)"
    and rest: "\<And>t1 out1 tvl2 v2 e r n rc out3 v3. decode_opt_flag t base (out_struct v) = Some (t1, out1) \<Longrightarrow>
      decode_data_len t1 base buf L tvl (v\<lparr>out_struct := out1\<rparr>) = Some (Inr (e # r, tvl2, v2)) \<Longrightarrow>
      decode_count e (dec_len_value v2) = Some n \<Longrightarrow>
      is_basic (data_type e) \<or> data_type e = QMI_STRUCT \<or> data_type e = QMI_STRING \<Longrightarrow>
      decode_payload e base buf L level tvl2 n v2 = Some (rc, out3) \<Longrightarrow> \<not> rc < 0 \<Longrightarrow> wf_ei r S \<Longrightarrow>
      v3 = update_decode_variables (nat rc) (v2\<lparr>dec_len_value := n, out_struct := out3\<rparr>) \<Longrightarrow>
      dec_inv base S buf L v3 \<Longrightarrow> decoded_bytes v3 \<le> L \<Longrightarrow>
      bounded (decode_loop arr r base buf L level v3) (length (out_struct v3)) B"
  shows "bounded (decode_elem arr t base buf L level tvl v) (length (out_struct v)) B"
proof -
  have "base + S \<le> length (out_struct v)" using inv by (simp add: dec_inv_def)
  from decode_opt_flag_safe [OF wf this] obtain t1 out1 where
    k1: "decode_opt_flag t base (out_struct v) = Some (t1, out1)" "wf_ei t1 S" "length out1 = length (out_struct v)"
    by blast
  let ?v1 = "v\<lparr>out_struct := out1\<rparr>"
  have i1: "dec_inv base S buf L ?v1" using inv k1(3) by (simp add: dec_inv_def)
  have le1: "decoded_bytes ?v1 \<le> L" and ln1: "length (out_struct ?v1) = length (out_struct v)"
    using le k1(3) by simp_all
  from decode_data_len_safe [OF k1(2) i1 le1 L ln1, of tvl] show ?thesis
  proof (elim disjE exE conjE)
    fix err assume "decode_data_len t1 base buf L tvl ?v1 = Some (Inl err)" "err < 0"
    then show ?thesis unfolding decode_elem.simps [of arr t] using k1 by (simp add: bounded_def)
  next
    fix t2 tvl2 v2
    assume k2: "decode_data_len t1 base buf L tvl ?v1 = Some (Inr (t2, tvl2, v2))" and wf2: "wf_ei t2 S"
      and i2: "dec_inv base S buf L v2" and le2: "decoded_bytes v2 \<le> L"
      and ln: "length (out_struct v2) = length (out_struct v)"
    obtain e r where t2: "t2 = e # r" using wf2 by (cases t2) auto
    let ?ty = "is_basic (data_type e) \<or> data_type e = QMI_STRUCT \<or> data_type e = QMI_STRING"
    have unf: "decode_elem arr t base buf L level tvl v = (case decode_count e (dec_len_value v2) of
        None \<Rightarrow> Some (- ETOOSMALL, out_struct v2)
      | Some n \<Rightarrow> if ?ty then do {
            (rc, out3) \<leftarrow> decode_payload e base buf L level tvl2 n v2;
            if rc < 0 then Some (rc, out3)
            else decode_loop arr r base buf L level
              (update_decode_variables (nat rc) (v2\<lparr>dec_len_value := n, out_struct := out3\<rparr>)) }
          else Some (- EINVAL, out_struct v2))"
      unfolding decode_elem.simps [of arr t] k1(1) decode_payload_def Let_def using k2 t2 by simp
    show ?thesis
    proof (cases "\<exists>n. decode_count e (dec_len_value v2) = Some n \<and> ?ty")
      case False
      then show ?thesis unfolding unf using ln by (auto simp: bounded_def split: option.splits)
    next
      case True
      then obtain n where n: "decode_count e (dec_len_value v2) = Some n" and ty: ?ty by blast
      have wr: "wf_ei r S" using wf2 t2 ty by (auto simp: is_basic_def)
      from payload [OF k1(1) k2 [unfolded t2] n ty wf2 [unfolded t2] i2 le2]
      obtain rc out3 where p: "decode_payload e base buf L level tvl2 n v2 = Some (rc, out3)"
        "length out3 = length (out_struct v2)" "rc \<le> int (L - decoded_bytes v2)" by (rule boundedE)
      show ?thesis
      proof (cases "rc < 0")
        case True
        then show ?thesis unfolding unf using n ty p ln by (simp add: bounded_def)
      next
        case False
        let ?v = "v2\<lparr>dec_len_value := n, out_struct := out3\<rparr>"
        let ?v3 = "update_decode_variables (nat rc) ?v"
        have i: "dec_inv base S buf L ?v" using i2 p(2) by (simp add: dec_inv_def)
        have i3: "dec_inv base S buf L ?v3" "decoded_bytes ?v3 \<le> L"
          using dec_inv_advance [OF i, of "nat rc"] le2 L p(3) by simp_all
        have "bounded (decode_loop arr r base buf L level ?v3) (length (out_struct ?v3)) B"
          by (rule rest [OF k1(1) k2 [unfolded t2] n ty p(1) False wr refl i3])
        moreover have "out_struct ?v3 = out3" by (simp add: update_decode_variables_def)
        ultimately show ?thesis unfolding unf using n ty p(1,2) False ln by simp
      qed
    qed
  qed
qed

lemma decode_struct_loop_step:
  assumes d: "d + n * elem_size e \<le> length out" and dec: "0 \<le> dec" "dec \<le> int tvl" and tvl: "tvl < 2 ^ 31"
    and nested: "\<And>m. n = Suc m \<Longrightarrow> nat dec < tvl \<Longrightarrow>
      bounded (qmi_decode (ei_array e) out d buf a (tvl - nat dec) level) (length out) (tvl - nat dec)"
    and rest: "\<And>m rc out1. n = Suc m \<Longrightarrow> nat dec < tvl \<Longrightarrow>
      qmi_decode (ei_array e) out d buf a (tvl - nat dec) level = Some (rc, out1) \<Longrightarrow> \<not> rc < 0 \<Longrightarrow>
      rc \<le> int (tvl - nat dec) \<Longrightarrow> length out1 = length out \<Longrightarrow> s32 (dec + rc) = dec + rc \<Longrightarrow>
      bounded (decode_struct_loop e out1 (d + elem_size e) buf (a + nat rc) m tvl level (dec + rc)) (length out) tvl"
  shows "bounded (decode_struct_loop e out d buf a n tvl level dec) (length out) tvl"
proof -
  have u: "u32_of_int dec = nat dec" using dec tvl by (simp add: u32_of_int_def)
  have sub: "u32_sub tvl (nat dec) = tvl - nat dec" using dec tvl by (intro u32_sub_id) simp_all
  show ?thesis
  proof (cases "\<exists>m. n = Suc m \<and> nat dec < tvl")
    case False
    then show ?thesis unfolding decode_struct_loop.simps [of e out d buf a n] u using dec(2)
      by (cases n) (simp_all add: bounded_def)
  next
    case True
    then obtain m where m: "n = Suc m" "nat dec < tvl" by blast
    from nested [OF m] obtain rc out1 where r: "qmi_decode (ei_array e) out d buf a (tvl - nat dec) level = Some (rc, out1)"
      "length out1 = length out" "rc \<le> int (tvl - nat dec)" by (rule boundedE)
    show ?thesis
    proof (cases "rc < 0")
      case True
      then show ?thesis unfolding decode_struct_loop.simps [of e out d buf a n] u using m r sub by (simp add: bounded_def)
    next
      case False
      have s: "s32 (dec + rc) = dec + rc" using dec r(3) False tvl m(2) by (intro s32_id) simp_all
      show ?thesis unfolding decode_struct_loop.simps [of e out d buf a n] u
        using m r(1) sub False s rest [OF m r(1) False r(3,2) s] by simp
    qed
  qed
qed

lemma decode_bounded:
  shows "wf_ei (case ei of Some l \<Rightarrow> l | None \<Rightarrow> []) S \<Longrightarrow> base + S \<le> length out \<Longrightarrow> S < 2 ^ 31 \<Longrightarrow>
      pos + L \<le> length buf \<Longrightarrow> L < 2 ^ 31 \<Longrightarrow> 1 \<le> level \<Longrightarrow>
      bounded (qmi_decode ei out base buf pos L level) (length out) (dec_bound level L)"
    and "wf_ei (if level = 1 then arr else t) S \<Longrightarrow> dec_inv base S buf L v \<Longrightarrow> S < 2 ^ 31 \<Longrightarrow> L < 2 ^ 31 \<Longrightarrow>
      1 \<le> level \<Longrightarrow> decoded_bytes v \<le> dec_bound level L \<Longrightarrow>
      bounded (decode_loop arr t base buf L level v) (length (out_struct v)) (dec_bound level L)"
    and "(level = 1 \<Longrightarrow> wf_ei arr S) \<Longrightarrow> wf_ei t S \<Longrightarrow> dec_inv base S buf L v \<Longrightarrow> S < 2 ^ 31 \<Longrightarrow> L < 2 ^ 31 \<Longrightarrow>
      1 \<le> level \<Longrightarrow> decoded_bytes v \<le> L \<Longrightarrow>
      bounded (decode_elem arr t base buf L level tvl v) (length (out_struct v)) (dec_bound level L)"
    and "ei_array e = Some l \<Longrightarrow> wf_ei l (elem_size e) \<Longrightarrow> d + n * elem_size e \<le> length out \<Longrightarrow>
      elem_size e < 2 ^ 31 \<Longrightarrow> a + src_len \<le> length buf \<Longrightarrow> src_len < 2 ^ 31 \<Longrightarrow> 2 \<le> level \<Longrightarrow>
      bounded (qmi_decode_struct_elem e out d buf a n tvl level src_len) (length out) src_len"
    and "ei_array e = Some l \<Longrightarrow> wf_ei l (elem_size e) \<Longrightarrow> d + n * elem_size e \<le> length out \<Longrightarrow>
      elem_size e < 2 ^ 31 \<Longrightarrow> 0 \<le> dec \<Longrightarrow> dec \<le> int tvl \<Longrightarrow> a + (tvl - nat dec) \<le> length buf \<Longrightarrow> tvl < 2 ^ 31 \<Longrightarrow>
      2 \<le> level \<Longrightarrow>
      bounded (decode_struct_loop e out d buf a n tvl level dec) (length out) tvl"
proof (induction ei out base buf pos L level and arr t base buf L level v and arr t base buf L level tvl v
    and e out d buf a n tvl level src_len and e out d buf a n tvl level dec arbitrary: S and S and S and l and l
    rule: qmi_decode_decode_loop_decode_elem_qmi_decode_struct_elem_decode_struct_loop.induct)
  case (1 ei out base buf pos L level)
  then obtain l where l: "ei = Some l" "wf_ei l S" by (cases ei) auto
  let ?v = "\<lparr>dec_len_value = 0, buf_src = pos, decoded_bytes = 0, out_struct = out\<rparr>"
  have i: "dec_inv base S buf L ?v" using 1(3,5) by (simp add: dec_inv_def)
  have w: "wf_ei (if level = 1 then l else l) S" using l(2) by simp
  have "bounded (decode_loop l l base buf L level ?v) (length (out_struct ?v)) (dec_bound level L)"
    by (rule 1(1) [OF l(1) w i 1(4,6,7)]) simp
  then show ?case by (simp only: l(1) qmi_decode.simps option.case dec_vars.simps)
next
  case (2 arr t base buf L level v)
  have fin: "bounded (Some (s32 (int (decoded_bytes v)), out_struct v)) (length (out_struct v)) (dec_bound level L)"
    using s32_le [of "int (decoded_bytes v)"] 2(9) by (intro boundedI) auto
  consider "\<not> decoded_bytes v < L" | "decoded_bytes v < L" "level = 1" | "decoded_bytes v < L" "level \<noteq> 1" by blast
  then show ?case
  proof cases
    case 1
    then show ?thesis using fin unfolding decode_loop.simps [of arr t base buf L level v] by simp
  next
    case c: 2
    have "bounded (decode_loop arr t base buf L 1 v) (length (out_struct v)) (L + 65535)"
      by (rule decode_loop_top_step [OF 2(5,7) c(1)])
         (use 2(1) [OF _ _ _ _ refl refl refl] 2(2) [OF _ _ _ _ refl refl refl] 2(4-9) c in \<open>auto simp del: One_nat_def\<close>)
    then show ?thesis using c by simp
  next
    case c: 3
    have wt: "wf_ei t S" using 2(4) c by simp
    then obtain e r where t: "t = e # r" by (cases t) auto
    have "bounded (decode_elem arr (e # r) base buf L level (u32_sub L (decoded_bytes v)) v) (length (out_struct v))
      (dec_bound level L)" if "\<not> (2 \<le> level \<and> data_type e = QMI_EOTI)"
      using c wt t 2(5-8) that by (intro 2(3) [OF _ c(2) t that]) simp_all
    then show ?thesis using fin c t unfolding decode_loop.simps [of arr t base buf L level v] by auto
  qed
next
  case (3 arr t base buf L level tvl v)
  show ?case
  proof (rule decode_elem_step [OF 3(4-7,9)])
    fix t1 out1 tvl2 v2 e r n
    assume k: "decode_opt_flag t base (out_struct v) = Some (t1, out1)"
      "decode_data_len t1 base buf L tvl (v\<lparr>out_struct := out1\<rparr>) = Some (Inr (e # r, tvl2, v2))"
      and n: "decode_count e (dec_len_value v2) = Some n"
      and ty: "is_basic (data_type e) \<or> data_type e = QMI_STRUCT \<or> data_type e = QMI_STRING"
    note IH = 3(1) [OF k(1) refl k(2) refl refl refl refl n refl refl ty]
    assume "wf_ei (e # r) S" "dec_inv base S buf L v2" "decoded_bytes v2 \<le> L"
    note w = this
    show "bounded (decode_payload e base buf L level tvl2 n v2) (length (out_struct v2)) (L - decoded_bytes v2)"
    proof (rule decode_payload_bounded [OF w(1,2) 3(6,7) w(3) n ty])
      fix l
      assume st: "data_type e = QMI_STRUCT" and l: "ei_array e = Some l" "wf_ei l (elem_size e)"
        and b: "base + offset e + n * elem_size e \<le> length (out_struct v2)" "elem_size e < 2 ^ 31"
          "buf_src v2 + (L - decoded_bytes v2) \<le> length buf"
        and sub: "u32_sub L (decoded_bytes v2) = L - decoded_bytes v2"
      have nb: "\<not> is_basic (data_type e)" using st by (simp add: is_basic_def)
      show "bounded (qmi_decode_struct_elem e (out_struct v2) (base + offset e) buf (buf_src v2) n tvl2 (level + 1)
        (L - decoded_bytes v2)) (length (out_struct v2)) (L - decoded_bytes v2)"
        using 3(7,8) by (intro IH [unfolded sub, OF nb st l b]) simp_all
    qed
  next
    fix t1 out1 tvl2 v2 e r n rc out3 v3
    assume k: "decode_opt_flag t base (out_struct v) = Some (t1, out1)"
      "decode_data_len t1 base buf L tvl (v\<lparr>out_struct := out1\<rparr>) = Some (Inr (e # r, tvl2, v2))"
      and n: "decode_count e (dec_len_value v2) = Some n"
      and ty: "is_basic (data_type e) \<or> data_type e = QMI_STRUCT \<or> data_type e = QMI_STRING"
      and p: "decode_payload e base buf L level tvl2 n v2 = Some (rc, out3)" "\<not> rc < 0" and wr: "wf_ei r S"
      and v3: "v3 = update_decode_variables (nat rc) (v2\<lparr>dec_len_value := n, out_struct := out3\<rparr>)"
      and i3: "dec_inv base S buf L v3" "decoded_bytes v3 \<le> L"
    have w: "wf_ei (if level = 1 then arr else r) S" using 3(3) wr by simp
    have le: "decoded_bytes v3 \<le> dec_bound level L" using i3(2) by simp
    show "bounded (decode_loop arr r base buf L level v3) (length (out_struct v3)) (dec_bound level L)"
      using 3(2) [OF k(1) refl k(2) refl refl refl refl n refl refl ty p(1) [unfolded decode_payload_def Let_def] refl p(2)
          w i3(1) [unfolded v3] 3(6-8) le [unfolded v3]]
      unfolding v3 .
  qed
next
  case (4 e out d buf a n tvl level src_len)
  show ?case
    using 4 by (auto simp: qmi_decode_struct_elem.simps bounded_def)
next
  case (5 e out d buf a n tvl level dec)
  have u: "u32_of_int dec = nat dec" using 5(7,8,10) by (simp add: u32_of_int_def)
  have sub: "u32_sub tvl (nat dec) = tvl - nat dec" using 5(8,10) by (intro u32_sub_id) simp_all
  have wf: "wf_ei (case ei_array e of Some l \<Rightarrow> l | None \<Rightarrow> []) (elem_size e)" using 5(3,4) by simp
  show ?case
  proof (rule decode_struct_loop_step [OF 5(5,7,8,10)])
    fix m
    assume m: "n = Suc m" "nat dec < tvl"
    show "bounded (qmi_decode (ei_array e) out d buf a (tvl - nat dec) level) (length out) (tvl - nat dec)"
      using 5(1) [unfolded u sub, OF m wf] 5(5,6,9-11) m by simp
  next
    fix m rc out1
    assume m: "n = Suc m" "nat dec < tvl"
      and r: "qmi_decode (ei_array e) out d buf a (tvl - nat dec) level = Some (rc, out1)" "\<not> rc < 0"
        "rc \<le> int (tvl - nat dec)" "length out1 = length out" "s32 (dec + rc) = dec + rc"
    have "a + nat rc + (tvl - nat (dec + rc)) \<le> length buf" using r(2,3) 5(7,8,9) by linarith
    then show "bounded (decode_struct_loop e out1 (d + elem_size e) buf (a + nat rc) m tvl level (dec + rc)) (length out) tvl"
      using 5(2) [unfolded u sub, OF m r(1) refl r(2) 5(3,4), unfolded r(5)] m r 5(5-11) by (simp add: algebra_simps)
  qed
qed

section \<open>Encoding stays inside the buffer\<close>

text \<open>
  Descriptor arrays the encoder handles safely at a level: elements fit, skipping an absent element ends
  inside the array, there are no strings below the outermost level, and a nested structure begins with a
  basic element or a length, whose check leaves room for the group's header.
\<close>

definition leads :: "qmi_elem_info list \<Rightarrow> bool" where
  "leads l = (case l of [] \<Rightarrow> False | e # _ \<Rightarrow> is_basic (data_type e) \<or> data_type e = QMI_DATA_LEN)"

function enc_wf :: "qmi_elem_info list \<Rightarrow> nat \<Rightarrow> nat \<Rightarrow> bool" where
  "enc_wf [] S level = False"
| "enc_wf (e # r) S level =
     (data_type e = QMI_EOTI
      \<or> elem_fits e S \<and> enc_wf r S level
        \<and> (data_type e = QMI_OPT_FLAG \<longrightarrow>
             (case skip_to_next_elem (e # r) level of None \<Rightarrow> False | Some r' \<Rightarrow> enc_wf r' S level))
        \<and> (data_type e = QMI_DATA_LEN \<longrightarrow> elem_size e \<le> 4 \<and>
             (case skip_to_next_elem r level of None \<Rightarrow> False | Some r' \<Rightarrow> enc_wf r' S level))
        \<and> (data_type e = QMI_STRING \<longrightarrow> level = 1)
        \<and> (data_type e = QMI_STRUCT \<longrightarrow>
             (case ei_array e of None \<Rightarrow> False | Some l \<Rightarrow> leads l \<and> enc_wf l (elem_size e) (level + 1))))"
  by pat_completeness auto
termination
  by (relation "measure (\<lambda>(l, S, level). size_list size l)")
     (auto dest!: size_ei_array dest: skip_to_next_size skip_to_next_size')

definition written :: "(int \<times> byte list) option \<Rightarrow> nat \<Rightarrow> int \<Rightarrow> bool" where
  "written x len b \<longleftrightarrow> (\<exists>rc out. x = Some (rc, out) \<and> length out = len \<and> rc \<le> b)"

lemma writtenI: "length out = len \<Longrightarrow> rc \<le> b \<Longrightarrow> written (Some (rc, out)) len b"
  by (simp add: written_def)

lemma writtenE:
  assumes "written x len b"
  obtains rc out where "x = Some (rc, out)" "length out = len" "rc \<le> b"
  using assms by (auto simp: written_def)

lemma encode_basic_elem_eq:
  assumes "n * sz < 2 ^ 31" and "d + n * sz \<le> length dst" and "a + n * sz \<le> length src"
  obtains dst' where "qmi_encode_basic_elem dst d src a n sz = Some (n * sz, dst')" "length dst' = length dst"
proof -
  obtain dst' where "copy_elems dst d src a n sz = Some dst'" "length dst' = length dst"
    using copy_elems_Some [OF assms(3,2)] by blast
  then show thesis using that assms(1) by (simp add: qmi_encode_basic_elem_def width_simps)
qed

text \<open>
  The variables in step: the write position is behind the bytes counted, after a header at the
  outermost level; \<open>o'\<close> is where the encoding started. Below that level the caller has kept three
  bytes back.
\<close>

definition enc_inv :: "nat \<Rightarrow> nat \<Rightarrow> nat \<Rightarrow> nat \<Rightarrow> qmi_elem_info list \<Rightarrow> enc_vars \<Rightarrow> bool" where
  "enc_inv o' len L level l v \<longleftrightarrow>
     length (out_buf v) = len \<and> buf_dst v = o' + encoded_bytes v + (if level = 1 then tlv_hdr else 0)
     \<and> (if level = 1
        then o' + L \<le> len \<and> encoded_bytes v \<le> L \<and> o' \<le> tlv_pointer v
          \<and> tlv_pointer v + tlv_len v = o' + encoded_bytes v \<and> \<not> encode_tlv v
        else o' + L \<le> len + tlv_hdr \<and> (encoded_bytes v + tlv_hdr \<le> L \<or> encoded_bytes v = 0 \<and> leads l))"

text \<open>What a round leaves behind before the header is written: the header still fits.\<close>

definition enc_mid :: "nat \<Rightarrow> nat \<Rightarrow> nat \<Rightarrow> nat \<Rightarrow> enc_vars \<Rightarrow> bool" where
  "enc_mid o' len L level v \<longleftrightarrow>
     length (out_buf v) = len \<and> buf_dst v = o' + encoded_bytes v + (if level = 1 then tlv_hdr else 0)
     \<and> encoded_bytes v + tlv_hdr \<le> L
     \<and> (if level = 1 then o' + L \<le> len \<and> o' \<le> tlv_pointer v \<and> tlv_pointer v + tlv_len v = o' + encoded_bytes v else o' + L \<le> len + tlv_hdr)"

lemma finish_tlv_safe:
  assumes mid: "enc_mid o' len L level v" and L: "L < 2 ^ 31"
  shows "\<exists>v'. finish_tlv e level v = Some v' \<and> enc_inv o' len L level l v'"
proof (cases "encode_tlv v \<and> level = 1")
  case True
  let ?h = "[word_of_nat (tlv_type e), word_of_nat (tlv_len v), word_of_nat (tlv_len v div 256)] :: byte list"
  have fit: "tlv_pointer v + 3 \<le> length (out_buf v)" using mid True unfolding enc_mid_def by simp
  then obtain out where w: "wr (out_buf v) (tlv_pointer v) ?h = Some out" by (simp add: wr_def)
  have u: "u32 (encoded_bytes v + 3) = encoded_bytes v + 3"
    using mid L by (intro u32_id) (simp add: enc_mid_def)
  show ?thesis using True w length_wr [OF w] mid u by (auto simp: finish_tlv_def enc_mid_def enc_inv_def)
next
  case False
  then show ?thesis using mid by (auto simp: finish_tlv_def enc_mid_def enc_inv_def split: if_splits)
qed

lemma update_encode_mid:
  assumes inv: "enc_inv o' len L level l v" and L: "L < 2 ^ 31" and fit: "encoded_bytes v + rc + tlv_hdr \<le> L"
    and out: "length out = len" and v': "v' = update_encode_variables rc (v\<lparr>out_buf := out\<rparr>)"
  shows "enc_mid o' len L level v'"
proof -
  have e: "u32 (encoded_bytes v + rc) = encoded_bytes v + rc" using fit L by (intro u32_id) simp
  show ?thesis
  proof (cases "level = 1")
    case True
    have "tlv_len v + rc < 2 ^ 32" using inv fit L True unfolding enc_inv_def by simp
    then have "u32 (tlv_len v + rc) = tlv_len v + rc" by (rule u32_id)
    then show ?thesis
      using inv fit out e True unfolding v' by (simp add: enc_mid_def enc_inv_def update_encode_variables_def)
  next
    case False
    then show ?thesis using inv fit out e unfolding v' by (simp add: enc_mid_def enc_inv_def update_encode_variables_def)
  qed
qed

definition strings_end :: "byte list \<Rightarrow> nat \<Rightarrow> qmi_elem_info list \<Rightarrow> bool" where
  "strings_end src base l = list_all (\<lambda>e. data_type e = QMI_STRING \<longrightarrow> strlen src (base + offset e) \<noteq> None) l"

lemma skip_same_set: "skip_same t l = Some r \<Longrightarrow> set r \<subseteq> set l"
  by (induction l arbitrary: t) (auto split: if_splits)

lemma skip_to_next_set: "skip_to_next_elem l level = Some r \<Longrightarrow> set r \<subseteq> set l"
  by (cases l) (auto simp: skip_to_next_elem_def split: if_splits dest: skip_same_set)

lemma strings_end_mono: "strings_end src base l \<Longrightarrow> set r \<subseteq> set l \<Longrightarrow> strings_end src base r"
  by (auto simp: strings_end_def list_all_iff)

lemma strlen_from_less: "strlen_from bs = Some n \<Longrightarrow> n < length bs"
  by (induction bs arbitrary: n) (auto split: if_splits)

lemma strlen_less: "strlen src a = Some n \<Longrightarrow> a + n < length src"
  using strlen_from_less [of "drop a src" n] by (simp add: strlen_def)

lemma enc_inv_len_value: "enc_inv o' len L level l (v\<lparr>data_len_value := n\<rparr>) = enc_inv o' len L level l v"
  by (simp add: enc_inv_def)

lemma enc_inv_room:
  assumes "enc_inv o' len L level l v" and "encoded_bytes v + n + tlv_hdr \<le> L"
  shows "buf_dst v + n \<le> length (out_buf v)"
  using assms by (auto simp: enc_inv_def split: if_splits)

lemma encode_count_fits:
  assumes "encode_count e dlv = Some n" and "elem_fits e S"
    and "data_type e \<noteq> QMI_OPT_FLAG" "data_type e \<noteq> QMI_DATA_LEN"
  shows "1 \<le> n" "n * elem_size e \<le> elem_len e * elem_size e" "offset e + elem_len e * elem_size e \<le> S"
proof -
  have "n \<le> elem_len e" and "1 \<le> n"
    using assms by (auto simp: encode_count_def elem_fits_def split: qmi_array_type.splits if_splits)
  then show "1 \<le> n" "n * elem_size e \<le> elem_len e * elem_size e" by (auto intro: mult_le_mono1)
  show "offset e + elem_len e * elem_size e \<le> S"
    using assms by (simp add: elem_fits_def)
qed

lemma encode_opt_flag_safe:
  assumes wf: "enc_wf (e # r) S level" and inv: "enc_inv o' len L level (e # r) v" and ty: "data_type e = QMI_OPT_FLAG"
    and src: "base + S \<le> length src"
  shows "\<exists>r' v'. encode_opt_flag e r level src (base + offset e) v = Some (Inr (r', v)) \<and> finish_tlv e level v = Some v'
    \<and> enc_wf r' S level \<and> set r' \<subseteq> set (e # r) \<and> enc_inv o' len L level r' v'"
proof -
  have fits: "base + offset e + 1 \<le> length src" using wf ty src by (simp add: elem_fits_def)
  obtain sk where sk: "skip_to_next_elem (e # r) level = Some sk" "enc_wf sk S level"
    using wf ty by (auto split: option.splits)
  have f: "finish_tlv e level v = Some v" using inv by (auto simp: finish_tlv_def enc_inv_def)
  have i: "enc_inv o' len L level l v" for l using inv ty by (auto simp: enc_inv_def leads_def is_basic_def)
  have wr: "enc_wf r S level" using wf ty by simp
  obtain b where b: "rd src (base + offset e) 1 = Some b" using fits by (simp add: rd_def)
  show ?thesis
  proof (cases "b = [0]")
    case True
    then show ?thesis using b sk f i skip_to_next_set [OF sk(1)] by (simp add: encode_opt_flag_def)
  next
    case False
    then show ?thesis using b wr f i by (auto simp: encode_opt_flag_def)
  qed
qed

lemma encode_data_len_safe:
  assumes wf: "enc_wf (e # r) S level" and inv: "enc_inv o' len L level (e # r) v" and ty: "data_type e = QMI_DATA_LEN"
    and src: "base + S \<le> length src" and L: "L < 2 ^ 31"
  shows "(\<exists>err. encode_data_len e r level L src (base + offset e) v = Some (Inl err) \<and> err \<le> - 3) \<or>
    (\<exists>r' v1 v'. encode_data_len e r level L src (base + offset e) v = Some (Inr (r', v1)) \<and> finish_tlv e level v1 = Some v'
      \<and> enc_wf r' S level \<and> set r' \<subseteq> set (e # r) \<and> enc_inv o' len L level r' v')"
proof -
  have fits: "base + offset e + elem_size e \<le> length src" "elem_size e \<le> 4" using wf ty src by (simp_all add: elem_fits_def)
  obtain sk where sk: "skip_to_next_elem r level = Some sk" "enc_wf sk S level"
    using wf ty by (auto split: option.splits)
  have wr: "enc_wf r S level" using wf ty by simp
  obtain bs where bs: "rd src (base + offset e) (elem_size e) = Some bs" using fits by (simp add: rd_def)
  have "length bs \<le> 4" using length_rd [OF bs] fits by simp
  then obtain dl where dl: "put_low (data_len_value v) bs = Some dl" by (simp add: put_low_def wr_def)
  have u: "u32 (len_size e + encoded_bytes v) = len_size e + encoded_bytes v"
    using inv L by (intro u32_id) (auto simp: enc_inv_def len_size_def split: if_splits)
  show ?thesis
  proof (cases "len_size e + encoded_bytes v + 3 > L")
    case True
    then show ?thesis by (simp add: encode_data_len_def bs dl u)
  next
    case False
    let ?n = "len_size e"
    have fit: "encoded_bytes v + ?n + 3 \<le> L" using False by simp
    have "1 * ?n < 2 ^ 31" "buf_dst v + 1 * ?n \<le> length (out_buf v)" "0 + 1 * ?n \<le> length (le_bytes 4 dl)"
      using enc_inv_room [OF inv fit] by (simp_all add: len_size_def)
    then obtain out where b: "qmi_encode_basic_elem (out_buf v) (buf_dst v) (le_bytes 4 dl) 0 1 ?n = Some (1 * ?n, out)"
      "length out = length (out_buf v)"
      by (rule encode_basic_elem_eq)
    define v1 where "v1 = update_encode_variables ?n (v\<lparr>data_len_value := dl, out_buf := out\<rparr>)"
    have out: "length out = len" using b(2) inv by (simp add: enc_inv_def)
    have "enc_mid o' len L level v1"
      using inv by (intro update_encode_mid [OF _ L _ out, of o' level "e # r" "v\<lparr>data_len_value := dl\<rparr>"])
         (use fit in \<open>simp_all add: enc_inv_len_value v1_def update_encode_variables_def\<close>)
    then have mid: "enc_mid o' len L level v1" "enc_mid o' len L level (v1\<lparr>encode_tlv := False\<rparr>)"
      by (simp_all add: enc_mid_def)
    have run: "encode_data_len e r level L src (base + offset e) v =
      (if dl = 0 then Some (Inr (sk, v1)) else Some (Inr (r, v1\<lparr>encode_tlv := False\<rparr>)))"
      using False b(1) by (simp add: encode_data_len_def bs dl u sk(1) v1_def Let_def)
    show ?thesis
    proof (cases "dl = 0")
      case True
      obtain v' where "finish_tlv e level v1 = Some v'" "enc_inv o' len L level sk v'"
        using finish_tlv_safe [OF mid(1) L] by blast
      then show ?thesis using run True sk(2) skip_to_next_set [OF sk(1)] by auto
    next
      case False
      obtain v' where "finish_tlv e level (v1\<lparr>encode_tlv := False\<rparr>) = Some v'" "enc_inv o' len L level r v'"
        using finish_tlv_safe [OF mid(2) L] by blast
      then show ?thesis using run False wr by auto
    qed
  qed
qed

lemma encode_basic_safe:
  assumes wf: "enc_wf (e # r) S level" and inv: "enc_inv o' len L level (e # r) v" and ty: "is_basic (data_type e)"
    and src: "base + S \<le> length src" and L: "L < 2 ^ 31" and S: "S < 2 ^ 31"
    and n: "encode_count e dlv = Some (data_len_value v)"
  shows "(\<exists>err. encode_basic e L src (base + offset e) v = Some (Inl err) \<and> err \<le> - 3) \<or>
    (\<exists>v1 v'. encode_basic e L src (base + offset e) v = Some (Inr v1) \<and> finish_tlv e level v1 = Some v'
      \<and> enc_inv o' len L level r v')"
proof -
  have t: "data_type e \<noteq> QMI_EOTI" "data_type e \<noteq> QMI_OPT_FLAG" "data_type e \<noteq> QMI_DATA_LEN"
    using ty by (auto simp: is_basic_def)
  have fits: "elem_fits e S" using wf t by simp
  note c = encode_count_fits [OF n fits t(2,3)]
  let ?n = "data_len_value v * elem_size e"
  have n31: "?n < 2 ^ 31" using c S by linarith
  have "encoded_bytes v \<le> L" using inv by (auto simp: enc_inv_def split: if_splits)
  then have u: "u32 (u32 ?n + encoded_bytes v) = ?n + encoded_bytes v"
    using n31 L by (simp add: width_simps)
  show ?thesis
  proof (cases "?n + encoded_bytes v + 3 > L")
    case True
    then show ?thesis by (simp add: encode_basic_def u)
  next
    case False
    have fit: "encoded_bytes v + ?n + 3 \<le> L" using False by simp
    have sf: "base + offset e + ?n \<le> length src" using c src by linarith
    obtain out where b: "qmi_encode_basic_elem (out_buf v) (buf_dst v) src (base + offset e) (data_len_value v)
      (elem_size e) = Some (?n, out)" "length out = length (out_buf v)"
      by (rule encode_basic_elem_eq [OF n31 enc_inv_room [OF inv fit] sf])
    have out: "length out = len" using b(2) inv by (simp add: enc_inv_def)
    from finish_tlv_safe [OF update_encode_mid [OF inv L fit out refl] L]
    obtain v' where "finish_tlv e level (update_encode_variables ?n (v\<lparr>out_buf := out\<rparr>)) = Some v'"
      "enc_inv o' len L level r v'" by blast
    then show ?thesis using False b(1) by (simp add: encode_basic_def u)
  qed
qed

lemma encode_string_safe:
  assumes wf: "enc_wf (e # r) S 1" and inv: "enc_inv o' len L 1 (e # r) v" and ty: "data_type e = QMI_STRING"
    and src: "length src < 2 ^ 31" and L: "L < 2 ^ 31" and st: "strlen src (base + offset e) \<noteq> None"
  shows "written (qmi_encode_string_elem e (out_buf v) (buf_dst v) src (base + offset e) (u32_sub L (encoded_bytes v)) 1)
    len (int (L - encoded_bytes v) - 3)"
proof -
  obtain sl where sl: "strlen src (base + offset e) = Some sl" using st by blast
  note sl' = strlen_less [OF sl]
  have u: "u32 sl = sl" using sl' src by (intro u32_id) simp
  have es: "elem_size e = 1" using wf ty by (simp add: elem_fits_def)
  have le: "encoded_bytes v \<le> L" using inv by (simp add: enc_inv_def)
  have sub: "u32_sub L (encoded_bytes v) = L - encoded_bytes v" using le L by (intro u32_sub_id) simp_all
  have len: "length (out_buf v) = len" using inv by (simp add: enc_inv_def)
  show ?thesis
  proof (cases "sl > elem_len e \<or> sl + 3 > L - encoded_bytes v")
    case True
    then show ?thesis using len by (auto simp: qmi_encode_string_elem_def sl u sub written_def Let_def)
  next
    case False
    have fit: "encoded_bytes v + sl + 3 \<le> L" using False le by linarith
    have "sl * 1 < 2 ^ 31" "buf_dst v + sl * 1 \<le> length (out_buf v)" "base + offset e + sl * 1 \<le> length src"
      using sl' src enc_inv_room [OF inv fit] by simp_all
    then obtain out where b: "qmi_encode_basic_elem (out_buf v) (buf_dst v) src (base + offset e) sl 1 = Some (sl * 1, out)"
      "length out = length (out_buf v)" by (rule encode_basic_elem_eq)
    have s: "s32 (int sl) = int sl" using sl' src by (intro s32_int_id) simp
    show ?thesis using False b fit len s by (simp add: qmi_encode_string_elem_def sl u sub written_def Let_def es)
  qed
qed

text \<open>The end of a round whose element encoded itself: the count is updated and the header written.\<close>

lemma encode_rest_step:
  assumes inv: "enc_inv o' len L level l v" and L: "L < 2 ^ 31" and rc: "0 \<le> rc" "rc \<le> int (L - encoded_bytes v) - 3"
    and out: "length out = len"
  shows "\<exists>v'. finish_tlv e level (update_encode_variables (nat rc) (v\<lparr>out_buf := out\<rparr>)) = Some v'
    \<and> enc_inv o' len L level r v'"
proof -
  have "encoded_bytes v + nat rc + 3 \<le> L" using rc by linarith
  from finish_tlv_safe [OF update_encode_mid [OF inv L this out refl] L] show ?thesis .
qed

lemma encode_struct_loop_step:
  assumes enc: "0 \<le> enc" "enc \<le> int L" and L: "L < 2 ^ 31"
    and fin: "n = 0 \<Longrightarrow> enc \<le> int L - 3"
    and nested: "\<And>m. n = Suc m \<Longrightarrow>
      written (qmi_encode (ei_array e) out d src a (L - nat enc) level) (length out) (int (L - nat enc) - 3)"
    and rest: "\<And>m rc out1. n = Suc m \<Longrightarrow> qmi_encode (ei_array e) out d src a (L - nat enc) level = Some (rc, out1) \<Longrightarrow>
      \<not> rc < 0 \<Longrightarrow> rc \<le> int (L - nat enc) - 3 \<Longrightarrow> length out1 = length out \<Longrightarrow> s32 (enc + rc) = enc + rc \<Longrightarrow>
      written (qmi_encode_struct_elem e out1 (d + nat rc) src (a + elem_size e) m L level (enc + rc)) (length out) (int L - 3)"
  shows "written (qmi_encode_struct_elem e out d src a n L level enc) (length out) (int L - 3)"
proof (cases n)
  case 0
  then show ?thesis using fin by (simp add: written_def)
next
  case (Suc m)
  have u: "u32_of_int enc = nat enc" using enc L by (simp add: u32_of_int_def)
  have sub: "u32_sub L (nat enc) = L - nat enc" using enc L by (intro u32_sub_id) simp_all
  from nested [OF Suc] obtain rc out1 where r: "qmi_encode (ei_array e) out d src a (L - nat enc) level = Some (rc, out1)"
    "length out1 = length out" "rc \<le> int (L - nat enc) - 3" by (rule writtenE)
  show ?thesis
  proof (cases "rc < 0")
    case True
    then show ?thesis using Suc r enc by (simp add: u sub written_def)
  next
    case False
    have s: "s32 (enc + rc) = enc + rc" using enc r(3) False L by (intro s32_id) simp_all
    show ?thesis using Suc r(1) False s rest [OF Suc r(1) False r(3,2) s] by (simp add: u sub)
  qed
qed

lemma encode_loop_end:
  assumes "enc_inv o' len L level (e # r) v" and "L < 2 ^ 31" and "data_type e = QMI_EOTI"
  shows "written (Some (s32 (int (encoded_bytes v)), out_buf v)) len (if level = 1 then int L else int L - 3)"
  using assms s32_le [of "int (encoded_bytes v)"]
  by (intro writtenI) (auto simp: enc_inv_def leads_def is_basic_def split: if_splits)

abbreviation (input) enc_bound :: "nat \<Rightarrow> nat \<Rightarrow> int" where
  "enc_bound level L \<equiv> if level = 1 then int L else int L - 3"

lemma encode_bounded:
  shows "ei = Some l \<Longrightarrow> enc_wf l S level \<Longrightarrow> level = 1 \<or> leads l \<Longrightarrow> base + S \<le> length src \<Longrightarrow> length src < 2 ^ 31 \<Longrightarrow>
      (level = 1 \<longrightarrow> strings_end src base l) \<Longrightarrow>
      o' + L \<le> length out + (if level = 1 then 0 else tlv_hdr) \<Longrightarrow> L < 2 ^ 31 \<Longrightarrow> 1 \<le> level \<Longrightarrow>
      written (qmi_encode ei out o' src base L level) (length out) (enc_bound level L)"
    and "enc_wf l' S' level' \<Longrightarrow> enc_inv o2 len L' level' l' v \<Longrightarrow> base' + S' \<le> length src' \<Longrightarrow> length src' < 2 ^ 31 \<Longrightarrow>
      (level' = 1 \<longrightarrow> strings_end src' base' l') \<Longrightarrow> L' < 2 ^ 31 \<Longrightarrow> 1 \<le> level' \<Longrightarrow>
      written (encode_loop l' src' base' L' level' v) len (enc_bound level' L')"
    and "ei_array e = Some l3 \<Longrightarrow> enc_wf l3 (elem_size e) level3 \<Longrightarrow> leads l3 \<Longrightarrow> 2 \<le> level3 \<Longrightarrow>
      a + n * elem_size e \<le> length src3 \<Longrightarrow> length src3 < 2 ^ 31 \<Longrightarrow> 0 \<le> enc \<Longrightarrow> enc \<le> int L3 \<Longrightarrow>
      (n = 0 \<longrightarrow> enc \<le> int L3 - 3) \<Longrightarrow> L3 < 2 ^ 31 \<Longrightarrow> d + (L3 - nat enc) \<le> length out3 + tlv_hdr \<Longrightarrow>
      written (qmi_encode_struct_elem e out3 d src3 a n L3 level3 enc) (length out3) (int L3 - 3)"
proof (induction ei out o' src base L level and l' src' base' L' level' v and e out3 d src3 a n L3 level3 enc
    arbitrary: l S and S' o2 len and l3
    rule: qmi_encode_encode_loop_qmi_encode_struct_elem.induct)
  case (1 ei out o' src base L level)
  let ?v = "\<lparr>data_len_value = 0, buf_dst = (if level = 1 then o' + 3 else o'), tlv_pointer = o', tlv_len = 0,
    encoded_bytes = 0, encode_tlv = False, out_buf = out\<rparr>"
  have "enc_inv o' (length out) L level l ?v" using 1(4,8) by (auto simp: enc_inv_def)
  from 1(1) [OF 1(2,3) this 1(5-7,9,10)] show ?case by (simp only: 1(2) qmi_encode.simps option.case)
next
  case (2 src base L level v)
  then show ?case by simp
next
  case (3 e r src base L level v)
  let ?a = "base + offset e" and ?B = "enc_bound level L"
  have len: "length (out_buf v) = len" using 3(7) by (simp add: enc_inv_def)
  have S: "S' < 2 ^ 31" using 3(8,9) by simp
  have err: "written (Some (x, out_buf v)) len ?B" if "x \<le> - 3" for x
    using that len by (simp add: written_def)
  show ?case
  proof (cases "data_type e = QMI_EOTI \<or> encode_count e (data_len_value v) = None")
    case True
    then show ?thesis using err [of "- EINVAL"] encode_loop_end [OF 3(7,11)] by auto
  next
    case False
    then obtain n where ne: "data_type e \<noteq> QMI_EOTI" and n: "encode_count e (data_len_value v) = Some n" by blast
    define v0 where "v0 = v\<lparr>data_len_value := n\<rparr>"
    have i0: "enc_inv o2 len L level (e # r) v0" using 3(7) by (simp add: v0_def enc_inv_len_value)
    have n0: "encode_count e (data_len_value v) = Some (data_len_value v0)" using n by (simp add: v0_def)
    have wr: "enc_wf r S' level" using 3(6) ne by simp
    have str: "level = 1 \<longrightarrow> strings_end src base r'" if "set r' \<subseteq> set (e # r)" for r'
      using 3(10) strings_end_mono that by blast
    have sr: "level = 1 \<longrightarrow> strings_end src base r" by (rule str) auto
    note IH = 3(1) [OF ne n v0_def refl] 3(2) [OF ne n v0_def refl] 3(3) [OF ne n v0_def refl]
      3(4) [OF ne n v0_def refl] 3(5) [OF ne n v0_def refl]
    consider "data_type e = QMI_OPT_FLAG" | "data_type e = QMI_DATA_LEN" | "is_basic (data_type e)"
      | "data_type e = QMI_STRUCT \<or> data_type e = QMI_STRING"
      using ne by (cases "data_type e") (auto simp: is_basic_def)
    then show ?thesis
    proof cases
      case 1
      from encode_opt_flag_safe [OF 3(6) i0 1 3(8)] obtain r' v' where
        k: "encode_opt_flag e r level src ?a v0 = Some (Inr (r', v0))" "finish_tlv e level v0 = Some v'"
        "enc_wf r' S' level" "set r' \<subseteq> set (e # r)" "enc_inv o2 len L level r' v'" by blast
      show ?thesis using IH(1) [OF 1 k(1) refl refl k(2,3,5) 3(8,9) str [OF k(4)] 3(11,12)] k ne n 1
        by (simp add: v0_def)
    next
      case 2
      have no: "data_type e \<noteq> QMI_OPT_FLAG" using 2 by simp
      from encode_data_len_safe [OF 3(6) i0 2 3(8,11)] show ?thesis
      proof (elim disjE exE conjE)
        fix x assume "encode_data_len e r level L src ?a v0 = Some (Inl x)" "x \<le> - 3"
        then show ?thesis using ne n 2 err [of x] by (simp add: v0_def)
      next
        fix r' v1 v'
        assume k: "encode_data_len e r level L src ?a v0 = Some (Inr (r', v1))" "finish_tlv e level v1 = Some v'"
          "enc_wf r' S' level" "set r' \<subseteq> set (e # r)" "enc_inv o2 len L level r' v'"
        show ?thesis using IH(2) [OF no 2 k(1) refl refl k(2,3,5) 3(8,9) str [OF k(4)] 3(11,12)] k ne n 2
          by (simp add: v0_def)
      qed
    next
      case c: 3
      have no: "data_type e \<noteq> QMI_OPT_FLAG" "data_type e \<noteq> QMI_DATA_LEN" using c by (auto simp: is_basic_def)
      from encode_basic_safe [OF 3(6) i0 c 3(8,11) S n0] show ?thesis
      proof (elim disjE exE conjE)
        fix x assume "encode_basic e L src ?a v0 = Some (Inl x)" "x \<le> - 3"
        then show ?thesis using ne n c no err [of x] by (simp add: v0_def)
      next
        fix v1 v'
        assume k: "encode_basic e L src ?a v0 = Some (Inr v1)" "finish_tlv e level v1 = Some v'"
          "enc_inv o2 len L level r v'"
        show ?thesis using IH(3) [OF no c k(1) refl k(2) wr k(3) 3(8,9) sr 3(11,12)] k ne n c no
          by (simp add: v0_def)
      qed
    next
      case c: 4
      have no: "data_type e \<noteq> QMI_OPT_FLAG" "data_type e \<noteq> QMI_DATA_LEN" "\<not> is_basic (data_type e)"
        using c by (auto simp: is_basic_def)
      have le: "encoded_bytes v0 \<le> L" using i0 by (auto simp: enc_inv_def split: if_splits)
      have sub: "u32_sub L (encoded_bytes v0) = L - encoded_bytes v0" using le 3(11) by (intro u32_sub_id) simp_all
      let ?x = "if data_type e = QMI_STRUCT
         then qmi_encode_struct_elem e (out_buf v0) (buf_dst v0) src ?a n (u32_sub L (encoded_bytes v0)) (level + 1) 0
         else qmi_encode_string_elem e (out_buf v0) (buf_dst v0) src ?a (u32_sub L (encoded_bytes v0)) level"
      have "written ?x len (int (L - encoded_bytes v0) - 3)"
      proof (cases "data_type e = QMI_STRUCT")
        case True
        obtain l where l: "ei_array e = Some l" "leads l" "enc_wf l (elem_size e) (level + 1)"
          using 3(6) True by (auto split: option.splits)
        have fits: "elem_fits e S'" using 3(6) ne by simp
        note f = encode_count_fits [OF n fits no(1,2)]
        have "?a + n * elem_size e \<le> length src" using f 3(8) by linarith
        moreover have "buf_dst v0 + (L - encoded_bytes v0) \<le> length (out_buf v0) + 3"
          using i0 le by (auto simp: enc_inv_def split: if_splits)
        ultimately show ?thesis using IH(4) [OF no True l(1,3,2)] 3(9,11,12) f(1) True sub len by (simp add: v0_def)
      next
        case False
        then have st: "data_type e = QMI_STRING" using c by blast
        then have l1: "level = 1" using 3(6) by simp
        have "strlen src ?a \<noteq> None" using 3(10) l1 st by (simp add: strings_end_def)
        then show ?thesis using encode_string_safe [of e r S' o2 len L v0 src base] 3(6,9,11) i0 st l1 by simp
      qed
      then obtain rc out where k: "?x = Some (rc, out)" "length out = len" "rc \<le> int (L - encoded_bytes v0) - 3"
        by (rule writtenE)
      have unf: "encode_loop (e # r) src base L level v = (if rc < 0 then Some (rc, out)
        else finish_tlv e level (update_encode_variables (nat rc) (v0\<lparr>out_buf := out\<rparr>)) \<bind>
          (\<lambda>v2. encode_loop r src base L level v2))"
        unfolding encode_loop.simps n option.case Let_def v0_def [symmetric] using ne no k(1) by simp
      show ?thesis
      proof (cases "rc < 0")
        case True
        then show ?thesis unfolding unf using k le by (simp add: written_def)
      next
        case False
        then have "0 \<le> rc" by simp
        from encode_rest_step [OF i0 3(11) this k(3,2)] obtain v' where
          f: "finish_tlv e level (update_encode_variables (nat rc) (v0\<lparr>out_buf := out\<rparr>)) = Some v'" "enc_inv o2 len L level r v'"
          by blast
        show ?thesis unfolding unf using False f IH(5) [OF no k(1) refl False f(1) wr f(2) 3(8,9) sr 3(11,12)] by simp
      qed
    qed
  qed
next
  case (4 e out d src a L level enc)
  then show ?case by (simp add: written_def)
next
  case (5 e out d src a n L level enc)
  have u: "u32_of_int enc = nat enc" using 5(9,10,12) by (simp add: u32_of_int_def)
  have sub: "u32_sub L (nat enc) = L - nat enc" using 5(10,12) by (intro u32_sub_id) simp_all
  show ?case
  proof (rule encode_struct_loop_step [OF 5(9,10,12)])
    fix m
    assume "Suc n = Suc m"
    show "written (qmi_encode (ei_array e) out d src a (L - nat enc) level) (length out) (int (L - nat enc) - 3)"
      using 5(1) [unfolded u sub, OF 5(3,4)] 5(5-13) by simp
  next
    fix m rc out1
    assume m: "Suc n = Suc m"
      and r: "qmi_encode (ei_array e) out d src a (L - nat enc) level = Some (rc, out1)" "\<not> rc < 0"
        "rc \<le> int (L - nat enc) - 3" "length out1 = length out" "s32 (enc + rc) = enc + rc"
    have "d + nat rc + (L - nat (enc + rc)) \<le> length out1 + 3" "enc + rc \<le> int L - 3"
      using r(2-4) 5(9,10,13) by linarith+
    then show "written (qmi_encode_struct_elem e out1 (d + nat rc) src (a + elem_size e) m L level (enc + rc))
      (length out) (int L - 3)"
      using 5(2) [unfolded u sub, OF r(1) refl r(2) 5(3-6), unfolded r(5)] m r 5(7-12) by simp
  qed simp
qed

section \<open>Round trip of messages with basic fields\<close>

text \<open>
  The wire format of a mandatory basic field (a value or an array of fixed length): its type, the
  length in two bytes and the bytes of the structure.
\<close>

definition field_size :: "qmi_elem_info \<Rightarrow> nat" where
  "field_size e = (if array_type e = NO_ARRAY then 1 else elem_len e) * elem_size e"

definition field_bytes :: "byte list \<Rightarrow> qmi_elem_info \<Rightarrow> byte list" where
  "field_bytes src e = take (field_size e) (drop (offset e) src)"

definition tlv_header :: "qmi_elem_info \<Rightarrow> byte list" where
  "tlv_header e = [word_of_nat (tlv_type e), word_of_nat (field_size e), word_of_nat (field_size e div 256)]"

definition wire :: "byte list \<Rightarrow> qmi_elem_info list \<Rightarrow> byte list" where
  "wire src es = concat (map (\<lambda>e. tlv_header e @ field_bytes src e) es)"

definition plain_field :: "nat \<Rightarrow> qmi_elem_info \<Rightarrow> bool" where
  "plain_field S e \<longleftrightarrow> is_basic (data_type e) \<and> array_type e \<noteq> VAR_LEN_ARRAY \<and> elem_fits e S
     \<and> tlv_type e < 256 \<and> field_size e < 65536"

definition copy_field :: "byte list \<Rightarrow> qmi_elem_info \<Rightarrow> byte list \<Rightarrow> byte list" where
  "copy_field src e out = take (offset e) out @ field_bytes src e @ drop (offset e + field_size e) out"

lemma wire_simps [simp]: "wire src [] = []" "wire src (e # es) = tlv_header e @ field_bytes src e @ wire src es"
  by (simp_all add: wire_def)

lemma plain_field_fits:
  assumes "plain_field S e"
  shows "offset e + field_size e \<le> S"
proof -
  have f: "elem_fits e S" "data_type e \<noteq> QMI_OPT_FLAG" "data_type e \<noteq> QMI_DATA_LEN"
    using assms by (auto simp: plain_field_def is_basic_def)
  then have "1 * elem_size e \<le> elem_len e * elem_size e" by (intro mult_le_mono1) (simp add: elem_fits_def)
  moreover have "offset e + elem_len e * elem_size e \<le> S" using f by (simp add: elem_fits_def)
  moreover have "field_size e = 1 * elem_size e \<or> field_size e = elem_len e * elem_size e" by (simp add: field_size_def)
  ultimately show ?thesis by linarith
qed

lemma length_field_bytes: "plain_field S e \<Longrightarrow> S \<le> length src \<Longrightarrow> length (field_bytes src e) = field_size e"
  using plain_field_fits [of S e] by (simp add: field_bytes_def)

lemma plain_count: "plain_field S e \<Longrightarrow> encode_count e x = Some (if array_type e = NO_ARRAY then 1 else elem_len e)"
  "plain_field S e \<Longrightarrow> decode_count e x = Some (if array_type e = NO_ARRAY then 1 else elem_len e)"
  by (cases "array_type e"; simp add: plain_field_def encode_count_def decode_count_def)+

lemma wr_append:
  "wr (xs @ ys @ zs) (length xs) bs = Some (xs @ bs @ zs)" if "length ys = length bs"
  using that by (simp add: wr_def)

text \<open>One field: the payload goes behind the space for the header, then the header is filled in.\<close>

lemma encode_plain_round:
  assumes p: "plain_field S e" and S: "S = length src" "S < 2 ^ 31" and L: "L < 2 ^ 31"
    and fit: "length pre + 3 + field_size e \<le> L"
    and out: "length gap = 3 + field_size e"
  shows "encode_loop (e # r) src 0 L 1
      \<lparr>data_len_value = x, buf_dst = length pre + 3, tlv_pointer = length pre, tlv_len = 0,
       encoded_bytes = length pre, encode_tlv = False, out_buf = pre @ gap @ rest\<rparr>
    = encode_loop r src 0 L 1
      \<lparr>data_len_value = (if array_type e = NO_ARRAY then 1 else elem_len e), buf_dst = length pre + 3 + field_size e + 3,
       tlv_pointer = length pre + 3 + field_size e, tlv_len = 0, encoded_bytes = length pre + 3 + field_size e,
       encode_tlv = False, out_buf = pre @ tlv_header e @ field_bytes src e @ rest\<rparr>"
proof -
  let ?n = "if array_type e = NO_ARRAY then 1 else elem_len e"
  have t: "data_type e \<noteq> QMI_EOTI" "data_type e \<noteq> QMI_OPT_FLAG" "data_type e \<noteq> QMI_DATA_LEN" "is_basic (data_type e)"
    using p by (auto simp: plain_field_def is_basic_def)
  have fs: "field_size e = ?n * elem_size e" by (simp add: field_size_def)
  have f31: "field_size e < 2 ^ 31" and off: "offset e + field_size e \<le> length src"
    using plain_field_fits [OF p] S by simp_all
  have u: "u32 (field_size e) = field_size e" "u32 (field_size e + length pre) = field_size e + length pre"
    "u32 (length pre + field_size e) = length pre + field_size e"
    "u32 (length pre + field_size e + 3) = length pre + field_size e + 3"
    using f31 fit L by (simp_all add: width_simps)
  obtain g1 g2 where g: "gap = g1 @ g2" "length g1 = 3" "length g2 = field_size e"
    using out by (metis append_take_drop_id diff_add_inverse length_append length_drop length_take min_absorb2 le_add1)
  have fb: "length (field_bytes src e) = field_size e" using length_field_bytes [OF p] S by simp
  have "copy_elems (pre @ gap @ rest) (length pre + 3) src (offset e) ?n (elem_size e)
    = wr (pre @ gap @ rest) (length pre + 3) (field_bytes src e)"
    unfolding field_bytes_def fs using off g out by (intro copy_elems_eq) (simp_all add: fs)
  also have "\<dots> = Some (pre @ g1 @ field_bytes src e @ rest)"
    using wr_append [of g2 "field_bytes src e" "pre @ g1" rest] g fb by simp
  finally have c: "copy_elems (pre @ gap @ rest) (length pre + 3) src (offset e) ?n (elem_size e)
    = Some (pre @ g1 @ field_bytes src e @ rest)" .
  have h: "wr (pre @ g1 @ field_bytes src e @ rest) (length pre) (tlv_header e)
    = Some (pre @ tlv_header e @ field_bytes src e @ rest)"
    using wr_append [of g1 "tlv_header e" "pre" "field_bytes src e @ rest"] g by (simp add: tlv_header_def)
  show ?thesis
    using t plain_count(1) [OF p] c h u fit
    by (simp add: encode_basic_def qmi_encode_basic_elem_def fs [symmetric] update_encode_variables_def finish_tlv_def
        tlv_header_def add.commute add.left_commute)
qed

lemma encode_plain_loop:
  assumes "list_all (plain_field (length src)) es" and "length src < 2 ^ 31" and "L < 2 ^ 31" and "data_type z = QMI_EOTI"
    and "length pre + length (wire src es) \<le> L" and "length gap = length (wire src es)"
  shows "encode_loop (es @ [z]) src 0 L 1
      \<lparr>data_len_value = x, buf_dst = length pre + 3, tlv_pointer = length pre, tlv_len = 0,
       encoded_bytes = length pre, encode_tlv = False, out_buf = pre @ gap @ rest\<rparr>
    = Some (int (length pre + length (wire src es)), pre @ wire src es @ rest)"
  using assms
proof (induction es arbitrary: pre gap x)
  case Nil
  then show ?case by (simp add: s32_int_id)
next
  case (Cons e es)
  have p: "plain_field (length src) e" using Cons.prems(1) by simp
  have fb: "length (field_bytes src e) = field_size e" using length_field_bytes [OF p] by simp
  have th: "length (tlv_header e) = 3" by (simp add: tlv_header_def)
  define g1 where "g1 = take (3 + field_size e) gap"
  define g2 where "g2 = drop (3 + field_size e) gap"
  have g: "gap = g1 @ g2" "length g1 = 3 + field_size e" "length g2 = length (wire src es)"
    using Cons.prems(6) fb th by (simp_all add: g1_def g2_def)
  let ?pre = "pre @ tlv_header e @ field_bytes src e"
  have lp: "length ?pre = length pre + 3 + field_size e" using fb th by simp
  have fit: "length pre + 3 + field_size e \<le> L" using Cons.prems(5) fb th by simp
  note step = encode_plain_round [OF p refl Cons.prems(2,3) fit g(2), of "es @ [z]" x "g2 @ rest"]
  have "encode_loop (es @ [z]) src 0 L 1
      \<lparr>data_len_value = (if array_type e = NO_ARRAY then 1 else elem_len e), buf_dst = length ?pre + 3,
       tlv_pointer = length ?pre, tlv_len = 0, encoded_bytes = length ?pre, encode_tlv = False,
       out_buf = ?pre @ g2 @ rest\<rparr>
    = Some (int (length ?pre + length (wire src es)), ?pre @ wire src es @ rest)"
    using Cons.prems g fb th by (intro Cons.IH) simp_all
  then show ?case using step g(1) lp fb th by (simp add: add.assoc)
qed

lemma find_ei_plain:
  assumes "list_all (plain_field S) es" and "distinct (map tlv_type es)" and "e \<in> set es" and "data_type z = QMI_EOTI"
  shows "\<exists>r. find_ei (es @ [z]) (tlv_type e) = Some (Some (e # r))"
  using assms
proof (induction es)
  case (Cons f es)
  have f: "data_type f \<noteq> QMI_EOTI" using Cons.prems(1) by (auto simp: plain_field_def is_basic_def)
  have e: "tlv_type e < 256" using Cons.prems by (auto simp: list_all_iff plain_field_def)
  have "tlv_type e = tlv_type f \<Longrightarrow> e = f" using Cons.prems(2,3) by (auto simp: rev_image_eqI)
  then show ?case using Cons f e by (auto simp: u8_id)
qed simp

lemma dec_vars_all:
  "v\<lparr>dec_len_value := a, out_struct := b, buf_src := c, decoded_bytes := d\<rparr>
     = \<lparr>dec_len_value = a, buf_src = c, decoded_bytes = d, out_struct = b\<rparr>"
  by (cases v) simp

text \<open>Decoding one field: the header names the descriptor and the payload goes to its place.\<close>

lemma decode_plain_round:
  assumes p: "plain_field S e" and f: "find_ei arr (tlv_type e) = Some (Some (e # r))" and S: "S = length src" "S = length (out_struct v)" "S < 2 ^ 31" and L: "L < 2 ^ 31"
    and buf: "drop (buf_src v) buf = tlv_header e @ field_bytes src e @ rest" and fit: "decoded_bytes v + 3 + field_size e \<le> L"
  shows "decode_loop arr t 0 buf L 1 v = decode_loop arr r 0 buf L 1
      \<lparr>dec_len_value = (if array_type e = NO_ARRAY then 1 else elem_len e), buf_src = buf_src v + 3 + field_size e, decoded_bytes = decoded_bytes v + 3 + field_size e,
       out_struct = copy_field src e (out_struct v)\<rparr>"
proof -
  have ty: "data_type e \<noteq> QMI_OPT_FLAG" "data_type e \<noteq> QMI_DATA_LEN" "is_basic (data_type e)"
    "tlv_type e < 256" "field_size e < 65536"
    using p by (auto simp: plain_field_def is_basic_def)
  have fb: "length (field_bytes src e) = field_size e" using length_field_bytes [OF p] S by simp
  have len: "buf_src v + 3 + field_size e \<le> length buf"
    using arg_cong [OF buf, of length] fb by (simp add: tlv_header_def)
  have h: "rd buf (buf_src v) 3 = Some (tlv_header e)" using len buf by (simp add: rd_def tlv_header_def)
  have hv: "unat (tlv_header e ! 0) = tlv_type e"
    "unat (tlv_header e ! 1) + 256 * unat (tlv_header e ! 2) = field_size e"
    using ty by (simp_all add: tlv_header_def unat_byte_of_nat)
  let ?n = "if array_type e = NO_ARRAY then 1 else elem_len e"
  let ?v1 = "update_decode_variables 3 v"
  have lt: "decoded_bytes v < L" "\<not> L < decoded_bytes v + 3" using fit by simp_all
  have u: "u32 (decoded_bytes v + 3) = decoded_bytes v + 3" "u32 (field_size e) = field_size e"
    "u32_sub L (decoded_bytes v + 3) = L - (decoded_bytes v + 3)" "s32 (int (field_size e)) = int (field_size e)"
    "u32 (decoded_bytes v + 3 + field_size e) = decoded_bytes v + 3 + field_size e"
    using fit L ty by (simp_all add: width_simps)
  have off: "offset e + field_size e \<le> S" by (rule plain_field_fits [OF p])
  have fs: "?n * elem_size e = field_size e" by (simp add: field_size_def)
  have "take (field_size e) (drop (buf_src v + 3) buf) = field_bytes src e"
    using arg_cong [OF buf, of "drop 3"] fb by (simp add: tlv_header_def add.commute)
  then have c: "copy_elems (out_struct v) (offset e) buf (buf_src v + 3) ?n (elem_size e) = Some (copy_field src e (out_struct v))"
    using off S len fb by (subst copy_elems_eq) (simp_all add: fs wr_def copy_field_def)
  have d: "qmi_decode_basic_elem (out_struct v) (offset e) buf (buf_src v + 3) ?n (elem_size e) (L - (decoded_bytes v + 3))
    = Some (int (field_size e), copy_field src e (out_struct v))"
    using fit by (simp only: qmi_decode_basic_elem_def fs u c bind.bind_lunit) simp
  have el: "decode_elem arr (e # r) 0 buf L 1 (field_size e) ?v1 = decode_loop arr r 0 buf L 1
      \<lparr>dec_len_value = ?n, buf_src = buf_src v + 3 + field_size e, decoded_bytes = decoded_bytes v + 3 + field_size e,
       out_struct = copy_field src e (out_struct v)\<rparr>"
    unfolding decode_elem.simps [of arr] using ty d u plain_count(2) [OF p]
    by (simp add: decode_opt_flag_def decode_data_len_def update_decode_variables_def dec_vars_all)
  have "decode_loop arr t 0 buf L 1 v = decode_elem arr (e # r) 0 buf L 1 (field_size e) ?v1"
    by (subst decode_loop.simps) (use lt h hv f in \<open>simp add: Let_def\<close>)
  then show ?thesis by (rule trans [OF _ el])
qed

lemma decode_plain_loop:
  assumes "list_all (plain_field S) arr" and "distinct (map tlv_type arr)" and "set es \<subseteq> set arr"
    and "data_type z = QMI_EOTI" and "S = length src" and "S = length (out_struct v)" and "S < 2 ^ 31" and "L < 2 ^ 31"
    and "drop (buf_src v) buf = wire src es @ rest" and "decoded_bytes v + length (wire src es) = L"
  shows "decode_loop (arr @ [z]) t 0 buf L 1 v = Some (int L, fold (copy_field src) es (out_struct v))"
  using assms
proof (induction es arbitrary: v t)
  case Nil
  then show ?case by (subst decode_loop.simps) (simp add: s32_int_id)
next
  case (Cons e es)
  have e: "e \<in> set arr" and p: "plain_field S e" using Cons.prems by (auto simp: list_all_iff)
  have fb: "length (field_bytes src e) = field_size e" using length_field_bytes [OF p] Cons.prems by simp
  have th: "length (tlv_header e) = 3" by (simp add: tlv_header_def)
  have buf: "drop (buf_src v) buf = tlv_header e @ field_bytes src e @ (wire src es @ rest)" using Cons.prems(9) by simp
  have fit: "decoded_bytes v + 3 + field_size e \<le> L" using Cons.prems(10) fb th by simp
  let ?v = "\<lparr>dec_len_value = (if array_type e = NO_ARRAY then 1 else elem_len e), buf_src = buf_src v + 3 + field_size e, decoded_bytes = decoded_bytes v + 3 + field_size e,
       out_struct = copy_field src e (out_struct v)\<rparr>"
  obtain t' where f: "find_ei (arr @ [z]) (tlv_type e) = Some (Some (e # t'))"
    using find_ei_plain [OF Cons.prems(1,2) e Cons.prems(4)] by blast
  note step = decode_plain_round [OF p f Cons.prems(5-8) buf fit, of t]
  have "drop (buf_src v + 3 + field_size e) buf = wire src es @ rest"
    using arg_cong [OF buf, of "drop (3 + field_size e)"] fb th by (simp add: add.commute add.left_commute)
  moreover have "S = length (copy_field src e (out_struct v))"
    using plain_field_fits [OF p] Cons.prems(6) fb by (simp add: copy_field_def)
  ultimately have "decode_loop (arr @ [z]) t' 0 buf L 1 ?v = Some (int L, fold (copy_field src) es (out_struct ?v))"
    using Cons.prems fb th by (intro Cons.IH) simp_all
  then show ?case using step by simp
qed

lemma copy_field_nth:
  assumes "plain_field (length src) e" and "length out = length src" and "i < length out"
  shows "copy_field src e out ! i = (if offset e \<le> i \<and> i < offset e + field_size e then src ! i else out ! i)"
proof -
  have off: "offset e + field_size e \<le> length out" using plain_field_fits [OF assms(1)] assms(2) by simp
  have fb: "length (field_bytes src e) = field_size e" using length_field_bytes [OF assms(1)] by simp
  consider "i < offset e" | "offset e \<le> i" "i < offset e + field_size e" | "offset e + field_size e \<le> i" by linarith
  then show ?thesis
  proof cases
    case 2
    then have "field_bytes src e ! (i - offset e) = src ! i"
      using off assms(2) by (simp add: field_bytes_def)
    moreover have "i - offset e < field_size e" using 2 by linarith
    ultimately show ?thesis using 2 off fb by (simp add: copy_field_def nth_append)
  next
    case 3
    then have "\<not> i - offset e < field_size e" by linarith
    then show ?thesis using 3 off fb assms(3) by (simp add: copy_field_def nth_append)
  qed (use off fb assms(3) in \<open>simp add: copy_field_def nth_append\<close>)
qed

lemma length_copy_field: "plain_field (length src) e \<Longrightarrow> length out = length src \<Longrightarrow> length (copy_field src e out) = length src"
  using plain_field_fits [of "length src" e] length_field_bytes [of "length src" e src] by (simp add: copy_field_def)

lemma fold_copy_field:
  assumes "list_all (plain_field (length src)) es" and "length out = length src" and "i < length src"
  shows "fold (copy_field src) es out ! i
    = (if \<exists>e \<in> set es. offset e \<le> i \<and> i < offset e + field_size e then src ! i else out ! i)"
  using assms
proof (induction es arbitrary: out)
  case (Cons e es)
  have p: "plain_field (length src) e" using Cons.prems(1) by simp
  have nth: "copy_field src e out ! i = (if offset e \<le> i \<and> i < offset e + field_size e then src ! i else out ! i)"
    using Cons.prems by (intro copy_field_nth [OF p]) simp_all
  have "fold (copy_field src) (e # es) out ! i
    = (if \<exists>e \<in> set es. offset e \<le> i \<and> i < offset e + field_size e then src ! i else copy_field src e out ! i)"
    using Cons.IH [of "copy_field src e out"] Cons.prems length_copy_field [OF p] by simp
  then show ?case unfolding nth by (simp, blast)
qed simp

section \<open>Claims\<close>

text \<open>
  C6 (safety). Decoding is memory safe for every message, well-formed or not: with a sound descriptor
  array the decoder never reads outside the message, never writes outside the structure and never runs
  off a descriptor array; it always returns a value or an error.
\<close>

theorem qmi_decode_message_memory_safe:
  assumes "wf_ei ei (length c_struct)" and "length c_struct < 2 ^ 31"
    and "7 \<le> len" and "len \<le> length buf" and "len < 2 ^ 31"
  shows "\<exists>rc out. qmi_decode_message (Some buf) len (Some ei) (Some c_struct) = Some (rc, out)
    \<and> length out = length c_struct"
proof -
  have l: "u32 (u64_sub len 7) = len - 7" using assms(3,5) by (simp add: width_simps)
  have "bounded (qmi_decode (Some ei) c_struct 0 buf 7 (len - 7) 1) (length c_struct) (len - 7 + 65535)"
    using decode_bounded(1) [of "Some ei" "length c_struct" 0 c_struct 7 "len - 7" buf 1] assms by simp
  then show ?thesis using assms(3) l by (auto simp: qmi_decode_message_def bounded_def)
qed

theorem qmi_decode_message_memory_safe_witness:
  "\<exists>rc out. qmi_decode_message (Some (replicate 7 0 @ [0, 255, 255, 1])) 11 (Some qmi_response_type_v01_ei) (Some [0, 0, 0, 0])
     = Some (rc, out) \<and> length out = length [0, 0, 0, 0 :: byte]"
  by (rule qmi_decode_message_memory_safe) (simp_all add: qmi_response_type_v01_ei_def elem_fits_def)

text \<open>
  C29 (bounds). Encoding stays inside the buffer it allocates, the seven bytes of the header and the length the
  caller gives: for descriptors whose fields lie in the structure, without nested strings and whose nested
  structures begin with a basic element or a length, and for structures in whose memory every string is
  terminated, the encoder fails with an error rather than write past the end, and a message it returns is
  at most the header and the length given.
\<close>

theorem qmi_encode_message_in_bounds:
  assumes "enc_wf ei (length c_struct) 1" and "length c_struct < 2 ^ 31" and "len < 2 ^ 31"
    and "strings_end c_struct 0 ei"
  shows "\<exists>r. qmi_encode_message True type msg_id len txn_id (Some ei) (Some c_struct) = Some r \<and>
    (case r of Inl err \<Rightarrow> err < 0 | Inr (msg, n) \<Rightarrow> length msg = 7 + len \<and> n \<le> 7 + len)"
proof -
  have "written (qmi_encode (Some ei) (replicate len 0) 0 c_struct 0 len 1) len (int len)"
    using encode_bounded(1) [of "Some ei" ei "length c_struct" 1 0 c_struct 0 len "replicate len 0"] assms by simp
  then obtain rc out where k: "qmi_encode (Some ei) (replicate len 0) 0 c_struct 0 len 1 = Some (rc, out)"
    "length out = len" "rc \<le> int len" by (rule writtenE)
  have u: "u32 len = len" using assms(3) by (simp add: width_simps)
  show ?thesis
    using k by (cases "rc < 0") (simp_all add: qmi_encode_message_def u qmi_header_bytes_def)
qed

theorem qmi_encode_message_in_bounds_witness:
  "\<exists>r. qmi_encode_message True 2 1 4 9 (Some qmi_response_type_v01_ei) (Some [1, 0, 2, 0]) = Some r \<and>
     (case r of Inl err \<Rightarrow> err < 0 | Inr (msg, n) \<Rightarrow> length msg = 7 + 4 \<and> n \<le> 7 + 4)"
  by (rule qmi_encode_message_in_bounds)
     (simp_all add: qmi_response_type_v01_ei_def elem_fits_def strings_end_def)

lemma length_qmi_header: "length (qmi_header_bytes type tid msg_id n) = 7"
  by (simp add: qmi_header_bytes_def)

text \<open>What the encoder makes of plain fields, and what the decoder makes of it, whatever follows in its buffer.\<close>

lemma encode_plain:
  assumes "list_all (plain_field (length src)) es" and "data_type z = QMI_EOTI"
    and "length src < 2 ^ 31" and "length (wire src es) \<le> len" and "len + 7 < 2 ^ 31"
  shows "qmi_encode_message True type msg_id len txn_id (Some (es @ [z])) (Some src)
    = Some (Inr (qmi_header_bytes type txn_id msg_id (length (wire src es)) @ wire src es @ replicate (len - length (wire src es)) 0,
        7 + length (wire src es)))"
proof -
  let ?w = "wire src es"
  let ?body = "?w @ replicate (len - length ?w) 0"
  have split: "replicate len (0 :: byte) = [] @ replicate (length ?w) 0 @ replicate (len - length ?w) 0"
    using assms(4) by (simp add: replicate_add [symmetric])
  have "encode_loop (es @ [z]) src 0 len 1
      \<lparr>data_len_value = 0, buf_dst = length ([] :: byte list) + 3, tlv_pointer = length ([] :: byte list), tlv_len = 0,
       encoded_bytes = length ([] :: byte list), encode_tlv = False,
       out_buf = [] @ replicate (length ?w) 0 @ replicate (len - length ?w) 0\<rparr>
    = Some (int (length ([] :: byte list) + length ?w), [] @ ?w @ replicate (len - length ?w) 0)"
    by (rule encode_plain_loop) (use assms in simp_all)
  then have "qmi_encode (Some (es @ [z])) (replicate len 0) 0 src 0 len 1 = Some (int (length ?w), ?body)"
    unfolding split by (simp add: qmi_encode.simps)
  moreover have "u32 len = len" using assms(5) by (simp add: width_simps)
  ultimately show ?thesis by (simp add: qmi_encode_message_def)
qed

lemma decode_plain:
  assumes "list_all (plain_field (length src)) es" and "distinct (map tlv_type es)" and "data_type z = QMI_EOTI"
    and "length src < 2 ^ 31" and "length out = length src" and "length (wire src es) + 7 < 2 ^ 31" and "length h = 7"
  shows "qmi_decode_message (Some (h @ wire src es @ rest)) (7 + length (wire src es)) (Some (es @ [z])) (Some out)
    = Some (int (length (wire src es)), fold (copy_field src) es out)"
proof -
  let ?w = "wire src es"
  have u: "u32 (u64_sub (7 + length ?w) 7) = length ?w" using assms(6) by (simp add: width_simps)
  have "decode_loop (es @ [z]) (es @ [z]) 0 (h @ ?w @ rest) (length ?w) 1
      \<lparr>dec_len_value = 0, buf_src = 7, decoded_bytes = 0, out_struct = out\<rparr>
    = Some (int (length ?w), fold (copy_field src) es
        (out_struct \<lparr>dec_len_value = 0, buf_src = 7, decoded_bytes = 0, out_struct = out\<rparr>))"
    by (rule decode_plain_loop [where S = "length src" and rest = rest]) (use assms in simp_all)
  then show ?thesis using u by (simp add: qmi_decode_message_def qmi_decode.simps)
qed

text \<open>
  C5 (roundtrip). For a message of mandatory basic fields with different types, decoding what the
  encoder produced gives back every field of the structure and leaves all other bytes alone.
\<close>

theorem qmi_message_roundtrip:
  assumes "list_all (plain_field (length src)) es" and "distinct (map tlv_type es)" and "data_type z = QMI_EOTI"
    and "length src < 2 ^ 31" and "length out = length src" and "length (wire src es) \<le> len" and "len + 7 < 2 ^ 31"
  shows "\<exists>msg n out'. qmi_encode_message True type msg_id len txn_id (Some (es @ [z])) (Some src) = Some (Inr (msg, n)) \<and>
    qmi_decode_message (Some msg) n (Some (es @ [z])) (Some out) = Some (int (n - 7), out') \<and>
    (\<forall>i < length src. out' ! i =
       (if \<exists>e \<in> set es. offset e \<le> i \<and> i < offset e + field_size e then src ! i else out ! i))"
proof (intro exI conjI)
  show "\<forall>i < length src. fold (copy_field src) es out ! i =
    (if \<exists>e \<in> set es. offset e \<le> i \<and> i < offset e + field_size e then src ! i else out ! i)"
    using fold_copy_field [OF assms(1,5)] by blast
  show "qmi_encode_message True type msg_id len txn_id (Some (es @ [z])) (Some src)
    = Some (Inr (qmi_header_bytes type txn_id msg_id (length (wire src es)) @ wire src es @ replicate (len - length (wire src es)) 0,
        7 + length (wire src es)))"
    by (rule encode_plain [OF assms(1,3,4,6,7)])
  show "qmi_decode_message (Some (qmi_header_bytes type txn_id msg_id (length (wire src es)) @ wire src es @ replicate (len - length (wire src es)) 0))
    (7 + length (wire src es)) (Some (es @ [z])) (Some out) = Some (int (7 + length (wire src es) - 7), fold (copy_field src) es out)"
    using decode_plain [OF assms(1-5) _ length_qmi_header] assms(6,7) by simp
qed

theorem qmi_message_roundtrip_witness:
  "\<exists>msg n out'. qmi_encode_message True 0 32 64 1 (Some ([Elem QMI_UNSIGNED_2_BYTE 1 2 NO_ARRAY 1 0 None,
       Elem QMI_UNSIGNED_1_BYTE 2 1 STATIC_ARRAY 2 2 None] @ [Elem QMI_EOTI 0 0 NO_ARRAY 0 0 None])) (Some [1, 2, 3, 4])
     = Some (Inr (msg, n)) \<and>
     qmi_decode_message (Some msg) n (Some ([Elem QMI_UNSIGNED_2_BYTE 1 2 NO_ARRAY 1 0 None,
       Elem QMI_UNSIGNED_1_BYTE 2 1 STATIC_ARRAY 2 2 None] @ [Elem QMI_EOTI 0 0 NO_ARRAY 0 0 None])) (Some [0, 0, 0, 0])
     = Some (int (n - 7), out') \<and>
     (\<forall>i < length [1, 2, 3, 4 :: byte]. out' ! i =
       (if \<exists>e \<in> set [Elem QMI_UNSIGNED_2_BYTE 1 2 NO_ARRAY 1 0 None, Elem QMI_UNSIGNED_1_BYTE 2 1 STATIC_ARRAY 2 2 None].
          offset e \<le> i \<and> i < offset e + field_size e then [1, 2, 3, 4] ! i else [0, 0, 0, 0] ! i))"
  by (rule qmi_message_roundtrip)
     (simp_all add: plain_field_def is_basic_def elem_fits_def field_size_def tlv_header_def field_bytes_def)

lemma le_nat_le_bytes: "le_nat (le_bytes k n) = n mod 256 ^ k"
proof (induction k arbitrary: n)
  case (Suc k)
  have "n mod (256 * 256 ^ k) = 256 * (n div 256 mod 256 ^ k) + n mod 256" by (rule mod_mult2_eq)
  then show ?case using Suc by (simp add: unat_byte_of_nat)
qed simp

text \<open>A one-byte length replaces only the lowest byte of the variable.\<close>

lemma decode_local_byte:
  assumes "1 \<le> src_len" and "a < length src" and "256 \<le> var" and "var < 2 ^ 32"
  shows "\<exists>v. decode_local var src a 1 src_len = Some (1, v) \<and> 256 \<le> v"
proof -
  let ?v = "unat (src ! a) + 256 * (var div 256 mod 256 ^ 3)"
  have t: "take (1 * 1) (drop a src) = [src ! a]" using assms(2) by (simp add: take_Suc hd_drop_conv_nth)
  have b: "le_bytes 4 var = word_of_nat var # le_bytes 3 (var div 256)"
  proof -
    have "(4 :: nat) = Suc 3" by simp
    then show ?thesis by (simp only: le_bytes.simps)
  qed
  have "copy_elems (le_bytes 4 var) 0 src a 1 1 = wr (le_bytes 4 var) 0 (take (1 * 1) (drop a src))"
    using assms(2) by (intro copy_elems_eq) simp_all
  then have c: "copy_elems (le_bytes 4 var) 0 src a 1 1 = Some (src ! a # le_bytes 3 (var div 256))"
    unfolding t b by (simp add: wr_def)
  have "qmi_decode_basic_elem (le_bytes 4 var) 0 src a 1 1 src_len = Some (1, src ! a # le_bytes 3 (var div 256))"
    unfolding qmi_decode_basic_elem_def c using assms(1) by (simp add: u32_def s32_def)
  then have "decode_local var src a 1 src_len = Some (1, ?v)"
    by (simp add: decode_local_def le_nat_le_bytes)
  moreover have "var div 256 mod 256 ^ 3 = var div 256" using assms(4) by simp
  moreover have "1 \<le> var div 256" using assms(3) by simp
  ultimately show ?thesis by auto
qed

lemma decode_stale_length:
  assumes D: "data_type D = QMI_DATA_LEN" "elem_size D = 1" "offset D + 4 \<le> length (out_struct v)" "tlv_type D < 256"
    and V: "array_type V = VAR_LEN_ARRAY" "elem_len V \<le> 255"
    and f: "find_ei arr (tlv_type D) = Some (Some (D # V # r))"
    and v: "256 \<le> dec_len_value v" "dec_len_value v < 2 ^ 32"
    and buf: "drop (buf_src v) buf = word_of_nat (tlv_type D) # lo # hi # c # rest"
    and fit: "decoded_bytes v + 4 \<le> L" "L < 2 ^ 31"
  shows "\<exists>out. decode_loop arr t 0 buf L 1 v = Some (- ETOOSMALL, out)"
proof -
  let ?h = "[word_of_nat (tlv_type D), lo, hi]" and ?v1 = "update_decode_variables 3 v"
  have len: "buf_src v + 4 \<le> length buf" using arg_cong [OF buf, of length] by simp
  have h: "rd buf (buf_src v) 3 = Some ?h" using len buf by (simp add: rd_def)
  have ty: "unat (word_of_nat (tlv_type D) :: byte) = tlv_type D" using D(4) by (simp add: unat_byte_of_nat)
  have u: "u32 (decoded_bytes v + 3) = decoded_bytes v + 3"
    "u32_sub L (decoded_bytes v + 3) = L - (decoded_bytes v + 3)" using fit by (simp_all add: width_simps)
  have lp: "decode_loop arr t 0 buf L 1 v = decode_elem arr (D # V # r) 0 buf L 1 (unat lo + 256 * unat hi) ?v1"
    by (subst decode_loop.simps) (use fit h ty f in \<open>simp add: Let_def\<close>)
  have "1 \<le> L - (decoded_bytes v + 3)" "buf_src v + 3 < length buf" using fit len by linarith+
  then obtain x where x: "decode_local (dec_len_value v) buf (buf_src v + 3) 1 (L - (decoded_bytes v + 3)) = Some (1, x)" "256 \<le> x"
    using decode_local_byte [OF _ _ v] by blast
  obtain out where w: "wr (out_struct v) (offset D) (le_bytes 4 x) = Some out" using D(3) by (simp add: wr_def)
  let ?v2 = "update_decode_variables 1 (?v1\<lparr>dec_len_value := x, out_struct := out\<rparr>)"
  have dd: "decode_data_len (D # V # r) 0 buf L (unat lo + 256 * unat hi) ?v1
    = Some (Inr (V # r, u32_sub (unat lo + 256 * unat hi) 1, ?v2))"
    using D(1,2) x(1) w u by (simp add: decode_data_len_def len_size_def update_decode_variables_def)
  have "decode_count V (dec_len_value ?v2) = None"
    using V x(2) by (simp add: decode_count_def update_decode_variables_def)
  then have "decode_elem arr (D # V # r) 0 buf L 1 (unat lo + 256 * unat hi) ?v1 = Some (- ETOOSMALL, out_struct ?v2)"
    unfolding decode_elem.simps [of arr "D # V # r"] using D(1) dd by (simp add: decode_opt_flag_def)
  then show ?thesis using lp by simp
qed

text \<open>
  C30 (error). The length variable of the decoder is not cleared between elements: after a fixed array
  of 256 entries or more, any array with a one-byte length is refused as too long, whatever its length
  is, although the message is the one the encoder makes.
\<close>

theorem length_field_keeps_stale_bytes:
  assumes "plain_field (length src) A" and "array_type A = STATIC_ARRAY" and "256 \<le> elem_len A" and "0 < elem_size A"
    and "data_type D = QMI_DATA_LEN" and "elem_size D = 1" and "offset D + 4 \<le> length src" and "tlv_type D < 256"
    and "tlv_type D \<noteq> tlv_type A" and "array_type V = VAR_LEN_ARRAY" and "elem_len V \<le> 255"
    and "length hdr = 7" and "length out = length src" and "length src < 2 ^ 31"
    and "buf = hdr @ tlv_header A @ field_bytes src A @ [word_of_nat (tlv_type D), lo, hi, c] @ rest"
    and "length buf < 2 ^ 31"
  shows "\<exists>out'. qmi_decode_message (Some buf) (length buf) (Some [A, D, V, z]) (Some out) = Some (- ETOOSMALL, out')"
proof -
  let ?arr = "[A, D, V, z]" and ?L = "length buf - 7" and ?v = "\<lparr>dec_len_value = 0, buf_src = 7, decoded_bytes = 0, out_struct = out\<rparr>"
  let ?v1 = "\<lparr>dec_len_value = elem_len A, buf_src = 7 + 3 + field_size A, decoded_bytes = 3 + field_size A,
    out_struct = copy_field src A out\<rparr>"
  have A: "data_type A \<noteq> QMI_EOTI" "tlv_type A < 256" "field_size A < 65536" "field_size A = elem_len A * elem_size A"
    using assms(1,2) by (auto simp: plain_field_def is_basic_def field_size_def)
  have "elem_len A * 1 \<le> elem_len A * elem_size A" using assms(4) by (intro mult_le_mono2) simp
  then have "elem_len A < 65536" using A(3,4) by linarith
  then have el: "elem_len A < 2 ^ 32" by simp
  have fb: "length (field_bytes src A) = field_size A" by (rule length_field_bytes [OF assms(1) order_refl])
  have th: "length (tlv_header A) = 3" by (simp add: tlv_header_def)
  have L: "?L = 3 + field_size A + 4 + length rest" using assms(12,15) fb th by simp
  have f1: "find_ei ?arr (tlv_type A) = Some (Some ?arr)" and f2: "find_ei ?arr (tlv_type D) = Some (Some [D, V, z])"
    using A(1,2) assms(5,8,9) by (simp_all add: u8_id)
  have "drop (buf_src ?v) buf = tlv_header A @ field_bytes src A @ ([word_of_nat (tlv_type D), lo, hi, c] @ rest)"
    unfolding assms(15) using assms(12) by simp
  from decode_plain_round [OF assms(1) f1 refl _ assms(14) _ this]
  have "decode_loop ?arr ?arr 0 buf ?L 1 ?v = decode_loop ?arr [D, V, z] 0 buf ?L 1
      \<lparr>dec_len_value = (if array_type A = NO_ARRAY then 1 else elem_len A), buf_src = buf_src ?v + 3 + field_size A,
       decoded_bytes = decoded_bytes ?v + 3 + field_size A, out_struct = copy_field src A (out_struct ?v)\<rparr>"
    using assms(13,16) L by simp
  then have "decode_loop ?arr ?arr 0 buf ?L 1 ?v = decode_loop ?arr [D, V, z] 0 buf ?L 1 ?v1"
    by (simp only: assms(2) qmi_array_type.distinct if_False dec_vars.simps add_0)
  moreover have "\<exists>out'. decode_loop ?arr [D, V, z] 0 buf ?L 1 ?v1 = Some (- ETOOSMALL, out')"
  proof (rule decode_stale_length [OF assms(5,6) _ assms(8,10,11) f2])
    show "offset D + 4 \<le> length (out_struct ?v1)" using length_copy_field [OF assms(1,13)] assms(7) by simp
    show "drop (buf_src ?v1) buf = word_of_nat (tlv_type D) # lo # hi # c # rest"
      unfolding assms(15) using assms(12) fb th by simp
    show "decoded_bytes ?v1 + 4 \<le> ?L" using L by simp
  qed (use assms(3,16) el in simp_all)
  ultimately have "\<exists>out'. decode_loop ?arr ?arr 0 buf ?L 1 ?v = Some (- ETOOSMALL, out')"
    by (simp only:)
  then have "\<exists>out'. qmi_decode (Some ?arr) out 0 buf 7 ?L 1 = Some (- ETOOSMALL, out')"
    by (simp only: qmi_decode.simps option.case)
  moreover have "u32 (u64_sub (length buf) 7) = ?L" using L assms(16) by (simp add: width_simps)
  moreover have "length buf \<noteq> 0" using L by auto
  ultimately show ?thesis by (simp only: qmi_decode_message_def prod.case option.case if_False)
qed

definition example_array :: qmi_elem_info where
  "example_array = Elem QMI_UNSIGNED_1_BYTE 256 1 STATIC_ARRAY 1 0 None"

definition example_msg :: "byte list" where
  "example_msg = replicate 7 0 @ tlv_header example_array @ field_bytes (replicate 300 0) example_array
     @ [word_of_nat (tlv_type (Elem QMI_DATA_LEN 1 1 NO_ARRAY 2 256 None)), 2, 0, 1] @ [5]"

theorem length_field_keeps_stale_bytes_witness:
  "\<exists>out'. qmi_decode_message (Some example_msg) (length example_msg)
     (Some [example_array, Elem QMI_DATA_LEN 1 1 NO_ARRAY 2 256 None, Elem QMI_UNSIGNED_1_BYTE 10 1 VAR_LEN_ARRAY 2 260 None,
       Elem QMI_EOTI 0 0 NO_ARRAY 0 0 None]) (Some (replicate 300 0)) = Some (- ETOOSMALL, out')"
proof (rule length_field_keeps_stale_bytes [where src = "replicate 300 0" and hdr = "replicate 7 0"])
  show p: "plain_field (length (replicate 300 (0 :: byte))) example_array"
    by (simp add: plain_field_def is_basic_def example_array_def elem_fits_def field_size_def)
  have "length (field_bytes (replicate 300 0) example_array) = 256"
    using length_field_bytes [OF p] by (simp add: field_size_def example_array_def)
  then show "length example_msg < 2 ^ 31"
    by (simp add: example_msg_def tlv_header_def)
qed (simp_all only: example_msg_def, simp_all add: example_array_def)

lemma copy_elems_None:
  "length dst < d + n \<Longrightarrow> 0 < n \<Longrightarrow> a + n \<le> length src \<Longrightarrow> copy_elems dst d src a n 1 = None"
proof (induction n arbitrary: dst d a)
  case (Suc n)
  obtain b where r: "rd src a 1 = Some b" using Suc.prems by (simp add: rd_def)
  show ?case
  proof (cases "d + 1 \<le> length dst")
    case True
    then obtain dst' where w: "wr dst d b = Some dst'" using length_rd [OF r] by (simp add: wr_def)
    have "copy_elems dst' (d + 1) src (a + 1) n 1 = None"
      using Suc.prems True length_wr [OF w] by (intro Suc.IH) simp_all
    then show ?thesis using r w by simp
  next
    case False
    then have "wr dst d b = None" using length_rd [OF r] by (simp add: wr_def)
    then show ?thesis using r by simp
  qed
qed simp

lemma nested_string_write:
  assumes s: "elem_size s = 1" "elem_len s \<le> 255" and n: "strlen src a = Some n" "0 < n" "n \<le> elem_len s"
    and L: "n + 1 \<le> L" and out: "length out < d + n + 1"
  shows "qmi_encode_string_elem s out d src a L 2 = None"
proof -
  have u: "u32 n = n" "u32 (n + 1) = n + 1" using n(3) s(2) by (simp_all add: width_simps)
  have sz: "string_len_size s = 1" using s(2) by (simp add: string_len_size_def)
  have src: "a + n \<le> length src" using strlen_less [OF n(1)] by simp
  show ?thesis
  proof (cases "qmi_encode_basic_elem out d (le_bytes 4 n) 0 1 1")
    case None
    then show ?thesis using n L u sz by (simp add: qmi_encode_string_elem_def Let_def)
  next
    case (Some x)
    then obtain out1 where k: "copy_elems out d (le_bytes 4 n) 0 1 1 = Some out1" "x = (1, out1)"
      by (auto simp: qmi_encode_basic_elem_def bind_eq_Some_conv u32_def)
    have "length out1 = length out" using k(1) length_wr by (auto simp: bind_eq_Some_conv)
    then have "copy_elems out1 (d + 1) src a n 1 = None" using out n(2) src by (intro copy_elems_None) simp_all
    then show ?thesis using n L u sz s(1) Some k(2) by (simp add: qmi_encode_string_elem_def Let_def qmi_encode_basic_elem_def)
  qed
qed

text \<open>
  C31 (error). The check for a string inside a nested structure leaves out the three bytes of the group's
  header: with a buffer that has room for the string and its length but not for the header, the encoder
  writes past the end of the buffer.
\<close>

theorem nested_string_overruns_buffer:
  assumes "data_type st = QMI_STRUCT" and "array_type st = NO_ARRAY" and "ei_array st = Some [s, z]"
    and "data_type s = QMI_STRING" and "array_type s = NO_ARRAY" and "elem_size s = 1" and "elem_len s \<le> 255"
    and "strlen src (offset st + offset s) = Some n" and "0 < n" and "n \<le> elem_len s"
    and "n + 1 \<le> len" and "len < n + 4"
  shows "qmi_encode_message True type msg_id len txn_id (Some [st, y]) (Some src) = None"
proof -
  have nb: "\<not> is_basic QMI_STRUCT" "\<not> is_basic QMI_STRING" by (simp_all add: is_basic_def)
  have len: "len < 2 ^ 31" using assms(7,10,12) by simp
  have u: "u32 len = len" "u32_sub len 0 = len" "u32_of_int 0 = 0"
    using len by (simp_all add: width_simps u32_of_int_def)
  have w: "qmi_encode_string_elem s (replicate len 0) 3 src (offset st + offset s) len 2 = None"
    using assms(12) by (intro nested_string_write [OF assms(6,7) assms(8-11)]) simp
  have "qmi_encode (Some [s, z]) (replicate len 0) 3 src (offset st) len 2 = None"
    using w assms(4,5) nb u by (simp add: qmi_encode.simps encode_count_def Let_def)
  then have "qmi_encode (ei_array st) (replicate len 0) 3 src (offset st) len (Suc (Suc 0)) = None"
    using assms(3) by (simp add: numeral_2_eq_2)
  then have "qmi_encode (Some [st, y]) (replicate len 0) 0 src 0 len 1 = None"
    using assms(1,2) nb u by (simp add: qmi_encode.simps [of "Some [st, y]"] encode_count_def Let_def numeral_2_eq_2)
  then show ?thesis using u by (simp add: qmi_encode_message_def)
qed

theorem nested_string_overruns_buffer_witness:
  "qmi_encode_message True 0 1 4 1 (Some [Elem QMI_STRUCT 1 16 NO_ARRAY 1 0 (Some [Elem QMI_STRING 16 1 NO_ARRAY 0 0 None,
       Elem QMI_EOTI 0 0 NO_ARRAY 0 0 None]), Elem QMI_EOTI 0 0 NO_ARRAY 0 0 None]) (Some [97, 98, 99, 0]) = None"
  by (rule nested_string_overruns_buffer [where n = 3 and s = "Elem QMI_STRING 16 1 NO_ARRAY 0 0 None"
        and z = "Elem QMI_EOTI 0 0 NO_ARRAY 0 0 None"]) (simp_all add: strlen_def)

end
