(* ===== verification/Qmi_Interface.thy ===== *)
theory Qmi_Interface
  imports Qmi_Encdec Qrtr_Ns "HOL-Library.Multiset"
begin

text \<open>
  QMI clients and services (\<^verbatim>\<open>drivers/soc/qcom/qmi_interface.c\<close>): a handle with its socket, the lookups and
  services it registers with the name service, the servers it was told about, and transactions.

  A handle is one state; transactions live in a store and are named by their address. The callbacks of the
  driver are recorded in the log with their arguments, and what they call in turn is a later step. Allocation,
  creation of sockets, sending and the allocation of identifiers are parameters, by the number of the question.
  As in the decoder, \<^term>\<open>None\<close> is an access outside of a memory object.
\<close>

section \<open>State\<close>

record qmi_service =
  svc_service :: nat
  svc_version :: nat
  svc_instance :: nat
  svc_node :: nat
  svc_port :: nat

text \<open>\<open>txn_completion\<close> counts the completions nobody has waited for.\<close>

record qmi_txn =
  txn_id :: nat
  txn_completion :: nat
  txn_result :: int
  txn_ei :: "qmi_elem_info list option"
  txn_dest :: "byte list option"

text \<open>Which callbacks there are, and what the \<open>n\<close>-th event answers when it is a new server.\<close>

record qmi_ops =
  op_new_server :: "(nat \<Rightarrow> qmi_service \<Rightarrow> int) option"
  op_del_server :: bool
  op_net_reset :: bool
  op_msg_handler :: bool
  op_bye :: bool
  op_del_client :: bool

record qmi_msg_handler =
  h_type :: nat
  h_msg_id :: nat
  h_ei :: "qmi_elem_info list option"
  h_decoded_size :: nat

datatype qmi_event =
  Ev_new_server qmi_service int
| Ev_del_server qmi_service
| Ev_net_reset
| Ev_msg_handler sockaddr_qrtr "byte list"
| Ev_bye nat
| Ev_del_client nat nat
| Ev_handler nat sockaddr_qrtr nat "byte list"

text \<open>\<open>q_txns\<close> is the table of transactions by identifier, \<open>q_out\<close> what was given to a socket, with the result.\<close>

record qmi_handle =
  q_sock :: "nat option"
  q_sq :: sockaddr_qrtr
  q_recv_buf :: "byte list"
  q_lookups :: "qmi_service list"
  q_lookup_results :: "qmi_service list"
  q_services :: "qmi_service list"
  q_ops :: qmi_ops
  q_txns :: "nat \<rightharpoonup> nat"
  q_txn_next :: nat
  q_txn :: "nat \<Rightarrow> qmi_txn"
  q_handlers :: "qmi_msg_handler list option"
  q_log :: "qmi_event list"
  q_out :: "(nat \<times> sockaddr_qrtr option \<times> byte list \<times> int) list"
  q_closed :: "nat list"
  q_tick :: nat

record qmi_env =
  qe_alloc :: "nat \<Rightarrow> bool"
  qe_send :: "nat \<Rightarrow> int"
  qe_create :: "nat \<Rightarrow> int + nat"
  qe_name :: "nat \<Rightarrow> int \<times> sockaddr_qrtr"
  qe_id :: "nat set \<Rightarrow> nat \<Rightarrow> int \<times> nat"

definition q_step :: "qmi_handle \<Rightarrow> qmi_handle" where
  "q_step q = q\<lparr>q_tick := Suc (q_tick q)\<rparr>"

definition q_event :: "qmi_event \<Rightarrow> qmi_handle \<Rightarrow> qmi_handle" where
  "q_event ev q = q\<lparr>q_log := q_log q @ [ev]\<rparr>"

section \<open>Control messages\<close>

definition qmi_recv_new_server ::
  "qmi_env \<Rightarrow> nat \<Rightarrow> nat \<Rightarrow> nat \<Rightarrow> nat \<Rightarrow> qmi_handle \<Rightarrow> qmi_handle" where
  "qmi_recv_new_server e service inst node port q =
     (case op_new_server (q_ops q) of
        None \<Rightarrow> q
      | Some f \<Rightarrow>
          if node = 0 \<and> port = 0 then q
          else if \<not> qe_alloc e (q_tick q) then q_step q
          else
            let svc = \<lparr>svc_service = service, svc_version = inst mod 256, svc_instance = inst div 256, svc_node = node, svc_port = port\<rparr>;
                ret = f (length (q_log q)) svc;
                q1 = q_event (Ev_new_server svc ret) (q_step q)
            in if ret < 0 then q1 else q1\<lparr>q_lookup_results := svc # q_lookup_results q1\<rparr>)"

abbreviation (input) ANY :: nat where "ANY \<equiv> 4294967295"

definition svc_hit :: "nat \<Rightarrow> nat \<Rightarrow> qmi_service \<Rightarrow> bool" where
  "svc_hit node port svc \<longleftrightarrow> (node = ANY \<or> svc_node svc = node) \<and> (port = ANY \<or> svc_port svc = port)"

definition qmi_recv_del_server :: "nat \<Rightarrow> nat \<Rightarrow> qmi_handle \<Rightarrow> qmi_handle" where
  "qmi_recv_del_server node port q =
     q\<lparr>q_lookup_results := filter (\<lambda>svc. \<not> svc_hit node port svc) (q_lookup_results q),
       q_log := q_log q @ (if op_del_server (q_ops q)
                           then map Ev_del_server (filter (svc_hit node port) (q_lookup_results q)) else [])\<rparr>"

definition qmi_recv_bye :: "nat \<Rightarrow> qmi_handle \<Rightarrow> qmi_handle" where
  "qmi_recv_bye node q =
     (let q1 = qmi_recv_del_server node ANY q in if op_bye (q_ops q1) then q_event (Ev_bye node) q1 else q1)"

definition qmi_recv_del_client :: "nat \<Rightarrow> nat \<Rightarrow> qmi_handle \<Rightarrow> qmi_handle" where
  "qmi_recv_del_client node port q =
     (if op_del_client (q_ops q) then q_event (Ev_del_client node port) q else q)"

definition qmi_recv_ctrl_pkt :: "qmi_env \<Rightarrow> byte list \<Rightarrow> nat \<Rightarrow> qmi_handle \<Rightarrow> qmi_handle" where
  "qmi_recv_ctrl_pkt e buf len q =
     (let pkt = ctrl_pkt_of buf in
      if len < ctrl_pkt_size then q
      else if pkt_cmd pkt = QRTR_TYPE_BYE then qmi_recv_bye (client_node pkt) q
      else if pkt_cmd pkt = QRTR_TYPE_NEW_SERVER
        then qmi_recv_new_server e (server_service pkt) (server_instance pkt) (server_node pkt) (server_port pkt) q
      else if pkt_cmd pkt = QRTR_TYPE_DEL_SERVER then qmi_recv_del_server (server_node pkt) (server_port pkt) q
      else if pkt_cmd pkt = QRTR_TYPE_DEL_CLIENT then qmi_recv_del_client (client_node pkt) (client_port pkt) q
      else q)"

text \<open>A message to a socket; the result is that of \<^verbatim>\<open>kernel_sendmsg\<close>, or that there is no socket.\<close>

definition q_send :: "qmi_env \<Rightarrow> sockaddr_qrtr option \<Rightarrow> byte list \<Rightarrow> qmi_handle \<Rightarrow> int \<times> qmi_handle" where
  "q_send e sq data q =
     (case q_sock q of
        None \<Rightarrow> (- EPIPE, q)
      | Some s \<Rightarrow> let ret = qe_send e (q_tick q) in (ret, (q_step q)\<lparr>q_out := q_out q @ [(s, sq, data, ret)]\<rparr>))"

definition svc_word :: "qmi_service \<Rightarrow> nat" where
  "svc_word svc = u32 (or (svc_version svc) (u32 (svc_instance svc * 256)))"

definition ctrl_addr :: "qmi_handle \<Rightarrow> sockaddr_qrtr" where
  "ctrl_addr q = \<lparr>sq_family = sq_family (q_sq q), sq_node = sq_node (q_sq q), sq_port = QRTR_PORT_CTRL\<rparr>"

definition qmi_send_new_lookup :: "qmi_env \<Rightarrow> qmi_service \<Rightarrow> qmi_handle \<Rightarrow> qmi_handle" where
  "qmi_send_new_lookup e svc q =
     snd (q_send e (Some (ctrl_addr q)) (ctrl_pkt_bytes (zero_pkt\<lparr>pkt_cmd := QRTR_TYPE_NEW_LOOKUP,
       pkt_w0 := svc_service svc, pkt_w1 := svc_word svc\<rparr>)) q)"

definition qmi_add_lookup :: "qmi_env \<Rightarrow> nat \<Rightarrow> nat \<Rightarrow> nat \<Rightarrow> qmi_handle \<Rightarrow> int \<times> qmi_handle" where
  "qmi_add_lookup e service version inst q =
     (if \<not> qe_alloc e (q_tick q) then (- ENOMEM, q_step q)
      else
        let svc = \<lparr>svc_service = service, svc_version = version, svc_instance = inst, svc_node = 0, svc_port = 0\<rparr>
        in (0, qmi_send_new_lookup e svc ((q_step q)\<lparr>q_lookups := svc # q_lookups q\<rparr>)))"

definition qmi_send_new_server :: "qmi_env \<Rightarrow> qmi_service \<Rightarrow> qmi_handle \<Rightarrow> qmi_handle" where
  "qmi_send_new_server e svc q =
     snd (q_send e (Some (ctrl_addr q)) (ctrl_pkt_bytes \<lparr>pkt_cmd = QRTR_TYPE_NEW_SERVER,
       pkt_w0 = svc_service svc, pkt_w1 = svc_word svc, pkt_w2 = sq_node (q_sq q), pkt_w3 = sq_port (q_sq q)\<rparr>) q)"

definition qmi_add_server :: "qmi_env \<Rightarrow> nat \<Rightarrow> nat \<Rightarrow> nat \<Rightarrow> qmi_handle \<Rightarrow> int \<times> qmi_handle" where
  "qmi_add_server e service version inst q =
     (if \<not> qe_alloc e (q_tick q) then (- ENOMEM, q_step q)
      else
        let svc = \<lparr>svc_service = service, svc_version = version, svc_instance = inst, svc_node = 0, svc_port = 0\<rparr>
        in (0, qmi_send_new_server e svc ((q_step q)\<lparr>q_services := svc # q_services q\<rparr>)))"

section \<open>Transactions\<close>

definition set_txn :: "nat \<Rightarrow> (qmi_txn \<Rightarrow> qmi_txn) \<Rightarrow> qmi_handle \<Rightarrow> qmi_handle" where
  "set_txn a f q = q\<lparr>q_txn := (q_txn q)(a := f (q_txn q a))\<rparr>"

text \<open>The identifier is the result, cut to 16 bits; a failed allocation puts nothing into the table.\<close>

definition qmi_txn_init ::
  "qmi_env \<Rightarrow> nat \<Rightarrow> qmi_elem_info list option \<Rightarrow> byte list option \<Rightarrow> qmi_handle \<Rightarrow> int \<times> qmi_handle" where
  "qmi_txn_init e a ei dest q =
     (let (ret, nxt) = qe_id e (dom (q_txns q)) (q_txn_next q);
          txn = \<lparr>txn_id = nat (ret mod 65536), txn_completion = 0, txn_result = 0, txn_ei = ei, txn_dest = dest\<rparr>;
          q1 = set_txn a (\<lambda>_. txn) q
      in if ret < 0 then (ret, q1)
         else (ret, q1\<lparr>q_txns := (q_txns q)(nat ret \<mapsto> a), q_txn_next := nxt\<rparr>))"

definition txn_remove :: "nat \<Rightarrow> qmi_handle \<Rightarrow> qmi_handle" where
  "txn_remove a q = q\<lparr>q_txns := (q_txns q)(txn_id (q_txn q a) := None)\<rparr>"

text \<open>The wait is over when the transaction was completed, or by time.\<close>

definition qmi_txn_wait :: "nat \<Rightarrow> qmi_handle \<Rightarrow> int \<times> qmi_handle" where
  "qmi_txn_wait a q =
     (let woken = (txn_completion (q_txn q a) \<noteq> 0);
          q1 = set_txn a (\<lambda>t. t\<lparr>txn_completion := txn_completion t - 1\<rparr>) q;
          result = txn_result (q_txn q1 a)
      in if result = - ENETRESET then (result, q1)
         else (if woken then result else - ETIMEDOUT, txn_remove a q1))"

definition qmi_txn_cancel :: "nat \<Rightarrow> qmi_handle \<Rightarrow> qmi_handle" where
  "qmi_txn_cancel = txn_remove"

definition complete_txn :: "nat \<Rightarrow> int \<Rightarrow> qmi_handle \<Rightarrow> qmi_handle" where
  "complete_txn a result = set_txn a (\<lambda>t. t\<lparr>txn_result := result, txn_completion := Suc (txn_completion t)\<rparr>)"

section \<open>Messages\<close>

abbreviation (input) QMI_REQUEST :: nat where "QMI_REQUEST \<equiv> 0"
abbreviation (input) QMI_RESPONSE :: nat where "QMI_RESPONSE \<equiv> 2"
abbreviation (input) QMI_INDICATION :: nat where "QMI_INDICATION \<equiv> 4"

definition hdr_type :: "byte list \<Rightarrow> nat" where "hdr_type buf = unat (buf ! 0)"
definition hdr_txn_id :: "byte list \<Rightarrow> nat" where "hdr_txn_id buf = le16_at buf 1"
definition hdr_msg_id :: "byte list \<Rightarrow> nat" where "hdr_msg_id buf = le16_at buf 3"

text \<open>The position of the handler in the array.\<close>

fun find_handler :: "qmi_msg_handler list \<Rightarrow> nat \<Rightarrow> nat \<Rightarrow> nat \<Rightarrow> (nat \<times> qmi_msg_handler) option" where
  "find_handler [] type msg_id i = None"
| "find_handler (h # hs) type msg_id i =
     (if h_type h = type \<and> h_msg_id h = msg_id then Some (i, h) else find_handler hs type msg_id (Suc i))"

definition qmi_invoke_handler ::
  "qmi_env \<Rightarrow> sockaddr_qrtr \<Rightarrow> nat \<Rightarrow> byte list \<Rightarrow> nat \<Rightarrow> qmi_handle \<Rightarrow> qmi_handle option" where
  "qmi_invoke_handler e sq tid buf len q =
     (case q_handlers q of
        None \<Rightarrow> Some q
      | Some hs \<Rightarrow>
          case find_handler hs (hdr_type buf) (hdr_msg_id buf) 0 of
            None \<Rightarrow> Some q
          | Some (i, h) \<Rightarrow>
              if \<not> qe_alloc e (q_tick q) then Some (q_step q)
              else do {
                (ret, dest) \<leftarrow> qmi_decode_message (Some buf) len (h_ei h) (Some (replicate (h_decoded_size h) 0));
                Some (if ret < 0 then q_step q else q_event (Ev_handler i sq tid dest) (q_step q)) })"

definition qmi_handle_message ::
  "qmi_env \<Rightarrow> sockaddr_qrtr \<Rightarrow> byte list \<Rightarrow> nat \<Rightarrow> qmi_handle \<Rightarrow> qmi_handle option" where
  "qmi_handle_message e sq buf len q =
     (if len < qmi_header_size then Some q
      else if hdr_type buf = QMI_RESPONSE then
        case q_txns q (hdr_txn_id buf) of
          None \<Rightarrow> Some q
        | Some a \<Rightarrow>
            (case (txn_dest (q_txn q a), txn_ei (q_txn q a)) of
               (Some dest, Some ei) \<Rightarrow> do {
                 (ret, dest') \<leftarrow> qmi_decode_message (Some buf) len (Some ei) (Some dest);
                 Some (complete_txn a ret (set_txn a (\<lambda>t. t\<lparr>txn_dest := Some dest'\<rparr>) q)) }
             | _ \<Rightarrow> qmi_invoke_handler e sq (txn_id (q_txn q a)) buf len q)
      else qmi_invoke_handler e sq (hdr_txn_id buf) buf len q)"

section \<open>The socket\<close>

definition qmi_sock_create :: "qmi_env \<Rightarrow> qmi_handle \<Rightarrow> (int + nat \<times> sockaddr_qrtr) \<times> qmi_handle" where
  "qmi_sock_create e q =
     (case qe_create e (q_tick q) of
        Inl rc \<Rightarrow> (Inl rc, q_step q)
      | Inr s \<Rightarrow>
          (case qe_name e (q_tick q) of (ret, sq) \<Rightarrow>
             if ret < 0 then (Inl ret, (q_step q)\<lparr>q_closed := q_closed q @ [s]\<rparr>) else (Inr (s, sq), q_step q)))"

definition close_sock :: "qmi_handle \<Rightarrow> qmi_handle" where
  "close_sock q = q\<lparr>q_closed := q_closed q @ (case q_sock q of None \<Rightarrow> [] | Some s \<Rightarrow> [s]), q_sock := None\<rparr>"

definition qmi_handle_net_reset :: "qmi_env \<Rightarrow> qmi_handle \<Rightarrow> qmi_handle" where
  "qmi_handle_net_reset e q =
     (case qmi_sock_create e q of
        (Inl _, q1) \<Rightarrow> q1
      | (Inr (s, sq), q1) \<Rightarrow>
          let q2 = qmi_recv_del_server ANY ANY (close_sock q1);
              q3 = (if op_net_reset (q_ops q2) then q_event Ev_net_reset q2 else q2);
              q4 = q3\<lparr>q_sock := Some s, q_sq := sq\<rparr>;
              q5 = fold (qmi_send_new_lookup e) (q_lookups q4) q4
          in fold (qmi_send_new_server e) (q_services q5) q5)"

datatype recv_event = Got sockaddr_qrtr "byte list" | Failed int

text \<open>The loop of the work item; the list holds what the calls of \<^verbatim>\<open>kernel_recvmsg\<close> deliver until there is nothing.\<close>

fun qmi_data_ready_work :: "qmi_env \<Rightarrow> recv_event list \<Rightarrow> qmi_handle \<Rightarrow> qmi_handle option" where
  "qmi_data_ready_work e [] q = Some q"
| "qmi_data_ready_work e (Failed rc # evs) q =
     (if q_sock q = None then Some q
      else if rc = - ENETRESET then Some (qmi_handle_net_reset e q)
      else Some q)"
| "qmi_data_ready_work e (Got sq data # evs) q =
     (if q_sock q = None then Some q
      else
        let msg = take (length (q_recv_buf q)) data; len = length msg;
            buf = msg @ drop len (q_recv_buf q); q1 = q\<lparr>q_recv_buf := buf\<rparr>
        in do {
          q2 \<leftarrow> (if sq_node sq = sq_node (q_sq q1) \<and> sq_port sq = QRTR_PORT_CTRL then Some (qmi_recv_ctrl_pkt e buf len q1)
                 else if op_msg_handler (q_ops q1) then Some (q_event (Ev_msg_handler sq msg) q1)
                 else qmi_handle_message e sq buf len q1);
          qmi_data_ready_work e evs q2 })"

section \<open>Handles\<close>

definition qmi_handle_init ::
  "qmi_env \<Rightarrow> nat \<Rightarrow> qmi_ops option \<Rightarrow> qmi_msg_handler list option \<Rightarrow> bool \<Rightarrow> qmi_handle \<Rightarrow> int \<times> qmi_handle" where
  "qmi_handle_init e max_len ops handlers wq q =
     (let n = max (max_len + qmi_header_size) ctrl_pkt_size;
          q1 = q\<lparr>q_txns := Map.empty, q_txn_next := 0, q_lookups := [], q_lookup_results := [], q_services := [],
                 q_handlers := handlers, q_ops := (case ops of None \<Rightarrow> q_ops q | Some x \<Rightarrow> x)\<rparr>
      in if \<not> qe_alloc e (q_tick q1) then (- ENOMEM, q_step q1)
         else
           let q2 = (q_step q1)\<lparr>q_recv_buf := replicate n 0\<rparr> in
           if \<not> wq then (- ENOMEM, q2\<lparr>q_recv_buf := []\<rparr>)
           else case qmi_sock_create e q2 of
             (Inl rc, q3) \<Rightarrow> (if rc = - EAFNOSUPPORT then - EPROBE_DEFER else rc, q3\<lparr>q_recv_buf := []\<rparr>)
           | (Inr (s, sq), q3) \<Rightarrow> (0, q3\<lparr>q_sock := Some s, q_sq := sq\<rparr>))"

text \<open>Every transaction of the table ends with a reset of the network.\<close>

definition reset_txns :: "qmi_handle \<Rightarrow> qmi_handle" where
  "reset_txns q = q\<lparr>q_txns := Map.empty,
     q_txn := (\<lambda>a. if a \<in> ran (q_txns q)
                  then (q_txn q a)\<lparr>txn_result := - ENETRESET, txn_completion := Suc (txn_completion (q_txn q a))\<rparr>
                  else q_txn q a)\<rparr>"

definition qmi_handle_release :: "qmi_handle \<Rightarrow> qmi_handle" where
  "qmi_handle_release q =
     (reset_txns (close_sock (qmi_recv_del_server ANY ANY q)))\<lparr>q_recv_buf := [], q_lookups := [], q_services := []\<rparr>"

section \<open>Sending\<close>

definition qmi_send_message ::
  "qmi_env \<Rightarrow> sockaddr_qrtr option \<Rightarrow> nat \<Rightarrow> nat \<Rightarrow> nat \<Rightarrow> nat \<Rightarrow> qmi_elem_info list option \<Rightarrow> byte list option
     \<Rightarrow> qmi_handle \<Rightarrow> (int \<times> qmi_handle) option" where
  "qmi_send_message e sq tid type msg_id len ei c_struct q = do {
     r \<leftarrow> qmi_encode_message (qe_alloc e (q_tick q)) type msg_id len tid ei c_struct;
     Some (case r of
       Inl rc \<Rightarrow> (rc, q_step q)
     | Inr (msg, n) \<Rightarrow> (case q_send e sq (take n msg) (q_step q) of (ret, q1) \<Rightarrow> (if ret < 0 then ret else 0, q1))) }"

definition qmi_send_request ::
  "qmi_env \<Rightarrow> sockaddr_qrtr option \<Rightarrow> nat \<Rightarrow> nat \<Rightarrow> nat \<Rightarrow> qmi_elem_info list option \<Rightarrow> byte list option
     \<Rightarrow> qmi_handle \<Rightarrow> (int \<times> qmi_handle) option" where
  "qmi_send_request e sq a msg_id len ei c_struct q =
     qmi_send_message e sq (txn_id (q_txn q a)) QMI_REQUEST msg_id len ei c_struct q"

text \<open>\<open>tid\<close> is the identifier of the request answered.\<close>

definition qmi_send_response ::
  "qmi_env \<Rightarrow> sockaddr_qrtr option \<Rightarrow> nat \<Rightarrow> nat \<Rightarrow> nat \<Rightarrow> qmi_elem_info list option \<Rightarrow> byte list option
     \<Rightarrow> qmi_handle \<Rightarrow> (int \<times> qmi_handle) option" where
  "qmi_send_response e sq tid msg_id len ei c_struct q = qmi_send_message e sq tid QMI_RESPONSE msg_id len ei c_struct q"

text \<open>An indication uses a transaction of its own, at the address \<open>a\<close> on the stack.\<close>

definition qmi_send_indication ::
  "qmi_env \<Rightarrow> sockaddr_qrtr option \<Rightarrow> nat \<Rightarrow> nat \<Rightarrow> nat \<Rightarrow> qmi_elem_info list option \<Rightarrow> byte list option
     \<Rightarrow> qmi_handle \<Rightarrow> (int \<times> qmi_handle) option" where
  "qmi_send_indication e sq a msg_id len ei c_struct q =
     (case qmi_txn_init e a None None q of (ret, q1) \<Rightarrow>
        if ret < 0 then Some (ret, q1)
        else do {
          (rval, q2) \<leftarrow> qmi_send_message e sq (txn_id (q_txn q1 a)) QMI_INDICATION msg_id len ei c_struct q1;
          Some (rval, qmi_txn_cancel a q2) })"

section \<open>Runs of a handle\<close>

text \<open>
  What a driver and the work queue do with a handle, in any order. A transaction object is in use at most once at a time, as the
  documentation of \<^verbatim>\<open>qmi_txn_init\<close> asks; a transaction without a place for the response is answered by a message handler.
\<close>

inductive qmi_step :: "qmi_env \<Rightarrow> qmi_handle \<Rightarrow> qmi_handle \<Rightarrow> bool" for e where
  work: "qmi_data_ready_work e evs q = Some q' \<Longrightarrow> qmi_step e q q'"
| add_lookup: "qmi_step e q (snd (qmi_add_lookup e service version inst q))"
| add_server: "qmi_step e q (snd (qmi_add_server e service version inst q))"
| txn_init: "a \<notin> ran (q_txns q) \<Longrightarrow> qmi_step e q (snd (qmi_txn_init e a ei dest q))"
| txn_answer: "a \<in> ran (q_txns q) \<Longrightarrow> qmi_step e q (complete_txn a r q)"
| txn_wait: "qmi_step e q (snd (qmi_txn_wait a q))"
| txn_cancel: "qmi_step e q (qmi_txn_cancel a q)"
| send: "qmi_send_message e sq tid type msg_id len ei c_struct q = Some (ret, q') \<Longrightarrow> qmi_step e q q'"
| indication: "a \<notin> ran (q_txns q) \<Longrightarrow> qmi_send_indication e sq a msg_id len ei c_struct q = Some (ret, q') \<Longrightarrow> qmi_step e q q'"

section \<open>Servers are withdrawn exactly once\<close>

text \<open>The servers the driver accepted and those it was told are gone, in the order of the log.\<close>

fun accepted :: "qmi_event list \<Rightarrow> qmi_service list" where
  "accepted [] = []"
| "accepted (Ev_new_server svc ret # l) = (if ret < 0 then accepted l else svc # accepted l)"
| "accepted (_ # l) = accepted l"

fun withdrawn :: "qmi_event list \<Rightarrow> qmi_service list" where
  "withdrawn [] = []"
| "withdrawn (Ev_del_server svc # l) = svc # withdrawn l"
| "withdrawn (_ # l) = withdrawn l"

lemma accepted_append [simp]: "accepted (l @ l') = accepted l @ accepted l'"
  by (induction l rule: accepted.induct) auto

lemma withdrawn_append [simp]: "withdrawn (l @ l') = withdrawn l @ withdrawn l'"
  by (induction l rule: withdrawn.induct) auto

lemma accepted_del [simp]: "accepted (map Ev_del_server svcs) = []" "withdrawn (map Ev_del_server svcs) = svcs"
  by (induction svcs) auto

definition accounts_ok :: "qmi_handle \<Rightarrow> bool" where
  "accounts_ok q \<longleftrightarrow> op_del_server (q_ops q) \<and> mset (accepted (q_log q)) = mset (q_lookup_results q) + mset (withdrawn (q_log q))"

text \<open>Operations that neither list servers nor log events.\<close>

definition same_accounts :: "qmi_handle \<Rightarrow> qmi_handle \<Rightarrow> bool" where
  "same_accounts q q' \<longleftrightarrow> q_ops q' = q_ops q \<and> q_lookup_results q' = q_lookup_results q
     \<and> accepted (q_log q') = accepted (q_log q) \<and> withdrawn (q_log q') = withdrawn (q_log q)"

lemma accounts_same: "same_accounts q q' \<Longrightarrow> accounts_ok q \<Longrightarrow> accounts_ok q'"
  by (simp add: same_accounts_def accounts_ok_def)

lemma same_accounts_trans: "same_accounts q q' \<Longrightarrow> same_accounts q' q'' \<Longrightarrow> same_accounts q q''"
  by (simp add: same_accounts_def)

lemma same_accounts_send: "same_accounts q (snd (q_send e sq data q))"
  by (simp add: same_accounts_def q_send_def q_step_def Let_def split: option.split)

lemma same_accounts_announce:
  "same_accounts q (qmi_send_new_lookup e svc q)" "same_accounts q (qmi_send_new_server e svc q)"
  using same_accounts_send by (simp_all add: qmi_send_new_lookup_def qmi_send_new_server_def)

lemma same_accounts_fold:
  assumes "\<And>x q. same_accounts q (f x q)"
  shows "same_accounts q (fold f xs q)"
  using assms by (induction xs arbitrary: q) (auto simp: same_accounts_def)

lemma same_accounts_add: "same_accounts q (snd (qmi_add_lookup e sv v i q))" "same_accounts q (snd (qmi_add_server e sv v i q))"
proof -
  have "same_accounts q ((q_step q)\<lparr>q_lookups := l\<rparr>)" "same_accounts q ((q_step q)\<lparr>q_services := l\<rparr>)" "same_accounts q (q_step q)" for l
    by (simp_all add: same_accounts_def q_step_def)
  then show "same_accounts q (snd (qmi_add_lookup e sv v i q))" "same_accounts q (snd (qmi_add_server e sv v i q))"
    by (auto simp: qmi_add_lookup_def qmi_add_server_def Let_def
        intro!: same_accounts_trans [OF _ same_accounts_announce(1)] same_accounts_trans [OF _ same_accounts_announce(2)])
qed

lemma same_accounts_txn:
  "same_accounts q (snd (qmi_txn_init e a ei dest q))" "same_accounts q (snd (qmi_txn_wait a q))" "same_accounts q (qmi_txn_cancel a q)"
  by (auto simp: same_accounts_def qmi_txn_init_def qmi_txn_wait_def qmi_txn_cancel_def txn_remove_def set_txn_def Let_def split: prod.split)

lemma same_accounts_message:
  assumes "qmi_send_message e sq tid type msg_id len ei c_struct q = Some (ret, q')"
  shows "same_accounts q q'"
proof -
  have s: "same_accounts q (q_step q)" by (simp add: same_accounts_def q_step_def)
  have "same_accounts q (snd (q_send e sq data (q_step q)))" for data
    by (rule same_accounts_trans [OF s same_accounts_send])
  moreover obtain r where "qmi_encode_message (qe_alloc e (q_tick q)) type msg_id len tid ei c_struct = Some r"
    using assms by (auto simp: qmi_send_message_def bind_eq_Some_conv)
  ultimately show ?thesis
    using assms s by (cases r) (auto simp: qmi_send_message_def case_prod_beta)
qed

lemma same_accounts_handler: "qmi_invoke_handler e sq tid buf len q = Some q' \<Longrightarrow> same_accounts q q'"
  by (auto simp: qmi_invoke_handler_def same_accounts_def q_step_def q_event_def bind_eq_Some_conv split: option.splits if_splits)

lemma same_accounts_handle: "qmi_handle_message e sq buf len q = Some q' \<Longrightarrow> same_accounts q q'"
proof -
  have "same_accounts q (complete_txn a r (set_txn a f q))" "same_accounts q q" for a r f
    by (simp_all add: same_accounts_def complete_txn_def set_txn_def)
  moreover assume "qmi_handle_message e sq buf len q = Some q'"
  ultimately show ?thesis
    using same_accounts_handler by (auto simp: qmi_handle_message_def bind_eq_Some_conv split: option.splits if_splits)
qed

lemma filter_parts: "mset (filter P xs) + mset (filter (\<lambda>x. \<not> P x) xs) = mset xs"
  by (induction xs) auto

lemma accounts_del_server: "accounts_ok q \<Longrightarrow> accounts_ok (qmi_recv_del_server node port q)"
  using filter_parts [of "svc_hit node port" "q_lookup_results q"]
  by (simp add: accounts_ok_def qmi_recv_del_server_def)

lemma accounts_new_server: "accounts_ok q \<Longrightarrow> accounts_ok (qmi_recv_new_server e sv i n p q)"
  by (auto simp: accounts_ok_def qmi_recv_new_server_def q_event_def q_step_def Let_def split: option.split)

lemma accounts_event:
  "accounts_ok q \<Longrightarrow> accepted [ev] = [] \<Longrightarrow> withdrawn [ev] = [] \<Longrightarrow> accounts_ok (q_event ev q)"
  by (simp add: accounts_ok_def q_event_def)

lemma accounts_ctrl: "accounts_ok q \<Longrightarrow> accounts_ok (qmi_recv_ctrl_pkt e buf len q)"
  by (auto simp: qmi_recv_ctrl_pkt_def qmi_recv_bye_def qmi_recv_del_client_def Let_def
      intro!: accounts_del_server accounts_new_server accounts_event)

lemma accounts_announce_all:
  assumes "accounts_ok q"
  shows "accounts_ok (fold (qmi_send_new_lookup e) svcs q)" "accounts_ok (fold (qmi_send_new_server e) svcs q)"
  by (rule accounts_same [OF _ assms], rule same_accounts_fold, rule same_accounts_announce)+

lemma accounts_net_reset: "accounts_ok q \<Longrightarrow> accounts_ok (qmi_handle_net_reset e q)"
proof -
  assume ok: "accounts_ok q"
  obtain r q1 where c: "qmi_sock_create e q = (r, q1)" by fastforce
  then have "same_accounts q q1" by (auto simp: qmi_sock_create_def same_accounts_def q_step_def split: sum.splits prod.splits if_splits)
  then have ok1: "accounts_ok q1" "accounts_ok (close_sock q1)" using ok by (auto simp: accounts_same same_accounts_def close_sock_def accounts_ok_def)
  let ?q2 = "qmi_recv_del_server ANY ANY (close_sock q1)"
  let ?q3 = "if op_net_reset (q_ops ?q2) then q_event Ev_net_reset ?q2 else ?q2"
  have "accounts_ok ?q3" using accounts_del_server [OF ok1(2)] by (auto intro!: accounts_event)
  then have q4: "accounts_ok (?q3\<lparr>q_sock := s, q_sq := sq\<rparr>)" for s sq by (simp add: accounts_ok_def)
  show ?thesis
    using c ok1(1) accounts_announce_all(2) [OF accounts_announce_all(1) [OF q4]]
    by (auto simp: qmi_handle_net_reset_def Let_def split: sum.split)
qed

lemma accounts_work: "qmi_data_ready_work e evs q = Some q' \<Longrightarrow> accounts_ok q \<Longrightarrow> accounts_ok q'"
proof (induction e evs q rule: qmi_data_ready_work.induct)
  case (3 e sq data evs q)
  let ?msg = "take (length (q_recv_buf q)) data"
  let ?buf = "?msg @ drop (length ?msg) (q_recv_buf q)"
  let ?q1 = "q\<lparr>q_recv_buf := ?buf\<rparr>"
  have ok: "accounts_ok ?q1" using 3(3) by (simp add: accounts_ok_def)
  show ?case
  proof (cases "q_sock q = None")
    case False
    then obtain q2 where q2: "(if sq_node sq = sq_node (q_sq ?q1) \<and> sq_port sq = QRTR_PORT_CTRL then Some (qmi_recv_ctrl_pkt e ?buf (length ?msg) ?q1)
         else if op_msg_handler (q_ops ?q1) then Some (q_event (Ev_msg_handler sq ?msg) ?q1)
         else qmi_handle_message e sq ?buf (length ?msg) ?q1) = Some q2" "qmi_data_ready_work e evs q2 = Some q'"
      using 3(2) by (auto simp: Let_def bind_eq_Some_conv)
    have "accounts_ok q2"
      using q2(1) accounts_ctrl [OF ok] accounts_event [OF ok] accounts_same [OF same_accounts_handle ok]
      by (auto split: if_splits)
    then show ?thesis using 3(1) [OF False refl refl refl refl] q2 by blast
  qed (use 3 in simp)
qed (auto intro: accounts_net_reset split: if_splits)

lemma accounts_step: "qmi_step e q q' \<Longrightarrow> accounts_ok q \<Longrightarrow> accounts_ok q'"
proof (induction rule: qmi_step.induct)
  case (indication a q sq msg_id len ei c_struct ret q')
  then show ?case
    using accounts_same [OF same_accounts_txn(1)] accounts_same [OF same_accounts_message] accounts_same [OF same_accounts_txn(3)]
    by (auto simp: qmi_send_indication_def bind_eq_Some_conv split: prod.splits if_splits) (metis snd_conv)+
next
  case (txn_answer a q r)
  then show ?case by (simp add: accounts_ok_def complete_txn_def set_txn_def)
qed (auto intro: accounts_work accounts_same same_accounts_add same_accounts_txn same_accounts_message)

lemma accounts_init:
  assumes "qmi_handle_init e n (Some ops) hs True q0 = (0, q)" and "q_log q0 = []" and "op_del_server ops"
  shows "accounts_ok q"
proof -
  have c: "same_accounts x q'" if "qmi_sock_create e x = (r, q')" for x r q'
    using that by (auto simp: qmi_sock_create_def same_accounts_def q_step_def split: sum.splits prod.splits if_splits)
  have a: "accounts_ok (q'\<lparr>q_sock := s, q_sq := sq\<rparr>) = accounts_ok q'" for q' s sq by (simp add: accounts_ok_def)
  show ?thesis
    using assms a accounts_same [OF c]
    by (auto simp: qmi_handle_init_def Let_def accounts_ok_def q_step_def split: if_splits prod.splits sum.splits)
qed

text \<open>
  C16 (invariant). Every server a driver accepts is withdrawn exactly once: in every run of a handle the servers accepted are
  those listed and those withdrawn, and after the handle was released exactly those withdrawn, as often as they were accepted.
\<close>

theorem servers_withdrawn_once:
  assumes "qmi_handle_init e n (Some ops) hs True q0 = (0, q1)" and "q_log q0 = []" and "op_del_server ops"
    and "(qmi_step e)\<^sup>*\<^sup>* q1 q"
  shows "mset (accepted (q_log q)) = mset (q_lookup_results q) + mset (withdrawn (q_log q))
    \<and> mset (accepted (q_log (qmi_handle_release q))) = mset (withdrawn (q_log (qmi_handle_release q)))"
proof -
  have ok: "accounts_ok q"
    using assms(4) by (induction rule: rtranclp_induct) (auto intro: accounts_init [OF assms(1-3)] accounts_step)
  have "accounts_ok (qmi_handle_release q)"
    using accounts_del_server [OF ok, of ANY ANY] by (simp add: accounts_ok_def qmi_handle_release_def close_sock_def reset_txns_def)
  moreover have "q_lookup_results (qmi_handle_release q) = []"
    by (simp add: qmi_handle_release_def close_sock_def reset_txns_def qmi_recv_del_server_def svc_hit_def)
  ultimately show ?thesis using ok by (simp add: accounts_ok_def)
qed

section \<open>Transactions\<close>

text \<open>The identifier of a transaction in the table is its place there.\<close>

definition txns_ok :: "qmi_handle \<Rightarrow> bool" where
  "txns_ok q \<longleftrightarrow> (\<forall>i a. q_txns q i = Some a \<longrightarrow> txn_id (q_txn q a) = i)"

text \<open>The allocator returns an error or a free identifier below the limit, as documented.\<close>

definition ids_fresh :: "qmi_env \<Rightarrow> bool" where
  "ids_fresh e \<longleftrightarrow> (\<forall>S n. fst (qe_id e S n) < 65535 \<and> (0 \<le> fst (qe_id e S n) \<longrightarrow> nat (fst (qe_id e S n)) \<notin> S))"

text \<open>What the receive path leaves alone: the table may lose entries, and transactions outside of it keep their contents.\<close>

definition rx_frame :: "qmi_handle \<Rightarrow> qmi_handle \<Rightarrow> bool" where
  "rx_frame q q' \<longleftrightarrow> q_txns q' = q_txns q \<and> (\<forall>a. txn_id (q_txn q' a) = txn_id (q_txn q a))
     \<and> (\<forall>a. a \<notin> ran (q_txns q) \<longrightarrow> q_txn q' a = q_txn q a)"

lemma rx_frame_trans: "rx_frame q q' \<Longrightarrow> rx_frame q' q'' \<Longrightarrow> rx_frame q q''"
  by (simp add: rx_frame_def)

lemma rx_frame_refl: "rx_frame q q"
  by (simp add: rx_frame_def)

lemma rx_frame_quiet: "q_txns q' = q_txns q \<Longrightarrow> q_txn q' = q_txn q \<Longrightarrow> rx_frame q q'"
  by (simp add: rx_frame_def)

lemma send_keeps_txns:
  "q_txns (snd (q_send e sq data q)) = q_txns q" "q_txn (snd (q_send e sq data q)) = q_txn q"
  by (simp_all add: q_send_def q_step_def Let_def split: option.split)

lemma announce_keeps_txns:
  "q_txns (qmi_send_new_lookup e svc q) = q_txns q" "q_txn (qmi_send_new_lookup e svc q) = q_txn q"
  "q_txns (qmi_send_new_server e svc q) = q_txns q" "q_txn (qmi_send_new_server e svc q) = q_txn q"
  by (simp_all add: qmi_send_new_lookup_def qmi_send_new_server_def send_keeps_txns)

lemma announce_all_keeps_txns:
  "q_txns (fold (qmi_send_new_lookup e) svcs q) = q_txns q" "q_txn (fold (qmi_send_new_lookup e) svcs q) = q_txn q"
  "q_txns (fold (qmi_send_new_server e) svcs q) = q_txns q" "q_txn (fold (qmi_send_new_server e) svcs q) = q_txn q"
  by (rule fold_field, rule announce_keeps_txns)+

lemma ctrl_frame: "rx_frame q (qmi_recv_ctrl_pkt e buf len q)"
  by (rule rx_frame_quiet)
    (auto simp: qmi_recv_ctrl_pkt_def qmi_recv_bye_def qmi_recv_del_client_def qmi_recv_del_server_def qmi_recv_new_server_def
      q_event_def q_step_def Let_def split: option.split)

lemma handler_frame: "qmi_invoke_handler e sq tid buf len q = Some q' \<Longrightarrow> rx_frame q q'"
  by (rule rx_frame_quiet)
    (auto simp: qmi_invoke_handler_def q_step_def q_event_def bind_eq_Some_conv split: option.splits if_splits)

lemma message_frame: "qmi_handle_message e sq buf len q = Some q' \<Longrightarrow> rx_frame q q'"
proof -
  have "rx_frame q (complete_txn a r (set_txn a (\<lambda>t. t\<lparr>txn_dest := d\<rparr>) q))" if "q_txns q i = Some a" for a i r d
    using that by (auto simp: rx_frame_def complete_txn_def set_txn_def ran_def)
  moreover have "rx_frame q q" by (simp add: rx_frame_def)
  moreover assume "qmi_handle_message e sq buf len q = Some q'"
  ultimately show ?thesis
    using handler_frame by (auto simp: qmi_handle_message_def bind_eq_Some_conv split: option.splits if_splits)
qed

lemma net_reset_frame: "rx_frame q (qmi_handle_net_reset e q)"
proof -
  have "q_txns q1 = q_txns q \<and> q_txn q1 = q_txn q" if "qmi_sock_create e q = (r, q1)" for r q1
    using that by (auto simp: qmi_sock_create_def q_step_def split: sum.splits prod.splits if_splits)
  then show ?thesis
    by (intro rx_frame_quiet)
      (auto simp: qmi_handle_net_reset_def announce_all_keeps_txns q_event_def qmi_recv_del_server_def close_sock_def Let_def split: prod.split sum.split)
qed

lemma work_frame: "qmi_data_ready_work e evs q = Some q' \<Longrightarrow> rx_frame q q'"
proof (induction e evs q rule: qmi_data_ready_work.induct)
  case (3 e sq data evs q)
  let ?msg = "take (length (q_recv_buf q)) data"
  let ?buf = "?msg @ drop (length ?msg) (q_recv_buf q)"
  let ?q1 = "q\<lparr>q_recv_buf := ?buf\<rparr>"
  have q1: "rx_frame q ?q1" "rx_frame ?q1 (q_event ev ?q1)" for ev by (rule rx_frame_quiet; simp add: q_event_def)+
  show ?case
  proof (cases "q_sock q = None")
    case False
    then obtain q2 where q2: "(if sq_node sq = sq_node (q_sq ?q1) \<and> sq_port sq = QRTR_PORT_CTRL then Some (qmi_recv_ctrl_pkt e ?buf (length ?msg) ?q1)
         else if op_msg_handler (q_ops ?q1) then Some (q_event (Ev_msg_handler sq ?msg) ?q1)
         else qmi_handle_message e sq ?buf (length ?msg) ?q1) = Some q2" "qmi_data_ready_work e evs q2 = Some q'"
      using 3(2) by (auto simp: Let_def bind_eq_Some_conv)
    have "rx_frame ?q1 q2" using q2(1) ctrl_frame q1(2) message_frame by (auto split: if_splits)
    moreover have "rx_frame q2 q'" using 3(1) [OF False refl refl refl refl] q2 by blast
    ultimately show ?thesis using q1(1) rx_frame_trans by blast
  qed (use 3 rx_frame_refl in simp)
qed (auto intro: net_reset_frame rx_frame_refl split: if_splits)

lemma txns_ok_frame: "rx_frame q q' \<Longrightarrow> txns_ok q \<Longrightarrow> txns_ok q'"
  by (simp add: rx_frame_def txns_ok_def)

lemma txns_ok_init:
  assumes "ids_fresh e" and "a \<notin> ran (q_txns q)" and "txns_ok q"
  shows "txns_ok (snd (qmi_txn_init e a ei dest q))"
proof -
  obtain ret nxt where i: "qe_id e (dom (q_txns q)) (q_txn_next q) = (ret, nxt)" by fastforce
  have "ret < 65535" using assms(1) i unfolding ids_fresh_def by (metis fst_conv)
  then have "nat (ret mod 65536) = nat ret" if "0 \<le> ret" using that by (simp add: mod_pos_pos_trivial)
  then show ?thesis
    using assms(2,3) i by (auto simp: qmi_txn_init_def txns_ok_def set_txn_def ran_def Let_def)
qed

lemma txns_ok_remove: "txns_ok q \<Longrightarrow> txns_ok (txn_remove a q)"
  by (simp add: txns_ok_def txn_remove_def)

lemma txns_ok_wait: "txns_ok q \<Longrightarrow> txns_ok (snd (qmi_txn_wait a q))"
  by (auto simp: txns_ok_def qmi_txn_wait_def txn_remove_def set_txn_def Let_def)

lemma message_keeps_txns:
  assumes "qmi_send_message e sq tid type msg_id len ei c_struct q = Some (ret, q')"
  shows "q_txns q' = q_txns q" "q_txn q' = q_txn q"
proof -
  obtain r where "qmi_encode_message (qe_alloc e (q_tick q)) type msg_id len tid ei c_struct = Some r"
    using assms by (auto simp: qmi_send_message_def bind_eq_Some_conv)
  then have "q_txns q' = q_txns q \<and> q_txn q' = q_txn q"
    using assms send_keeps_txns [of e sq _ "q_step q"] by (cases r) (auto simp: qmi_send_message_def case_prod_beta q_step_def)
  then show "q_txns q' = q_txns q" "q_txn q' = q_txn q" by blast+
qed

lemma txns_ok_step:
  assumes "qmi_step e q q'" and ids: "ids_fresh e"
  shows "txns_ok q \<Longrightarrow> txns_ok q'"
  using assms(1)
proof (induction rule: qmi_step.induct)
  case (work evs q q')
  then show ?case using txns_ok_frame [OF work_frame] by blast
next
  case (add_lookup q service version inst)
  then show ?case by (simp add: txns_ok_def qmi_add_lookup_def announce_keeps_txns q_step_def Let_def)
next
  case (add_server q service version inst)
  then show ?case by (simp add: txns_ok_def qmi_add_server_def announce_keeps_txns q_step_def Let_def)
next
  case (txn_init a q ei dest)
  then show ?case using txns_ok_init [OF ids] by blast
next
  case (send sq tid type msg_id len ei c_struct q ret q')
  then show ?case using message_keeps_txns by (simp add: txns_ok_def)
next
  case (indication a q sq msg_id len ei c_struct ret q')
  obtain r q1 where i: "qmi_txn_init e a None None q = (r, q1)" by fastforce
  then have "txns_ok q1" using txns_ok_init [OF ids indication(1,3), of None None] by simp
  then show ?case
    using indication(2) i message_keeps_txns
    by (auto simp: qmi_send_indication_def bind_eq_Some_conv qmi_txn_cancel_def txns_ok_def txn_remove_def split: if_splits)
next
  case (txn_answer a q r)
  then show ?case by (auto simp: txns_ok_def complete_txn_def set_txn_def)
qed (auto simp: qmi_txn_cancel_def intro: txns_ok_wait txns_ok_remove)

lemma txns_ok_run:
  assumes "qmi_handle_init e n ops hs wq q0 = (0, q1)" and "(qmi_step e)\<^sup>*\<^sup>* q1 q" and "ids_fresh e"
  shows "txns_ok q"
  using assms(2)
proof (induction rule: rtranclp_induct)
  case base
  have "q_txns q' = q_txns x" if "qmi_sock_create e x = (r, q')" for x r q'
    using that by (auto simp: qmi_sock_create_def q_step_def split: sum.splits prod.splits if_splits)
  then show ?case
    using assms(1) by (fastforce simp: qmi_handle_init_def Let_def txns_ok_def q_step_def split: if_splits prod.splits sum.splits)
qed (rule txns_ok_step [OF _ assms(3)])

text \<open>
  C17 (safety). A transaction object may be given up after waiting: once \<^verbatim>\<open>qmi_txn_wait\<close> returned, with a result or for
  want of one, no message that arrives later touches it. In every run the identifiers in the table are those of the
  transactions.
\<close>

theorem no_late_response:
  assumes "qmi_handle_init e n ops hs wq q0 = (0, q1)" and "(qmi_step e)\<^sup>*\<^sup>* q1 q" and "ids_fresh e"
    and "qmi_txn_wait a q = (r, q')" and "r \<noteq> - ENETRESET" and "qmi_data_ready_work e evs q' = Some q''"
  shows "q_txn q'' a = q_txn q' a"
proof -
  have "txns_ok q" by (rule txns_ok_run [OF assms(1-3)])
  then have "a \<notin> ran (q_txns q')"
    using assms(4,5) by (auto simp: qmi_txn_wait_def txn_remove_def set_txn_def txns_ok_def ran_def Let_def split: if_splits)
  then show ?thesis using work_frame [OF assms(6)] by (simp add: rx_frame_def)
qed

section \<open>Examples\<close>

text \<open>An allocator that hands out the next identifier as long as it is free, and a handle with one handler.\<close>

definition example_qmi_env :: qmi_env where
  "example_qmi_env = \<lparr>qe_alloc = (\<lambda>_. True), qe_send = (\<lambda>_. 20), qe_create = (\<lambda>_. Inr 3),
     qe_name = (\<lambda>_. (0, example_client)),
     qe_id = (\<lambda>S n. if n < 65535 \<and> n \<notin> S then (int n, Suc n) else (- ENOSPC, n))\<rparr>"

lemma example_ids_fresh: "ids_fresh example_qmi_env"
  by (simp add: ids_fresh_def example_qmi_env_def)

definition example_ops :: qmi_ops where
  "example_ops = \<lparr>op_new_server = Some (\<lambda>_ _. 0), op_del_server = True, op_net_reset = False, op_msg_handler = False,
     op_bye = False, op_del_client = False\<rparr>"

definition example_handle :: qmi_handle where
  "example_handle = \<lparr>q_sock = None, q_sq = example_client, q_recv_buf = [], q_lookups = [], q_lookup_results = [],
     q_services = [], q_ops = example_ops, q_txns = Map.empty, q_txn_next = 0,
     q_txn = (\<lambda>_. \<lparr>txn_id = 0, txn_completion = 0, txn_result = 0, txn_ei = None, txn_dest = None\<rparr>),
     q_handlers = None, q_log = [], q_out = [], q_closed = [], q_tick = 0\<rparr>"

definition example_open :: qmi_handle where
  "example_open = example_handle\<lparr>q_sock := Some 3, q_recv_buf := replicate 64 0, q_tick := 2\<rparr>"

lemma example_init: "qmi_handle_init example_qmi_env 57 (Some example_ops) None True example_handle = (0, example_open)"
  by (simp add: qmi_handle_init_def qmi_sock_create_def q_step_def example_qmi_env_def example_handle_def example_open_def Let_def)

definition example_news :: recv_event where
  "example_news = Got \<lparr>sq_family = AF_QIPCRTR, sq_node = 7, sq_port = QRTR_PORT_CTRL\<rparr> (ctrl_pkt_bytes example_new)"

definition example_service :: qmi_service where
  "example_service = \<lparr>svc_service = 66, svc_version = 4, svc_instance = 0, svc_node = 9, svc_port = 6\<rparr>"

lemma example_news_work:
  "\<exists>q. qmi_data_ready_work example_qmi_env [example_news] example_open = Some q \<and> q_lookup_results q = [example_service]
    \<and> q_log q = [Ev_new_server example_service 0]"
proof -
  have "ctrl_pkt_of (ctrl_pkt_bytes example_new @ replicate 44 0) = example_new"
    by (rule ctrl_pkt_of_bytes [OF example_new_ok])
  then show ?thesis
    by (simp add: example_news_def example_open_def example_handle_def example_client_def qmi_recv_ctrl_pkt_def example_ops_def
        qmi_recv_new_server_def q_event_def q_step_def example_qmi_env_def Let_def) (simp add: example_new_def example_service_def)
qed

theorem servers_withdrawn_once_witness:
  "\<exists>q. qmi_data_ready_work example_qmi_env [example_news] example_open = Some q
    \<and> mset [example_service] = mset (q_lookup_results q) + mset (withdrawn (q_log q))
    \<and> mset (accepted (q_log (qmi_handle_release q))) = mset (withdrawn (q_log (qmi_handle_release q)))"
proof -
  obtain q where q: "qmi_data_ready_work example_qmi_env [example_news] example_open = Some q"
    "q_log q = [Ev_new_server example_service 0]" using example_news_work by blast
  then have "(qmi_step example_qmi_env)\<^sup>*\<^sup>* example_open q" by (intro r_into_rtranclp qmi_step.work)
  from servers_withdrawn_once [OF example_init _ _ this] q show ?thesis
    by (simp add: example_handle_def example_ops_def)
qed

text \<open>A transaction is given up by time; then its response comes.\<close>

theorem no_late_response_witness:
  "\<exists>q. qmi_data_ready_work example_qmi_env [Got example_peer [2, 0, 0, 32, 0, 0, 0]]
       (snd (qmi_txn_wait 8 (snd (qmi_txn_init example_qmi_env 8 None None example_open)))) = Some q
    \<and> q_txn q 8 = q_txn (snd (qmi_txn_wait 8 (snd (qmi_txn_init example_qmi_env 8 None None example_open)))) 8"
proof -
  let ?q = "snd (qmi_txn_init example_qmi_env 8 None None example_open)"
  have run: "(qmi_step example_qmi_env)\<^sup>*\<^sup>* example_open ?q"
    by (intro r_into_rtranclp qmi_step.txn_init) (simp add: example_open_def example_handle_def)
  have w: "qmi_txn_wait 8 ?q = (- ETIMEDOUT, snd (qmi_txn_wait 8 ?q))"
    by (simp add: qmi_txn_wait_def qmi_txn_init_def set_txn_def example_qmi_env_def example_open_def example_handle_def Let_def)
  have "\<exists>q. qmi_data_ready_work example_qmi_env [Got example_peer [2, 0, 0, 32, 0, 0, 0]] (snd (qmi_txn_wait 8 ?q)) = Some q"
    (is "\<exists>q. ?work = Some q")
    by (simp add: qmi_txn_wait_def qmi_txn_init_def txn_remove_def set_txn_def example_qmi_env_def example_open_def example_handle_def
        example_peer_def example_client_def example_ops_def qmi_handle_message_def hdr_type_def hdr_txn_id_def le16_at_def Let_def)
  then obtain q where q: "?work = Some q" by blast
  then show ?thesis using no_late_response [OF example_init run example_ids_fresh w _ q] by (simp del: qmi_data_ready_work.simps)
qed

end
