(* ===== verification/Qmi_Exchange.thy ===== *)
theory Qmi_Exchange
  imports Qmi_Interface
begin

text \<open>
  What QMI handles achieve together with the parts below them: a request reaches the handler of the service and its
  response the transaction of the client, byte for byte, and the servers a handle lists are those the name service has
  registered for its lookups. Messages pass from one handle to the other as the socket carries them.
\<close>

section \<open>A request and its response\<close>

definition willing :: "qmi_env \<Rightarrow> bool" where
  "willing e \<longleftrightarrow> (\<forall>n. qe_alloc e n \<and> 0 \<le> qe_send e n)"

text \<open>A message of plain fields that fits into \<open>len\<close> bytes.\<close>

definition plain_message :: "byte list \<Rightarrow> qmi_elem_info list \<Rightarrow> qmi_elem_info \<Rightarrow> nat \<Rightarrow> bool" where
  "plain_message src es z len \<longleftrightarrow> list_all (plain_field (length src)) es \<and> distinct (map tlv_type es) \<and> data_type z = QMI_EOTI
     \<and> length src < 2 ^ 31 \<and> length (wire src es) \<le> len \<and> len + 7 < 2 ^ 31"

text \<open>The structure \<open>out\<close> holds the fields of \<open>src\<close>, and what \<open>old\<close> had elsewhere.\<close>

definition same_fields :: "qmi_elem_info list \<Rightarrow> byte list \<Rightarrow> byte list \<Rightarrow> byte list \<Rightarrow> bool" where
  "same_fields es src old out \<longleftrightarrow> (\<forall>i < length src. out ! i =
     (if \<exists>e \<in> set es. offset e \<le> i \<and> i < offset e + field_size e then src ! i else old ! i))"

text \<open>A message that is not from the control port and fits into the buffer of a handle without a raw handler.\<close>

definition takes :: "qmi_handle \<Rightarrow> sockaddr_qrtr \<Rightarrow> nat \<Rightarrow> bool" where
  "takes q sq n \<longleftrightarrow> q_sock q \<noteq> None \<and> n \<le> length (q_recv_buf q) \<and> \<not> op_msg_handler (q_ops q)
     \<and> \<not> (sq_node sq = sq_node (q_sq q) \<and> sq_port sq = QRTR_PORT_CTRL)"

abbreviation (input) qmi_msg :: "nat \<Rightarrow> nat \<Rightarrow> nat \<Rightarrow> byte list \<Rightarrow> qmi_elem_info list \<Rightarrow> byte list" where
  "qmi_msg type tid msg_id src es \<equiv> qmi_header_bytes type tid msg_id (length (wire src es)) @ wire src es"

lemma le_bytes_two: "le_bytes 2 n = [word_of_nat n, word_of_nat (n div 256)]"
  by (simp add: numeral_2_eq_2)

lemma le16_digits: "n < 65536 \<Longrightarrow> n mod 256 + 256 * (n div 256 mod 256) = (n :: nat)"
  by (simp add: less_mult_imp_div_less)

lemma header_fields:
  assumes "type < 256" and "tid < 65536" and "msg_id < 65536"
  shows "hdr_type (qmi_header_bytes type tid msg_id n @ rest) = type"
    "hdr_txn_id (qmi_header_bytes type tid msg_id n @ rest) = tid"
    "hdr_msg_id (qmi_header_bytes type tid msg_id n @ rest) = msg_id"
  using assms
  by (simp_all add: qmi_header_bytes_def hdr_type_def hdr_txn_id_def hdr_msg_id_def le16_at_def le_bytes_two unat_byte_of_nat le16_digits)

lemma send_plain:
  assumes "willing e" and "plain_message src es z len" and "q_sock q = Some s"
  shows "qmi_send_message e sq tid type msg_id len (Some (es @ [z])) (Some src) q =
    Some (0, q\<lparr>q_tick := q_tick q + 2,
      q_out := q_out q @ [(s, sq, qmi_msg type tid msg_id src es, qe_send e (Suc (q_tick q)))]\<rparr>)"
  using assms encode_plain [of src es z len type msg_id tid] length_qmi_header [of type tid msg_id "length (wire src es)"]
  by (simp add: qmi_send_message_def plain_message_def willing_def q_send_def q_step_def Let_def not_less)

lemma decode_fields:
  assumes "plain_message src es z len" and "length out = length src" and "length h = 7"
  shows "\<exists>out'. qmi_decode_message (Some (h @ wire src es @ rest)) (7 + length (wire src es)) (Some (es @ [z])) (Some out)
    = Some (int (length (wire src es)), out') \<and> same_fields es src out out'"
  using assms decode_plain [of src es z out h rest] fold_copy_field [of src es out]
  by (auto simp: plain_message_def same_fields_def)

lemma work_message:
  assumes "takes q sq (length m)"
  shows "qmi_data_ready_work e [Got sq m] q =
    qmi_handle_message e sq (m @ drop (length m) (q_recv_buf q)) (length m) (q\<lparr>q_recv_buf := m @ drop (length m) (q_recv_buf q)\<rparr>)"
proof -
  have "m = take (length (q_recv_buf q)) m" using assms by (simp add: takes_def)
  moreover have "x \<bind> qmi_data_ready_work e [] = x" for x :: "qmi_handle option" by (cases x) simp_all
  ultimately show ?thesis using assms by (auto simp: takes_def Let_def)
qed

lemma request_served:
  assumes "willing e" and "plain_message src es z len" and "takes q sq (7 + length (wire src es))"
    and "q_handlers q = Some hs" and "find_handler hs QMI_REQUEST msg_id 0 = Some (i, h)"
    and "h_ei h = Some (es @ [z])" and "h_decoded_size h = length src" and "tid < 65536" and "msg_id < 65536"
  shows "\<exists>q' out. qmi_data_ready_work e [Got sq (qmi_msg QMI_REQUEST tid msg_id src es)] q = Some q'
    \<and> q_log q' = q_log q @ [Ev_handler i sq tid out] \<and> same_fields es src (replicate (length src) 0) out \<and> q_sock q' = q_sock q"
proof -
  let ?h = "qmi_header_bytes QMI_REQUEST tid msg_id (length (wire src es))"
  have n: "length (?h @ wire src es) = 7 + length (wire src es)" by (simp add: length_qmi_header)
  have t: "takes q sq (length (?h @ wire src es))" using assms(3) n by simp
  obtain rest where rest: "drop (7 + length (wire src es)) (q_recv_buf q) = rest" by blast
  obtain out where "qmi_decode_message (Some (?h @ wire src es @ rest)) (7 + length (wire src es)) (Some (es @ [z]))
      (Some (replicate (length src) 0)) = Some (int (length (wire src es)), out)" "same_fields es src (replicate (length src) 0) out"
    using decode_fields [OF assms(2) length_replicate length_qmi_header] by blast
  then show ?thesis
    using assms header_fields [of 0 tid msg_id "length (wire src es)" "wire src es @ rest"]
    unfolding work_message [OF t] rest n
    by (simp add: qmi_handle_message_def qmi_invoke_handler_def willing_def q_event_def q_step_def)
qed

lemma response_completes:
  assumes "plain_message src es z len" and "takes q sq (7 + length (wire src es))" and "tid < 65536" and "msg_id < 65536"
    and "q_txns q tid = Some a" and "txn_ei (q_txn q a) = Some (es @ [z])" and "txn_dest (q_txn q a) = Some dest"
    and "length dest = length src" and "txn_id (q_txn q a) = tid"
  shows "\<exists>q' q'' dest'. qmi_data_ready_work e [Got sq (qmi_msg QMI_RESPONSE tid msg_id src es)] q = Some q'
    \<and> qmi_txn_wait a q' = (int (length (wire src es)), q'') \<and> txn_dest (q_txn q'' a) = Some dest' \<and> same_fields es src dest dest'
    \<and> q_txns q'' = (q_txns q)(tid := None)"
proof -
  let ?h = "qmi_header_bytes QMI_RESPONSE tid msg_id (length (wire src es))"
  have n: "length (?h @ wire src es) = 7 + length (wire src es)" by (simp add: length_qmi_header)
  have t: "takes q sq (length (?h @ wire src es))" using assms(2) n by simp
  obtain rest where rest: "drop (7 + length (wire src es)) (q_recv_buf q) = rest" by blast
  obtain out where "qmi_decode_message (Some (?h @ wire src es @ rest)) (7 + length (wire src es)) (Some (es @ [z]))
      (Some dest) = Some (int (length (wire src es)), out)" "same_fields es src dest out"
    using decode_fields [OF assms(1,8) length_qmi_header] by blast
  then show ?thesis
    using assms header_fields [of 2 tid msg_id "length (wire src es)" "wire src es @ rest"]
    unfolding work_message [OF t] rest n
    by (simp add: qmi_handle_message_def complete_txn_def set_txn_def qmi_txn_wait_def txn_remove_def Let_def)
qed

lemma txn_init_limit:
  assumes "ids_fresh e" and "qmi_txn_init e a ei dest q = (tid, q')"
  shows "tid < 65535"
proof -
  have "tid = fst (qe_id e (dom (q_txns q)) (q_txn_next q))"
    using assms(2) by (auto simp: qmi_txn_init_def Let_def split: prod.splits if_splits)
  then show ?thesis using assms(1) by (simp add: ids_fresh_def)
qed

lemma txn_init_gives:
  assumes "qmi_txn_init e a ei dest q = (tid, q')" and "0 \<le> tid" and "tid < 65535"
  shows "q_txns q' = (q_txns q)(nat tid \<mapsto> a)" "txn_id (q_txn q' a) = nat tid" "txn_ei (q_txn q' a) = ei" "txn_dest (q_txn q' a) = dest"
    "q_sock q' = q_sock q" "takes q' sq n = takes q sq n" "q_out q' = q_out q"
proof -
  have "nat (tid mod 65536) = nat tid" using assms(2,3) by (simp add: mod_pos_pos_trivial)
  then show "q_txns q' = (q_txns q)(nat tid \<mapsto> a)" "txn_id (q_txn q' a) = nat tid" "txn_ei (q_txn q' a) = ei" "txn_dest (q_txn q' a) = dest"
    "q_sock q' = q_sock q" "takes q' sq n = takes q sq n" "q_out q' = q_out q"
    using assms by (auto simp: qmi_txn_init_def set_txn_def takes_def Let_def split: prod.splits if_splits)
qed


definition example_fields :: "qmi_elem_info list" where
  "example_fields = [Elem QMI_UNSIGNED_2_BYTE 1 2 NO_ARRAY 1 0 None, Elem QMI_UNSIGNED_1_BYTE 2 1 STATIC_ARRAY 2 2 None]"

abbreviation (input) example_end :: qmi_elem_info where
  "example_end \<equiv> Elem QMI_EOTI 0 0 NO_ARRAY 0 0 None"

definition example_server :: qmi_handle where
  "example_server = example_open\<lparr>q_handlers := Some [\<lparr>h_type = QMI_REQUEST, h_msg_id = 32,
     h_ei = Some (example_fields @ [example_end]), h_decoded_size = 4\<rparr>]\<rparr>"

lemma example_plain: "plain_message [w, x, y, v] example_fields example_end 64" "length (wire [w, x, y, v] example_fields) = 10"
  by (simp_all add: plain_message_def example_fields_def plain_field_def is_basic_def elem_fits_def field_size_def tlv_header_def field_bytes_def)


section \<open>Servers and the registry\<close>

text \<open>What a handle knows: for each address the service and the instance word of the server listed first.\<close>

fun listed :: "qmi_service list \<Rightarrow> nat \<times> nat \<Rightarrow> (nat \<times> nat) option" where
  "listed [] a = None"
| "listed (svc # svcs) a = (if a = (svc_node svc, svc_port svc) then Some (svc_service svc, svc_version svc + 256 * svc_instance svc)
     else listed svcs a)"

text \<open>Messages of the name service about servers, as the handle at \<open>d\<close> receives them from its control port.\<close>

definition server_news :: "qrtr_ctrl_pkt \<Rightarrow> bool" where
  "server_news p \<longleftrightarrow> pkt_ok p \<and> pkt_cmd p \<in> {QRTR_TYPE_NEW_SERVER, QRTR_TYPE_DEL_SERVER} \<and> server_node p \<noteq> ANY \<and> server_port p \<noteq> ANY"

definition deliveries :: "sockaddr_qrtr \<Rightarrow> (sockaddr_qrtr \<times> qrtr_ctrl_pkt) list \<Rightarrow> recv_event list" where
  "deliveries d ms = map (\<lambda>m. Got (d\<lparr>sq_port := QRTR_PORT_CTRL\<rparr>) (ctrl_pkt_bytes (snd m))) (filter (\<lambda>m. fst m = d) ms)"

text \<open>A handle at \<open>d\<close> whose driver accepts every server.\<close>

definition observing :: "sockaddr_qrtr \<Rightarrow> qmi_handle \<Rightarrow> bool" where
  "observing d q \<longleftrightarrow> q_sock q \<noteq> None \<and> ctrl_pkt_size \<le> length (q_recv_buf q) \<and> sq_node (q_sq q) = sq_node d
     \<and> (\<exists>f. op_new_server (q_ops q) = Some f \<and> (\<forall>n svc. \<not> f n svc < 0))"

lemma listed_del:
  "node \<noteq> ANY \<Longrightarrow> port \<noteq> ANY \<Longrightarrow> listed (filter (\<lambda>svc. \<not> svc_hit node port svc) svcs) = (listed svcs)((node, port) := None)"
  by (induction svcs) (auto simp: svc_hit_def fun_eq_iff)

lemma news_learned:
  assumes "observing d q" and "willing e" and "server_news p"
  shows "listed (q_lookup_results (qmi_recv_ctrl_pkt e (ctrl_pkt_bytes p @ rest) ctrl_pkt_size q)) = learn p (listed (q_lookup_results q))
    \<and> observing d (qmi_recv_ctrl_pkt e (ctrl_pkt_bytes p @ rest) ctrl_pkt_size q)"
proof -
  have "server_instance p mod 256 + 256 * (server_instance p div 256) = server_instance p" by simp
  moreover have "ctrl_pkt_of (ctrl_pkt_bytes p @ rest) = p" using assms(3) by (simp add: server_news_def ctrl_pkt_of_bytes)
  ultimately show ?thesis
    using assms
    by (auto simp: qmi_recv_ctrl_pkt_def server_news_def learn_def qmi_recv_new_server_def qmi_recv_del_server_def listed_del
        observing_def willing_def q_event_def q_step_def Let_def fun_eq_iff simp del: not_less)
qed

lemma news_work:
  assumes "observing d q" and "willing e" and "server_news p"
  shows "\<exists>q1. (\<forall>evs. qmi_data_ready_work e (Got (d\<lparr>sq_port := QRTR_PORT_CTRL\<rparr>) (ctrl_pkt_bytes p) # evs) q = qmi_data_ready_work e evs q1)
    \<and> observing d q1 \<and> listed (q_lookup_results q1) = learn p (listed (q_lookup_results q))"
proof -
  let ?buf = "ctrl_pkt_bytes p @ drop ctrl_pkt_size (q_recv_buf q)"
  have o: "observing d (q\<lparr>q_recv_buf := ?buf\<rparr>)" using assms(1) by (simp add: observing_def)
  have n: "ctrl_pkt_size \<le> length (q_recv_buf q)" "q_sock q \<noteq> None" "sq_node (q_sq q) = sq_node d" using assms(1) by (simp_all add: observing_def)
  then have tk: "take (length (q_recv_buf q)) (ctrl_pkt_bytes p) = ctrl_pkt_bytes p" by simp
  show ?thesis
  proof (rule exI [of _ "qmi_recv_ctrl_pkt e ?buf ctrl_pkt_size (q\<lparr>q_recv_buf := ?buf\<rparr>)"], intro conjI allI)
    show "qmi_data_ready_work e (Got (d\<lparr>sq_port := QRTR_PORT_CTRL\<rparr>) (ctrl_pkt_bytes p) # evs) q
      = qmi_data_ready_work e evs (qmi_recv_ctrl_pkt e ?buf ctrl_pkt_size (q\<lparr>q_recv_buf := ?buf\<rparr>))" for evs
      using n by (auto simp: tk Let_def)
  qed (use news_learned [OF o assms(2,3), of "drop ctrl_pkt_size (q_recv_buf q)"] in simp_all)
qed

lemma news_replayed:
  assumes "observing d q" and "willing e" and "\<And>m. m \<in> set ms \<Longrightarrow> fst m = d \<Longrightarrow> server_news (snd m)"
  shows "\<exists>q'. qmi_data_ready_work e (deliveries d ms) q = Some q' \<and> observing d q'
    \<and> listed (q_lookup_results q') = replay d ms (listed (q_lookup_results q))"
  using assms
proof (induction ms arbitrary: q)
  case Nil
  then show ?case by (simp add: deliveries_def)
next
  case (Cons m ms)
  show ?case
  proof (cases "fst m = d")
    case True
    then have p: "server_news (snd m)" using Cons.prems(3) by simp
    obtain q1 where q1: "\<And>evs. qmi_data_ready_work e (Got (d\<lparr>sq_port := QRTR_PORT_CTRL\<rparr>) (ctrl_pkt_bytes (snd m)) # evs) q
        = qmi_data_ready_work e evs q1" "observing d q1" "listed (q_lookup_results q1) = learn (snd m) (listed (q_lookup_results q))"
      using news_work [OF Cons.prems(1,2) p] by blast
    have "deliveries d (m # ms) = Got (d\<lparr>sq_port := QRTR_PORT_CTRL\<rparr>) (ctrl_pkt_bytes (snd m)) # deliveries d ms"
      using True by (simp add: deliveries_def)
    then show ?thesis using Cons.IH [OF q1(2) Cons.prems(2)] Cons.prems(3) True q1(1,3) by simp
  qed (use Cons in \<open>simp add: deliveries_def\<close>)
qed

text \<open>
  C13 (refinement). The servers a QMI handle lists are the registered servers its lookups ask for: if the list
  agrees with the registry, the name service handles a packet and the handle receives what it was sent, the
  list agrees again. The conditions are that the packet neither replaces a server by a different one on the
  same port nor drops a lookup of the handle, that it is not a hello of the handle's own address, that the
  transmissions and the handle's allocations succeed, that what reaches the handle is news of servers only,
  and that its driver accepts every server it is told of.
\<close>

theorem lookup_results_track_registry:
  assumes "ns_inv s" and "pkt_ok pkt" and "ns_dispatch e sq pkt s = (r, s')"
    and "d \<noteq> bcast_sq s" and "\<forall>j a q. 0 \<le> sendmsg_ret e j a q"
    and "\<forall>lk \<in> set (lookups s). lk_sq lk = d \<longrightarrow> lk \<in> set (lookups s')"
    and "pkt_cmd pkt = QRTR_TYPE_HELLO \<longrightarrow> sq \<noteq> d"
    and "pkt_cmd pkt = QRTR_TYPE_NEW_SERVER \<longrightarrow>
      reg s (server_addr (local_node s) sq pkt) \<in> {None, Some (server_service pkt, server_instance pkt)}"
    and "observing d q" and "willing qe" and "listed (q_lookup_results q) = matching d s"
    and "\<forall>m \<in> set (drop (length (msgs s)) (msgs s')). fst m = d \<longrightarrow> server_news (snd m)"
  shows "\<exists>q'. qmi_data_ready_work qe (deliveries d (drop (length (msgs s)) (msgs s'))) q = Some q'
    \<and> listed (q_lookup_results q') = matching d s'"
proof -
  obtain ms where ms: "msgs s' = msgs s @ ms" "replay d ms (matching d s) = matching d s'"
    using dispatch_tracks [OF assms(1-4)] assms(5-8) by (auto simp: tracks_def)
  then have "drop (length (msgs s)) (msgs s') = ms" by simp
  then show ?thesis using news_replayed [OF assms(9,10), of ms] assms(11,12) ms(2) by auto
qed

definition example_observer :: qmi_handle where
  "example_observer = example_open\<lparr>q_lookup_results :=
     [\<lparr>svc_service = 66, svc_version = 3, svc_instance = 0, svc_node = 9, svc_port = 5\<rparr>]\<rparr>"

lemma example_listed: "listed (q_lookup_results example_observer) = matching example_client example_ns"
  by (rule ext) (auto simp: example_observer_def matching_def reg_def servers_of_def xa_load_def wanted_def lookup_wants_def example_ns_def)

lemma example_new_run:
  assumes "ns_dispatch example_env example_peer example_new example_ns = (r, s')"
  shows "lookups s' = lookups example_ns" "msgs s' = msgs example_ns @ [(example_client, example_new)]"
proof -
  have "ctrl_cmd_new_server example_env example_peer 66 4 9 6 example_ns = (r, s')"
    using assms by (simp add: ns_dispatch_def example_new_def)
  then have "lookups s' = lookups example_ns \<and> msgs s' = msgs example_ns @ [(example_client, example_new)]"
    by (rule new_server_run [OF example_ns_inv, where n = 9 and p = 6])
      (auto simp: example_peer_def example_ns_def new_msgs_def lookup_wants_def example_new_def server_pkt_def)
  then show "lookups s' = lookups example_ns" "msgs s' = msgs example_ns @ [(example_client, example_new)]" by blast+
qed

theorem lookup_results_track_registry_witness:
  "\<exists>q'. qmi_data_ready_work example_qmi_env (deliveries example_client [(example_client, example_new)]) example_observer = Some q'
    \<and> listed (q_lookup_results q') = matching example_client (snd (ns_dispatch example_env example_peer example_new example_ns))"
proof -
  obtain r s' where run: "ns_dispatch example_env example_peer example_new example_ns = (r, s')" by fastforce
  note out = example_new_run [OF run]
  have new: "server_news example_new" by (simp add: server_news_def example_new_ok) (simp add: example_new_def)
  have obs: "observing example_client example_observer"
    by (simp add: observing_def example_observer_def example_open_def example_handle_def example_ops_def)
  have w: "willing example_qmi_env" by (simp add: willing_def example_qmi_env_def)
  have reg: "reg example_ns (server_addr (local_node example_ns) example_peer example_new) = None"
    by (simp add: reg_def server_addr_def servers_of_def xa_load_def example_ns_def example_peer_def example_new_def)
  have "example_client \<noteq> bcast_sq example_ns" "pkt_cmd example_new \<noteq> QRTR_TYPE_HELLO"
    by (simp_all add: example_client_def example_ns_def example_new_def)
  then show ?thesis
    using lookup_results_track_registry [OF example_ns_inv example_new_ok run _ _ _ _ _ obs w example_listed] out new reg run
    by (simp del: qmi_data_ready_work.simps)
qed

end
