(* ===== verification/Qrtr_Fifo.thy ===== *)
theory Qrtr_Fifo
  imports Qrtr_Proto "HOL-Library.Monad_Syntax"
begin

text \<open>
  The shared-memory FIFO of the IPC router transports \<^verbatim>\<open>net/qrtr/gunyah.c\<close> and
  \<^verbatim>\<open>net/qrtr/genpool.c\<close>: the pipe both describe, the bytes it holds, and the contract of its
  operations as a locale. Each transport interprets the locale on its own operations.

  The words for head and tail are shared with the peer, so they are arbitrary 32-bit values; a pipe is
  \<open>pipe_ok\<close> when both lie inside the FIFO.
\<close>

section \<open>Pipes\<close>

record fifo_pipe =
  pipe_tail :: nat
  pipe_head :: nat
  pipe_read_notify :: nat
  pipe_fifo :: "byte list"
  pipe_length :: nat

abbreviation (input) FIFO_FULL_RESERVE :: nat where "FIFO_FULL_RESERVE \<equiv> 8"
abbreviation (input) FIFO_SIZE :: nat where "FIFO_SIZE \<equiv> 16384"

definition pipe_ok :: "fifo_pipe \<Rightarrow> bool" where
  "pipe_ok p \<longleftrightarrow> length (pipe_fifo p) = pipe_length p \<and> FIFO_FULL_RESERVE < pipe_length p \<and> pipe_length p < 2 ^ 31
     \<and> pipe_tail p < pipe_length p \<and> pipe_head p < pipe_length p"

definition pipe_used :: "fifo_pipe \<Rightarrow> nat" where
  "pipe_used p = (if pipe_head p < pipe_tail p then pipe_length p - pipe_tail p + pipe_head p
     else pipe_head p - pipe_tail p)"

definition contents :: "fifo_pipe \<Rightarrow> byte list" where
  "contents p = map (\<lambda>i. pipe_fifo p ! ((pipe_tail p + i) mod pipe_length p)) [0..<pipe_used p]"

text \<open>The two copies out of the FIFO from position \<open>pos\<close>, and the two copies into it.\<close>

definition copy_out :: "fifo_pipe \<Rightarrow> nat \<Rightarrow> byte list \<Rightarrow> nat \<Rightarrow> nat \<Rightarrow> byte list option" where
  "copy_out p pos data d n = do {
     let len = min n (u64_sub (pipe_length p) pos);
     data1 \<leftarrow> (if len \<noteq> 0 then do { bs \<leftarrow> rd (pipe_fifo p) pos len; wr data d bs } else Some data);
     if len \<noteq> n then do { bs \<leftarrow> rd (pipe_fifo p) 0 (n - len); wr data1 (d + len) bs } else Some data1 }"

definition copy_in :: "fifo_pipe \<Rightarrow> nat \<Rightarrow> byte list \<Rightarrow> byte list option" where
  "copy_in p pos bs = do {
     let len = min (length bs) (u64_sub (pipe_length p) pos);
     f1 \<leftarrow> (if len \<noteq> 0 then wr (pipe_fifo p) pos (take len bs) else Some (pipe_fifo p));
     if len \<noteq> length bs then wr f1 0 (drop len bs) else Some f1 }"

section \<open>The contract of a byte FIFO\<close>

text \<open>
  \<open>peek p data d n\<close> copies the next \<open>n\<close> bytes to offset \<open>d\<close> of an object, \<open>advance\<close> gives them up, and
  \<open>put\<close> appends. A writer that stays below \<open>tx_avail\<close> never overruns the reader.
\<close>

locale byte_fifo =
  fixes ok :: "'p \<Rightarrow> bool"
    and bytes :: "'p \<Rightarrow> byte list"
    and cap :: "'p \<Rightarrow> nat"
    and rx_avail :: "'p \<Rightarrow> nat"
    and peek :: "'p \<Rightarrow> byte list \<Rightarrow> nat \<Rightarrow> nat \<Rightarrow> byte list option"
    and advance :: "'p \<Rightarrow> nat \<Rightarrow> 'p"
    and tx_avail :: "'p \<Rightarrow> nat"
    and put :: "'p \<Rightarrow> byte list \<Rightarrow> 'p option"
  assumes rx_avail: "ok p \<Longrightarrow> rx_avail p = length (bytes p)"
    and tx_avail: "ok p \<Longrightarrow> tx_avail p = cap p - length (bytes p)"
    and cap_pos: "ok p \<Longrightarrow> 0 < cap p"
    and peek: "ok p \<Longrightarrow> n \<le> length (bytes p) \<Longrightarrow> d \<le> length data \<Longrightarrow> peek p data d n = wr data d (take n (bytes p))"
    and advance: "ok p \<Longrightarrow> n \<le> length (bytes p) \<Longrightarrow>
      ok (advance p n) \<and> bytes (advance p n) = drop n (bytes p) \<and> cap (advance p n) = cap p"
    and put: "ok p \<Longrightarrow> length bs \<le> tx_avail p \<Longrightarrow>
      \<exists>p'. put p bs = Some p' \<and> ok p' \<and> bytes p' = bytes p @ bs \<and> cap p' = cap p"
begin

lemma ok_advance: "ok p \<Longrightarrow> n \<le> rx_avail p \<Longrightarrow> ok (advance p n)"
  by (simp add: advance rx_avail)

lemma bytes_advance: "ok p \<Longrightarrow> n \<le> rx_avail p \<Longrightarrow> bytes (advance p n) = drop n (bytes p)"
  by (simp add: advance rx_avail)

text \<open>Taking at most \<open>n\<close> of the bytes there are.\<close>

lemma take_up_to:
  assumes "ok p" and "d + min (rx_avail p) n \<le> length data"
  shows "peek p data d (min (rx_avail p) n) = wr data d (take n (bytes p))
    \<and> wr data d (take n (bytes p)) \<noteq> None
    \<and> bytes (advance p (min (rx_avail p) n)) = drop n (bytes p)
    \<and> ok (advance p (min (rx_avail p) n))"
proof -
  have k: "min (rx_avail p) n \<le> length (bytes p)" using assms(1) by (simp add: rx_avail)
  have t: "take (min (rx_avail p) n) (bytes p) = take n (bytes p)"
    "drop (min (rx_avail p) n) (bytes p) = drop n (bytes p)"
    using assms(1) by (simp_all add: rx_avail min_def)
  show ?thesis
    using advance [OF assms(1) k] peek [OF assms(1) k, of d data] assms t by (simp add: wr_def rx_avail)
qed

lemma empty_iff: "ok p \<Longrightarrow> rx_avail p = 0 \<longleftrightarrow> bytes p = []"
  by (simp add: rx_avail)

lemma drained_has_room: "ok p \<Longrightarrow> bytes p = [] \<Longrightarrow> 0 < tx_avail p"
  by (simp add: tx_avail cap_pos)

text \<open>What is written can be read back behind what was there.\<close>

lemma write_then_read:
  assumes "ok p" and "length bs \<le> tx_avail p" and "put p bs = Some p'" and "d + length bs \<le> length data"
  shows "peek (advance p' (rx_avail p)) data d (length bs) = wr data d bs"
proof -
  have w: "ok p'" "bytes p' = bytes p @ bs" using put [OF assms(1,2)] assms(3) by auto
  have a: "ok (advance p' (rx_avail p))" "bytes (advance p' (rx_avail p)) = bs"
    using advance [OF w(1), of "rx_avail p"] w(2) assms(1) by (simp_all add: rx_avail)
  show ?thesis using peek [OF a(1), of "length bs" d data] a(2) assms(4) by simp
qed

end

section \<open>Positions around the ring\<close>

lemma pipe_used_less: "pipe_ok p \<Longrightarrow> pipe_used p < pipe_length p"
  by (auto simp: pipe_ok_def pipe_used_def)

lemma length_contents [simp]: "length (contents p) = pipe_used p"
  by (simp add: contents_def)

lemma contents_Nil: "contents p = [] \<longleftrightarrow> pipe_used p = 0"
  by (simp add: contents_def)

lemma take_contents:
  "n \<le> pipe_used p \<Longrightarrow> take n (contents p) = map (\<lambda>i. pipe_fifo p ! ((pipe_tail p + i) mod pipe_length p)) [0..<n]"
  by (simp add: contents_def take_map)

lemma mod_ring: "(a :: nat) < L \<Longrightarrow> i < L \<Longrightarrow> (a + i) mod L = (if a + i < L then a + i else a + i - L)"
  by (simp add: mod_if)

lemma wr_twice:
  assumes "length x = k" and "d + k + length y \<le> length m \<or> y \<noteq> []"
  shows "Option.bind (wr m d x) (\<lambda>m'. wr m' (d + k) y) = wr m d (x @ y)"
proof (cases "d + length x + length y \<le> length m")
  case True
  then show ?thesis using wr_wr [OF True] assms(1) by simp
next
  case False
  then show ?thesis
    using assms(1) by (cases "wr m d x") (auto simp: wr_def [of _ "d + k"] wr_def [of _ _ "x @ y"] length_wr)
qed

lemma copy_out_bytes:
  assumes "length (pipe_fifo p) = pipe_length p" and "pos < pipe_length p" and "pipe_length p < 2 ^ 31"
    and "n \<le> pipe_length p" and "d \<le> length data"
  shows "copy_out p pos data d n = wr data d (map (\<lambda>i. pipe_fifo p ! ((pos + i) mod pipe_length p)) [0..<n])"
proof -
  let ?f = "pipe_fifo p" and ?L = "pipe_length p"
  define k where "k = min n (?L - pos)"
  define x where "x = take k (drop pos ?f)"
  define y where "y = take (n - k) ?f"
  have u: "u64_sub ?L pos = ?L - pos" using assms by (simp add: width_simps)
  have xy: "x @ y = map (\<lambda>i. ?f ! ((pos + i) mod ?L)) [0..<n]"
    unfolding x_def y_def k_def using assms by (intro nth_equalityI) (auto simp: nth_append mod_ring add.commute)
  have x: "length x = k" and y: "length y = n - k" and k: "k = 0 \<longrightarrow> n = 0" "k \<le> n"
    using assms by (auto simp: x_def y_def k_def)
  have "pos + k \<le> ?L" "n - k \<le> ?L" using assms by (auto simp: k_def)
  then have rx: "rd ?f pos k = Some x" and ry: "rd ?f 0 (n - k) = Some y"
    using assms(1) by (simp_all add: rd_def x_def y_def)
  have c: "copy_out p pos data d n = (do { data1 \<leftarrow> (if k \<noteq> 0 then wr data d x else Some data);
      if k \<noteq> n then wr data1 (d + k) y else Some data1 })"
    unfolding copy_out_def Let_def u k_def [symmetric] rx ry bind.bind_lunit by (rule refl)
  consider "n = 0" | "0 < n" "k = n" | "0 < n" "k \<noteq> n" "y \<noteq> []"
    using k y by fastforce
  then have "copy_out p pos data d n = wr data d (x @ y)"
  proof cases
    case 1
    then show ?thesis using c x y k(2) assms(5) by (simp add: wr_def)
  next
    case 2
    then show ?thesis using c y by simp
  next
    case 3
    then show ?thesis using c k(1) wr_twice [OF x] by simp
  qed
  then show ?thesis by (simp only: xy)
qed

lemma copy_in_near:
  assumes "length (pipe_fifo p) = pipe_length p" and "pipe_length p < 2 ^ 31" and "pos + length bs \<le> pipe_length p"
  shows "copy_in p pos bs = Some (take pos (pipe_fifo p) @ bs @ drop (pos + length bs) (pipe_fifo p))"
proof -
  have u: "u64_sub (pipe_length p) pos = pipe_length p - pos" using assms by (simp add: width_simps)
  have m: "min (length bs) (pipe_length p - pos) = length bs" using assms by simp
  show ?thesis unfolding copy_in_def Let_def u m using assms by (simp add: wr_def)
qed

lemma copy_in_far:
  assumes "length (pipe_fifo p) = pipe_length p" and "pipe_length p < 2 ^ 31" and "pos < pipe_length p"
    and "pipe_length p < pos + length bs" and "length bs \<le> pipe_length p"
  defines "k \<equiv> pipe_length p - pos"
  shows "copy_in p pos bs = Some (drop k bs @ take (pipe_length p - length bs) (drop (length bs - k) (pipe_fifo p)) @ take k bs)"
proof -
  have u: "u64_sub (pipe_length p) pos = k" using assms by (simp add: width_simps)
  have m: "min (length bs) k = k" and k: "k \<noteq> 0" "k \<noteq> length bs" "pos + k = pipe_length p" using assms by simp_all
  have w: "wr (pipe_fifo p) pos (take k bs) = Some (take pos (pipe_fifo p) @ take k bs)"
    using assms(1,4) k(3) by (simp add: wr_def)
  have "drop (length bs - k) (take pos (pipe_fifo p)) = take (pipe_length p - length bs) (drop (length bs - k) (pipe_fifo p))"
    using assms(3,4) by (simp add: drop_take k_def)
  then show ?thesis
    unfolding copy_in_def Let_def u m using w k assms(1,4,5) by (simp add: wr_def k_def)
qed

text \<open>Both cases leave the new bytes at the positions after \<open>pos\<close> and the old ones elsewhere.\<close>

lemma near_nth:
  assumes "length f = L" and "pos + length bs \<le> L" and "pos < L" and i: "i < L"
  shows "(take pos f @ bs @ drop (pos + length bs) f) ! ((pos + i) mod L) =
     (if i < length bs then bs ! i else f ! ((pos + i) mod L))"
proof (cases "pos + i < L")
  case True
  then show ?thesis using assms by (simp add: nth_append)
next
  case False
  then have "(pos + i) mod L = pos + i - L" "pos + i - L < pos" "\<not> i < length bs"
    using assms by (simp_all add: mod_ring)
  then show ?thesis using assms(1,3) by (simp add: nth_append)
qed

lemma far_nth:
  assumes "length f = L" and "L < pos + length bs" and "length bs \<le> L" and "pos < L" and i: "i < L"
  shows "(drop (L - pos) bs @ take (L - length bs) (drop (length bs - (L - pos)) f) @ take (L - pos) bs) ! ((pos + i) mod L) =
     (if i < length bs then bs ! i else f ! ((pos + i) mod L))" (is "?g ! _ = _")
proof (cases "pos + i < L")
  case True
  have l: "length (drop (L - pos) bs) + length (take (L - length bs) (drop (length bs - (L - pos)) f)) = pos"
    using assms by simp
  have "?g ! (pos + i) = take (L - pos) bs ! i"
    using l by (metis append.assoc length_append nth_append_length_plus)
  then show ?thesis using True assms(2) by simp
next
  case False
  then have m: "(pos + i) mod L = pos + i - L" using assms by (simp add: mod_ring)
  show ?thesis
  proof (cases "i < length bs")
    case True
    then have "pos + i - L < length (drop (L - pos) bs)" using False assms(2,4) by simp
    then show ?thesis using True False m assms(4) by (simp add: nth_append)
  next
    case b: False
    define q where "q = length bs - (L - pos)"
    define j where "j = pos + i - L"
    have q: "length (drop (L - pos) bs) = q" "q \<le> j" "j - q < L - length bs" "j < L"
      using b False assms by (simp_all add: q_def j_def)
    have l: "length (take (L - length bs) (drop q f)) = L - length bs"
      using assms(1-4) by (simp add: q_def)
    have "?g ! j = (take (L - length bs) (drop q f) @ take (L - pos) bs) ! (j - q)"
      using q(1,2) by (simp only: nth_append q_def [symmetric]) simp
    also have "\<dots> = take (L - length bs) (drop q f) ! (j - q)"
      using q(3) l by (simp only: nth_append) simp
    also have "\<dots> = f ! j"
      using q assms(1) by simp
    finally show ?thesis using b m by (simp add: j_def)
  qed
qed

lemma copy_in_bytes:
  assumes "length (pipe_fifo p) = pipe_length p" and "pos < pipe_length p" and "pipe_length p < 2 ^ 31"
    and "length bs \<le> pipe_length p"
  shows "\<exists>f. copy_in p pos bs = Some f \<and> length f = pipe_length p
    \<and> (\<forall>i < pipe_length p. f ! ((pos + i) mod pipe_length p) =
         (if i < length bs then bs ! i else pipe_fifo p ! ((pos + i) mod pipe_length p)))"
proof (cases "pos + length bs \<le> pipe_length p")
  case True
  let ?f = "take pos (pipe_fifo p) @ bs @ drop (pos + length bs) (pipe_fifo p)"
  have "length ?f = pipe_length p" using assms(1) True by simp
  with copy_in_near [OF assms(1,3) True] near_nth [OF assms(1) True assms(2)]
  show ?thesis by (intro exI [of _ ?f]) blast
next
  case False
  then have far: "pipe_length p < pos + length bs" by simp
  let ?f = "drop (pipe_length p - pos) bs @ take (pipe_length p - length bs) (drop (length bs - (pipe_length p - pos)) (pipe_fifo p))
      @ take (pipe_length p - pos) bs"
  have "length ?f = pipe_length p" using assms(1,2,4) far by simp
  with copy_in_far [OF assms(1,3,2) far assms(4)] far_nth [OF assms(1) far assms(4,2)]
  show ?thesis by (intro exI [of _ ?f]) blast
qed

section \<open>Moving the ends\<close>

lemma used_head: "pipe_ok p \<Longrightarrow> (pipe_tail p + pipe_used p) mod pipe_length p = pipe_head p"
  by (auto simp: pipe_ok_def pipe_used_def)

lemma used_unique:
  assumes "pipe_ok p" and "u < pipe_length p" and "(pipe_tail p + u) mod pipe_length p = pipe_head p"
  shows "pipe_used p = u"
  using assms by (auto simp: pipe_ok_def pipe_used_def mod_ring split: if_splits)

lemma mod_shift: "(a :: nat) < L \<Longrightarrow> ((a + n) mod L + i) mod L = (a + (n + i)) mod L"
  by (simp add: mod_add_left_eq add.assoc)

lemma contents_advance:
  assumes ok: "pipe_ok p" and n: "n \<le> pipe_used p"
  defines "p' \<equiv> p\<lparr>pipe_tail := (pipe_tail p + n) mod pipe_length p\<rparr>"
  shows "pipe_ok p'" and "contents p' = drop n (contents p)"
proof -
  have L: "0 < pipe_length p" "pipe_tail p < pipe_length p" using ok by (auto simp: pipe_ok_def)
  show ok': "pipe_ok p'" using ok L by (simp add: pipe_ok_def p'_def)
  have "(pipe_tail p' + (pipe_used p - n)) mod pipe_length p' = pipe_head p'"
    using used_head [OF ok] n mod_shift [OF L(2), of n "pipe_used p - n"] by (simp add: p'_def)
  then have u: "pipe_used p' = pipe_used p - n"
    using pipe_used_less [OF ok] by (intro used_unique [OF ok']) (simp_all add: p'_def)
  show "contents p' = drop n (contents p)"
    by (rule nth_equalityI) (simp_all add: u, simp add: contents_def u, simp add: p'_def mod_shift [OF L(2)])
qed

lemma contents_put:
  assumes ok: "pipe_ok p" and room: "pipe_used p + length bs < pipe_length p"
    and f: "copy_in p (pipe_head p) bs = Some f"
  defines "p' \<equiv> p\<lparr>pipe_fifo := f, pipe_head := (pipe_head p + length bs) mod pipe_length p\<rparr>"
  shows "pipe_ok p'" and "contents p' = contents p @ bs"
proof -
  let ?L = "pipe_length p"
  have p: "length (pipe_fifo p) = ?L" "pipe_head p < ?L" "?L < 2 ^ 31" "pipe_tail p < ?L" "0 < ?L"
    using ok by (auto simp: pipe_ok_def)
  have "length bs \<le> ?L" using room by simp
  from copy_in_bytes [OF p(1-3) this] f
  have l: "length f = ?L" and fi: "\<And>i. i < ?L \<Longrightarrow> f ! ((pipe_head p + i) mod ?L) =
      (if i < length bs then bs ! i else pipe_fifo p ! ((pipe_head p + i) mod ?L))" by auto
  show ok': "pipe_ok p'" using ok p l by (simp add: pipe_ok_def p'_def)
  have h: "(pipe_tail p + (pipe_used p + i)) mod ?L = (pipe_head p + i) mod ?L" for i
    unfolding used_head [OF ok, symmetric] by (simp add: mod_shift [OF p(4)])
  have "(pipe_tail p' + (pipe_used p + length bs)) mod pipe_length p' = pipe_head p'"
    using h by (simp add: p'_def)
  then have u: "pipe_used p' = pipe_used p + length bs"
    using room by (intro used_unique [OF ok']) (simp_all add: p'_def)
  have old: "f ! ((pipe_tail p + i) mod ?L) = pipe_fifo p ! ((pipe_tail p + i) mod ?L)" if "i < pipe_used p" for i
  proof -
    let ?j = "?L - pipe_used p + i"
    have "(pipe_head p + ?j) mod ?L = (pipe_tail p + (pipe_used p + ?j)) mod ?L" by (simp only: h)
    also have "\<dots> = (pipe_tail p + i) mod ?L"
    proof -
      have "pipe_tail p + (pipe_used p + ?j) = (pipe_tail p + i) + ?L" using pipe_used_less [OF ok] by simp
      then show ?thesis by (simp only: mod_add_self2)
    qed
    finally have m: "(pipe_head p + ?j) mod ?L = (pipe_tail p + i) mod ?L" .
    have "?j < ?L" "\<not> ?j < length bs" using that room pipe_used_less [OF ok] by linarith+
    then show ?thesis using fi [of ?j] unfolding m by simp
  qed
  show "contents p' = contents p @ bs"
  proof (rule nth_equalityI)
    fix i assume "i < length (contents p')"
    then have i: "i < pipe_used p + length bs" using u by simp
    have c: "contents p' ! i = f ! ((pipe_tail p + i) mod ?L)"
      using i by (simp add: contents_def u) (simp add: p'_def)
    show "contents p' ! i = (contents p @ bs) ! i"
    proof (cases "i < pipe_used p")
      case True
      then show ?thesis using c old by (simp add: nth_append) (simp add: contents_def)
    next
      case False
      define k where "k = i - pipe_used p"
      have k: "i = pipe_used p + k" "k < length bs" "k < ?L" using False i room by (auto simp: k_def)
      show ?thesis
        using c fi [OF k(3)] h [of k] k(2) by (simp add: k(1) nth_append)
    qed
  qed (simp add: u)
qed

end
