(* ===== verification/Qrtr_Packet.thy ===== *)
theory Qrtr_Packet
  imports Qrtr_Proto
begin

text \<open>
  Packets of the IPC router on the wire (\<^verbatim>\<open>net/qrtr/af_qrtr.c\<close>): the two versions of the header, the
  header and padding of an outgoing packet, the checks on an incoming one, the packet size a
  transport peeks at, and the checksum of a process deletion.
\<close>

section \<open>Headers\<close>

abbreviation (input) QRTR_PROTO_VER_1 :: nat where "QRTR_PROTO_VER_1 \<equiv> 1"
abbreviation (input) QRTR_PROTO_VER_2 :: nat where "QRTR_PROTO_VER_2 \<equiv> 3"
abbreviation (input) QRTR_PORT_CTRL_LEGACY :: nat where "QRTR_PORT_CTRL_LEGACY \<equiv> 65535"
abbreviation (input) hdr_v1_size :: nat where "hdr_v1_size \<equiv> 32"
abbreviation (input) hdr_v2_size :: nat where "hdr_v2_size \<equiv> 16"

record qrtr_hdr_v1 =
  v1_version :: nat
  v1_type :: nat
  v1_src_node_id :: nat
  v1_src_port_id :: nat
  v1_confirm_rx :: nat
  v1_size :: nat
  v1_dst_node_id :: nat
  v1_dst_port_id :: nat

record qrtr_hdr_v2 =
  v2_version :: nat
  v2_type :: nat
  v2_flags :: nat
  v2_optlen :: nat
  v2_size :: nat
  v2_src_node_id :: nat
  v2_src_port_id :: nat
  v2_dst_node_id :: nat
  v2_dst_port_id :: nat

definition hdr_v1_bytes :: "qrtr_hdr_v1 \<Rightarrow> byte list" where
  "hdr_v1_bytes h = concat (map le32_bytes [v1_version h, v1_type h, v1_src_node_id h, v1_src_port_id h,
     v1_confirm_rx h, v1_size h, v1_dst_node_id h, v1_dst_port_id h])"

definition hdr_v1_of :: "byte list \<Rightarrow> qrtr_hdr_v1" where
  "hdr_v1_of b = \<lparr>v1_version = le32_at b 0, v1_type = le32_at b 4, v1_src_node_id = le32_at b 8,
     v1_src_port_id = le32_at b 12, v1_confirm_rx = le32_at b 16, v1_size = le32_at b 20,
     v1_dst_node_id = le32_at b 24, v1_dst_port_id = le32_at b 28\<rparr>"

definition hdr_v2_of :: "byte list \<Rightarrow> qrtr_hdr_v2" where
  "hdr_v2_of b = \<lparr>v2_version = unat (b ! 0), v2_type = unat (b ! 1), v2_flags = unat (b ! 2),
     v2_optlen = unat (b ! 3), v2_size = le32_at b 4, v2_src_node_id = le16_at b 8,
     v2_src_port_id = le16_at b 10, v2_dst_node_id = le16_at b 12, v2_dst_port_id = le16_at b 14\<rparr>"

text \<open>The control block of a socket buffer.\<close>

record qrtr_cb =
  cb_src_node :: nat
  cb_src_port :: nat
  cb_dst_node :: nat
  cb_dst_port :: nat
  cb_type :: nat
  cb_confirm_rx :: bool

section \<open>Outgoing packets\<close>

text \<open>
  The header \<^verbatim>\<open>qrtr_node_enqueue\<close> puts in front of \<open>len\<close> bytes for a node with identifier \<open>nid\<close>.
\<close>

definition node_hdr :: "nat \<Rightarrow> nat \<Rightarrow> sockaddr_qrtr \<Rightarrow> sockaddr_qrtr \<Rightarrow> nat \<Rightarrow> bool \<Rightarrow> qrtr_hdr_v1" where
  "node_hdr nid type from to len confirm_rx =
     \<lparr>v1_version = QRTR_PROTO_VER_1, v1_type = type, v1_src_node_id = sq_node from, v1_src_port_id = sq_port from,
      v1_confirm_rx = of_bool confirm_rx, v1_size = u32 len,
      v1_dst_node_id = (if sq_port to = QRTR_PORT_CTRL then nid else sq_node to),
      v1_dst_port_id = (if sq_port to = QRTR_PORT_CTRL then QRTR_PORT_CTRL else sq_port to)\<rparr>"

text \<open>\<^verbatim>\<open>ALIGN(n, 4)\<close> in 64 bits and in 32 bits, where it can wrap around.\<close>

definition align4 :: "nat \<Rightarrow> nat" where
  "align4 n = (n + 3) div 4 * 4"

definition align4_32 :: "nat \<Rightarrow> nat" where
  "align4_32 n = u32 (n + 3) div 4 * 4"

text \<open>A linear buffer is padded by \<^verbatim>\<open>skb_put_padto\<close>, which appends zeros.\<close>

definition node_packet :: "qrtr_hdr_v1 \<Rightarrow> byte list \<Rightarrow> byte list" where
  "node_packet h payload = hdr_v1_bytes h @ payload @ replicate (align4 (length payload) - length payload) 0"

section \<open>Scattered buffers\<close>

text \<open>
  A buffer with fragments: the memory of the linear part, the sizes of the fragments, their memory one after the
  other, \<^verbatim>\<open>len\<close> and \<^verbatim>\<open>data_len\<close>. What it holds are the first \<^verbatim>\<open>len - data_len\<close> bytes of the linear
  part and \<^verbatim>\<open>data_len\<close> bytes of the fragments, as far as they go.
\<close>

record pskb =
  p_head :: "byte list"
  p_frags :: "nat list"
  p_mem :: "byte list"
  p_len :: nat
  p_data_len :: nat

definition pskb_bytes :: "pskb \<Rightarrow> byte list" where
  "pskb_bytes b = take (p_len b - p_data_len b) (p_head b) @ take (p_data_len b) (p_mem b)"

definition zero_at :: "nat \<Rightarrow> nat \<Rightarrow> byte list \<Rightarrow> byte list" where
  "zero_at i n mem = take i mem @ replicate n 0 @ drop (i + n) mem"

text \<open>
  One fragment of \<open>f\<close> bytes at \<open>off\<close> in the memory, with the count, the padding left and the buffer. Without high
  memory \<^verbatim>\<open>skb_frag_foreach_page\<close> makes one round, of the whole fragment, and none for an empty one. In the
  second case \<^verbatim>\<open>data_len\<close> grows by the padding that is left over, not by the part written.
\<close>

definition pad_frag :: "nat \<Rightarrow> nat \<Rightarrow> nat \<Rightarrow> nat \<times> nat \<times> pskb \<Rightarrow> nat \<times> nat \<times> pskb" where
  "pad_frag padto f off x =
     (case x of (count, padding_len, b) \<Rightarrow>
        if f = 0 then (count, padding_len, b)
        else if padto \<le> count + f then
          let d_off = p_len b - count
          in (count + (d_off + padding_len), padding_len,
              b\<lparr>p_mem := zero_at (off + d_off) padding_len (p_mem b), p_len := padto, p_data_len := p_data_len b + padding_len\<rparr>)
        else
          let d_off = p_len b - count; d_len = f - d_off; left = padding_len - d_len
          in (count + f, left,
              b\<lparr>p_mem := zero_at (off + d_off) d_len (p_mem b), p_len := p_len b + d_len, p_data_len := p_data_len b + left\<rparr>))"

fun pad_loop :: "nat \<Rightarrow> nat list \<Rightarrow> nat \<Rightarrow> nat \<times> nat \<times> pskb \<Rightarrow> pskb" where
  "pad_loop padto [] off (count, padding_len, b) = b"
| "pad_loop padto (f # fs) off (count, padding_len, b) =
     (if count + f < p_len b then pad_loop padto fs (off + f) (count + f, padding_len, b)
      else case pad_frag padto f off (count, padding_len, b) of (count', padding', b') \<Rightarrow>
        if p_len b' = padto then b' else pad_loop padto fs (off + f) (count', padding', b'))"

text \<open>The result is always 0.\<close>

definition qrtr_pad_word_pskb :: "pskb \<Rightarrow> pskb" where
  "qrtr_pad_word_pskb b =
     (let padto = align4 (p_len b); padding_len = padto - p_len b
      in if padding_len = 0 then b
         else pad_loop padto (p_frags b) 0 (p_len b - p_data_len b, padding_len, b))"

text \<open>
  A payload with \<open>data_len\<close> bytes in fragments, after the header was pushed in front of it; \<open>junk\<close> is what the memory behind the
  payload holds.
\<close>

definition pushed_pskb :: "(nat \<Rightarrow> byte) \<Rightarrow> qrtr_hdr_v1 \<Rightarrow> byte list \<Rightarrow> nat \<Rightarrow> nat list \<Rightarrow> pskb" where
  "pushed_pskb junk h payload data_len frags =
     (let n = length payload - data_len
      in \<lparr>p_head = hdr_v1_bytes h @ take n payload, p_frags = frags,
          p_mem = drop n payload @ map junk [length payload..<n + sum_list frags],
          p_len = hdr_v1_size + length payload, p_data_len = data_len\<rparr>)"

text \<open>The packet a buffer holds when it is given to the endpoint; it is linear if no bytes are in fragments.\<close>

definition padded_packet :: "(nat \<Rightarrow> byte) \<Rightarrow> qrtr_hdr_v1 \<Rightarrow> byte list \<Rightarrow> nat \<Rightarrow> nat list \<Rightarrow> byte list" where
  "padded_packet junk h payload data_len frags =
     (if data_len \<noteq> 0 then pskb_bytes (qrtr_pad_word_pskb (pushed_pskb junk h payload data_len frags))
      else node_packet h payload)"

section \<open>Incoming packets\<close>

definition port_of_u16 :: "nat \<Rightarrow> nat" where
  "port_of_u16 p = (if p = u16 QRTR_PORT_CTRL then QRTR_PORT_CTRL else p)"

text \<open>
  \<^verbatim>\<open>qrtr_parse_header\<close> fills in the addresses of a control block, the length of the header and the
  size; \<^term>\<open>None\<close> is the result \<open>-1\<close>.
\<close>

definition qrtr_parse_header :: "qrtr_cb \<Rightarrow> byte list \<Rightarrow> (qrtr_cb \<times> nat \<times> nat) option" where
  "qrtr_parse_header cb data =
     (if unat (data ! 0) = QRTR_PROTO_VER_1 then
        let h = hdr_v1_of data in
        Some (cb\<lparr>cb_src_node := v1_src_node_id h, cb_src_port := v1_src_port_id h,
                cb_dst_node := v1_dst_node_id h, cb_dst_port := v1_dst_port_id h\<rparr>, hdr_v1_size, v1_size h)
      else if unat (data ! 0) = QRTR_PROTO_VER_2 then
        let h = hdr_v2_of data in
        Some (cb\<lparr>cb_src_node := v2_src_node_id h, cb_src_port := port_of_u16 (v2_src_port_id h),
                cb_dst_node := v2_dst_node_id h, cb_dst_port := port_of_u16 (v2_dst_port_id h)\<rparr>,
              hdr_v2_size + v2_optlen h, v2_size h)
      else None)"

text \<open>The size a transport expects from the header at the start of a packet.\<close>

definition qrtr_peek_pkt_size :: "byte list \<Rightarrow> int" where
  "qrtr_peek_pkt_size data =
     (if unat (data ! 0) = QRTR_PROTO_VER_1
      then s32 (int (u32 (align4_32 (v1_size (hdr_v1_of data)) + hdr_v1_size)))
      else if unat (data ! 0) = QRTR_PROTO_VER_2
      then s32 (int (u32 (align4_32 (v2_size (hdr_v2_of data)) + (hdr_v2_size + v2_optlen (hdr_v2_of data)))))
      else - EINVAL)"

text \<open>
  The part of \<^verbatim>\<open>qrtr_endpoint_post\<close> that reads the header of a packet of \<open>len\<close> bytes, with the length
  of the header and the size; \<^term>\<open>None\<close> is the jump to \<^verbatim>\<open>err\<close>.
\<close>

definition post_header :: "byte list \<Rightarrow> (qrtr_cb \<times> nat \<times> nat) option" where
  "post_header data =
     (if unat (data ! 0) = QRTR_PROTO_VER_1 then
        if length data < hdr_v1_size then None
        else let h = hdr_v1_of data in
          Some (\<lparr>cb_src_node = v1_src_node_id h, cb_src_port = v1_src_port_id h,
                 cb_dst_node = v1_dst_node_id h, cb_dst_port = v1_dst_port_id h,
                 cb_type = u8 (v1_type h), cb_confirm_rx = (v1_confirm_rx h \<noteq> 0)\<rparr>, hdr_v1_size, v1_size h)
      else if unat (data ! 0) = QRTR_PROTO_VER_2 then
        if length data < hdr_v2_size then None
        else let h = hdr_v2_of data in
          Some (\<lparr>cb_src_node = v2_src_node_id h, cb_src_port = port_of_u16 (v2_src_port_id h),
                 cb_dst_node = v2_dst_node_id h, cb_dst_port = port_of_u16 (v2_dst_port_id h),
                 cb_type = v2_type h, cb_confirm_rx = odd (v2_flags h)\<rparr>,
                hdr_v2_size + v2_optlen h, v2_size h)
      else None)"

text \<open>All checks on an incoming packet; the result is the control block and the payload.\<close>

definition post_parse :: "byte list \<Rightarrow> (qrtr_cb \<times> byte list) option" where
  "post_parse data =
     (if length data = 0 \<or> length data mod 4 \<noteq> 0 then None
      else case post_header data of
        None \<Rightarrow> None
      | Some (cb0, hdrlen, sz) \<Rightarrow>
          let cb = (if cb_dst_port cb0 = QRTR_PORT_CTRL_LEGACY then cb0\<lparr>cb_dst_port := QRTR_PORT_CTRL\<rparr> else cb0) in
          if sz = 0 \<or> length data \<noteq> align4 sz + hdrlen then None
          else if (cb_type cb = QRTR_TYPE_NEW_SERVER \<or> cb_type cb = QRTR_TYPE_RESUME_TX) \<and> sz < ctrl_pkt_size
          then None
          else if cb_dst_port cb \<noteq> QRTR_PORT_CTRL \<and> cb_type cb \<noteq> QRTR_TYPE_DATA
            \<and> cb_type cb \<noteq> QRTR_TYPE_RESUME_TX then None
          else Some (cb, take sz (drop hdrlen data)))"

section \<open>Checksum of a process deletion\<close>

definition pkt_words :: "qrtr_ctrl_pkt \<Rightarrow> nat list" where
  "pkt_words p = [pkt_cmd p, pkt_w0 p, pkt_w1 p, pkt_w2 p, pkt_w3 p]"

fun checksum_sum :: "nat list \<Rightarrow> nat \<Rightarrow> nat" where
  "checksum_sum [] c = c"
| "checksum_sum (w # ws) c = checksum_sum ws (u32 (c + (w div 65536 mod 65536 + w mod 65536)))"

text \<open>Folding the carry back in makes a sum above 16 bits smaller, so the loop ends.\<close>

lemma carry_fold_less:
  assumes "65535 < (c :: nat)"
  shows "c mod 65536 + c div 65536 mod 65536 < c"
proof -
  have "c div 65536 mod 65536 \<le> c div 65536" by simp
  moreover have "c = 65536 * (c div 65536) + c mod 65536" by simp
  moreover have "0 < c div 65536" using assms by (simp add: div_greater_zero_iff)
  ultimately show ?thesis by linarith
qed

function checksum_fold :: "nat \<Rightarrow> nat" where
  "checksum_fold c = (if c > 65535 then checksum_fold (c mod 65536 + c div 65536 mod 65536) else c)"
  by auto
termination
  by (relation "measure id") (auto intro: carry_fold_less)

definition qrtr_calc_checksum :: "qrtr_ctrl_pkt option \<Rightarrow> nat" where
  "qrtr_calc_checksum pkt =
     (case pkt of None \<Rightarrow> 0 | Some p \<Rightarrow> 65535 - checksum_fold (checksum_sum (pkt_words p) 0))"

section \<open>Sizes and round trip\<close>

lemma length_hdr_v1_bytes [simp]: "length (hdr_v1_bytes h) = 32"
  by (simp add: hdr_v1_bytes_def)

definition hdr_v1_ok :: "qrtr_hdr_v1 \<Rightarrow> bool" where
  "hdr_v1_ok h \<longleftrightarrow> (\<forall>n \<in> {v1_version h, v1_type h, v1_src_node_id h, v1_src_port_id h, v1_confirm_rx h,
     v1_size h, v1_dst_node_id h, v1_dst_port_id h}. n < 4294967296)"

lemma le32_at_concat:
  assumes "i < length ns" and "ns ! i < 4294967296"
  shows "le32_at (concat (map le32_bytes ns) @ rest) (4 * i) = ns ! i"
proof -
  have "concat (map le32_bytes ns) =
      concat (map le32_bytes (take i ns)) @ le32_bytes (ns ! i) @ concat (map le32_bytes (drop (Suc i) ns))"
    using assms(1) by (subst id_take_nth_drop [OF assms(1)]) simp
  moreover have "length (concat (map le32_bytes (take i ns))) = 4 * i"
    using assms(1) by (simp add: length_concat comp_def sum_list_triv)
  ultimately show ?thesis
    using le32_at_bytes [OF assms(2), of "concat (map le32_bytes (take i ns))"] by simp
qed

lemma hdr_v1_of_bytes:
  assumes "hdr_v1_ok h"
  shows "hdr_v1_of (hdr_v1_bytes h @ rest) = h"
proof -
  let ?ns = "[v1_version h, v1_type h, v1_src_node_id h, v1_src_port_id h,
     v1_confirm_rx h, v1_size h, v1_dst_node_id h, v1_dst_port_id h]"
  have ok: "\<forall>n \<in> set ?ns. n < 4294967296"
    using assms by (simp add: hdr_v1_ok_def)
  have "le32_at (hdr_v1_bytes h @ rest) (4 * i) = ?ns ! i" if "i < length ?ns" for i
    unfolding hdr_v1_bytes_def by (rule le32_at_concat [OF that bspec [OF ok nth_mem [OF that]]])
  from this [of 0] this [of 1] this [of 2] this [of 3] this [of 4] this [of 5] this [of 6] this [of 7]
  show ?thesis by (simp add: hdr_v1_of_def)
qed

lemma hdr_v1_bytes_0: "hdr_v1_bytes h ! 0 = word_of_nat (v1_version h)"
  by (simp add: hdr_v1_bytes_def le32_bytes_def)

lemma align4_ge: "n \<le> align4 n" and align4_less: "align4 n < n + 4" and align4_mod: "align4 n mod 4 = 0"
  by (simp_all add: align4_def)

lemma align4_32_id: "n + 3 < 2 ^ 32 \<Longrightarrow> align4_32 n = align4 n"
  by (simp add: align4_32_def align4_def width_simps)

lemma length_node_packet: "length (node_packet h payload) = 32 + align4 (length payload)"
  using align4_ge [of "length payload"] by (simp add: node_packet_def)

text \<open>
  The padding of a scattered buffer succeeds if there is nothing to pad, or if no fragment ends between the end of the payload and
  the end of the padding.
\<close>

definition pads_well :: "nat \<Rightarrow> nat \<Rightarrow> nat list \<Rightarrow> bool" where
  "pads_well len data_len frags \<longleftrightarrow> data_len \<le> len \<and> data_len \<le> sum_list frags
     \<and> (data_len = 0 \<or> align4 len = len \<or>
        list_all (\<lambda>k. \<not> (data_len \<le> sum_list (take k frags) \<and> sum_list (take k frags) < data_len + (align4 len - len)))
          [0..<Suc (length frags)])"

lemma pad_loop_clean:
  assumes "count \<le> p_len b" and "p_len b < padto" and "p_len b \<le> count + sum_list frags"
    and "\<forall>k \<le> length frags. \<not> (p_len b \<le> count + sum_list (take k frags) \<and> count + sum_list (take k frags) < padto)"
  shows "pad_loop padto frags off (count, padto - p_len b, b) =
    b\<lparr>p_mem := zero_at (off + (p_len b - count)) (padto - p_len b) (p_mem b), p_len := padto, p_data_len := p_data_len b + (padto - p_len b)\<rparr>"
  using assms
proof (induction frags arbitrary: count off)
  case Nil
  then show ?case by auto
next
  case (Cons f fs)
  show ?case
  proof (cases "count + f < p_len b")
    case True
    have "\<not> (p_len b \<le> count + f + sum_list (take k fs) \<and> count + f + sum_list (take k fs) < padto)" if "k \<le> length fs" for k
      using Cons.prems(4) [rule_format, of "Suc k"] that by (simp add: add.assoc)
    then show ?thesis using Cons.IH [of "count + f" "off + f"] Cons.prems True by (simp add: add.assoc)
  next
    case False
    then have "padto \<le> count + f" using Cons.prems(4) [rule_format, of 1] by simp
    moreover have "f \<noteq> 0" using calculation Cons.prems(1,2) by auto
    ultimately show ?thesis using False Cons.prems(1) by (simp add: pad_frag_def Let_def)
  qed
qed

lemma align4_add: "align4 (32 + n) = 32 + align4 n"
  unfolding align4_def by presburger

lemma zero_behind: "length xs + n \<le> length (xs @ ys) \<Longrightarrow> take (length xs + n) (zero_at (length xs) n (xs @ ys)) = xs @ replicate n 0"
  by (simp add: zero_at_def)

text \<open>Then the buffer holds the same packet as a linear one.\<close>

lemma padded_packet_ideal:
  assumes "pads_well (length payload) data_len frags"
  shows "padded_packet junk h payload data_len frags = node_packet h payload"
proof (cases "data_len = 0")
  case False
  let ?len = "length payload" and ?b = "pushed_pskb junk h payload data_len frags"
  let ?n = "?len - data_len" and ?p = "align4 ?len - ?len"
  have le: "data_len \<le> ?len" "data_len \<le> sum_list frags" using assms by (simp_all add: pads_well_def)
  have b: "p_head ?b = hdr_v1_bytes h @ take ?n payload" "p_frags ?b = frags" "p_len ?b = 32 + ?len" "p_data_len ?b = data_len"
    "p_mem ?b = drop ?n payload @ map junk [?len..<?n + sum_list frags]" "length (p_mem ?b) = sum_list frags"
    using le by (simp_all add: pushed_pskb_def Let_def)
  have head: "take (32 + ?n) (p_head ?b) = hdr_v1_bytes h @ take ?n payload" by (simp add: b(1))
  show ?thesis
  proof (cases "align4 ?len = ?len")
    case True
    have "take data_len (p_mem ?b) = drop ?n payload" using le by (simp add: b(5))
    moreover have "32 + ?len - data_len = 32 + ?n" using le by simp
    ultimately show ?thesis using True False head le
      by (simp add: padded_packet_def qrtr_pad_word_pskb_def b(3,4) align4_add pskb_bytes_def node_packet_def Let_def)
  next
    case pad: False
    then have p: "?len < align4 ?len" using align4_ge [of ?len] by simp
    have clean: "\<not> (data_len \<le> sum_list (take k frags) \<and> sum_list (take k frags) < data_len + ?p)" if "k \<le> length frags" for k
      using assms pad False that by (auto simp: pads_well_def list_all_iff)
    then have room: "data_len + ?p \<le> sum_list frags" using le(2) clean [of "length frags"] by auto
    have n: "32 + ?len - data_len = 32 + ?n" using le by (simp only: Nat.add_diff_assoc)
    have d: "32 + align4 ?len - (32 + ?len) = ?p" "32 + ?len - (32 + ?n) = data_len" using le by simp_all
    have "qrtr_pad_word_pskb ?b = pad_loop (32 + align4 ?len) frags 0 (32 + ?n, 32 + align4 ?len - p_len ?b, ?b)"
      using p by (simp only: qrtr_pad_word_pskb_def b(2,3,4) align4_add Let_def d n) simp
    also have "\<dots> = ?b\<lparr>p_mem := zero_at (0 + (p_len ?b - (32 + ?n))) (32 + align4 ?len - p_len ?b) (p_mem ?b), p_len := 32 + align4 ?len,
         p_data_len := p_data_len ?b + (32 + align4 ?len - p_len ?b)\<rparr>"
    proof (rule pad_loop_clean)
      show "\<forall>k \<le> length frags. \<not> (p_len ?b \<le> 32 + ?n + sum_list (take k frags) \<and> 32 + ?n + sum_list (take k frags) < 32 + align4 ?len)"
      proof (intro allI impI)
        fix k
        assume "k \<le> length frags"
        from clean [OF this] le p show "\<not> (p_len ?b \<le> 32 + ?n + sum_list (take k frags) \<and> 32 + ?n + sum_list (take k frags) < 32 + align4 ?len)"
          unfolding b(3) by linarith
      qed
    qed (use le p in \<open>simp_all add: b(3)\<close>)
    finally have pad_b: "qrtr_pad_word_pskb ?b =
      ?b\<lparr>p_mem := zero_at data_len ?p (p_mem ?b), p_len := 32 + align4 ?len, p_data_len := data_len + ?p\<rparr>"
      by (simp only: b(3,4) d add_0)
    have "take (data_len + ?p) (zero_at data_len ?p (p_mem ?b)) = drop ?n payload @ replicate ?p 0"
      using zero_behind [of "drop ?n payload" ?p] room le b(6) by (simp add: b(5))
    moreover have "32 + align4 ?len - (data_len + ?p) = 32 + ?n" using p le by simp
    ultimately show ?thesis using head False by (simp add: padded_packet_def pad_b pskb_bytes_def node_packet_def)
  qed
qed (simp add: padded_packet_def)

text \<open>
  A payload that ends with its last fragment finds no room: nothing is written, but \<^verbatim>\<open>data_len\<close> grows, and as many bytes at
  the end of the linear part are lost.
\<close>

lemma pad_loop_full:
  assumes "count + sum_list frags = p_len b" and "p_len b < padto" and "list_all (\<lambda>f. 0 < f) frags" and "frags \<noteq> []"
  shows "pad_loop padto frags off (count, padto - p_len b, b) = b\<lparr>p_data_len := p_data_len b + (padto - p_len b)\<rparr>"
  using assms
proof (induction frags arbitrary: count off)
  case (Cons f fs)
  show ?case
  proof (cases "fs = []")
    case True
    then show ?thesis using Cons.prems by (auto simp: pad_frag_def zero_at_def Let_def)
  next
    case False
    then have "0 < sum_list fs" using Cons.prems(3) by (cases fs) auto
    then show ?thesis using Cons.IH [of "count + f" "off + f"] Cons.prems False by simp
  qed
qed simp

lemma padded_packet_full:
  assumes "data_len = sum_list frags" and "data_len \<noteq> 0" and "data_len + 3 \<le> length payload" and "list_all (\<lambda>f. 0 < f) frags"
    and "align4 (length payload) \<noteq> length payload"
  shows "padded_packet junk h payload data_len frags =
    hdr_v1_bytes h @ take (length payload - data_len - (align4 (length payload) - length payload)) payload
      @ drop (length payload - data_len) payload"
proof -
  let ?len = "length payload" and ?b = "pushed_pskb junk h payload data_len frags"
  let ?n = "?len - data_len" and ?p = "align4 ?len - ?len"
  have p: "?len < align4 ?len" "?p \<le> 3" using align4_ge [of ?len] align4_less [of ?len] assms(5) by linarith+
  have b: "p_head ?b = hdr_v1_bytes h @ take ?n payload" "p_frags ?b = frags" "p_len ?b = 32 + ?len" "p_data_len ?b = data_len"
    "p_mem ?b = drop ?n payload"
    using assms(1,3) by (simp_all add: pushed_pskb_def Let_def)
  have n: "32 + ?len - data_len = 32 + ?n" using assms(3) by simp
  have d: "32 + align4 ?len - (32 + ?len) = ?p" by simp
  have "qrtr_pad_word_pskb ?b = pad_loop (32 + align4 ?len) frags 0 (32 + ?n, 32 + align4 ?len - p_len ?b, ?b)"
    using p by (simp only: qrtr_pad_word_pskb_def b(2,3,4) align4_add Let_def d n) simp
  also have "\<dots> = ?b\<lparr>p_data_len := p_data_len ?b + (32 + align4 ?len - p_len ?b)\<rparr>"
    using assms p by (intro pad_loop_full) (unfold b(3), auto)
  finally have pad_b: "qrtr_pad_word_pskb ?b = ?b\<lparr>p_data_len := data_len + ?p\<rparr>" by (simp only: b(3,4) d)
  define m where "m = ?n - ?p"
  have m: "32 + ?len - (data_len + ?p) = 32 + m" "m \<le> ?n" using p assms(3) unfolding m_def by linarith+
  have "take (32 + m) (hdr_v1_bytes h @ take ?n payload) = hdr_v1_bytes h @ take m payload"
    using m(2) by (simp add: min_def)
  moreover have "take (data_len + ?p) (drop ?n payload) = drop ?n payload" using assms(3) by simp
  moreover have "padded_packet junk h payload data_len frags =
      take (32 + ?len - (data_len + ?p)) (p_head ?b) @ take (data_len + ?p) (p_mem ?b)"
    using assms(2) unfolding padded_packet_def pad_b pskb_bytes_def by (simp add: b(3))
  ultimately show ?thesis by (simp only: m(1) b(1,5) m_def append_assoc)
qed

definition addr_ok :: "sockaddr_qrtr \<Rightarrow> bool" where
  "addr_ok a \<longleftrightarrow> sq_node a < 4294967296 \<and> sq_port a < 4294967296"

lemma node_hdr_ok:
  "addr_ok from \<Longrightarrow> addr_ok to \<Longrightarrow> nid < 4294967296 \<Longrightarrow> type < 4294967296 \<Longrightarrow> hdr_v1_ok (node_hdr nid type from to len c)"
  by (auto simp: hdr_v1_ok_def node_hdr_def addr_ok_def u32_def of_bool_def)

lemma peek_node_packet:
  assumes "hdr_v1_ok h" and "v1_version h = 1" and "v1_size h = length payload" and "length payload < 2 ^ 30"
  shows "qrtr_peek_pkt_size (node_packet h payload @ rest) = int (length (node_packet h payload))"
proof -
  have h: "hdr_v1_of (node_packet h payload @ rest) = h"
    using hdr_v1_of_bytes [OF assms(1)] by (simp add: node_packet_def)
  have v: "unat ((node_packet h payload @ rest) ! 0) = 1"
    using assms(2) hdr_v1_bytes_0 [of h] by (simp add: node_packet_def nth_append)
  have a: "align4 (length payload) + 32 < 2 ^ 31"
    using assms(4) align4_less [of "length payload"] by simp
  then show ?thesis
    using h v assms(3,4) length_node_packet [of h payload]
    by (simp add: qrtr_peek_pkt_size_def align4_32_id width_simps)
qed

text \<open>What the sender's checks guarantee of a packet the receiver accepts.\<close>

definition sendable :: "nat \<Rightarrow> sockaddr_qrtr \<Rightarrow> nat \<Rightarrow> bool" where
  "sendable type to len \<longleftrightarrow> type < 256 \<and> 0 < len \<and> len < 2 ^ 30 \<and> sq_port to \<noteq> QRTR_PORT_CTRL_LEGACY
     \<and> (type \<in> {QRTR_TYPE_NEW_SERVER, QRTR_TYPE_RESUME_TX} \<longrightarrow> ctrl_pkt_size \<le> len)
     \<and> (sq_port to = QRTR_PORT_CTRL \<or> type \<in> {QRTR_TYPE_DATA, QRTR_TYPE_RESUME_TX})"

lemma post_header_node_packet:
  assumes "hdr_v1_ok h" and "v1_version h = 1"
  shows "post_header (node_packet h payload) =
     Some (\<lparr>cb_src_node = v1_src_node_id h, cb_src_port = v1_src_port_id h, cb_dst_node = v1_dst_node_id h,
       cb_dst_port = v1_dst_port_id h, cb_type = u8 (v1_type h), cb_confirm_rx = (v1_confirm_rx h \<noteq> 0)\<rparr>, 32, v1_size h)"
proof -
  have h: "hdr_v1_of (node_packet h payload) = h"
    using hdr_v1_of_bytes [OF assms(1)] by (simp add: node_packet_def)
  have v: "unat (node_packet h payload ! 0) = 1"
    using assms(2) hdr_v1_bytes_0 [of h] by (simp add: node_packet_def nth_append)
  show ?thesis
    using h v by (simp add: post_header_def Let_def length_node_packet)
qed

lemma post_parse_node_packet:
  fixes c :: bool
  assumes "addr_ok from" and "addr_ok to" and "nid < 4294967296" and "sendable type to (length payload)"
    and pkt: "pkt = node_packet (node_hdr nid type from to (length payload) c) payload"
  shows "post_parse pkt = Some (\<lparr>cb_src_node = sq_node from, cb_src_port = sq_port from,
             cb_dst_node = (if sq_port to = QRTR_PORT_CTRL then nid else sq_node to), cb_dst_port = sq_port to,
             cb_type = type, cb_confirm_rx = c\<rparr>, payload)"
proof -
  let ?h = "node_hdr nid type from to (length payload) c"
  have ok: "hdr_v1_ok ?h" and v: "v1_version ?h = 1"
    using node_hdr_ok [OF assms(1-3)] assms(4) by (simp_all add: sendable_def node_hdr_def)
  have sz: "v1_size ?h = length payload" and ne: "payload \<noteq> []"
    using assms(4) by (auto simp: node_hdr_def sendable_def width_simps)
  have l: "length pkt = 32 + align4 (length payload)"
    by (simp add: pkt length_node_packet)
  have "length pkt mod 4 = 0" using align4_mod [of "length payload"] unfolding l by presburger
  moreover have "take (length payload) (drop 32 pkt) = payload"
    by (simp add: pkt node_packet_def)
  ultimately show ?thesis
    using post_header_node_packet [OF ok v, of payload] sz ne l assms(4)
    by (simp add: post_parse_def pkt [symmetric] Let_def) (auto simp: node_hdr_def sendable_def width_simps)
qed



text \<open>A packet the receiver cannot accept: its length is not the one its header announces.\<close>

lemma post_parse_truncated:
  assumes "addr_ok from" and "addr_ok to" and "nid < 4294967296" and "type < 4294967296" and "n < 2 ^ 32"
    and "length rest \<noteq> align4 n"
  shows "post_parse (hdr_v1_bytes (node_hdr nid type from to n c) @ rest) = None"
proof -
  let ?h = "node_hdr nid type from to n c"
  have ok: "hdr_v1_ok ?h" using node_hdr_ok [OF assms(1-4)] .
  have v: "unat ((hdr_v1_bytes ?h @ rest) ! 0) = 1" by (simp add: nth_append hdr_v1_bytes_0 node_hdr_def)
  have "v1_size ?h = n" using assms(5) by (simp add: node_hdr_def width_simps)
  then show ?thesis using assms(6) v hdr_v1_of_bytes [OF ok, of rest]
    by (auto simp: post_parse_def post_header_def Let_def)
qed

end
