(* ===== verification/Qrtr_Gunyah.thy ===== *)
theory Qrtr_Gunyah
  imports Qrtr_Fifo Qrtr_Packet
begin

text \<open>
  The transport of the IPC router between virtual machines (\<^verbatim>\<open>net/qrtr/gunyah.c\<close>): the operations on
  its pipes, sending with waiting for space, the handler that reassembles packets, and the start and
  stop of the peer machine. Doorbell, waiting and the peer's writes to shared memory are parameters.
\<close>

section \<open>Operations on a pipe\<close>

definition gunyah_rx_avail :: "fifo_pipe \<Rightarrow> nat" where
  "gunyah_rx_avail p =
     (let len = (if pipe_head p < pipe_tail p then u64 (u64_sub (pipe_length p) (pipe_tail p) + pipe_head p)
                 else pipe_head p - pipe_tail p)
      in if len > pipe_length p then 0 else len)"

definition gunyah_rx_peak :: "fifo_pipe \<Rightarrow> byte list \<Rightarrow> nat \<Rightarrow> nat \<Rightarrow> nat \<Rightarrow> byte list option" where
  "gunyah_rx_peak p data d offset n =
     (let t0 = u32 (pipe_tail p + offset);
          t = (if t0 \<ge> pipe_length p then u32 (u64_sub t0 (pipe_length p)) else t0)
      in if t > pipe_length p then Some data else copy_out p t data d n)"

definition gunyah_rx_advance :: "fifo_pipe \<Rightarrow> nat \<Rightarrow> fifo_pipe" where
  "gunyah_rx_advance p n =
     (let t = u32 (pipe_tail p + n)
      in p\<lparr>pipe_tail := (if t \<ge> pipe_length p then t mod pipe_length p else t)\<rparr>)"

definition gunyah_tx_avail :: "fifo_pipe \<Rightarrow> nat" where
  "gunyah_tx_avail p =
     (let avail0 = (if pipe_tail p \<le> pipe_head p
                    then u32 (u64 (u64_sub (pipe_length p) (pipe_head p) + pipe_tail p))
                    else pipe_tail p - pipe_head p);
          avail = (if avail0 < FIFO_FULL_RESERVE then 0 else avail0 - FIFO_FULL_RESERVE)
      in if pipe_head p > pipe_length p then 0 else avail)"

text \<open>The update of the head after a write of \<open>n\<close> bytes.\<close>

definition gunyah_move_head :: "fifo_pipe \<Rightarrow> nat \<Rightarrow> fifo_pipe" where
  "gunyah_move_head p n =
     (let h = u32 (pipe_head p + n)
      in p\<lparr>pipe_head := (if h \<ge> pipe_length p then u32 (u64_sub h (pipe_length p)) else h)\<rparr>)"

definition gunyah_tx_write :: "fifo_pipe \<Rightarrow> byte list \<Rightarrow> fifo_pipe option" where
  "gunyah_tx_write p data =
     (if pipe_head p > pipe_length p then Some p
      else do {
        f \<leftarrow> copy_in p (pipe_head p) data;
        Some (gunyah_move_head (p\<lparr>pipe_fifo := f\<rparr>) (length data)) })"

text \<open>
  Copying from a scatter list. \<open>skip n\<close> are the pieces the mapping iterator yields after
  \<^verbatim>\<open>sg_miter_skip\<close> over \<open>n\<close> bytes, none when that fails; the loop copies to position \<open>pos\<close> of the FIFO.
\<close>

type_synonym sg_iter = "nat \<Rightarrow> byte list list option"

fun sg_copy_loop :: "byte list \<Rightarrow> nat \<Rightarrow> nat \<Rightarrow> nat \<Rightarrow> byte list list \<Rightarrow> (byte list \<times> nat) option" where
  "sg_copy_loop f pos offset buflen [] = Some (f, offset)"
| "sg_copy_loop f pos offset buflen (s # segs) =
     (if offset < buflen then do {
        let len = min (length s) (buflen - offset);
        f' \<leftarrow> wr f (pos + offset) (take len s);
        sg_copy_loop f' pos (offset + len) buflen segs }
      else Some (f, offset))"

definition gunyah_sg_copy_toio ::
  "byte list \<Rightarrow> nat \<Rightarrow> sg_iter \<Rightarrow> nat \<Rightarrow> nat \<Rightarrow> (byte list \<times> nat) option" where
  "gunyah_sg_copy_toio f pos sg buflen skip =
     (case sg skip of None \<Rightarrow> Some (f, 0) | Some r \<Rightarrow> sg_copy_loop f pos 0 buflen r)"

definition gunyah_sg_write :: "fifo_pipe \<Rightarrow> sg_iter \<Rightarrow> nat \<Rightarrow> nat \<Rightarrow> fifo_pipe option" where
  "gunyah_sg_write p sg offset n =
     (if pipe_head p > pipe_length p then Some p
      else do {
        let len = min n (pipe_length p - pipe_head p);
        (f1, off1) \<leftarrow> (if len \<noteq> 0 then do {
            (f, rc) \<leftarrow> gunyah_sg_copy_toio (pipe_fifo p) (pipe_head p) sg len offset;
            Some (f, offset + rc) }
          else Some (pipe_fifo p, offset));
        f2 \<leftarrow> (if len \<noteq> n then map_option fst (gunyah_sg_copy_toio f1 0 sg (n - len) off1) else Some f1);
        Some (gunyah_move_head (p\<lparr>pipe_fifo := f2\<rparr>) n) })"

section \<open>The device\<close>

abbreviation (input) MAX_PKT_SZ :: nat where "MAX_PKT_SZ \<equiv> 65568"

record gunyah_ring =
  ring_buf :: "byte list"
  ring_len :: nat
  ring_offset :: nat

text \<open>
  \<open>posted\<close> lists the packets given to \<^verbatim>\<open>qrtr_endpoint_post\<close>, \<open>rx_kicks\<close> counts the doorbells the
  receiving side has rung, and \<open>work\<close> is the retry work being scheduled.
\<close>

record qrtr_gunyah_dev =
  ring :: gunyah_ring
  master :: bool
  registered :: bool
  work :: bool
  tx_pipe :: fifo_pipe
  rx_pipe :: fifo_pipe
  posted :: "byte list list"
  rx_kicks :: nat

text \<open>
  A socket buffer: its bytes, the iterator over its scatter list, and what \<^verbatim>\<open>skb_to_sgvec\<close> returns.
\<close>

record sk_buff =
  skb_nonlinear :: bool
  skb_bytes :: "byte list"
  skb_sg :: sg_iter
  skb_to_sgvec :: int

text \<open>
  What happens outside of the machine when the doorbell is rung and while the sender waits, on a
  state of its own and the shared pipe.
\<close>

record 'b gunyah_env =
  gh_dbl_send :: "'b \<Rightarrow> fifo_pipe \<Rightarrow> (int \<times> 'b \<times> fifo_pipe) option"
  peer_wait :: "'b \<Rightarrow> fifo_pipe \<Rightarrow> ('b \<times> fifo_pipe) option"

section \<open>Sending\<close>

definition qrtr_gunyah_kick :: "'b gunyah_env \<Rightarrow> 'b \<Rightarrow> qrtr_gunyah_dev \<Rightarrow> ('b \<times> qrtr_gunyah_dev) option" where
  "qrtr_gunyah_kick env b dev = do {
     (ret, b1, p) \<leftarrow> gh_dbl_send env b (tx_pipe dev);
     Some (b1, dev\<lparr>tx_pipe := p, work := (if ret \<noteq> 0 \<and> \<not> master dev then True else work dev)\<rparr>) }"

definition qrtr_gunyah_retry_work :: "'b gunyah_env \<Rightarrow> 'b \<Rightarrow> qrtr_gunyah_dev \<Rightarrow> ('b \<times> qrtr_gunyah_dev) option" where
  "qrtr_gunyah_retry_work env b dev = do {
     (ret, b1, p) \<leftarrow> gh_dbl_send env b (tx_pipe dev);
     Some (b1, dev\<lparr>tx_pipe := p, work := False\<rparr>) }"

definition gunyah_set_tx_notify :: "qrtr_gunyah_dev \<Rightarrow> qrtr_gunyah_dev" where
  "gunyah_set_tx_notify dev = dev\<lparr>tx_pipe := (tx_pipe dev)\<lparr>pipe_read_notify := 1\<rparr>\<rparr>"

definition gunyah_clr_tx_notify :: "qrtr_gunyah_dev \<Rightarrow> qrtr_gunyah_dev" where
  "gunyah_clr_tx_notify dev = dev\<lparr>tx_pipe := (tx_pipe dev)\<lparr>pipe_read_notify := 0\<rparr>\<rparr>"

definition gunyah_get_read_notify :: "qrtr_gunyah_dev \<Rightarrow> bool" where
  "gunyah_get_read_notify dev \<longleftrightarrow> pipe_read_notify (rx_pipe dev) \<noteq> 0"

text \<open>The wait ends with success when there is space, and with a timeout otherwise.\<close>

definition gunyah_wait_for_tx_avail ::
  "'b gunyah_env \<Rightarrow> 'b \<Rightarrow> qrtr_gunyah_dev \<Rightarrow> (bool \<times> 'b \<times> qrtr_gunyah_dev) option" where
  "gunyah_wait_for_tx_avail env b dev = do {
     (b1, dev1) \<leftarrow> qrtr_gunyah_kick env b (gunyah_set_tx_notify dev);
     (b2, p) \<leftarrow> peer_wait env b1 (tx_pipe dev1);
     Some (gunyah_tx_avail p \<noteq> 0, b2, dev1\<lparr>tx_pipe := p\<rparr>) }"

definition gunyah_write_chunk :: "sk_buff \<Rightarrow> nat \<Rightarrow> nat \<Rightarrow> fifo_pipe \<Rightarrow> fifo_pipe option" where
  "gunyah_write_chunk skb offset n p =
     (if skb_nonlinear skb then gunyah_sg_write p (skb_sg skb) offset n
      else gunyah_tx_write p (take n (drop offset (skb_bytes skb))))"

function gunyah_send_loop ::
  "'b gunyah_env \<Rightarrow> sk_buff \<Rightarrow> nat \<Rightarrow> nat \<Rightarrow> 'b \<Rightarrow> qrtr_gunyah_dev \<Rightarrow> (int \<times> 'b \<times> qrtr_gunyah_dev) option" where
  "gunyah_send_loop env skb offset left b dev =
     (if left = 0 then Some (0, b, dev)
      else if gunyah_tx_avail (tx_pipe dev) = 0 then do {
        (ret, b1, dev1) \<leftarrow> gunyah_wait_for_tx_avail env b dev;
        if \<not> ret then Some (- ETIMEDOUT, b1, dev1)
        else gunyah_send_loop env skb offset left b1 dev1 }
      else if skb_nonlinear skb \<and> skb_to_sgvec skb < 0 then Some (skb_to_sgvec skb, b, dev)
      else do {
        let chunk = min (gunyah_tx_avail (tx_pipe dev)) left;
        p \<leftarrow> gunyah_write_chunk skb offset chunk (tx_pipe dev);
        (b1, dev1) \<leftarrow> qrtr_gunyah_kick env b (dev\<lparr>tx_pipe := p\<rparr>);
        gunyah_send_loop env skb (offset + chunk) (left - chunk) b1 dev1 })"
  by pat_completeness auto
termination
  by (relation "inv_image (less_than <*lex*> less_than) (\<lambda>(env, skb, offset, left, b, dev).
        (left, if gunyah_tx_avail (tx_pipe dev) = 0 then 1 else 0))")
     (auto simp: gunyah_wait_for_tx_avail_def bind_eq_Some_conv split: if_splits)

definition qrtr_gunyah_send ::
  "'b gunyah_env \<Rightarrow> sk_buff \<Rightarrow> 'b \<Rightarrow> qrtr_gunyah_dev \<Rightarrow> (int \<times> 'b \<times> qrtr_gunyah_dev) option" where
  "qrtr_gunyah_send env skb b dev = do {
     (rc, b1, dev1) \<leftarrow> gunyah_send_loop env skb 0 (length (skb_bytes skb)) b dev;
     Some (if rc < 0 then rc else 0, b1, gunyah_clr_tx_notify dev1) }"

declare gunyah_send_loop.simps [simp del]

section \<open>Receiving\<close>

text \<open>
  Every access to the words of the pipe is a fresh read of shared memory: \<open>peer k\<close> is what the peer
  changes there before the \<open>k\<close>-th access of a round. \<open>stack\<close> is what the uninitialised header array
  holds. A packet that is complete goes to \<^verbatim>\<open>qrtr_endpoint_post\<close>, whose result is only logged.
\<close>

type_synonym interference = "nat \<Rightarrow> fifo_pipe \<Rightarrow> fifo_pipe"

definition quiet :: interference where
  "quiet k p = p"

definition qrtr_gunyah_read_new :: "interference \<Rightarrow> byte list \<Rightarrow> qrtr_gunyah_dev \<Rightarrow> qrtr_gunyah_dev option" where
  "qrtr_gunyah_read_new peer stack dev = do {
     let p0 = peer 0 (rx_pipe dev);
     hdr \<leftarrow> gunyah_rx_peak p0 stack 0 0 32;
     let pkt_len = qrtr_peek_pkt_size hdr;
     let p1 = peer 1 p0;
     let avail = gunyah_rx_avail p1;
     let p2 = peer 2 p1;
     if pkt_len < 0 \<or> pkt_len > int MAX_PKT_SZ
     then Some (dev\<lparr>rx_pipe := gunyah_rx_advance p2 avail\<rparr>)
     else do {
       let n = min avail (nat pkt_len);
       buf \<leftarrow> gunyah_rx_peak p2 (ring_buf (ring dev)) 0 0 n;
       let p3 = gunyah_rx_advance (peer 3 p2) n;
       if n = nat pkt_len
       then Some (dev\<lparr>rx_pipe := p3, ring := (ring dev)\<lparr>ring_buf := buf\<rparr>, posted := posted dev @ [take n buf]\<rparr>)
       else Some (dev\<lparr>rx_pipe := p3, ring := \<lparr>ring_buf = buf, ring_len = nat pkt_len, ring_offset = n\<rparr>\<rparr>) } }"

definition qrtr_gunyah_read_frag :: "interference \<Rightarrow> qrtr_gunyah_dev \<Rightarrow> qrtr_gunyah_dev option" where
  "qrtr_gunyah_read_frag peer dev = do {
     let r = ring dev;
     let p1 = peer 1 (rx_pipe dev);
     let avail = gunyah_rx_avail p1;
     let n = (if avail + ring_offset r > ring_len r then u64_sub (ring_len r) (ring_offset r) else avail);
     let p2 = peer 2 p1;
     buf \<leftarrow> gunyah_rx_peak p2 (ring_buf r) (ring_offset r) 0 n;
     let p3 = gunyah_rx_advance (peer 3 p2) n;
     if n + ring_offset r = ring_len r
     then Some (dev\<lparr>rx_pipe := p3, ring := \<lparr>ring_buf = buf, ring_len = 0, ring_offset = 0\<rparr>,
                   posted := posted dev @ [take (ring_len r) buf]\<rparr>)
     else Some (dev\<lparr>rx_pipe := p3, ring := r\<lparr>ring_buf := buf, ring_offset := u32 (ring_offset r + n)\<rparr>\<rparr>) }"

text \<open>One round of the loop of \<^verbatim>\<open>qrtr_gunyah_read\<close>, and the loop with a peer that writes only between calls.\<close>

definition gunyah_read_round :: "interference \<Rightarrow> byte list \<Rightarrow> qrtr_gunyah_dev \<Rightarrow> qrtr_gunyah_dev option" where
  "gunyah_read_round peer stack dev = do {
     d \<leftarrow> (if ring_offset (ring dev) \<noteq> 0 then qrtr_gunyah_read_frag peer dev
          else qrtr_gunyah_read_new peer stack dev);
     Some (if gunyah_get_read_notify d then d\<lparr>rx_kicks := Suc (rx_kicks d)\<rparr> else d) }"

partial_function (option) qrtr_gunyah_read :: "byte list \<Rightarrow> qrtr_gunyah_dev \<Rightarrow> qrtr_gunyah_dev option" where
  "qrtr_gunyah_read stack dev =
     (if gunyah_rx_avail (rx_pipe dev) = 0 then Some dev
      else Option.bind (gunyah_read_round quiet stack dev) (qrtr_gunyah_read stack))"

section \<open>Start and stop of the peer\<close>

text \<open>
  The shared memory: the words at its start (magic, the tail and head of both pipes, the flags that
  ask for a notification) and the two FIFOs behind them.
\<close>

record gunyah_shared =
  descs :: "nat list"
  fifo_0 :: "byte list"
  fifo_1 :: "byte list"

definition qrtr_gunyah_fifo_init :: "gunyah_shared \<Rightarrow> qrtr_gunyah_dev \<Rightarrow> gunyah_shared \<times> qrtr_gunyah_dev" where
  "qrtr_gunyah_fifo_init sh dev =
     (let ds0 = (if master dev then replicate 10 0 @ drop 10 (descs sh) else descs sh);
          ds1 = ds0[0 := 608784451];
          ds = (if master dev then ds1[2 := 0, 5 := 0, 3 := 0] else ds1[4 := 0, 6 := 0, 1 := 0]);
          p0 = \<lparr>pipe_tail = ds ! 1, pipe_head = ds ! 2, pipe_read_notify = ds ! 5, pipe_fifo = fifo_0 sh,
                pipe_length = FIFO_SIZE\<rparr>;
          p1 = \<lparr>pipe_tail = ds ! 3, pipe_head = ds ! 4, pipe_read_notify = ds ! 6, pipe_fifo = fifo_1 sh,
                pipe_length = FIFO_SIZE\<rparr>
      in (sh\<lparr>descs := ds\<rparr>,
          if master dev then dev\<lparr>tx_pipe := p0, rx_pipe := p1\<rparr> else dev\<lparr>tx_pipe := p1, rx_pipe := p0\<rparr>))"

text \<open>
  What the resource manager, the secure monitor, the allocator and the router answer, and the
  requests to them in order.
\<close>

record vm_env =
  vm_peer :: "nat option"
  vm_self :: "nat option"
  ep_register :: int
  scm_assign :: int
  acl_alloc :: bool
  sgl_alloc :: bool
  mem_share :: int

datatype vm_act = Register | Unregister | Assign_both | Assign_self | Share | Reclaim

definition qrtr_gunyah_share_mem :: "vm_env \<Rightarrow> int \<times> vm_act list" where
  "qrtr_gunyah_share_mem e =
     (if scm_assign e \<noteq> 0 then (scm_assign e, [Assign_both])
      else if \<not> acl_alloc e then (- ENOMEM, [Assign_both])
      else if \<not> sgl_alloc e then (- ENOMEM, [Assign_both])
      else if mem_share e \<noteq> 0 then (mem_share e, [Assign_both, Share, Assign_self])
      else (0, [Assign_both, Share]))"

definition qrtr_gunyah_unshare_mem :: "vm_act list" where
  "qrtr_gunyah_unshare_mem = [Reclaim, Assign_self]"

datatype vm_cmd = GH_VM_BEFORE_POWERUP | GH_VM_POWERUP_FAIL | GH_VM_EARLY_POWEROFF | GH_VM_OTHER

definition qrtr_gunyah_vm_cb ::
  "vm_env \<Rightarrow> vm_cmd \<Rightarrow> nat option \<Rightarrow> gunyah_shared \<times> qrtr_gunyah_dev
     \<Rightarrow> (gunyah_shared \<times> qrtr_gunyah_dev) \<times> vm_act list" where
  "qrtr_gunyah_vm_cb e cmd data s =
     (if data = None \<or> vm_peer e = None \<or> vm_self e = None \<or> vm_peer e \<noteq> data then (s, [])
      else case cmd of
        GH_VM_BEFORE_POWERUP \<Rightarrow>
          if registered (snd s) then (s, [])
          else
            let s1 = qrtr_gunyah_fifo_init (fst s) (snd s) in
            if ep_register e \<noteq> 0 then (s1, [Register])
            else
              let (ret, acts) = qrtr_gunyah_share_mem e in
              if ret \<noteq> 0 then (s1, Register # acts @ [Unregister])
              else ((fst s1, (snd s1)\<lparr>registered := True\<rparr>), Register # acts)
      | GH_VM_OTHER \<Rightarrow> (s, [])
      | _ \<Rightarrow>
          if registered (snd s)
          then ((fst s, (snd s)\<lparr>registered := False\<rparr>), Unregister # qrtr_gunyah_unshare_mem)
          else (s, []))"

section \<open>Probing and removing a device\<close>

text \<open>
  What the device tree, the allocators and the other subsystems answer while a device is probed. A
  doorbell handle is its pointer: zero is null and a negative value an error pointer.
\<close>

record probe_env =
  pr_dev_alloc :: bool
  pr_ring_alloc :: bool
  pr_label :: int
  pr_master :: bool
  pr_shared_buffer :: bool
  pr_svm_node :: bool
  pr_fifo_alloc :: bool
  pr_resource :: int
  pr_ioremap :: int
  pr_tx_dbl :: int
  pr_register :: int
  pr_rx_dbl :: int
  pr_rx_avail :: bool
  pr_peer_vmid :: bool
  pr_self_vmid :: bool

datatype probe_act =
  Fifo_init | Notifier_on | Notifier_off | Tx_on | Tx_off | Rx_on | Rx_off | Ep_on | Ep_off | Work_cancel | Read_pipe
| Unshare | Dma_free

definition qrtr_gunyah_alloc_fifo :: "probe_env \<Rightarrow> int" where
  "qrtr_gunyah_alloc_fifo e = (if pr_fifo_alloc e then 0 else - ENOMEM)"

definition qrtr_gunyah_map_memory :: "probe_env \<Rightarrow> int" where
  "qrtr_gunyah_map_memory e =
     (if pr_master e \<and> \<not> pr_shared_buffer e then qrtr_gunyah_alloc_fifo e
      else if \<not> pr_master e \<and> \<not> pr_svm_node e then - EINVAL
      else if pr_resource e \<noteq> 0 then - EINVAL
      else if pr_ioremap e < 0 then pr_ioremap e
      else 0)"

definition qrtr_gunyah_probe :: "probe_env \<Rightarrow> int \<times> probe_act list" where
  "qrtr_gunyah_probe e =
     (if \<not> pr_dev_alloc e \<or> \<not> pr_ring_alloc e then (- ENOMEM, [])
      else if pr_label e \<noteq> 0 then (pr_label e, [])
      else if qrtr_gunyah_map_memory e \<noteq> 0 then (qrtr_gunyah_map_memory e, [])
      else
        let a0 = (if pr_master e then [Notifier_on] else [Fifo_init]);
            undo = (if pr_master e then [Notifier_off] else []) in
        if pr_tx_dbl e \<le> 0 then (pr_tx_dbl e, a0 @ undo)
        else if \<not> pr_master e \<and> pr_register e \<noteq> 0
        then (pr_register e, a0 @ [Tx_on, Work_cancel, Tx_off] @ undo)
        else
          let a1 = a0 @ [Tx_on] @ (if pr_master e then [] else [Ep_on]) in
          if pr_rx_dbl e \<le> 0 then (pr_rx_dbl e, a1 @ [Ep_off, Work_cancel, Tx_off] @ undo)
          else (0, a1 @ [Rx_on] @ (if \<not> pr_master e \<and> pr_rx_avail e then [Read_pipe] else [])))"

definition qrtr_gunyah_remove :: "probe_env \<Rightarrow> probe_act list" where
  "qrtr_gunyah_remove e =
     [Work_cancel, Tx_off, Rx_off] @
     (if \<not> pr_master e then []
      else [Notifier_off] @
        (if \<not> pr_peer_vmid e \<or> \<not> pr_self_vmid e then []
         else [Unshare] @ (if pr_shared_buffer e then [] else [Dma_free])))"

text \<open>
  A primary machine whose receive doorbell cannot be registered unregisters an endpoint it has not
  registered, and a null handle makes a failed probe return success.
\<close>

lemma qrtr_gunyah_probe_rx_failure:
  assumes "pr_dev_alloc e" and "pr_ring_alloc e" and "pr_label e = 0" and "qrtr_gunyah_map_memory e = 0"
    and "pr_master e" and "0 < pr_tx_dbl e" and "pr_rx_dbl e \<le> 0"
  shows "qrtr_gunyah_probe e = (pr_rx_dbl e, [Notifier_on, Tx_on, Ep_off, Work_cancel, Tx_off, Notifier_off])"
  using assms by (simp add: qrtr_gunyah_probe_def)

text \<open>A secondary machine registers its endpoint when it is probed and keeps it when it is removed.\<close>

lemma qrtr_gunyah_remove_keeps_endpoint:
  assumes "qrtr_gunyah_probe e = (0, acts)" and "\<not> pr_master e" and "0 < pr_tx_dbl e" and "0 < pr_rx_dbl e"
  shows "Ep_on \<in> set acts \<and> Ep_off \<notin> set (acts @ qrtr_gunyah_remove e)"
  using assms by (auto simp: qrtr_gunyah_probe_def qrtr_gunyah_remove_def Let_def split: if_splits)

section \<open>The pipe is a byte FIFO\<close>

lemma gunyah_rx_avail_ok: "pipe_ok p \<Longrightarrow> gunyah_rx_avail p = pipe_used p"
  by (auto simp: gunyah_rx_avail_def pipe_ok_def pipe_used_def Let_def width_simps)

lemma gunyah_tx_avail_ok:
  assumes "pipe_ok p"
  shows "gunyah_tx_avail p = pipe_length p - FIFO_FULL_RESERVE - pipe_used p"
  using assms by (auto simp: gunyah_tx_avail_def pipe_ok_def pipe_used_def Let_def width_simps)

lemma gunyah_rx_peak_ok:
  assumes "pipe_ok p" and "n \<le> pipe_length p" and "d \<le> length data"
  shows "gunyah_rx_peak p data d 0 n =
    wr data d (map (\<lambda>i. pipe_fifo p ! ((pipe_tail p + i) mod pipe_length p)) [0..<n])"
  using assms copy_out_bytes [of p "pipe_tail p" n d data]
  by (simp add: gunyah_rx_peak_def pipe_ok_def Let_def width_simps)

lemma gunyah_rx_advance_ok:
  assumes "pipe_ok p" and "n \<le> pipe_length p"
  shows "gunyah_rx_advance p n = p\<lparr>pipe_tail := (pipe_tail p + n) mod pipe_length p\<rparr>"
  using assms by (simp add: gunyah_rx_advance_def pipe_ok_def Let_def width_simps)

lemma gunyah_move_head_ok:
  assumes "pipe_head p < pipe_length p" and "pipe_length p < 2 ^ 31" and "n < pipe_length p"
  shows "gunyah_move_head p n = p\<lparr>pipe_head := (pipe_head p + n) mod pipe_length p\<rparr>"
  using assms by (auto simp: gunyah_move_head_def Let_def width_simps mod_ring)

lemma gunyah_tx_write_ok:
  assumes ok: "pipe_ok p" and n: "length bs \<le> gunyah_tx_avail p"
  shows "\<exists>p'. gunyah_tx_write p bs = Some p' \<and> pipe_ok p' \<and> contents p' = contents p @ bs
    \<and> pipe_length p' = pipe_length p"
proof -
  have p: "length (pipe_fifo p) = pipe_length p" "pipe_head p < pipe_length p" "pipe_length p < 2 ^ 31"
    and room: "pipe_used p + length bs < pipe_length p"
    using ok n pipe_used_less [OF ok] by (auto simp: pipe_ok_def gunyah_tx_avail_ok [OF ok])
  then obtain f where f: "copy_in p (pipe_head p) bs = Some f"
    using copy_in_bytes [OF p, of bs] by auto
  have "gunyah_tx_write p bs = Some (p\<lparr>pipe_fifo := f, pipe_head := (pipe_head p + length bs) mod pipe_length p\<rparr>)"
    using p room f gunyah_move_head_ok [of "p\<lparr>pipe_fifo := f\<rparr>" "length bs"] by (simp add: gunyah_tx_write_def)
  then show ?thesis using contents_put [OF ok room f] by simp
qed

interpretation gh: byte_fifo pipe_ok contents "\<lambda>p. pipe_length p - FIFO_FULL_RESERVE" gunyah_rx_avail
  "\<lambda>p data d n. gunyah_rx_peak p data d 0 n" gunyah_rx_advance gunyah_tx_avail gunyah_tx_write
proof unfold_locales
  fix p :: fifo_pipe and bs data :: "byte list" and n d :: nat
  assume ok: "pipe_ok p"
  note used = pipe_used_less [OF ok]
  show "gunyah_rx_avail p = length (contents p)" by (simp add: gunyah_rx_avail_ok [OF ok])
  show "gunyah_tx_avail p = pipe_length p - 8 - length (contents p)" by (simp add: gunyah_tx_avail_ok [OF ok])
  show "0 < pipe_length p - 8" using ok by (simp add: pipe_ok_def)
  show "gunyah_rx_peak p data d 0 n = wr data d (take n (contents p))"
    if "n \<le> length (contents p)" "d \<le> length data"
    using gunyah_rx_peak_ok [OF ok _ that(2), of n] take_contents [of n p] that used by simp
  show "pipe_ok (gunyah_rx_advance p n) \<and> contents (gunyah_rx_advance p n) = drop n (contents p)
      \<and> pipe_length (gunyah_rx_advance p n) - 8 = pipe_length p - 8"
    if "n \<le> length (contents p)"
    using gunyah_rx_advance_ok [OF ok, of n] contents_advance [OF ok, of n] that used by simp
  show "\<exists>p'. gunyah_tx_write p bs = Some p' \<and> pipe_ok p' \<and> contents p' = contents p @ bs
      \<and> pipe_length p' - 8 = pipe_length p - 8"
    if "length bs \<le> gunyah_tx_avail p"
    using gunyah_tx_write_ok [OF ok that] by fastforce
qed

section \<open>Scatter lists\<close>

text \<open>
  What the driver relies on: skipping less than the length succeeds, and the pieces that follow hold the
  bytes from there on.
\<close>

definition sg_ok :: "sg_iter \<Rightarrow> byte list \<Rightarrow> bool" where
  "sg_ok sg bs \<longleftrightarrow> (\<forall>n < length bs. \<exists>r. sg n = Some r \<and> concat r = drop n bs)"

definition skb_ok :: "sk_buff \<Rightarrow> bool" where
  "skb_ok skb \<longleftrightarrow> (skb_nonlinear skb \<longrightarrow> sg_ok (skb_sg skb) (skb_bytes skb))"

lemma sg_copy_loop_wr:
  assumes "offset \<le> buflen" and "buflen - offset \<le> length (concat segs)" and "pos + buflen \<le> length f"
  shows "\<exists>f'. sg_copy_loop f pos offset buflen segs = Some (f', buflen)
    \<and> wr f (pos + offset) (take (buflen - offset) (concat segs)) = Some f'"
  using assms
proof (induction f pos offset buflen segs rule: sg_copy_loop.induct)
  case (1 f pos offset buflen)
  then show ?case by (simp add: wr_def)
next
  case (2 f pos offset buflen s segs)
  show ?case
  proof (cases "offset < buflen")
    case True
    define len where "len = min (length s) (buflen - offset)"
    have len: "len \<le> length s" "offset + len \<le> buflen" using True by (auto simp: len_def)
    obtain f1 where f1: "wr f (pos + offset) (take len s) = Some f1"
      using 2(4) len by (simp add: wr_def)
    have t: "take (buflen - offset) (concat (s # segs)) = take len s @ take (buflen - (offset + len)) (concat segs)"
      by (auto simp: len_def min_def)
    have "buflen - (offset + len) \<le> length (concat segs)" using 2(3) by (auto simp: len_def min_def)
    then obtain f' where f': "sg_copy_loop f1 pos (offset + len) buflen segs = Some (f', buflen)"
      "wr f1 (pos + (offset + len)) (take (buflen - (offset + len)) (concat segs)) = Some f'"
      using 2(1) [OF True len_def f1] 2(4) len length_wr [OF f1] by auto
    have le: "pos + offset + len + length (take (buflen - (offset + len)) (concat segs)) \<le> length f"
      using 2(4) len by simp
    have "wr f (pos + offset) (take (buflen - offset) (concat (s # segs))) = Some f'"
      unfolding t using wr_twice [OF _ disjI1 [OF le], of "take len s"] f1 f'(2) len by (simp add: add.assoc)
    then show ?thesis using True f1 f'(1) by (simp add: len_def Let_def)
  next
    case False
    then show ?thesis using 2(2,4) by (simp add: wr_def)
  qed
qed

lemma gunyah_sg_copy_toio_wr:
  assumes "sg_ok sg bs" and "skip + buflen \<le> length bs" and "0 < buflen" and "pos + buflen \<le> length f"
  shows "gunyah_sg_copy_toio f pos sg buflen skip =
    map_option (\<lambda>f'. (f', buflen)) (wr f pos (take buflen (drop skip bs)))"
proof -
  have "skip < length bs" using assms(2,3) by simp
  then obtain r where r: "sg skip = Some r" "concat r = drop skip bs"
    using assms(1) unfolding sg_ok_def by blast
  have "buflen \<le> length (drop skip bs)" using assms(2) by simp
  with sg_copy_loop_wr [of 0 buflen r pos f] r(2) assms(4)
  show ?thesis by (auto simp: gunyah_sg_copy_toio_def r(1))
qed

text \<open>Writing from a scatter list is writing the same bytes from one buffer.\<close>

lemma gunyah_sg_write_eq:
  assumes ok: "pipe_ok p" and sg: "sg_ok sg data" and n: "offset + n \<le> length data" "n \<le> pipe_length p"
  shows "gunyah_sg_write p sg offset n = gunyah_tx_write p (take n (drop offset data))"
proof -
  let ?bs = "take n (drop offset data)"
  define len where "len = min n (pipe_length p - pipe_head p)"
  have p: "length (pipe_fifo p) = pipe_length p" "pipe_head p < pipe_length p" "pipe_length p < 2 ^ 31"
    using ok by (auto simp: pipe_ok_def)
  have l: "length ?bs = n" using n by simp
  have u: "u64_sub (pipe_length p) (pipe_head p) = pipe_length p - pipe_head p" using p by (simp add: width_simps)
  have len: "len \<le> n" "pipe_head p + len \<le> pipe_length p" using p by (auto simp: len_def)
  have c1: "gunyah_sg_copy_toio (pipe_fifo p) (pipe_head p) sg len offset =
      map_option (\<lambda>f. (f, len)) (wr (pipe_fifo p) (pipe_head p) (take len ?bs))" if "0 < len"
    using gunyah_sg_copy_toio_wr [OF sg, of offset len "pipe_head p" "pipe_fifo p"] n len p(1) that by (simp add: min_absorb1)
  have c2: "map_option fst (gunyah_sg_copy_toio f 0 sg (n - len) (offset + len)) = wr f 0 (drop len ?bs)"
    if "length f = pipe_length p" "len \<noteq> n" for f
    using gunyah_sg_copy_toio_wr [OF sg, of "offset + len" "n - len" 0 f] n len that
    by (simp add: option.map_comp comp_def drop_take add.commute option.map_ident)
  obtain f1 where f1: "(if len \<noteq> 0 then wr (pipe_fifo p) (pipe_head p) (take len ?bs) else Some (pipe_fifo p)) = Some f1"
    "length f1 = pipe_length p"
    using len p(1) n by (cases "len = 0") (auto simp: wr_def)
  have s1: "(if len \<noteq> 0 then do {
            (f, rc) \<leftarrow> gunyah_sg_copy_toio (pipe_fifo p) (pipe_head p) sg len offset; Some (f, offset + rc) }
          else Some (pipe_fifo p, offset)) = Some (f1, offset + len)"
    using f1(1) c1 by (auto split: if_splits)
  have s2: "(if len \<noteq> n then map_option fst (gunyah_sg_copy_toio f1 0 sg (n - len) (offset + len)) else Some f1)
      = (if len \<noteq> n then wr f1 0 (drop len ?bs) else Some f1)"
    using c2 [OF f1(2)] by simp
  show ?thesis
    unfolding gunyah_sg_write_def gunyah_tx_write_def copy_in_def Let_def l u len_def [symmetric] s1 f1(1)
      bind.bind_lunit prod.case s2
    by (auto simp: Option.bind_assoc)
qed

lemma gunyah_write_chunk_eq:
  assumes "pipe_ok p" and "skb_ok skb" and "offset + n \<le> length (skb_bytes skb)" and "n \<le> gunyah_tx_avail p"
  shows "gunyah_write_chunk skb offset n p = gunyah_tx_write p (take n (drop offset (skb_bytes skb)))"
proof (cases "skb_nonlinear skb")
  case True
  then show ?thesis
    using gunyah_sg_write_eq [OF assms(1) _ assms(3)] assms gunyah_tx_avail_ok [OF assms(1)]
    by (simp add: gunyah_write_chunk_def skb_ok_def)
qed (simp add: gunyah_write_chunk_def)

section \<open>Memory safety against the peer\<close>

text \<open>
  All the local machine can rely on: the size of the FIFO is its own, head and tail are some 32-bit
  values, and the peer may change everything else at any time.
\<close>

definition shm_ok :: "fifo_pipe \<Rightarrow> bool" where
  "shm_ok p \<longleftrightarrow> length (pipe_fifo p) = pipe_length p \<and> 32 \<le> pipe_length p \<and> pipe_length p < 2 ^ 31
     \<and> pipe_head p < 2 ^ 32 \<and> pipe_tail p < 2 ^ 32"

definition peer_writes :: "interference \<Rightarrow> bool" where
  "peer_writes peer \<longleftrightarrow> (\<forall>k p. shm_ok p \<longrightarrow> shm_ok (peer k p) \<and> pipe_length (peer k p) = pipe_length p)"

definition ring_fits :: "gunyah_ring \<Rightarrow> bool" where
  "ring_fits r \<longleftrightarrow> length (ring_buf r) = MAX_PKT_SZ \<and> ring_offset r \<le> ring_len r \<and> ring_len r \<le> MAX_PKT_SZ"

lemma gunyah_rx_avail_le: "gunyah_rx_avail p \<le> pipe_length p"
  by (simp add: gunyah_rx_avail_def Let_def)

lemma copy_out_safe:
  assumes "length (pipe_fifo p) = pipe_length p" and "pos \<le> pipe_length p" and "pipe_length p < 2 ^ 31"
    and "n \<le> pipe_length p" and "d + n \<le> length data"
  shows "\<exists>data'. copy_out p pos data d n = Some data' \<and> length data' = length data"
proof (cases "pos < pipe_length p")
  case True
  then show ?thesis using copy_out_bytes [OF assms(1) True assms(3,4), of d data] assms(5) by (auto simp: wr_def)
next
  case False
  then have "u64_sub (pipe_length p) pos = 0" using assms by (simp add: width_simps)
  then show ?thesis using assms(1,4,5) by (simp add: copy_out_def rd_def wr_def)
qed

lemma gunyah_rx_peak_safe:
  assumes "shm_ok p" and "n \<le> pipe_length p" and "d + n \<le> length data"
  shows "\<exists>data'. gunyah_rx_peak p data d 0 n = Some data' \<and> length data' = length data"
  using assms copy_out_safe [of p _ n d data] by (simp add: gunyah_rx_peak_def Let_def shm_ok_def not_less)

lemma gunyah_rx_advance_shm:
  assumes "shm_ok p"
  shows "shm_ok (gunyah_rx_advance p n)" and "pipe_length (gunyah_rx_advance p n) = pipe_length p"
proof -
  have "0 < pipe_length p" "pipe_length p < 2 ^ 31" using assms by (auto simp: shm_ok_def)
  moreover have "u32 (pipe_tail p + n) < 2 ^ 32" by (rule u32_less)
  ultimately have "u32 (pipe_tail p + n) mod pipe_length p < 2 ^ 32"
    by (meson le_less_trans mod_less_eq_dividend)
  then show "shm_ok (gunyah_rx_advance p n)"
    using assms u32_less [of "pipe_tail p + n"] by (simp add: gunyah_rx_advance_def shm_ok_def Let_def)
qed (simp add: gunyah_rx_advance_def Let_def)

lemma read_new_safe:
  assumes "peer_writes peer" and "shm_ok (rx_pipe dev)" and "ring_fits (ring dev)" and "length stack = 32"
  shows "\<exists>d. qrtr_gunyah_read_new peer stack dev = Some d \<and> shm_ok (rx_pipe d) \<and> ring_fits (ring d)"
proof -
  define p0 where "p0 = peer 0 (rx_pipe dev)"
  define p1 where "p1 = peer 1 p0"
  define p2 where "p2 = peer 2 p1"
  define p3 where "p3 = peer 3 p2"
  have s: "shm_ok p0" "shm_ok p1" "shm_ok p2" "shm_ok p3"
    and L: "pipe_length p1 = pipe_length p0" "pipe_length p2 = pipe_length p0" "32 \<le> pipe_length p0"
    using assms(1,2) by (auto simp: peer_writes_def p0_def p1_def p2_def p3_def) (simp add: shm_ok_def)
  obtain hdr where hdr: "gunyah_rx_peak p0 stack 0 0 32 = Some hdr"
    using gunyah_rx_peak_safe [OF s(1) L(3), of 0 stack] assms(4) by auto
  define m where "m = nat (qrtr_peek_pkt_size hdr)"
  show ?thesis
  proof (cases "qrtr_peek_pkt_size hdr < 0 \<or> qrtr_peek_pkt_size hdr > int MAX_PKT_SZ")
    case True
    then show ?thesis
      using hdr assms(3) gunyah_rx_advance_shm [OF s(3)]
      by (auto simp: qrtr_gunyah_read_new_def Let_def p0_def p1_def p2_def)
  next
    case False
    then have m: "m \<le> MAX_PKT_SZ" by (auto simp: m_def)
    define n where "n = min (gunyah_rx_avail p1) m"
    have n: "n \<le> pipe_length p2" "n \<le> MAX_PKT_SZ" "n \<le> m"
      using gunyah_rx_avail_le [of p1] L m by (auto simp: n_def)
    obtain buf where buf: "gunyah_rx_peak p2 (ring_buf (ring dev)) 0 0 n = Some buf" "length buf = MAX_PKT_SZ"
      using gunyah_rx_peak_safe [OF s(3) n(1), of 0 "ring_buf (ring dev)"] assms(3) n(2) by (auto simp: ring_fits_def)
    have "qrtr_gunyah_read_new peer stack dev =
        (if n = m then Some (dev\<lparr>rx_pipe := gunyah_rx_advance p3 n, ring := (ring dev)\<lparr>ring_buf := buf\<rparr>,
             posted := posted dev @ [take n buf]\<rparr>)
         else Some (dev\<lparr>rx_pipe := gunyah_rx_advance p3 n, ring := \<lparr>ring_buf = buf, ring_len = m, ring_offset = n\<rparr>\<rparr>))"
      unfolding qrtr_gunyah_read_new_def Let_def p0_def [symmetric] p1_def [symmetric] p2_def [symmetric]
        p3_def [symmetric] hdr bind.bind_lunit m_def [symmetric] n_def [symmetric] buf(1)
      using False by simp
    then show ?thesis
      using buf(2) gunyah_rx_advance_shm(1) [OF s(4)] n m assms(3) by (auto simp: ring_fits_def)
  qed
qed

lemma read_frag_safe:
  assumes "peer_writes peer" and "shm_ok (rx_pipe dev)" and "ring_fits (ring dev)"
  shows "\<exists>d. qrtr_gunyah_read_frag peer dev = Some d \<and> shm_ok (rx_pipe d) \<and> ring_fits (ring d)"
proof -
  define r where "r = ring dev"
  define p1 where "p1 = peer 1 (rx_pipe dev)"
  define p2 where "p2 = peer 2 p1"
  define p3 where "p3 = peer 3 p2"
  have s: "shm_ok p1" "shm_ok p2" "shm_ok p3" and L: "pipe_length p2 = pipe_length p1"
    using assms(1,2) by (auto simp: peer_writes_def p1_def p2_def p3_def)
  have r: "length (ring_buf r) = MAX_PKT_SZ" "ring_offset r \<le> ring_len r" "ring_len r \<le> MAX_PKT_SZ"
    using assms(3) by (auto simp: ring_fits_def r_def)
  define n where "n = (if gunyah_rx_avail p1 + ring_offset r > ring_len r then u64_sub (ring_len r) (ring_offset r)
      else gunyah_rx_avail p1)"
  have n: "n + ring_offset r \<le> ring_len r" "n \<le> pipe_length p2"
    using r gunyah_rx_avail_le [of p1] L by (auto simp: n_def width_simps)
  obtain buf where buf: "gunyah_rx_peak p2 (ring_buf r) (ring_offset r) 0 n = Some buf" "length buf = MAX_PKT_SZ"
    using gunyah_rx_peak_safe [OF s(2) n(2), of "ring_offset r" "ring_buf r"] n r by auto
  have u: "u32 (ring_offset r + n) = ring_offset r + n" using n(1) r(3) by (simp add: width_simps)
  show ?thesis
    unfolding qrtr_gunyah_read_frag_def Let_def r_def [symmetric] p1_def [symmetric] p2_def [symmetric]
      p3_def [symmetric] n_def [symmetric] buf(1) bind.bind_lunit u
    using buf(2) gunyah_rx_advance_shm(1) [OF s(3)] n r by (auto simp: ring_fits_def)
qed

lemma read_round_safe:
  assumes "peer_writes peer" and "shm_ok (rx_pipe dev)" and "ring_fits (ring dev)" and "length stack = 32"
  shows "\<exists>d. gunyah_read_round peer stack dev = Some d \<and> shm_ok (rx_pipe d) \<and> ring_fits (ring d)"
  using read_new_safe [OF assms] read_frag_safe [OF assms(1-3)]
  by (auto simp: gunyah_read_round_def)

text \<open>
  C33 (safety). Whatever the peer machine writes to the shared head, tail and data, and whenever it does
  so, no sequence of rounds of the receive handler reads outside of the FIFO or writes outside of the
  reassembly buffer.
\<close>

theorem gunyah_read_memory_safe:
  assumes "\<forall>(peer, stack) \<in> set rounds. peer_writes peer \<and> length stack = 32"
    and "shm_ok (rx_pipe dev)" and "ring_fits (ring dev)"
  shows "\<exists>d. fold (\<lambda>(peer, stack) s. Option.bind s (gunyah_read_round peer stack)) rounds (Some dev) = Some d
    \<and> ring_fits (ring d)"
  using assms
proof (induction rounds arbitrary: dev)
  case (Cons r rounds)
  obtain peer stack where r: "r = (peer, stack)" by (cases r)
  obtain d where "gunyah_read_round peer stack dev = Some d" "shm_ok (rx_pipe d)" "ring_fits (ring d)"
    using read_round_safe [of peer dev stack] Cons.prems r by auto
  then show ?case using Cons.IH [of d] Cons.prems r by simp
qed simp

definition example_dev :: "nat \<Rightarrow> nat \<Rightarrow> qrtr_gunyah_dev" where
  "example_dev h t =
     (let p = \<lparr>pipe_tail = t, pipe_head = h, pipe_read_notify = 0, pipe_fifo = replicate 64 0, pipe_length = 64\<rparr>
      in \<lparr>ring = \<lparr>ring_buf = replicate MAX_PKT_SZ 0, ring_len = 0, ring_offset = 0\<rparr>, master = True, registered = True,
          work = False, tx_pipe = p, rx_pipe = p, posted = [], rx_kicks = 0\<rparr>)"

theorem gunyah_read_memory_safe_witness:
  "\<exists>d. fold (\<lambda>(peer, stack) s. Option.bind s (gunyah_read_round peer stack))
      [(quiet, replicate 32 0), (\<lambda>k p. p\<lparr>pipe_head := 7, pipe_tail := 4000000000\<rparr>, replicate 32 1)]
      (Some (example_dev 4000000000 70)) = Some d \<and> ring_fits (ring d)"
  by (rule gunyah_read_memory_safe)
     (simp_all add: peer_writes_def quiet_def shm_ok_def example_dev_def ring_fits_def Let_def)

section \<open>The read handler returns\<close>

lemma read_returns_if:
  assumes "gunyah_rx_avail (rx_pipe dev) = 0"
  shows "qrtr_gunyah_read stack dev = Some dev"
  using assms by (simp add: qrtr_gunyah_read.simps)

lemma read_round_then:
  assumes "gunyah_rx_avail (rx_pipe dev) \<noteq> 0" and "gunyah_read_round quiet stack dev = Some d"
  shows "qrtr_gunyah_read stack dev = qrtr_gunyah_read stack d"
  using assms by (simp add: qrtr_gunyah_read.simps [of stack dev])

text \<open>The 32 bytes of the ring from a position on, which the handler takes for a header.\<close>

definition header_at :: "fifo_pipe \<Rightarrow> nat \<Rightarrow> byte list" where
  "header_at p pos = map (\<lambda>i. pipe_fifo p ! ((pos + i) mod pipe_length p)) [0..<32]"

lemma peek_header:
  assumes "pipe_ok p" and "32 \<le> pipe_length p" and "length stack = 32"
  shows "gunyah_rx_peak p stack 0 0 32 = Some (header_at p (pipe_tail p))"
  using gunyah_rx_peak_ok [OF assms(1,2), of 0 stack] assms(3) by (simp add: header_at_def wr_def)

text \<open>What the two kinds of round do with a sound pipe.\<close>

definition stored :: "byte list \<Rightarrow> nat \<Rightarrow> byte list \<Rightarrow> byte list" where
  "stored buf d bs = take d buf @ bs @ drop (d + length bs) buf"

lemma take_stored: "d \<le> length buf \<Longrightarrow> take (d + length bs) (stored buf d bs) = take d buf @ bs"
  by (simp add: stored_def)

lemma length_stored [simp]: "d + length bs \<le> length buf \<Longrightarrow> length (stored buf d bs) = length buf"
  by (simp add: stored_def)

lemma read_new_eq:
  assumes ok: "pipe_ok (rx_pipe dev)" "32 \<le> pipe_length (rx_pipe dev)" and r: "ring_fits (ring dev)" "length stack = 32"
    and sz: "qrtr_peek_pkt_size (header_at (rx_pipe dev) (pipe_tail (rx_pipe dev))) = sz"
  defines "p \<equiv> rx_pipe dev"
  defines "n \<equiv> min (pipe_used p) (nat sz)"
  shows "qrtr_gunyah_read_new quiet stack dev = Some
    (if sz < 0 \<or> sz > int MAX_PKT_SZ then dev\<lparr>rx_pipe := gunyah_rx_advance p (pipe_used p)\<rparr>
     else let buf = stored (ring_buf (ring dev)) 0 (take n (contents p)); p' = gunyah_rx_advance p n in
       if n = nat sz then dev\<lparr>rx_pipe := p', ring := (ring dev)\<lparr>ring_buf := buf\<rparr>, posted := posted dev @ [take n (contents p)]\<rparr>
       else dev\<lparr>rx_pipe := p', ring := \<lparr>ring_buf = buf, ring_len = nat sz, ring_offset = n\<rparr>\<rparr>)"
proof (cases "sz < 0 \<or> sz > int MAX_PKT_SZ")
  case True
  then show ?thesis
    using peek_header [OF ok r(2)] gunyah_rx_avail_ok [OF ok(1)] sz
    by (simp add: qrtr_gunyah_read_new_def Let_def quiet_def p_def)
next
  case False
  have n: "n \<le> length (contents p)" "n \<le> MAX_PKT_SZ" using False by (auto simp: n_def)
  let ?buf = "stored (ring_buf (ring dev)) 0 (take n (contents p))"
  have pk: "gunyah_rx_peak p (ring_buf (ring dev)) 0 0 n = Some ?buf"
    using gh.peek [OF ok(1), of n 0] n r(1) by (simp add: p_def wr_def ring_fits_def stored_def)
  have t: "take n ?buf = take n (contents p)" using n(1) by (simp add: stored_def)
  note h = peek_header [OF ok r(2), folded p_def] and a = gunyah_rx_avail_ok [OF ok(1), folded p_def]
  show ?thesis
    unfolding qrtr_gunyah_read_new_def Let_def quiet_def p_def [symmetric] h bind.bind_lunit sz [folded p_def] a
      n_def [symmetric] pk t
    using False by simp
qed

lemma read_frag_eq:
  assumes ok: "pipe_ok (rx_pipe dev)" and r: "ring_fits (ring dev)"
  defines "p \<equiv> rx_pipe dev"
  defines "off \<equiv> ring_offset (ring dev)"
  defines "len \<equiv> ring_len (ring dev)"
  defines "n \<equiv> min (pipe_used p) (len - off)"
  defines "buf \<equiv> stored (ring_buf (ring dev)) off (take n (contents p))"
  shows "qrtr_gunyah_read_frag quiet dev = Some
    (if off + n = len
     then dev\<lparr>rx_pipe := gunyah_rx_advance p n, ring := \<lparr>ring_buf = buf, ring_len = 0, ring_offset = 0\<rparr>,
              posted := posted dev @ [take off (ring_buf (ring dev)) @ take n (contents p)]\<rparr>
     else dev\<lparr>rx_pipe := gunyah_rx_advance p n, ring := (ring dev)\<lparr>ring_buf := buf, ring_offset := off + n\<rparr>\<rparr>)"
proof -
  have f: "length (ring_buf (ring dev)) = MAX_PKT_SZ" "off \<le> len" "len \<le> MAX_PKT_SZ"
    using r by (auto simp: ring_fits_def off_def len_def)
  have n: "n \<le> length (contents p)" "off + n \<le> len" using f(2) by (auto simp: n_def)
  have m: "(if gunyah_rx_avail p + off > len then u64_sub len off else gunyah_rx_avail p) = n"
    using f gunyah_rx_avail_ok [OF ok] by (auto simp: n_def p_def width_simps)
  have pk: "gunyah_rx_peak p (ring_buf (ring dev)) off 0 n = Some buf"
    using gh.peek [OF ok, of n off "ring_buf (ring dev)"] n f by (simp add: p_def wr_def buf_def stored_def min_absorb2)
  have t: "take len buf = take off (ring_buf (ring dev)) @ take n (contents p)" if "off + n = len"
    using take_stored [of off "ring_buf (ring dev)" "take n (contents p)"] f n that by (simp add: buf_def min_absorb2)
  have u: "u32 (off + n) = off + n" using n f by (simp add: width_simps)
  show ?thesis
    unfolding qrtr_gunyah_read_frag_def Let_def quiet_def p_def [symmetric] off_def [symmetric] len_def [symmetric]
      m pk bind.bind_lunit u
    using t by (simp add: add.commute)
qed

text \<open>A fragment in the reassembly buffer is incomplete.\<close>

definition ring_live :: "gunyah_ring \<Rightarrow> bool" where
  "ring_live r \<longleftrightarrow> ring_fits r \<and> (ring_offset r \<noteq> 0 \<longrightarrow> ring_offset r < ring_len r)"

lemma ring_fits_stored:
  "ring_fits r \<Longrightarrow> d + length bs \<le> MAX_PKT_SZ \<Longrightarrow> length (stored (ring_buf r) d bs) = MAX_PKT_SZ"
  by (simp add: ring_fits_def stored_def)

lemma round_progress:
  assumes ok: "pipe_ok (rx_pipe dev)" "32 \<le> pipe_length (rx_pipe dev)" and r: "ring_live (ring dev)" "length stack = 32"
    and used: "pipe_used (rx_pipe dev) \<noteq> 0"
    and sz: "ring_offset (ring dev) = 0 \<longrightarrow> qrtr_peek_pkt_size (header_at (rx_pipe dev) (pipe_tail (rx_pipe dev))) \<noteq> 0"
  shows "\<exists>d n. gunyah_read_round quiet stack dev = Some d \<and> 0 < n \<and> n \<le> pipe_used (rx_pipe dev)
    \<and> rx_pipe d = gunyah_rx_advance (rx_pipe dev) n \<and> ring_live (ring d)"
proof -
  have f: "ring_fits (ring dev)" using r(1) by (simp add: ring_live_def)
  let ?p = "rx_pipe dev"
  show ?thesis
  proof (cases "ring_offset (ring dev) = 0")
    case True
    define sz' where "sz' = qrtr_peek_pkt_size (header_at ?p (pipe_tail ?p))"
    have s0: "sz' \<noteq> 0" using sz True by (simp add: sz'_def)
    show ?thesis
    proof (cases "sz' < 0 \<or> sz' > int MAX_PKT_SZ")
      case bad: True
      then show ?thesis
        using read_new_eq [OF ok f r(2) sz'_def [symmetric]] True used r(1)
        by (simp add: gunyah_read_round_def) (intro exI [of _ "pipe_used ?p"], simp)
    next
      case False
      define n where "n = min (pipe_used ?p) (nat sz')"
      have n: "0 < n" "n \<le> pipe_used ?p" "n \<le> nat sz'" "nat sz' \<le> MAX_PKT_SZ"
        using False s0 used by (auto simp: n_def)
      show ?thesis
        using read_new_eq [OF ok f r(2) sz'_def [symmetric], folded n_def] False True n r(1) f
        by (cases "n = nat sz'")
           (auto simp: gunyah_read_round_def Let_def ring_live_def ring_fits_def intro: exI [of _ "nat sz'"])
    qed
  next
    case False
    define n where "n = min (pipe_used ?p) (ring_len (ring dev) - ring_offset (ring dev))"
    have n: "0 < n" "n \<le> pipe_used ?p" "ring_offset (ring dev) + n \<le> ring_len (ring dev)"
      "ring_len (ring dev) \<le> MAX_PKT_SZ"
      using False r(1) used by (auto simp: n_def ring_live_def ring_fits_def)
    show ?thesis
      using read_frag_eq [OF ok(1) f, folded n_def] False n f
      by (cases "ring_offset (ring dev) + n = ring_len (ring dev)")
         (auto simp: gunyah_read_round_def Let_def ring_live_def ring_fits_def)
  qed
qed

lemma header_at_advance [simp]:
  "header_at (gunyah_rx_advance p n) pos = header_at p pos" "pipe_length (gunyah_rx_advance p n) = pipe_length p"
  by (simp_all add: header_at_def gunyah_rx_advance_def Let_def)

text \<open>A header whose size makes the packet length wrap around to zero: nothing is consumed.\<close>

definition stuck :: "byte list \<Rightarrow> qrtr_gunyah_dev \<Rightarrow> bool" where
  "stuck stack dev \<longleftrightarrow> pipe_ok (rx_pipe dev) \<and> 32 \<le> pipe_length (rx_pipe dev) \<and> ring_live (ring dev) \<and> length stack = 32
     \<and> ring_offset (ring dev) = 0 \<and> pipe_used (rx_pipe dev) \<noteq> 0
     \<and> qrtr_peek_pkt_size (header_at (rx_pipe dev) (pipe_tail (rx_pipe dev))) = 0"

lemma stuck_round:
  assumes "stuck stack dev"
  shows "\<exists>d. gunyah_read_round quiet stack dev = Some d \<and> stuck stack d"
proof -
  have s: "pipe_ok (rx_pipe dev)" "32 \<le> pipe_length (rx_pipe dev)" "ring_fits (ring dev)" "length stack = 32"
    "qrtr_peek_pkt_size (header_at (rx_pipe dev) (pipe_tail (rx_pipe dev))) = 0" "ring_offset (ring dev) = 0"
    using assms by (auto simp: stuck_def ring_live_def)
  have a: "gunyah_rx_advance (rx_pipe dev) 0 = rx_pipe dev"
    using gunyah_rx_advance_ok [OF s(1), of 0] s(1) by (simp add: pipe_ok_def)
  have b: "stored (ring_buf (ring dev)) 0 [] = ring_buf (ring dev)" by (simp add: stored_def)
  show ?thesis
    using read_new_eq [OF s(1-5)] a b s(6) assms
    by (simp add: gunyah_read_round_def Let_def) (auto simp: stuck_def)
qed

lemma returns_not_stuck: "qrtr_gunyah_read stack dev = Some y \<Longrightarrow> \<not> stuck stack dev"
proof (erule qrtr_gunyah_read.raw_induct [rotated], rule notI)
  fix f stack dev y
  assume IH: "\<And>stack dev y. f stack dev = Some y \<Longrightarrow> \<not> stuck stack dev" and st: "stuck stack dev"
    and y: "(if gunyah_rx_avail (rx_pipe dev) = 0 then Some dev
       else Option.bind (gunyah_read_round quiet stack dev) (f stack)) = Some y"
  obtain d where d: "gunyah_read_round quiet stack dev = Some d" "stuck stack d"
    using stuck_round [OF st] by blast
  have "gunyah_rx_avail (rx_pipe dev) \<noteq> 0" using st gunyah_rx_avail_ok by (simp add: stuck_def)
  then have "f stack d = Some y" using y d(1) by simp
  then show False using IH d(2) by blast
qed

lemma stuck_never_returns: "stuck stack dev \<Longrightarrow> qrtr_gunyah_read stack dev = None"
  using returns_not_stuck by (cases "qrtr_gunyah_read stack dev") auto

text \<open>
  The rounds of one call: \<open>read_rounds stack dev d\<close> holds of the states \<open>d\<close> the loop passes through. It meets an
  empty header if in one of them, with no fragment pending and bytes to read, the header at the front has a
  packet length of zero.
\<close>

inductive read_rounds :: "byte list \<Rightarrow> qrtr_gunyah_dev \<Rightarrow> qrtr_gunyah_dev \<Rightarrow> bool" for stack where
  read_start: "read_rounds stack dev dev"
| read_again: "gunyah_rx_avail (rx_pipe dev) \<noteq> 0 \<Longrightarrow> gunyah_read_round quiet stack dev = Some d \<Longrightarrow>
    read_rounds stack d d' \<Longrightarrow> read_rounds stack dev d'"

definition empty_header :: "qrtr_gunyah_dev \<Rightarrow> bool" where
  "empty_header dev \<longleftrightarrow> ring_offset (ring dev) = 0 \<and> contents (rx_pipe dev) \<noteq> []
     \<and> qrtr_peek_pkt_size (header_at (rx_pipe dev) (pipe_tail (rx_pipe dev))) = 0"

definition meets_empty_header :: "byte list \<Rightarrow> qrtr_gunyah_dev \<Rightarrow> bool" where
  "meets_empty_header stack dev \<longleftrightarrow> (\<exists>d. read_rounds stack dev d \<and> empty_header d)"

definition read_ok :: "byte list \<Rightarrow> qrtr_gunyah_dev \<Rightarrow> bool" where
  "read_ok stack dev \<longleftrightarrow> pipe_ok (rx_pipe dev) \<and> 32 \<le> pipe_length (rx_pipe dev) \<and> ring_live (ring dev) \<and> length stack = 32"

lemma stuck_iff: "stuck stack dev \<longleftrightarrow> read_ok stack dev \<and> empty_header dev"
  by (auto simp: stuck_def read_ok_def empty_header_def contents_def)

text \<open>A round that does not find an empty header consumes bytes of the ring and leaves the ring as it is.\<close>

lemma read_ok_round:
  assumes "read_ok stack dev" and "pipe_used (rx_pipe dev) \<noteq> 0" and "\<not> empty_header dev"
  shows "\<exists>d. gunyah_read_round quiet stack dev = Some d \<and> read_ok stack d
    \<and> pipe_used (rx_pipe d) < pipe_used (rx_pipe dev) \<and> pipe_length (rx_pipe d) = pipe_length (rx_pipe dev)
    \<and> header_at (rx_pipe d) = header_at (rx_pipe dev)"
proof -
  have ok: "pipe_ok (rx_pipe dev)" "32 \<le> pipe_length (rx_pipe dev)" "ring_live (ring dev)" "length stack = 32"
    using assms(1) by (auto simp: read_ok_def)
  obtain d n where d: "gunyah_read_round quiet stack dev = Some d" "0 < n" "n \<le> pipe_used (rx_pipe dev)"
      "rx_pipe d = gunyah_rx_advance (rx_pipe dev) n" "ring_live (ring d)"
    using round_progress [OF ok assms(2)] assms(2,3) by (auto simp: empty_header_def contents_def)
  have "pipe_ok (rx_pipe d)" "length (contents (rx_pipe d)) = length (contents (rx_pipe dev)) - n"
    using gh.advance [OF ok(1), of n] d(3,4) by simp_all
  then show ?thesis using d ok assms(2) by (auto simp: read_ok_def)
qed

lemma read_rounds_ok:
  assumes "read_rounds stack dev d" and "read_ok stack dev"
  shows "read_ok stack d \<and> qrtr_gunyah_read stack dev = qrtr_gunyah_read stack d"
  using assms
proof (induction rule: read_rounds.induct)
  case (read_again dev d d')
  have "pipe_used (rx_pipe dev) \<noteq> 0"
    using read_again.hyps(1) read_again.prems gunyah_rx_avail_ok by (auto simp: read_ok_def)
  then have ok: "read_ok stack d"
    using read_ok_round [OF read_again.prems] stuck_round [of stack dev] read_again.hyps(2) read_again.prems
    by (cases "empty_header dev") (auto simp: stuck_iff)
  show ?case using read_again.IH [OF ok] read_round_then [OF read_again.hyps(1,2)] by simp
qed simp

lemma read_returns:
  assumes "read_ok stack dev" and "\<not> meets_empty_header stack dev"
  shows "\<exists>d. qrtr_gunyah_read stack dev = Some d \<and> contents (rx_pipe d) = []"
  using assms
proof (induction "pipe_used (rx_pipe dev)" arbitrary: dev rule: less_induct)
  case less
  have av: "gunyah_rx_avail (rx_pipe dev) = pipe_used (rx_pipe dev)"
    using less.prems(1) gunyah_rx_avail_ok by (simp add: read_ok_def)
  show ?case
  proof (cases "pipe_used (rx_pipe dev) = 0")
    case True
    then show ?thesis using read_returns_if [of dev stack] av by (simp add: contents_def)
  next
    case False
    have "\<not> empty_header dev" using less.prems(2) read_start by (auto simp: meets_empty_header_def)
    then obtain d where d: "gunyah_read_round quiet stack dev = Some d" "read_ok stack d"
      "pipe_used (rx_pipe d) < pipe_used (rx_pipe dev)" using read_ok_round [OF less.prems(1) False] by blast
    have "\<not> meets_empty_header stack d"
      using less.prems(2) read_again [OF _ d(1)] False av by (auto simp: meets_empty_header_def)
    from less.hyps [OF d(3,2) this] show ?thesis using read_round_then [OF _ d(1)] False av by simp
  qed
qed

lemma meets_in_ring:
  assumes "read_rounds stack dev d" and "read_ok stack dev"
    and "\<forall>pos < pipe_length (rx_pipe dev). qrtr_peek_pkt_size (header_at (rx_pipe dev) pos) \<noteq> 0"
  shows "\<not> empty_header d"
  using assms
proof (induction rule: read_rounds.induct)
  case (read_start dev)
  then show ?case by (auto simp: empty_header_def read_ok_def pipe_ok_def)
next
  case (read_again dev d d')
  have "\<not> empty_header dev" using read_again.prems by (auto simp: empty_header_def read_ok_def pipe_ok_def)
  moreover have "pipe_used (rx_pipe dev) \<noteq> 0"
    using read_again.hyps(1) read_again.prems(1) gunyah_rx_avail_ok by (auto simp: read_ok_def)
  ultimately show ?case
    using read_ok_round [OF read_again.prems(1)] read_again.hyps(2) read_again.IH read_again.prems(2) by auto
qed

text \<open>
  C34 (termination). On a sound FIFO, and while the peer writes nothing new, the receive handler returns, with
  the FIFO empty, exactly if none of its rounds finds, with no fragment pending, a header at the front whose
  packet length is zero, which 32-bit wrap-around makes possible; if one does, the handler never returns. In
  particular it returns if no position of the ring holds such a header.
\<close>

theorem qrtr_gunyah_read_terminates:
  assumes "pipe_ok (rx_pipe dev)" and "32 \<le> pipe_length (rx_pipe dev)" and "ring_live (ring dev)"
    and "length stack = 32"
  shows "((\<exists>d. qrtr_gunyah_read stack dev = Some d \<and> contents (rx_pipe d) = []) \<longleftrightarrow> \<not> meets_empty_header stack dev)
    \<and> (qrtr_gunyah_read stack dev = None \<longleftrightarrow> meets_empty_header stack dev)
    \<and> ((\<forall>pos < pipe_length (rx_pipe dev). qrtr_peek_pkt_size (header_at (rx_pipe dev) pos) \<noteq> 0) \<longrightarrow>
        \<not> meets_empty_header stack dev)"
proof -
  have ok: "read_ok stack dev" using assms by (simp add: read_ok_def)
  have "qrtr_gunyah_read stack dev = None" if m: "meets_empty_header stack dev"
  proof -
    obtain d where d: "read_rounds stack dev d" "empty_header d" using m by (auto simp: meets_empty_header_def)
    then have "stuck stack d" using read_rounds_ok [OF d(1) ok] by (simp add: stuck_iff)
    then show ?thesis using read_rounds_ok [OF d(1) ok] stuck_never_returns by simp
  qed
  then show ?thesis using read_returns [OF ok] meets_in_ring [OF _ ok] by (fastforce simp: meets_empty_header_def)
qed

definition example_header :: "nat \<Rightarrow> byte list" where
  "example_header sz = hdr_v1_bytes \<lparr>v1_version = 1, v1_type = 1, v1_src_node_id = 5, v1_src_port_id = 20,
     v1_confirm_rx = 0, v1_size = sz, v1_dst_node_id = 1, v1_dst_port_id = 16384\<rparr>"

definition example_stuck :: qrtr_gunyah_dev where
  "example_stuck = (example_dev 40 0)\<lparr>rx_pipe := (rx_pipe (example_dev 40 0))
     \<lparr>pipe_fifo := example_header 4294967264 @ replicate 32 0\<rparr>\<rparr>"

theorem qrtr_gunyah_read_terminates_witness:
  "(\<exists>d. qrtr_gunyah_read (replicate 32 0) (example_dev 40 60) = Some d \<and> contents (rx_pipe d) = [])
    \<and> qrtr_gunyah_read (replicate 32 0) example_stuck = None"
proof
  have z: "header_at (rx_pipe (example_dev 40 60)) pos = replicate 32 0" for pos
    by (intro nth_equalityI) (simp_all add: header_at_def example_dev_def Let_def)
  have "pipe_ok (rx_pipe (example_dev 40 60))" "ring_live (ring (example_dev 40 60))" "32 \<le> pipe_length (rx_pipe (example_dev 40 60))"
    by (simp_all add: example_dev_def Let_def pipe_ok_def ring_live_def ring_fits_def)
  then show "\<exists>d. qrtr_gunyah_read (replicate 32 0) (example_dev 40 60) = Some d \<and> contents (rx_pipe d) = []"
    using qrtr_gunyah_read_terminates [of "example_dev 40 60" "replicate 32 0"]
    by (simp add: z qrtr_peek_pkt_size_def)
  have f: "pipe_fifo (rx_pipe example_stuck) = example_header 4294967264 @ replicate 32 0"
    "pipe_length (rx_pipe example_stuck) = 64" "pipe_tail (rx_pipe example_stuck) = 0"
    "pipe_head (rx_pipe example_stuck) = 40"
    by (simp_all add: example_stuck_def example_dev_def Let_def)
  have "header_at (rx_pipe example_stuck) 0 = example_header 4294967264"
    by (intro nth_equalityI) (simp_all add: header_at_def f nth_append example_header_def)
  moreover have "qrtr_peek_pkt_size (example_header 4294967264) = 0"
    using hdr_v1_of_bytes [of "\<lparr>v1_version = 1, v1_type = 1, v1_src_node_id = 5, v1_src_port_id = 20,
        v1_confirm_rx = 0, v1_size = 4294967264, v1_dst_node_id = 1, v1_dst_port_id = 16384\<rparr>" "[]"]
    by (simp add: qrtr_peek_pkt_size_def example_header_def hdr_v1_bytes_0 hdr_v1_ok_def align4_32_def u32_def s32_def)
  moreover have "contents (rx_pipe example_stuck) \<noteq> []"
    by (simp add: contents_def pipe_used_def f)
  moreover have "pipe_ok (rx_pipe example_stuck)" "ring_live (ring example_stuck)" "ring_offset (ring example_stuck) = 0"
    by (simp add: pipe_ok_def f example_header_def)
       (simp_all add: example_stuck_def example_dev_def Let_def ring_live_def ring_fits_def)
  ultimately show "qrtr_gunyah_read (replicate 32 0) example_stuck = None"
    using qrtr_gunyah_read_terminates [of example_stuck "replicate 32 0"] f read_start [of "replicate 32 0" example_stuck]
    by (auto simp: meets_empty_header_def empty_header_def)
qed

section \<open>A link delivers the packets sent\<close>

definition is_packet :: "byte list \<Rightarrow> bool" where
  "is_packet pk \<longleftrightarrow> 32 \<le> length pk \<and> length pk \<le> MAX_PKT_SZ \<and> qrtr_peek_pkt_size (take 32 pk) = int (length pk)"

text \<open>
  The bytes \<open>c\<close> in the pipe and the fragment in the reassembly buffer are, with the part \<open>rest\<close> the sender
  has not written yet, the packets \<open>q\<close> in order; of the packet being sent, nothing or at least the header
  has been written.
\<close>

definition unsent_ok :: "byte list list \<Rightarrow> byte list \<Rightarrow> bool" where
  "unsent_ok q rest \<longleftrightarrow> rest = [] \<or> q \<noteq> [] \<and> (rest = last q \<or> 32 + length rest \<le> length (last q))"

definition in_transit :: "gunyah_ring \<Rightarrow> byte list \<Rightarrow> byte list list \<Rightarrow> byte list \<Rightarrow> bool" where
  "in_transit r c q rest \<longleftrightarrow> take (ring_offset r) (ring_buf r) @ c @ rest = concat q \<and> list_all is_packet q
     \<and> (ring_offset r \<noteq> 0 \<longrightarrow> q \<noteq> [] \<and> ring_len r = length (hd q)) \<and> unsent_ok q rest \<and> ring_live r"

definition rx_inv :: "qrtr_gunyah_dev \<Rightarrow> byte list list \<Rightarrow> byte list \<Rightarrow> bool" where
  "rx_inv dev q rest \<longleftrightarrow> pipe_ok (rx_pipe dev) \<and> 32 \<le> pipe_length (rx_pipe dev)
     \<and> in_transit (ring dev) (contents (rx_pipe dev)) q rest"

lemma length_last_le: "q \<noteq> [] \<Longrightarrow> length (last q) \<le> length (concat q)"
  by (induction q) auto

lemma unsent_tl:
  assumes "unsent_ok (pk # q) rest" and "c @ rest = concat q"
  shows "unsent_ok q rest"
  using assms by (cases "q = []") (auto simp: unsent_ok_def)

text \<open>At the start of a packet the whole header is there.\<close>

lemma front_header:
  assumes "c @ rest = concat q" and "c \<noteq> []" and "unsent_ok q rest" and "list_all is_packet q"
  shows "\<exists>pk q'. q = pk # q' \<and> 32 \<le> length c \<and> take 32 c = take 32 pk"
proof -
  obtain pk q' where q: "q = pk # q'" using assms(1,2) by (cases q) auto
  have pk: "32 \<le> length pk" using assms(4) q by (simp add: is_packet_def)
  have len: "length c + length rest = length pk + length (concat q')"
    using arg_cong [OF assms(1), of length] q by simp
  have c: "32 \<le> length c"
  proof (cases "q' = []")
    case True
    then show ?thesis using assms(2,3) len pk q by (auto simp: unsent_ok_def)
  next
    case False
    then have "length rest \<le> length (concat q')"
      using assms(3) q length_last_le [OF False] by (auto simp: unsent_ok_def)
    then show ?thesis using len pk by simp
  qed
  have "take 32 c = take 32 (c @ rest)" using c by simp
  also have "\<dots> = take 32 pk" using assms(1) pk q by simp
  finally show ?thesis using q c by blast
qed

text \<open>Taking the next \<open>n\<close> bytes towards the packet at the front.\<close>

lemma take_towards:
  assumes s: "s @ c @ rest = pk @ concat q" and n: "n = min (length c) (length pk - length s)"
    and s': "length s \<le> length pk"
  shows "length s + n = length pk \<Longrightarrow> s @ take n c = pk \<and> drop n c @ rest = concat q"
    and "length s + n \<noteq> length pk \<Longrightarrow> n = length c"
proof -
  show "s @ take n c = pk \<and> drop n c @ rest = concat q" if "length s + n = length pk"
  proof -
    have "(s @ take n c) @ (drop n c @ rest) = pk @ concat q" using s by (metis append.assoc append_take_drop_id)
    then show ?thesis by (rule append_eq_append_conv [THEN iffD1, rotated]) (use that n in simp)
  qed
  show "n = length c" if "length s + n \<noteq> length pk"
    using that n s' by simp
qed

text \<open>The reassembly buffer after taking \<open>n\<close> bytes of a packet of which \<open>off\<close> were there.\<close>

lemma transit_complete:
  assumes "in_transit r c (pk # q) rest" and "n = min (length c) (length pk - ring_offset r)"
    and "ring_offset r + n = length pk"
  shows "take (ring_offset r) (ring_buf r) @ take n c = pk"
    and "ring_live r' \<Longrightarrow> ring_offset r' = 0 \<Longrightarrow> in_transit r' (drop n c) q rest"
proof -
  let ?s = "take (ring_offset r) (ring_buf r)"
  have i: "?s @ c @ rest = pk @ concat q" "list_all is_packet q" "unsent_ok (pk # q) rest" "ring_live r"
    using assms(1) by (auto simp: in_transit_def)
  have l: "length ?s = ring_offset r" using i(4) by (simp add: ring_live_def ring_fits_def)
  have t: "?s @ take n c = pk \<and> drop n c @ rest = concat q"
    by (rule take_towards(1) [OF i(1)]) (use l assms(2,3) in simp_all)
  then show "?s @ take n c = pk" by simp
  have "unsent_ok q rest" by (rule unsent_tl [OF i(3) t [THEN conjunct2]])
  then show "in_transit r' (drop n c) q rest" if "ring_live r'" "ring_offset r' = 0"
    using t that i(2) by (simp add: in_transit_def)
qed

lemma transit_partial:
  assumes "in_transit r c (pk # q) rest" and "n = min (length c) (length pk - ring_offset r)"
    and "ring_offset r + n \<noteq> length pk" and "ring_offset r \<le> length pk" and "0 < n"
  shows "n = length c"
    and "in_transit \<lparr>ring_buf = stored (ring_buf r) (ring_offset r) c, ring_len = length pk, ring_offset = ring_offset r + n\<rparr>
      [] (pk # q) rest"
proof -
  let ?s = "take (ring_offset r) (ring_buf r)"
  have i: "?s @ c @ rest = pk @ concat q" "list_all is_packet (pk # q)" "unsent_ok (pk # q) rest" "ring_live r"
    using assms(1) by (auto simp: in_transit_def)
  have b: "ring_offset r \<le> length (ring_buf r)" "length (ring_buf r) = MAX_PKT_SZ"
    using i(4) by (auto simp: ring_live_def ring_fits_def)
  show n: "n = length c" using take_towards(2) [OF i(1), of n] b assms(2-4) by simp
  have lt: "ring_offset r + length c < length pk" using assms(2,3,4) n by auto
  have "length pk \<le> MAX_PKT_SZ" using i(2) by (simp add: is_packet_def)
  then show "in_transit \<lparr>ring_buf = stored (ring_buf r) (ring_offset r) c, ring_len = length pk, ring_offset = ring_offset r + n\<rparr>
      [] (pk # q) rest"
    using take_stored [OF b(1), of c] i n lt b by (auto simp: in_transit_def ring_live_def ring_fits_def)
qed

lemma round_outcome:
  assumes ok: "pipe_ok (rx_pipe dev)" "32 \<le> pipe_length (rx_pipe dev)"
    and d0: "(if ring_offset (ring dev) \<noteq> 0 then qrtr_gunyah_read_frag quiet dev else qrtr_gunyah_read_new quiet stack dev) = Some d0"
    and n: "0 < n" "n \<le> length (contents (rx_pipe dev))" "rx_pipe d0 = gunyah_rx_advance (rx_pipe dev) n"
    and p: "posted d0 = posted dev @ take k q"
    and t: "in_transit (ring d0) (drop n (contents (rx_pipe dev))) (drop k q) rest"
  shows "\<exists>d k. gunyah_read_round quiet stack dev = Some d \<and> posted d = posted dev @ take k q \<and> rx_inv d (drop k q) rest
    \<and> length (contents (rx_pipe d)) < length (contents (rx_pipe dev)) \<and> pipe_length (rx_pipe d) = pipe_length (rx_pipe dev)"
proof -
  define d where "d = (if gunyah_get_read_notify d0 then d0\<lparr>rx_kicks := Suc (rx_kicks d0)\<rparr> else d0)"
  have d: "gunyah_read_round quiet stack dev = Some d" "posted d = posted d0" "ring d = ring d0" "rx_pipe d = rx_pipe d0"
    using d0 by (simp_all add: gunyah_read_round_def d_def)
  have a: "pipe_ok (rx_pipe d)" "contents (rx_pipe d) = drop n (contents (rx_pipe dev))"
    "pipe_length (rx_pipe d) = pipe_length (rx_pipe dev)"
    using gh.advance [OF ok(1) n(2)] n(3) d(4) by simp_all
  have "rx_inv d (drop k q) rest"
    using a ok(2) t d(3) by (simp add: rx_inv_def)
  moreover have "length (contents (rx_pipe d)) < length (contents (rx_pipe dev))"
    unfolding a(2) length_drop using n(1,2) by linarith
  ultimately show ?thesis using d(1,2) p a(3) by metis
qed

lemma round_transit:
  assumes inv: "rx_inv dev q rest" and c: "contents (rx_pipe dev) \<noteq> []" and st: "length stack = 32"
  shows "\<exists>d k. gunyah_read_round quiet stack dev = Some d \<and> posted d = posted dev @ take k q \<and> rx_inv d (drop k q) rest
    \<and> length (contents (rx_pipe d)) < length (contents (rx_pipe dev)) \<and> pipe_length (rx_pipe d) = pipe_length (rx_pipe dev)"
proof -
  let ?p = "rx_pipe dev" and ?r = "ring dev"
  have ok: "pipe_ok ?p" "32 \<le> pipe_length ?p" and t: "in_transit ?r (contents ?p) q rest" and live: "ring_live ?r"
    using inv by (auto simp: rx_inv_def in_transit_def)
  have f: "ring_fits ?r" using live by (simp add: ring_live_def)
  obtain pk q' where q: "q = pk # q'"
    using t c by (cases q) (auto simp: in_transit_def)
  note t' = t [unfolded q]
  have pk: "is_packet pk" using t' by (simp add: in_transit_def)
  define n where "n = min (length (contents ?p)) (length pk - ring_offset ?r)"
  have off: "ring_offset ?r < length pk"
    using live t' pk by (cases "ring_offset ?r = 0") (auto simp: in_transit_def ring_live_def is_packet_def)
  have n: "0 < n" "n \<le> length (contents ?p)" using c off by (auto simp: n_def contents_Nil)
  have fits: "length (stored (ring_buf ?r) (ring_offset ?r) (take n (contents ?p))) = MAX_PKT_SZ"
    using f pk n off by (intro ring_fits_stored) (auto simp: is_packet_def n_def)
  note out = round_outcome [OF ok _ n]
  show ?thesis
  proof (cases "ring_offset ?r = 0")
    case True
    have "contents ?p @ rest = concat q" using t True by (simp add: in_transit_def)
    then have h: "32 \<le> length (contents ?p)" "take 32 (contents ?p) = take 32 pk"
      using front_header [of "contents ?p" rest q] c t q by (auto simp: in_transit_def)
    have sz: "qrtr_peek_pkt_size (header_at ?p (pipe_tail ?p)) = int (length pk)"
      using take_contents [of 32 ?p] h pk by (simp add: header_at_def is_packet_def)
    have m: "min (pipe_used ?p) (length pk) = n" using True by (simp add: n_def)
    have sz': "\<not> (int (length pk) < 0 \<or> int (length pk) > int MAX_PKT_SZ)" using pk by (simp add: is_packet_def)
    note e = read_new_eq [OF ok f st sz, unfolded if_not_P [OF sz'] Let_def nat_int m]
    show ?thesis
    proof (cases "n = length pk")
      case full: True
      have pk': "take n (contents ?p) = pk" using transit_complete(1) [OF t' n_def] True full by simp
      have "in_transit (?r\<lparr>ring_buf := stored (ring_buf ?r) 0 (take n (contents ?p))\<rparr>) (drop n (contents ?p)) q' rest"
        using fits f True full by (intro transit_complete(2) [OF t' n_def]) (simp_all add: ring_live_def ring_fits_def)
      then show ?thesis
        by (intro out [where k = 1], simp add: True e full [symmetric]) (simp_all add: pk' q)
    next
      case False
      have all: "n = length (contents ?p)" using transit_partial(1) [OF t' n_def] True False off n(1) by simp
      show ?thesis
        using transit_partial(2) [OF t' n_def] True False off n(1) all
        by (intro out [where k = 0], simp add: e) (simp_all add: q)
    qed
  next
    case False
    have len: "ring_len ?r = length pk" using False t' by (simp add: in_transit_def)
    have m: "min (pipe_used ?p) (length pk - ring_offset ?r) = n" by (simp add: n_def)
    note e = read_frag_eq [OF ok(1) f, unfolded len m]
    show ?thesis
    proof (cases "ring_offset ?r + n = length pk")
      case full: True
      have "in_transit \<lparr>ring_buf = stored (ring_buf ?r) (ring_offset ?r) (take n (contents ?p)), ring_len = 0, ring_offset = 0\<rparr>
          (drop n (contents ?p)) q' rest"
        using fits by (intro transit_complete(2) [OF t' n_def full]) (simp_all add: ring_live_def ring_fits_def)
      then show ?thesis
        using transit_complete(1) [OF t' n_def full]
        by (intro out [where k = 1], simp add: False e full) (simp_all add: q)
    next
      case part: False
      have up: "?r\<lparr>ring_buf := b, ring_offset := j\<rparr> = \<lparr>ring_buf = b, ring_len = length pk, ring_offset = j\<rparr>" for b j
        using len by simp
      have all: "n = length (contents ?p)" using transit_partial(1) [OF t' n_def part] off n(1) by simp
      show ?thesis
        using transit_partial(2) [OF t' n_def part] part off n(1) all
        by (intro out [where k = 0], simp add: False e up) (simp_all add: q up)
    qed
  qed
qed

lemma read_transit:
  assumes "rx_inv dev q rest" and "length stack = 32"
  shows "\<exists>d k. qrtr_gunyah_read stack dev = Some d \<and> posted d = posted dev @ take k q \<and> rx_inv d (drop k q) rest
    \<and> contents (rx_pipe d) = [] \<and> pipe_length (rx_pipe d) = pipe_length (rx_pipe dev)"
  using assms(1)
proof (induction "length (contents (rx_pipe dev))" arbitrary: dev q rule: less_induct)
  case less
  have ok: "pipe_ok (rx_pipe dev)" using less.prems by (simp add: rx_inv_def)
  show ?case
  proof (cases "contents (rx_pipe dev) = []")
    case True
    then have "qrtr_gunyah_read stack dev = Some dev"
      using gh.empty_iff [OF ok] by (intro read_returns_if) simp
    then show ?thesis using less.prems True by (intro exI [of _ dev] exI [of _ 0]) simp
  next
    case False
    obtain d k where d: "gunyah_read_round quiet stack dev = Some d" "posted d = posted dev @ take k q"
      "rx_inv d (drop k q) rest" "length (contents (rx_pipe d)) < length (contents (rx_pipe dev))"
      "pipe_length (rx_pipe d) = pipe_length (rx_pipe dev)"
      using round_transit [OF less.prems False assms(2)] by blast
    obtain d' k' where d': "qrtr_gunyah_read stack d = Some d'" "posted d' = posted d @ take k' (drop k q)"
      "rx_inv d' (drop k' (drop k q)) rest" "contents (rx_pipe d') = []" "pipe_length (rx_pipe d') = pipe_length (rx_pipe d)"
      using less.hyps [OF d(4,3)] by blast
    have "qrtr_gunyah_read stack dev = Some d'"
      using read_round_then [OF _ d(1)] d'(1) gh.empty_iff [OF ok] False by simp
    moreover have "posted d' = posted dev @ take (k + k') q" using d(2) d'(2) by (simp add: take_add)
    moreover have "rx_inv d' (drop (k + k') q) rest" using d'(3) by (simp add: add.commute)
    ultimately show ?thesis using d'(4,5) d(5) by metis
  qed
qed

text \<open>
  The two ends together: the receiver handles a doorbell at once when \<open>sched\<close> says so for the number of
  doorbells rung before, and otherwise not; it works on the pipe the sender writes.
\<close>

definition deliver ::
  "(nat \<Rightarrow> bool) \<Rightarrow> byte list \<Rightarrow> nat \<times> qrtr_gunyah_dev \<Rightarrow> fifo_pipe \<Rightarrow> ((nat \<times> qrtr_gunyah_dev) \<times> fifo_pipe) option" where
  "deliver sched stack b p =
     (if sched (fst b) then do {
        r \<leftarrow> qrtr_gunyah_read stack ((snd b)\<lparr>rx_pipe := p\<rparr>);
        Some ((Suc (fst b), r), rx_pipe r) }
      else Some ((Suc (fst b), snd b), p))"

definition link_env :: "(nat \<Rightarrow> bool) \<Rightarrow> byte list \<Rightarrow> (nat \<times> qrtr_gunyah_dev) gunyah_env" where
  "link_env sched stack =
     \<lparr>gh_dbl_send = (\<lambda>b p. map_option (\<lambda>(b', p'). (0, b', p')) (deliver sched stack b p)),
      peer_wait = deliver sched stack\<rparr>"

text \<open>The state of the link: the packets in transit, and the part of the last one not written yet.\<close>

definition link_inv :: "qrtr_gunyah_dev \<Rightarrow> nat \<times> qrtr_gunyah_dev \<Rightarrow> byte list list \<Rightarrow> byte list \<Rightarrow> bool" where
  "link_inv dev b q rest \<longleftrightarrow> rx_inv ((snd b)\<lparr>rx_pipe := tx_pipe dev\<rparr>) q rest"

lemma deliver_transit:
  assumes "rx_inv ((snd b)\<lparr>rx_pipe := p\<rparr>) q rest" and "length stack = 32"
  shows "\<exists>b' p' k. deliver sched stack b p = Some (b', p') \<and> posted (snd b') = posted (snd b) @ take k q
    \<and> rx_inv ((snd b')\<lparr>rx_pipe := p'\<rparr>) (drop k q) rest \<and> pipe_length p' = pipe_length p"
proof (cases "sched (fst b)")
  case True
  obtain d k where "qrtr_gunyah_read stack ((snd b)\<lparr>rx_pipe := p\<rparr>) = Some d" "posted d = posted (snd b) @ take k q"
    "rx_inv d (drop k q) rest" "pipe_length (rx_pipe d) = pipe_length p"
    using read_transit [OF assms] by auto
  then show ?thesis using True by (auto simp: deliver_def)
next
  case False
  then show ?thesis using assms(1) by (intro exI [of _ "(Suc (fst b), snd b)"] exI [of _ p] exI [of _ 0]) (simp add: deliver_def)
qed

lemma kick_transit:
  assumes "link_inv dev b q rest" and "length stack = 32"
  shows "\<exists>b' dev' k. qrtr_gunyah_kick (link_env sched stack) b dev = Some (b', dev') \<and> posted (snd b') = posted (snd b) @ take k q
    \<and> link_inv dev' b' (drop k q) rest"
proof -
  obtain b' p k where d: "deliver sched stack b (tx_pipe dev) = Some (b', p)" "posted (snd b') = posted (snd b) @ take k q"
    "rx_inv ((snd b')\<lparr>rx_pipe := p\<rparr>) (drop k q) rest"
    using deliver_transit [OF assms(1) [unfolded link_inv_def] assms(2)] by blast
  have "qrtr_gunyah_kick (link_env sched stack) b dev = Some (b', dev\<lparr>tx_pipe := p, work := work dev\<rparr>)"
    using d(1) by (simp add: qrtr_gunyah_kick_def link_env_def)
  then show ?thesis using d(2,3) unfolding link_inv_def by (intro exI conjI) (assumption, assumption, simp)
qed

lemma rx_inv_notify [simp]: "rx_inv (d\<lparr>rx_pipe := p\<lparr>pipe_read_notify := k\<rparr>\<rparr>) q rest = rx_inv (d\<lparr>rx_pipe := p\<rparr>) q rest"
  by (simp add: rx_inv_def pipe_ok_def contents_def pipe_used_def)

lemma wait_transit:
  assumes "link_inv dev b q rest" and "length stack = 32"
  shows "\<exists>ret b' dev' k. gunyah_wait_for_tx_avail (link_env sched stack) b dev = Some (ret, b', dev')
    \<and> posted (snd b') = posted (snd b) @ take k q \<and> link_inv dev' b' (drop k q) rest"
proof -
  have "link_inv (gunyah_set_tx_notify dev) b q rest" using assms(1) by (simp add: link_inv_def gunyah_set_tx_notify_def)
  then obtain b1 dev1 k where k: "qrtr_gunyah_kick (link_env sched stack) b (gunyah_set_tx_notify dev) = Some (b1, dev1)"
    "posted (snd b1) = posted (snd b) @ take k q" "link_inv dev1 b1 (drop k q) rest"
    using kick_transit [OF _ assms(2)] by blast
  obtain b2 p j where j: "deliver sched stack b1 (tx_pipe dev1) = Some (b2, p)"
    "posted (snd b2) = posted (snd b1) @ take j (drop k q)" "rx_inv ((snd b2)\<lparr>rx_pipe := p\<rparr>) (drop j (drop k q)) rest"
    using deliver_transit [OF k(3) [unfolded link_inv_def] assms(2)] by blast
  have "gunyah_wait_for_tx_avail (link_env sched stack) b dev = Some (gunyah_tx_avail p \<noteq> 0, b2, dev1\<lparr>tx_pipe := p\<rparr>)"
    using k(1) j(1) by (simp add: gunyah_wait_for_tx_avail_def link_env_def)
  moreover have "posted (snd b2) = posted (snd b) @ take (k + j) q" using k(2) j(2) by (simp add: take_add)
  moreover have "link_inv (dev1\<lparr>tx_pipe := p\<rparr>) b2 (drop (k + j) q) rest" using j(3) by (simp add: link_inv_def add.commute)
  ultimately show ?thesis by metis
qed

lemma unsent_more:
  assumes "unsent_ok q rest" and "rest \<noteq> []" and "last q = pkt" and "32 \<le> n \<or> rest \<noteq> pkt"
  shows "unsent_ok q (drop n rest)"
  using assms by (auto simp: unsent_ok_def)

text \<open>Writing the next chunk of the packet keeps the order of the bytes.\<close>

lemma chunk_transit:
  assumes inv: "link_inv dev b q rest" and n: "n \<le> gunyah_tx_avail (tx_pipe dev)" "n \<le> length rest"
    and u: "unsent_ok q (drop n rest)"
  shows "\<exists>p. gunyah_tx_write (tx_pipe dev) (take n rest) = Some p \<and> link_inv (dev\<lparr>tx_pipe := p\<rparr>) b q (drop n rest)"
proof -
  have ok: "pipe_ok (tx_pipe dev)" using inv by (simp add: link_inv_def rx_inv_def)
  obtain p where p: "gunyah_tx_write (tx_pipe dev) (take n rest) = Some p" "pipe_ok p"
    "contents p = contents (tx_pipe dev) @ take n rest" "pipe_length p = pipe_length (tx_pipe dev)"
    using gunyah_tx_write_ok [OF ok, of "take n rest"] n by auto
  then show ?thesis using inv u by (auto simp: link_inv_def rx_inv_def in_transit_def)
qed

definition sent_by :: "nat \<times> qrtr_gunyah_dev \<Rightarrow> byte list list \<Rightarrow> qrtr_gunyah_dev \<Rightarrow> nat \<times> qrtr_gunyah_dev \<Rightarrow> byte list \<Rightarrow> bool" where
  "sent_by b q dev' b' rest \<longleftrightarrow> (\<exists>k. posted (snd b') = posted (snd b) @ take k q \<and> link_inv dev' b' (drop k q) rest)"

lemma sent_by_trans:
  assumes "posted (snd b1) = posted (snd b) @ take k q" and "sent_by b1 (drop k q) dev' b' rest"
  shows "sent_by b q dev' b' rest"
proof -
  obtain j where j: "posted (snd b') = posted (snd b1) @ take j (drop k q)" "link_inv dev' b' (drop j (drop k q)) rest"
    using assms(2) by (auto simp: sent_by_def)
  have "posted (snd b') = posted (snd b) @ take (k + j) q" using assms(1) j(1) by (simp add: take_add)
  moreover have "link_inv dev' b' (drop (k + j) q) rest" using j(2) by (simp add: add.commute)
  ultimately show ?thesis unfolding sent_by_def by blast
qed

lemma last_in_transit: "link_inv dev b (drop k q) rest \<Longrightarrow> rest \<noteq> [] \<Longrightarrow> last q = pkt \<Longrightarrow> last (drop k q) = pkt"
  by (auto simp: link_inv_def rx_inv_def in_transit_def unsent_ok_def)

lemma write_chunk_transit:
  assumes pkt: "skb_ok skb" "skb_bytes skb = pkt" "is_packet pkt" and inv: "link_inv dev b q (drop off pkt)"
    and lq: "last q = pkt" and hdr: "off = 0 \<longrightarrow> 32 \<le> gunyah_tx_avail (tx_pipe dev)"
    and n: "n = min (gunyah_tx_avail (tx_pipe dev)) (length pkt - off)" "0 < n"
  shows "\<exists>p. gunyah_write_chunk skb off n (tx_pipe dev) = Some p \<and> link_inv (dev\<lparr>tx_pipe := p\<rparr>) b q (drop (off + n) pkt)
    \<and> pipe_length p = pipe_length (tx_pipe dev)"
proof -
  let ?rest = "drop off pkt"
  have le: "n \<le> gunyah_tx_avail (tx_pipe dev)" "n \<le> length ?rest" "off + n \<le> length pkt" "?rest \<noteq> []"
    using n by auto
  have ok: "pipe_ok (tx_pipe dev)" and u: "unsent_ok q ?rest"
    using inv by (auto simp: link_inv_def rx_inv_def in_transit_def)
  have "32 \<le> n \<or> ?rest \<noteq> pkt"
    using hdr pkt(3) n by (cases "off = 0") (auto simp: is_packet_def dest: arg_cong [of _ _ length])
  then have u': "unsent_ok q (drop n ?rest)" by (rule unsent_more [OF u le(4) lq])
  obtain p where p: "gunyah_tx_write (tx_pipe dev) (take n ?rest) = Some p"
    "link_inv (dev\<lparr>tx_pipe := p\<rparr>) b q (drop n ?rest)"
    using chunk_transit [OF inv le(1,2) u'] by blast
  have "pipe_length p = pipe_length (tx_pipe dev)"
    using gunyah_tx_write_ok [OF ok, of "take n ?rest"] le p(1) by auto
  moreover have "gunyah_write_chunk skb off n (tx_pipe dev) = Some p"
    using gunyah_write_chunk_eq [OF ok pkt(1), of off n] p(1) le pkt(2) by simp
  ultimately show ?thesis using p(2) by (simp add: add.commute)
qed

lemma send_loop_transit:
  assumes st: "length stack = 32" and pkt: "skb_ok skb" "skb_bytes skb = pkt" "is_packet pkt" and rc: "0 \<le> rc"
  shows "link_inv dev b q (drop off pkt) \<Longrightarrow> left = length pkt - off \<Longrightarrow> (drop off pkt \<noteq> [] \<longrightarrow> last q = pkt) \<Longrightarrow>
    (off = 0 \<longrightarrow> 32 \<le> gunyah_tx_avail (tx_pipe dev)) \<Longrightarrow>
    gunyah_send_loop (link_env sched stack) skb off left b dev = Some (rc, b', dev') \<Longrightarrow> sent_by b q dev' b' []"
proof (induction left arbitrary: off b dev q rule: less_induct)
  case (less left)
  let ?rest = "drop off pkt" and ?env = "link_env sched stack"
  have chunk: "sent_by b q dev' b' []"
    if inv: "link_inv dev b q ?rest" and lq: "last q = pkt" and left: "left \<noteq> 0"
      and hdr: "off = 0 \<longrightarrow> 32 \<le> gunyah_tx_avail (tx_pipe dev)" and av: "gunyah_tx_avail (tx_pipe dev) \<noteq> 0"
      and s: "gunyah_send_loop ?env skb off left b dev = Some (rc, b', dev')" for b dev q
  proof -
    define n where "n = min (gunyah_tx_avail (tx_pipe dev)) left"
    have n: "0 < n" "left - n < left" "left - n = length pkt - (off + n)" "n = min (gunyah_tx_avail (tx_pipe dev)) (length pkt - off)"
      using av left less.prems(2) by (auto simp: n_def)
    obtain p where w: "gunyah_write_chunk skb off n (tx_pipe dev) = Some p"
      "link_inv (dev\<lparr>tx_pipe := p\<rparr>) b q (drop (off + n) pkt)"
      using write_chunk_transit [OF pkt inv lq hdr n(4,1)] by blast
    obtain b1 dev1 k where k: "qrtr_gunyah_kick ?env b (dev\<lparr>tx_pipe := p\<rparr>) = Some (b1, dev1)"
      "posted (snd b1) = posted (snd b) @ take k q" "link_inv dev1 b1 (drop k q) (drop (off + n) pkt)"
      using kick_transit [OF w(2) st] by blast
    have s': "gunyah_send_loop ?env skb (off + n) (left - n) b1 dev1 = Some (rc, b', dev')"
      using s left av w(1) k(1) rc by (simp add: gunyah_send_loop.simps [of ?env skb off left b dev] Let_def n_def split: if_splits)
    have "sent_by b1 (drop k q) dev' b' []"
      using k(3) last_in_transit [OF k(3) _ lq] n(1) s' by (intro less.IH [OF n(2) _ n(3)]) auto
    then show ?thesis by (rule sent_by_trans [OF k(2)])
  qed
  show ?case
  proof (cases "left = 0")
    case True
    then show ?thesis
      using less.prems(1,2,5) unfolding sent_by_def by (intro exI [of _ 0]) (simp add: gunyah_send_loop.simps)
  next
    case False
    then have lq: "last q = pkt" and ne: "?rest \<noteq> []" using less.prems(2,3) by auto
    show ?thesis
    proof (cases "gunyah_tx_avail (tx_pipe dev) = 0")
      case True
      obtain ret b1 dev1 k where w: "gunyah_wait_for_tx_avail ?env b dev = Some (ret, b1, dev1)"
        "posted (snd b1) = posted (snd b) @ take k q" "link_inv dev1 b1 (drop k q) ?rest"
        using wait_transit [OF less.prems(1) st] by blast
      have "gunyah_send_loop ?env skb off left b1 dev1 = Some (rc, b', dev')" "gunyah_tx_avail (tx_pipe dev1) \<noteq> 0"
        using less.prems(5) False True w(1) rc
        by (auto simp: gunyah_send_loop.simps [of ?env skb off left b dev] gunyah_wait_for_tx_avail_def bind_eq_Some_conv
            split: if_splits)
      then have "sent_by b1 (drop k q) dev' b' []"
        using chunk [OF w(3) last_in_transit [OF w(3) ne lq] False] less.prems(4) True by simp
      then show ?thesis by (rule sent_by_trans [OF w(2)])
    next
      case avail: False
      show ?thesis using chunk [OF less.prems(1) lq False less.prems(4) avail less.prems(5)] .
    qed
  qed
qed

text \<open>With a receiver that handles every doorbell at once, sending never waits.\<close>

lemma deliver_prompt:
  assumes "rx_inv ((snd b)\<lparr>rx_pipe := p\<rparr>) q rest" and "length stack = 32"
  shows "\<exists>b' p' k. deliver (\<lambda>_. True) stack b p = Some (b', p') \<and> posted (snd b') = posted (snd b) @ take k q
    \<and> rx_inv ((snd b')\<lparr>rx_pipe := p'\<rparr>) (drop k q) rest \<and> contents p' = [] \<and> pipe_length p' = pipe_length p"
proof -
  obtain d k where "qrtr_gunyah_read stack ((snd b)\<lparr>rx_pipe := p\<rparr>) = Some d" "posted d = posted (snd b) @ take k q"
    "rx_inv d (drop k q) rest" "contents (rx_pipe d) = []" "pipe_length (rx_pipe d) = pipe_length p"
    using read_transit [OF assms] by auto
  then show ?thesis by (auto simp: deliver_def)
qed

lemma kick_prompt:
  assumes "link_inv dev b q rest" and "length stack = 32"
  shows "\<exists>b' dev' k. qrtr_gunyah_kick (link_env (\<lambda>_. True) stack) b dev = Some (b', dev') \<and> link_inv dev' b' (drop k q) rest
    \<and> contents (tx_pipe dev') = [] \<and> pipe_length (tx_pipe dev') = pipe_length (tx_pipe dev)"
proof -
  obtain b' p k where d: "deliver (\<lambda>_. True) stack b (tx_pipe dev) = Some (b', p)"
    "rx_inv ((snd b')\<lparr>rx_pipe := p\<rparr>) (drop k q) rest" "contents p = []" "pipe_length p = pipe_length (tx_pipe dev)"
    using deliver_prompt [OF assms(1) [unfolded link_inv_def] assms(2)] by blast
  have "qrtr_gunyah_kick (link_env (\<lambda>_. True) stack) b dev = Some (b', dev\<lparr>tx_pipe := p, work := work dev\<rparr>)"
    using d(1) by (simp add: qrtr_gunyah_kick_def link_env_def)
  then show ?thesis using d(2-4) unfolding link_inv_def by (intro exI conjI) (assumption, simp_all)
qed

lemma send_loop_prompt:
  assumes st: "length stack = 32" and pkt: "skb_ok skb" "skb_bytes skb = pkt" "is_packet pkt"
    and sg: "\<not> (skb_nonlinear skb \<and> skb_to_sgvec skb < 0)"
  shows "link_inv dev b q (drop off pkt) \<Longrightarrow> left = length pkt - off \<Longrightarrow> (drop off pkt \<noteq> [] \<longrightarrow> last q = pkt) \<Longrightarrow>
    (off = 0 \<longrightarrow> 32 \<le> gunyah_tx_avail (tx_pipe dev)) \<Longrightarrow> gunyah_tx_avail (tx_pipe dev) \<noteq> 0 \<Longrightarrow>
    \<exists>b' dev'. gunyah_send_loop (link_env (\<lambda>_. True) stack) skb off left b dev = Some (0, b', dev')
      \<and> (left \<noteq> 0 \<longrightarrow> contents (tx_pipe dev') = []) \<and> pipe_length (tx_pipe dev') = pipe_length (tx_pipe dev)"
proof (induction left arbitrary: off b dev q rule: less_induct)
  case (less left)
  let ?rest = "drop off pkt" and ?env = "link_env (\<lambda>_. True) stack"
  show ?case
  proof (cases "left = 0")
    case True
    then show ?thesis by (simp add: gunyah_send_loop.simps)
  next
    case left: False
    then have lq: "last q = pkt" using less.prems(2,3) by auto
    define n where "n = min (gunyah_tx_avail (tx_pipe dev)) left"
    have n: "0 < n" "left - n < left" "left - n = length pkt - (off + n)" "n = min (gunyah_tx_avail (tx_pipe dev)) (length pkt - off)"
      using less.prems(2,5) left by (auto simp: n_def)
    obtain p where w: "gunyah_write_chunk skb off n (tx_pipe dev) = Some p"
      "link_inv (dev\<lparr>tx_pipe := p\<rparr>) b q (drop (off + n) pkt)" "pipe_length p = pipe_length (tx_pipe dev)"
      using write_chunk_transit [OF pkt less.prems(1) lq less.prems(4) n(4,1)] by blast
    obtain b1 dev1 k where k: "qrtr_gunyah_kick ?env b (dev\<lparr>tx_pipe := p\<rparr>) = Some (b1, dev1)"
      "link_inv dev1 b1 (drop k q) (drop (off + n) pkt)" "contents (tx_pipe dev1) = []" "pipe_length (tx_pipe dev1) = pipe_length p"
      using kick_prompt [OF w(2) st] by auto
    have ok1: "pipe_ok (tx_pipe dev1)" using k(2) by (simp add: link_inv_def rx_inv_def)
    have av: "gunyah_tx_avail (tx_pipe dev1) \<noteq> 0" using gh.drained_has_room [OF ok1 k(3)] by simp
    obtain b' dev' where r: "gunyah_send_loop ?env skb (off + n) (left - n) b1 dev1 = Some (0, b', dev')"
      "left - n \<noteq> 0 \<longrightarrow> contents (tx_pipe dev') = []" "pipe_length (tx_pipe dev') = pipe_length (tx_pipe dev1)"
      using less.IH [OF n(2) _ n(3), of dev1 b1 "drop k q"] k(2) last_in_transit [OF k(2) _ lq] n(1) av by auto
    have "gunyah_send_loop ?env skb off left b dev = Some (0, b', dev')"
      using left less.prems(5) sg w(1) k(1) r(1)
      by (simp add: gunyah_send_loop.simps [of ?env skb off left b dev] Let_def n_def)
    moreover have "contents (tx_pipe dev') = []"
      using r(1,2) k(3) by (cases "left - n = 0") (simp_all add: gunyah_send_loop.simps)
    ultimately show ?thesis using r(3) k(4) w(3) by auto
  qed
qed

text \<open>
  The runs of a link: packets are sent, each when there is room for at least its header, and the receiver
  runs during and between the sends as it likes. The last argument lists the packets sent.
\<close>

inductive link_run ::
  "byte list \<Rightarrow> qrtr_gunyah_dev \<Rightarrow> nat \<times> qrtr_gunyah_dev \<Rightarrow> byte list list \<Rightarrow> bool" for stack where
  start: "pipe_ok (tx_pipe dev) \<Longrightarrow> 32 \<le> pipe_length (tx_pipe dev) \<Longrightarrow> contents (tx_pipe dev) = [] \<Longrightarrow>
    ring_live (ring (snd b)) \<Longrightarrow> ring_offset (ring (snd b)) = 0 \<Longrightarrow> posted (snd b) = [] \<Longrightarrow> link_run stack dev b []"
| send: "link_run stack dev b sent \<Longrightarrow> is_packet (skb_bytes skb) \<Longrightarrow> skb_ok skb \<Longrightarrow>
    32 \<le> gunyah_tx_avail (tx_pipe dev) \<Longrightarrow> qrtr_gunyah_send (link_env sched stack) skb b dev = Some (0, b', dev') \<Longrightarrow>
    link_run stack dev' b' (sent @ [skb_bytes skb])"
| recv: "link_run stack dev b sent \<Longrightarrow> deliver (\<lambda>_. True) stack b (tx_pipe dev) = Some (b', p) \<Longrightarrow>
    link_run stack (dev\<lparr>tx_pipe := p\<rparr>) b' sent"

lemma link_inv_notify [simp]: "link_inv (gunyah_clr_tx_notify dev) b q rest = link_inv dev b q rest"
  by (simp add: link_inv_def gunyah_clr_tx_notify_def)

lemma link_inv_snoc:
  assumes "link_inv dev b q []" and "is_packet pkt"
  shows "link_inv dev b (q @ [pkt]) pkt"
  using assms by (auto simp: link_inv_def rx_inv_def in_transit_def unsent_ok_def)

lemma link_run_inv:
  assumes "link_run stack dev b sent" and st: "length stack = 32"
  shows "\<exists>q. posted (snd b) @ q = sent \<and> link_inv dev b q []"
  using assms(1)
proof induction
  case (start dev b)
  then show ?case by (auto simp: link_inv_def rx_inv_def in_transit_def unsent_ok_def)
next
  case (send dev b sent skb sched b' dev')
  let ?pkt = "skb_bytes skb"
  obtain q where q: "posted (snd b) @ q = sent" "link_inv dev b q []" using send.IH by blast
  obtain rc dev1 where s: "gunyah_send_loop (link_env sched stack) skb 0 (length ?pkt) b dev = Some (rc, b', dev1)"
    "0 \<le> rc" "dev' = gunyah_clr_tx_notify dev1"
    using send.hyps(5) by (auto simp: qrtr_gunyah_send_def bind_eq_Some_conv split: if_splits)
  have "sent_by b (q @ [?pkt]) dev1 b' []"
    using send_loop_transit [OF st send.hyps(3) refl send.hyps(2) s(2), of dev b "q @ [?pkt]" 0 "length ?pkt" sched b' dev1]
      link_inv_snoc [OF q(2) send.hyps(2)] send.hyps(4) s(1) by simp
  then obtain k where k: "posted (snd b') = posted (snd b) @ take k (q @ [?pkt])" "link_inv dev1 b' (drop k (q @ [?pkt])) []"
    by (auto simp: sent_by_def)
  have "posted (snd b') @ drop k (q @ [?pkt]) = sent @ [?pkt]"
    unfolding k(1) q(1) [symmetric] append.assoc append_take_drop_id by (rule refl)
  then show ?case using k(2) s(3) by auto
next
  case (recv dev b sent b' p)
  then obtain q where q: "posted (snd b) @ q = sent" "link_inv dev b q []" by blast
  obtain k where k: "posted (snd b') = posted (snd b) @ take k q" "rx_inv ((snd b')\<lparr>rx_pipe := p\<rparr>) (drop k q) []"
    using deliver_prompt [OF q(2) [unfolded link_inv_def] st] recv.hyps(2) by auto
  have "posted (snd b') @ drop k q = sent"
    unfolding k(1) q(1) [symmetric] append.assoc append_take_drop_id by (rule refl)
  then show ?case using k(2) by (auto simp: link_inv_def)
qed

lemma drained_all:
  assumes "rx_inv d q []" and "contents (rx_pipe d) = []"
  shows "q = []"
proof (rule ccontr)
  assume "q \<noteq> []"
  then obtain pk q' where q: "q = pk # q'" by (cases q) auto
  have t: "take (ring_offset (ring d)) (ring_buf (ring d)) = pk @ concat q'" "is_packet pk"
    "ring_offset (ring d) \<noteq> 0 \<longrightarrow> ring_len (ring d) = length pk" "ring_live (ring d)"
    using assms q by (auto simp: rx_inv_def in_transit_def)
  have "length pk \<le> ring_offset (ring d)" using arg_cong [OF t(1), of length] by simp
  then show False using t(2-4) by (auto simp: is_packet_def ring_live_def)
qed

lemma deliver_all:
  assumes "link_inv dev b q []" and "length stack = 32"
  shows "\<exists>b' p. deliver (\<lambda>_. True) stack b (tx_pipe dev) = Some (b', p) \<and> posted (snd b') = posted (snd b) @ q \<and> contents p = []"
proof -
  obtain b' p k where d: "deliver (\<lambda>_. True) stack b (tx_pipe dev) = Some (b', p)" "posted (snd b') = posted (snd b) @ take k q"
    "rx_inv ((snd b')\<lparr>rx_pipe := p\<rparr>) (drop k q) []" "contents p = []"
    using deliver_prompt [OF assms(1) [unfolded link_inv_def] assms(2)] by auto
  have "drop k q = []" using drained_all [OF d(3)] d(4) by simp
  then have "take k q = q" by simp
  then show ?thesis using d by metis
qed

text \<open>A packet sent with room for its header, to a receiver that answers every doorbell, is sent whole.\<close>

lemma prompt_send_returns:
  assumes "link_run stack dev b sent" and st: "length stack = 32" and pkt: "is_packet (skb_bytes skb)" "skb_ok skb"
    and "\<not> (skb_nonlinear skb \<and> skb_to_sgvec skb < 0)" and av: "32 \<le> gunyah_tx_avail (tx_pipe dev)"
  shows "\<exists>b' dev'. qrtr_gunyah_send (link_env (\<lambda>_. True) stack) skb b dev = Some (0, b', dev')"
proof -
  obtain q where "link_inv dev b q []" using link_run_inv [OF assms(1) st] by blast
  from link_inv_snoc [OF this pkt(1)] show ?thesis
    using send_loop_prompt [OF st pkt(2) refl pkt(1) assms(5), of dev b "q @ [skb_bytes skb]" 0] av
    by (fastforce simp: qrtr_gunyah_send_def)
qed

lemma link_carries:
  assumes "link_run stack dev b sent" and st: "length stack = 32" and pkt: "is_packet (skb_bytes skb)" "skb_ok skb"
    and "\<not> (skb_nonlinear skb \<and> skb_to_sgvec skb < 0)" and av: "32 \<le> gunyah_tx_avail (tx_pipe dev)"
  shows "\<exists>b1 dev1 b2 p. qrtr_gunyah_send (link_env (\<lambda>_. True) stack) skb b dev = Some (0, b1, dev1)
    \<and> deliver (\<lambda>_. True) stack b1 (tx_pipe dev1) = Some (b2, p) \<and> posted (snd b2) = sent @ [skb_bytes skb]"
proof -
  obtain b1 dev1 where s: "qrtr_gunyah_send (link_env (\<lambda>_. True) stack) skb b dev = Some (0, b1, dev1)"
    using prompt_send_returns [OF assms] by blast
  then have "link_run stack dev1 b1 (sent @ [skb_bytes skb])" using link_run.send [OF assms(1) pkt av] by blast
  then show ?thesis using s link_run_inv [OF _ st] deliver_all [OF _ st] by metis
qed

text \<open>
  C3 (refinement). A link is a queue of packets: in every run in which no header is split, whatever the sizes
  of the packets, the chunks they are written in and the moments the receiver runs, the handler
  returns with the FIFO empty and the packets posted are exactly the packets sent, in order.
\<close>

theorem gunyah_link_delivers:
  assumes "link_run stack dev b sent" and "length stack = 32"
  shows "\<exists>b' p. deliver (\<lambda>_. True) stack b (tx_pipe dev) = Some (b', p) \<and> posted (snd b') = sent \<and> contents p = []"
  using link_run_inv [OF assms] deliver_all [OF _ assms(2)] by metis

text \<open>The packets the router builds are packets of the link.\<close>

lemma node_packet_is_packet:
  assumes "hdr_v1_ok h" and "v1_version h = 1" and "v1_size h = length payload" and "length payload \<le> 65535"
  shows "is_packet (node_packet h payload)"
proof -
  have t: "take 32 (node_packet h payload) = hdr_v1_bytes h" by (simp add: node_packet_def)
  have h: "hdr_v1_of (hdr_v1_bytes h) = h" using hdr_v1_of_bytes [OF assms(1), of "[]"] by simp
  have v: "unat (hdr_v1_bytes h ! 0) = 1" using assms(2) hdr_v1_bytes_0 [of h] by simp
  have a: "align4 (length payload) \<le> 65536" using assms(4) by (simp add: align4_def)
  show ?thesis
    using a assms(3,4) by (simp add: is_packet_def t qrtr_peek_pkt_size_def h v length_node_packet align4_32_id width_simps)
qed

lemma example_link: "link_run stack (example_dev 0 0) (0, example_dev 0 0) []"
  by (rule link_run.start)
     (simp_all add: example_dev_def Let_def pipe_ok_def contents_def pipe_used_def ring_live_def ring_fits_def)

lemma example_tx_avail: "gunyah_tx_avail (tx_pipe (example_dev 0 0)) = 56"
  by (simp add: example_dev_def Let_def gunyah_tx_avail_def u64_sub_def u64_def u32_def)

theorem gunyah_link_delivers_witness:
  "let pkt = node_packet \<lparr>v1_version = 1, v1_type = 1, v1_src_node_id = 1, v1_src_port_id = 16384, v1_confirm_rx = 0,
         v1_size = 100, v1_dst_node_id = 5, v1_dst_port_id = 20\<rparr> (replicate 100 7);
       stack = replicate 32 0 in
   \<exists>dev b. link_run stack dev b [pkt]
     \<and> (\<exists>b' p. deliver (\<lambda>_. True) stack b (tx_pipe dev) = Some (b', p) \<and> posted (snd b') = [pkt] \<and> contents p = [])"
proof -
  define pkt where "pkt = node_packet \<lparr>v1_version = 1, v1_type = 1, v1_src_node_id = 1, v1_src_port_id = 16384, v1_confirm_rx = 0,
         v1_size = 100, v1_dst_node_id = 5, v1_dst_port_id = 20\<rparr> (replicate 100 7)"
  define stack :: "byte list" where "stack = replicate 32 0"
  let ?d = "example_dev 0 0" and ?skb = "\<lparr>skb_nonlinear = True, skb_bytes = pkt, skb_sg = (\<lambda>n. Some [take 50 (drop n pkt), drop 50 (drop n pkt)]),
    skb_to_sgvec = 2\<rparr>"
  have pkt: "is_packet pkt" unfolding pkt_def by (rule node_packet_is_packet) (simp_all add: hdr_v1_ok_def)
  have skb: "skb_ok ?skb" by (simp add: skb_ok_def sg_ok_def del: drop_drop)
  have st: "length stack = 32" by (simp add: stack_def)
  have r0: "link_run stack ?d (0, ?d) []" by (rule example_link)
  have av: "gunyah_tx_avail (tx_pipe ?d) = 56" by (rule example_tx_avail)
  obtain b' dev' where "qrtr_gunyah_send (link_env (\<lambda>_. True) stack) ?skb (0, ?d) ?d = Some (0, b', dev')"
    using prompt_send_returns [OF r0 st, of ?skb] pkt skb av by auto
  then have run: "link_run stack dev' b' [pkt]"
    using link_run.send [OF r0, of ?skb] pkt skb av by simp
  show ?thesis
    unfolding Let_def pkt_def [symmetric] stack_def [symmetric]
    using run gunyah_link_delivers [OF run st] by blast
qed

section \<open>Where the framing breaks\<close>

text \<open>
  C35 (error). When the FIFO has room for only a part of the first 20 bytes of a packet, the sender writes that
  part and rings the doorbell; the handler then takes the size of the packet from the stale bytes behind it
  and waits for a packet of that length.
\<close>

theorem gunyah_split_header_takes_stale_size:
  assumes ok: "pipe_ok (rx_pipe dev)" "32 \<le> pipe_length (rx_pipe dev)" and r: "ring_live (ring dev)" "ring_offset (ring dev) = 0"
    and st: "length stack = 32"
    and pkt: "contents (rx_pipe dev) = take n pkt" "0 < n" "n \<le> 20" "n \<le> length pkt" "pkt ! 0 = 1"
    and sz: "le32_at (header_at (rx_pipe dev) (pipe_tail (rx_pipe dev))) 20 = sz" "sz \<le> 65535"
  shows "\<exists>d. qrtr_gunyah_read stack dev = Some d \<and> posted d = posted dev \<and> contents (rx_pipe d) = []
    \<and> ring_len (ring d) = align4 sz + 32 \<and> ring_offset (ring d) = n"
proof -
  let ?p = "rx_pipe dev"
  have used: "pipe_used ?p = n" using arg_cong [OF pkt(1), of length] pkt(4) by simp
  have h0: "header_at ?p (pipe_tail ?p) ! 0 = 1"
  proof -
    have "contents ?p ! 0 = 1" using pkt by simp
    then show ?thesis using pkt(2) used by (simp add: header_at_def contents_def)
  qed
  have a: "align4 sz \<le> 65536" using sz(2) by (simp add: align4_def)
  have pk: "qrtr_peek_pkt_size (header_at ?p (pipe_tail ?p)) = int (align4 sz + 32)"
    using a sz by (simp add: qrtr_peek_pkt_size_def h0 hdr_v1_of_def align4_32_id width_simps)
  have m: "min (pipe_used ?p) (align4 sz + 32) = n" "n \<noteq> align4 sz + 32" using used pkt(3) by auto
  have sz': "\<not> (int (align4 sz + 32) < 0 \<or> int (align4 sz + 32) > int MAX_PKT_SZ)" using a by simp
  have f: "ring_fits (ring dev)" using r(1) by (simp add: ring_live_def)
  let ?d0 = "dev\<lparr>rx_pipe := gunyah_rx_advance ?p n,
      ring := \<lparr>ring_buf = stored (ring_buf (ring dev)) 0 (take n (contents ?p)), ring_len = align4 sz + 32, ring_offset = n\<rparr>\<rparr>"
  have new: "qrtr_gunyah_read_new quiet stack dev = Some ?d0"
    using m(2) by (simp only: read_new_eq [OF ok f st pk, unfolded if_not_P [OF sz'] Let_def nat_int m(1)] if_False)
  obtain d where d: "gunyah_read_round quiet stack dev = Some d" "posted d = posted dev" "ring d = ring ?d0" "rx_pipe d = rx_pipe ?d0"
    using new r(2) by (simp add: gunyah_read_round_def)
  have e: "pipe_ok (rx_pipe d)" "contents (rx_pipe d) = []"
    using gh.advance [OF ok(1), of n] used d(4) by (simp_all add: contents_Nil)
  have "qrtr_gunyah_read stack dev = Some d"
    using read_round_then [OF _ d(1)] read_returns_if [of d stack] gunyah_rx_avail_ok [OF ok(1)] gunyah_rx_avail_ok [OF e(1)]
      used pkt(2) e(2) by (simp add: contents_Nil)
  then show ?thesis using d e(2) by auto
qed

definition example_split :: qrtr_gunyah_dev where
  "example_split = (example_dev 10 0)\<lparr>rx_pipe := (rx_pipe (example_dev 10 0))
     \<lparr>pipe_fifo := take 10 (example_header 100) @ replicate 10 0 @ le32_bytes 8 @ replicate 40 0\<rparr>\<rparr>"

theorem gunyah_split_header_takes_stale_size_witness:
  "\<exists>d. qrtr_gunyah_read (replicate 32 0) example_split = Some d \<and> posted d = [] \<and> contents (rx_pipe d) = []
    \<and> ring_len (ring d) = 40 \<and> ring_offset (ring d) = 10"
proof -
  have f: "pipe_fifo (rx_pipe example_split) = take 10 (example_header 100) @ replicate 10 0 @ le32_bytes 8 @ replicate 40 0"
    "pipe_length (rx_pipe example_split) = 64" "pipe_tail (rx_pipe example_split) = 0" "pipe_head (rx_pipe example_split) = 10"
    "posted example_split = []" "ring example_split = ring (example_dev 10 0)"
    by (simp_all add: example_split_def example_dev_def Let_def)
  have l: "length (example_header 100) = 32" by (simp add: example_header_def)
  have c: "contents (rx_pipe example_split) = take 10 (example_header 100)"
    by (rule nth_equalityI) (simp_all add: contents_def pipe_used_def f l nth_append)
  have h: "header_at (rx_pipe example_split) 0 = (take 10 (example_header 100) @ replicate 10 0) @ le32_bytes 8 @ replicate 8 0"
    by (rule nth_equalityI) (simp_all add: header_at_def f l nth_append)
  have sz: "le32_at (header_at (rx_pipe example_split) 0) 20 = 8"
    unfolding h using le32_at_bytes [of 8 "take 10 (example_header 100) @ replicate 10 0" "replicate 8 0"] l by simp
  have v: "example_header 100 ! 0 = 1" by (simp add: example_header_def hdr_v1_bytes_0)
  have "\<exists>d. qrtr_gunyah_read (replicate 32 0) example_split = Some d \<and> posted d = posted example_split \<and> contents (rx_pipe d) = []
      \<and> ring_len (ring d) = align4 8 + 32 \<and> ring_offset (ring d) = 10"
    by (rule gunyah_split_header_takes_stale_size [OF _ _ _ _ _ c])
       (simp_all add: f l v sz pipe_ok_def, simp_all add: example_dev_def Let_def ring_live_def ring_fits_def)
  then show ?thesis by (simp add: f align4_def)
qed

text \<open>
  Setting up the FIFOs for a restarted peer leaves the reassembly buffer as it is: if the peer
  went away in the middle of a packet, the first bytes it sends after its restart complete the old fragment
  and the two are posted as one packet.
\<close>

theorem gunyah_restart_keeps_fragment:
  assumes e: "vm_peer e = Some v" "vm_self e \<noteq> None" "ep_register e = 0" "scm_assign e = 0" "acl_alloc e" "sgl_alloc e"
      "mem_share e = 0"
    and dev: "master dev" "\<not> registered dev" "ring_live (ring dev)" "ring_offset (ring dev) = k" "k \<noteq> 0"
    and sh: "10 \<le> length (descs sh)" "length (fifo_1 sh) = FIFO_SIZE"
    and pk: "length pk \<le> gunyah_tx_avail (rx_pipe dev')" "ring_len (ring dev) - k \<le> length pk"
    and up: "qrtr_gunyah_vm_cb e GH_VM_BEFORE_POWERUP (Some v) (sh, dev) = ((sh', dev'), acts)"
  shows "registered dev' \<and> (\<exists>p d. gunyah_tx_write (rx_pipe dev') pk = Some p
    \<and> gunyah_read_round quiet stack (dev'\<lparr>rx_pipe := p\<rparr>) = Some d
    \<and> posted d = posted dev @ [take k (ring_buf (ring dev)) @ take (ring_len (ring dev) - k) pk])"
proof -
  let ?p1 = "\<lparr>pipe_tail = 0, pipe_head = 0, pipe_read_notify = 0, pipe_fifo = fifo_1 sh, pipe_length = FIFO_SIZE\<rparr>"
  have d: "registered dev'" "ring dev' = ring dev" "posted dev' = posted dev" "rx_pipe dev' = ?p1"
    using up e dev(1,2) sh(1) by (auto simp: qrtr_gunyah_vm_cb_def qrtr_gunyah_fifo_init_def qrtr_gunyah_share_mem_def Let_def nth_append)
  have ok: "pipe_ok (rx_pipe dev')" "contents (rx_pipe dev') = []"
    using d(4) sh(2) by (simp_all add: pipe_ok_def contents_def pipe_used_def)
  obtain p where p: "gunyah_tx_write (rx_pipe dev') pk = Some p" "pipe_ok p" "contents p = pk"
    using gunyah_tx_write_ok [OF ok(1) pk(1)] ok(2) by auto
  have f: "ring_fits (ring dev)" "k < ring_len (ring dev)" using dev(3-5) by (auto simp: ring_live_def)
  have u: "pipe_used p = length pk" using arg_cong [OF p(3), of length] by simp
  have m: "min (pipe_used p) (ring_len (ring dev) - k) = ring_len (ring dev) - k" using u pk(2) by simp
  obtain d0 where d0: "qrtr_gunyah_read_frag quiet (dev'\<lparr>rx_pipe := p\<rparr>) = Some d0"
    "posted d0 = posted dev @ [take k (ring_buf (ring dev)) @ take (ring_len (ring dev) - k) pk]"
    using read_frag_eq [of "dev'\<lparr>rx_pipe := p\<rparr>"] p(2,3) d(2,3) f dev(4) m by auto
  have "\<exists>d. gunyah_read_round quiet stack (dev'\<lparr>rx_pipe := p\<rparr>) = Some d \<and> posted d = posted d0"
    using d0(1) d(2) dev(4,5) by (auto simp: gunyah_read_round_def)
  then show ?thesis using d(1) p(1) d0(2) by metis
qed

definition example_fragment :: qrtr_gunyah_dev where
  "example_fragment = (example_dev 0 0)\<lparr>registered := False,
     ring := \<lparr>ring_buf = replicate MAX_PKT_SZ 1, ring_len = 40, ring_offset = 10\<rparr>\<rparr>"

definition example_vm_env :: vm_env where
  "example_vm_env = \<lparr>vm_peer = Some 7, vm_self = Some 3, ep_register = 0, scm_assign = 0, acl_alloc = True,
     sgl_alloc = True, mem_share = 0\<rparr>"

theorem gunyah_restart_keeps_fragment_witness:
  "\<exists>sh' dev' acts p d.
     qrtr_gunyah_vm_cb example_vm_env GH_VM_BEFORE_POWERUP (Some 7)
       (\<lparr>descs = replicate 10 0, fifo_0 = replicate FIFO_SIZE 0, fifo_1 = replicate FIFO_SIZE 0\<rparr>, example_fragment)
       = ((sh', dev'), acts)
     \<and> gunyah_tx_write (rx_pipe dev') (replicate 36 2) = Some p
     \<and> gunyah_read_round quiet (replicate 32 0) (dev'\<lparr>rx_pipe := p\<rparr>) = Some d
     \<and> posted d = [replicate 10 1 @ replicate 30 2]"
proof -
  let ?sh = "\<lparr>descs = replicate 10 0, fifo_0 = replicate FIFO_SIZE 0, fifo_1 = replicate FIFO_SIZE 0\<rparr>"
  obtain sh' dev' acts where u: "qrtr_gunyah_vm_cb example_vm_env GH_VM_BEFORE_POWERUP (Some 7) (?sh, example_fragment) = ((sh', dev'), acts)"
    by (metis surj_pair)
  have d: "registered example_fragment = False" "master example_fragment" "posted example_fragment = []"
    "ring example_fragment = \<lparr>ring_buf = replicate MAX_PKT_SZ 1, ring_len = 40, ring_offset = 10\<rparr>"
    by (simp_all add: example_fragment_def example_dev_def Let_def)
  have "rx_pipe dev' = \<lparr>pipe_tail = 0, pipe_head = 0, pipe_read_notify = 0, pipe_fifo = replicate FIFO_SIZE 0, pipe_length = FIFO_SIZE\<rparr>"
    using u d by (auto simp: qrtr_gunyah_vm_cb_def qrtr_gunyah_fifo_init_def qrtr_gunyah_share_mem_def Let_def nth_append example_vm_env_def)
  then have av: "length (replicate 36 (2 :: byte)) \<le> gunyah_tx_avail (rx_pipe dev')"
    by (simp add: gunyah_tx_avail_def u64_sub_def u64_def u32_def)
  show ?thesis
    using gunyah_restart_keeps_fragment [OF _ _ _ _ _ _ _ _ _ _ _ _ _ _ av _ u, of 10 "replicate 32 0"] u d
    by (auto simp: example_vm_env_def ring_live_def ring_fits_def)
qed

end
