(* ===== verification/Qrtr_Genpool.thy ===== *)
theory Qrtr_Genpool
  imports Qrtr_Fifo
begin

text \<open>
  The transport of the IPC router over a FIFO in a general-purpose memory pool
  (\<^verbatim>\<open>net/qrtr/genpool.c\<close>): pipes, sending with a link-layer header, reassembly, and the set-up and
  reboot state machine. The pipe is the record of \<^verbatim>\<open>Qrtr_Fifo\<close>, whose contract its operations satisfy.
  Mailbox signals, waiting, allocation and registration are parameters.
\<close>

section \<open>Operations on a pipe\<close>

definition qrtr_genpool_tx_write :: "fifo_pipe \<Rightarrow> byte list \<Rightarrow> fifo_pipe option" where
  "qrtr_genpool_tx_write p data = do {
     f \<leftarrow> copy_in p (pipe_head p) data;
     let h = u32 (pipe_head p + length data);
     Some (p\<lparr>pipe_fifo := f, pipe_head := (if h \<ge> pipe_length p then h mod pipe_length p else h)\<rparr>) }"

definition qrtr_genpool_tx_avail :: "fifo_pipe \<Rightarrow> nat" where
  "qrtr_genpool_tx_avail p =
     (let avail = (if pipe_tail p \<le> pipe_head p
                   then u32 (u64 (u64_sub (pipe_length p) (pipe_head p) + pipe_tail p))
                   else pipe_tail p - pipe_head p)
      in if avail < FIFO_FULL_RESERVE then 0 else avail - FIFO_FULL_RESERVE)"

definition qrtr_genpool_rx_avail :: "fifo_pipe \<Rightarrow> nat" where
  "qrtr_genpool_rx_avail p =
     (let len = (if pipe_head p < pipe_tail p then u64 (u64_sub (pipe_length p) (pipe_tail p) + pipe_head p)
                 else pipe_head p - pipe_tail p)
      in if len > pipe_length p then 0 else len)"

definition qrtr_genpool_rx_advance :: "fifo_pipe \<Rightarrow> nat \<Rightarrow> fifo_pipe" where
  "qrtr_genpool_rx_advance p n =
     (let t = u32 (pipe_tail p + n)
      in p\<lparr>pipe_tail := (if t \<ge> pipe_length p then t mod pipe_length p else t)\<rparr>)"

definition qrtr_genpool_rx_peak :: "fifo_pipe \<Rightarrow> byte list \<Rightarrow> nat \<Rightarrow> nat \<Rightarrow> nat \<Rightarrow> byte list option" where
  "qrtr_genpool_rx_peak p data d offset n =
     (let t0 = u32 (pipe_tail p + offset);
          t = (if t0 \<ge> pipe_length p then t0 mod pipe_length p else t0)
      in copy_out p t data d n)"

section \<open>The device\<close>

abbreviation (input) MAX_PKT_SZ :: nat where "MAX_PKT_SZ \<equiv> 65536"
abbreviation (input) HDR_KEY_VALUE :: nat where "HDR_KEY_VALUE \<equiv> 57005"

datatype local_state =
  LOCAL_STATE_DEFAULT | LOCAL_STATE_INIT | LOCAL_STATE_START | LOCAL_STATE_PREPARE_REBOOT | LOCAL_STATE_REBOOT

record qrtr_genpool_ring =
  ring_buf :: "byte list"
  ring_len :: nat
  ring_offset :: nat

text \<open>
  \<open>base\<close> is the shared memory: none after it was freed, otherwise the state word the peer sees.
  \<open>irq_depth\<close> counts how often the transfer interrupt is disabled. \<open>posted\<close> lists the packets given to
  \<^verbatim>\<open>qrtr_endpoint_post\<close>, \<open>xfer_signals\<close> and \<open>setup_signals\<close> count the mailbox signals.
\<close>

record qrtr_genpool_dev =
  ep_registered :: bool
  ring :: qrtr_genpool_ring
  rx_pipe :: fifo_pipe
  tx_pipe :: fifo_pipe
  base :: "local_state option"
  state :: local_state
  irq_depth :: nat
  posted :: "byte list list"
  xfer_signals :: nat
  setup_signals :: nat

section \<open>Sending\<close>

definition genpool_hdr_bytes :: "nat \<Rightarrow> byte list" where
  "genpool_hdr_bytes len = le16_bytes (u16 len) @ le16_bytes HDR_KEY_VALUE"

definition qrtr_genpool_signal_xfer :: "qrtr_genpool_dev \<Rightarrow> qrtr_genpool_dev" where
  "qrtr_genpool_signal_xfer dev = dev\<lparr>xfer_signals := Suc (xfer_signals dev)\<rparr>"

definition qrtr_genpool_signal_setup :: "qrtr_genpool_dev \<Rightarrow> qrtr_genpool_dev" where
  "qrtr_genpool_signal_setup dev = dev\<lparr>setup_signals := Suc (setup_signals dev)\<rparr>"

definition qrtr_genpool_set_tx_notify :: "qrtr_genpool_dev \<Rightarrow> qrtr_genpool_dev" where
  "qrtr_genpool_set_tx_notify dev = dev\<lparr>tx_pipe := (tx_pipe dev)\<lparr>pipe_read_notify := 1\<rparr>\<rparr>"

definition qrtr_genpool_clr_tx_notify :: "qrtr_genpool_dev \<Rightarrow> qrtr_genpool_dev" where
  "qrtr_genpool_clr_tx_notify dev = dev\<lparr>tx_pipe := (tx_pipe dev)\<lparr>pipe_read_notify := 0\<rparr>\<rparr>"

text \<open>\<open>wait\<close> is what happens to the peer's state and the shared pipe while the sender waits.\<close>

definition qrtr_genpool_wait_for_tx_avail ::
  "('b \<Rightarrow> fifo_pipe \<Rightarrow> 'b \<times> fifo_pipe) \<Rightarrow> 'b \<Rightarrow> qrtr_genpool_dev \<Rightarrow> 'b \<times> qrtr_genpool_dev" where
  "qrtr_genpool_wait_for_tx_avail wait b dev =
     (let d = qrtr_genpool_set_tx_notify dev; (b', p) = wait b (tx_pipe d) in (b', d\<lparr>tx_pipe := p\<rparr>))"

partial_function (option) qrtr_genpool_generate_hdr ::
  "('b \<Rightarrow> fifo_pipe \<Rightarrow> 'b \<times> fifo_pipe) \<Rightarrow> byte list \<Rightarrow> 'b \<Rightarrow> qrtr_genpool_dev \<Rightarrow> ('b \<times> qrtr_genpool_dev) option" where
  "qrtr_genpool_generate_hdr wait hdr b dev =
     (if qrtr_genpool_tx_avail (tx_pipe dev) < length hdr then
        (case qrtr_genpool_wait_for_tx_avail wait b dev of (b', dev') \<Rightarrow> qrtr_genpool_generate_hdr wait hdr b' dev')
      else Option.bind (qrtr_genpool_tx_write (tx_pipe dev) hdr) (\<lambda>p. Some (b, dev\<lparr>tx_pipe := p\<rparr>)))"

partial_function (option) genpool_send_loop ::
  "('b \<Rightarrow> fifo_pipe \<Rightarrow> 'b \<times> fifo_pipe) \<Rightarrow> byte list \<Rightarrow> nat \<Rightarrow> nat \<Rightarrow> 'b \<Rightarrow> qrtr_genpool_dev \<Rightarrow> ('b \<times> qrtr_genpool_dev) option" where
  "genpool_send_loop wait data offset left b dev =
     (if left = 0 then Some (b, dev)
      else if qrtr_genpool_tx_avail (tx_pipe dev) = 0 then
        (case qrtr_genpool_wait_for_tx_avail wait b dev of (b', dev') \<Rightarrow> genpool_send_loop wait data offset left b' dev')
      else
        (let chunk = min (qrtr_genpool_tx_avail (tx_pipe dev)) left in
         Option.bind (qrtr_genpool_tx_write (tx_pipe dev) (take chunk (drop offset data)))
           (\<lambda>p. genpool_send_loop wait data (offset + chunk) (left - chunk) b
                  (qrtr_genpool_signal_xfer (dev\<lparr>tx_pipe := p\<rparr>)))))"

text \<open>\<open>linearize\<close> is the result of \<^verbatim>\<open>skb_linearize\<close>.\<close>

definition qrtr_genpool_send ::
  "('b \<Rightarrow> fifo_pipe \<Rightarrow> 'b \<times> fifo_pipe) \<Rightarrow> int \<Rightarrow> byte list \<Rightarrow> 'b \<Rightarrow> qrtr_genpool_dev \<Rightarrow> (int \<times> 'b \<times> qrtr_genpool_dev) option" where
  "qrtr_genpool_send wait linearize data b dev =
     (if linearize \<noteq> 0 then Some (linearize, b, dev)
      else do {
        (b1, d1) \<leftarrow> qrtr_genpool_generate_hdr wait (genpool_hdr_bytes (length data)) b dev;
        (b2, d2) \<leftarrow> genpool_send_loop wait data 0 (length data) b1 d1;
        Some (0, b2, qrtr_genpool_clr_tx_notify d2) })"

section \<open>Receiving\<close>

definition qrtr_genpool_get_read_notify :: "qrtr_genpool_dev \<Rightarrow> bool" where
  "qrtr_genpool_get_read_notify dev \<longleftrightarrow> pipe_read_notify (rx_pipe dev) \<noteq> 0"

definition qrtr_genpool_read_new :: "qrtr_genpool_dev \<Rightarrow> qrtr_genpool_dev option" where
  "qrtr_genpool_read_new dev = do {
     hdr \<leftarrow> qrtr_genpool_rx_peak (rx_pipe dev) (replicate 4 0) 0 0 4;
     let pkt_len = le16_at hdr 0;
     if pkt_len > MAX_PKT_SZ then Some dev
     else do {
       let p1 = qrtr_genpool_rx_advance (rx_pipe dev) 4;
       let n = min (qrtr_genpool_rx_avail p1) pkt_len;
       buf \<leftarrow> qrtr_genpool_rx_peak p1 (ring_buf (ring dev)) 0 0 n;
       let p2 = qrtr_genpool_rx_advance p1 n;
       if n = pkt_len
       then Some (dev\<lparr>rx_pipe := p2, ring := (ring dev)\<lparr>ring_buf := buf\<rparr>, posted := posted dev @ [take n buf]\<rparr>)
       else Some (dev\<lparr>rx_pipe := p2, ring := \<lparr>ring_buf = buf, ring_len = pkt_len, ring_offset = n\<rparr>\<rparr>) } }"

definition qrtr_genpool_read_frag :: "qrtr_genpool_dev \<Rightarrow> qrtr_genpool_dev option" where
  "qrtr_genpool_read_frag dev = do {
     let r = ring dev;
     let avail = qrtr_genpool_rx_avail (rx_pipe dev);
     let n = (if avail + ring_offset r > ring_len r then u64_sub (ring_len r) (ring_offset r) else avail);
     buf \<leftarrow> qrtr_genpool_rx_peak (rx_pipe dev) (ring_buf r) (ring_offset r) 0 n;
     let p1 = qrtr_genpool_rx_advance (rx_pipe dev) n;
     if n + ring_offset r = ring_len r
     then Some (dev\<lparr>rx_pipe := p1, ring := \<lparr>ring_buf = buf, ring_len = 0, ring_offset = 0\<rparr>,
                   posted := posted dev @ [take (ring_len r) buf]\<rparr>)
     else Some (dev\<lparr>rx_pipe := p1, ring := r\<lparr>ring_buf := buf, ring_offset := u32 (ring_offset r + n)\<rparr>\<rparr>) }"

definition genpool_read_round :: "qrtr_genpool_dev \<Rightarrow> qrtr_genpool_dev option" where
  "genpool_read_round dev = do {
     d \<leftarrow> (if ring_offset (ring dev) \<noteq> 0 then qrtr_genpool_read_frag dev else qrtr_genpool_read_new dev);
     Some (if qrtr_genpool_get_read_notify d then qrtr_genpool_signal_xfer d else d) }"

partial_function (option) qrtr_genpool_read :: "qrtr_genpool_dev \<Rightarrow> qrtr_genpool_dev option" where
  "qrtr_genpool_read dev =
     (if qrtr_genpool_rx_avail (rx_pipe dev) = 0 then Some dev
      else Option.bind (genpool_read_round dev) qrtr_genpool_read)"

definition qrtr_genpool_xfer_intr :: "qrtr_genpool_dev \<Rightarrow> qrtr_genpool_dev option" where
  "qrtr_genpool_xfer_intr dev = (if state dev \<noteq> LOCAL_STATE_START then Some dev else qrtr_genpool_read dev)"

section \<open>Set-up and reboot\<close>

text \<open>Writing the state word of memory that is not there is an invalid access, \<^term>\<open>None\<close>.\<close>

definition qrtr_genpool_set_state :: "local_state \<Rightarrow> qrtr_genpool_dev \<Rightarrow> qrtr_genpool_dev option" where
  "qrtr_genpool_set_state s dev =
     (case base dev of None \<Rightarrow> None | Some _ \<Rightarrow> Some (dev\<lparr>state := s, base := Some s\<rparr>))"

definition qrtr_genpool_memory_free :: "qrtr_genpool_dev \<Rightarrow> qrtr_genpool_dev" where
  "qrtr_genpool_memory_free dev = dev\<lparr>base := None\<rparr>"

text \<open>Fresh memory is cleared, and the cleared state word reads as the default state.\<close>

definition qrtr_genpool_memory_alloc :: "bool \<Rightarrow> qrtr_genpool_dev \<Rightarrow> int \<times> qrtr_genpool_dev" where
  "qrtr_genpool_memory_alloc alloc_ok dev =
     (if alloc_ok then (0, dev\<lparr>base := Some LOCAL_STATE_DEFAULT\<rparr>) else (- ENOMEM, dev\<lparr>base := None\<rparr>))"

definition qrtr_genpool_fifo_init :: "byte list \<Rightarrow> byte list \<Rightarrow> qrtr_genpool_dev \<Rightarrow> qrtr_genpool_dev" where
  "qrtr_genpool_fifo_init fifo0 fifo1 dev =
     dev\<lparr>tx_pipe := \<lparr>pipe_tail = 0, pipe_head = 0, pipe_read_notify = 0, pipe_fifo = fifo0, pipe_length = FIFO_SIZE\<rparr>,
         rx_pipe := \<lparr>pipe_tail = 0, pipe_head = 0, pipe_read_notify = 0, pipe_fifo = fifo1, pipe_length = FIFO_SIZE\<rparr>\<rparr>"

definition genpool_teardown :: "qrtr_genpool_dev \<Rightarrow> qrtr_genpool_dev" where
  "genpool_teardown dev =
     qrtr_genpool_memory_free (dev\<lparr>irq_depth := Suc (irq_depth dev), ep_registered := False\<rparr>)"

text \<open>
  The set-up work: allocation and registration results, and the memory behind the descriptors.
\<close>

definition genpool_setup_to ::
  "bool \<Rightarrow> int \<Rightarrow> byte list \<Rightarrow> byte list \<Rightarrow> local_state \<Rightarrow> qrtr_genpool_dev \<Rightarrow> qrtr_genpool_dev option" where
  "genpool_setup_to alloc_ok reg fifo0 fifo1 next dev =
     (let (rc, d1) = qrtr_genpool_memory_alloc alloc_ok (genpool_teardown dev) in
      if rc \<noteq> 0 then Some d1
      else
        let d2 = qrtr_genpool_fifo_init fifo0 fifo1 d1 in
        if reg \<noteq> 0 then Some d2
        else map_option qrtr_genpool_signal_setup
               (qrtr_genpool_set_state next (d2\<lparr>ep_registered := True, irq_depth := irq_depth d2 - 1\<rparr>)))"

definition qrtr_genpool_setup_work ::
  "bool \<Rightarrow> int \<Rightarrow> byte list \<Rightarrow> byte list \<Rightarrow> qrtr_genpool_dev \<Rightarrow> qrtr_genpool_dev option" where
  "qrtr_genpool_setup_work alloc_ok reg fifo0 fifo1 dev =
     (case state dev of
        LOCAL_STATE_DEFAULT \<Rightarrow> genpool_setup_to alloc_ok reg fifo0 fifo1 LOCAL_STATE_INIT dev
      | LOCAL_STATE_INIT \<Rightarrow> genpool_setup_to alloc_ok reg fifo0 fifo1 LOCAL_STATE_START dev
      | LOCAL_STATE_START \<Rightarrow> genpool_setup_to alloc_ok reg fifo0 fifo1 LOCAL_STATE_START dev
      | LOCAL_STATE_PREPARE_REBOOT \<Rightarrow> qrtr_genpool_set_state LOCAL_STATE_REBOOT dev
      | LOCAL_STATE_REBOOT \<Rightarrow> Some dev)"

text \<open>
  The reboot notifier. While it waits for the peer with the lock released, the set-up work may run;
  \<open>waited\<close> is what happens to the device in that time.
\<close>

definition genpool_shutdown :: "qrtr_genpool_dev \<Rightarrow> qrtr_genpool_dev" where
  "genpool_shutdown dev =
     (let d = genpool_teardown dev in d\<lparr>ring := (ring d)\<lparr>ring_buf := []\<rparr>\<rparr>)"

definition qrtr_genpool_reboot_cb ::
  "(qrtr_genpool_dev \<Rightarrow> qrtr_genpool_dev option) \<Rightarrow> qrtr_genpool_dev \<Rightarrow> qrtr_genpool_dev option" where
  "qrtr_genpool_reboot_cb waited dev =
     (case state dev of
        LOCAL_STATE_START \<Rightarrow> do {
          d1 \<leftarrow> qrtr_genpool_set_state LOCAL_STATE_PREPARE_REBOOT dev;
          d2 \<leftarrow> waited (qrtr_genpool_signal_setup d1);
          d3 \<leftarrow> qrtr_genpool_set_state LOCAL_STATE_REBOOT d2;
          Some (genpool_shutdown d3) }
      | LOCAL_STATE_DEFAULT \<Rightarrow> map_option genpool_shutdown (qrtr_genpool_set_state LOCAL_STATE_REBOOT dev)
      | LOCAL_STATE_INIT \<Rightarrow> map_option genpool_shutdown (qrtr_genpool_set_state LOCAL_STATE_REBOOT dev)
      | _ \<Rightarrow> Some dev)"

section \<open>Probe and remove\<close>

text \<open>
  What the platform answers during the probe; an interrupt number, a request or a channel below zero
  is an error code.
\<close>

record genpool_env =
  gpe_kzalloc :: bool
  gpe_vzalloc :: bool
  gpe_phandle :: bool
  gpe_pool :: bool
  gpe_avail :: nat
  gpe_notifier :: int
  gpe_setup_chan :: int
  gpe_xfer_chan :: int
  gpe_xfer_irq :: int
  gpe_xfer_request :: int
  gpe_setup_irq :: int
  gpe_setup_request :: int

text \<open>What the probe asked for, in order.\<close>

datatype genpool_act = Setup_chan | Xfer_chan | Xfer_irq | Setup_irq | Schedule_setup

definition qrtr_genpool_memory_init :: "genpool_env \<Rightarrow> int" where
  "qrtr_genpool_memory_init e =
     (if \<not> gpe_phandle e then - ENODEV
      else if \<not> gpe_pool e then - EPROBE_DEFER
      else if gpe_avail e = 0 then - EPROBE_DEFER
      else 0)"

definition qrtr_genpool_mbox_init :: "genpool_env \<Rightarrow> int \<times> genpool_act list" where
  "qrtr_genpool_mbox_init e =
     (if gpe_setup_chan e < 0 then (gpe_setup_chan e, [])
      else if gpe_xfer_chan e < 0 then (gpe_xfer_chan e, [Setup_chan])
      else (0, [Setup_chan, Xfer_chan]))"

definition qrtr_genpool_irq_init :: "genpool_env \<Rightarrow> int \<times> genpool_act list" where
  "qrtr_genpool_irq_init e =
     (if gpe_xfer_irq e < 0 then (gpe_xfer_irq e, [])
      else if gpe_xfer_request e \<noteq> 0 then (gpe_xfer_request e, [])
      else if gpe_setup_irq e < 0 then (gpe_setup_irq e, [Xfer_irq])
      else if gpe_setup_request e \<noteq> 0 then (gpe_setup_request e, [Xfer_irq])
      else (0, [Xfer_irq, Setup_irq]))"

text \<open>A device as \<^verbatim>\<open>devm_kzalloc\<close> returns it, with the buffer of the ring.\<close>

definition genpool_fresh :: qrtr_genpool_dev where
  "genpool_fresh =
     (let p = \<lparr>pipe_tail = 0, pipe_head = 0, pipe_read_notify = 0, pipe_fifo = [], pipe_length = 0\<rparr> in
      \<lparr>ep_registered = False, ring = \<lparr>ring_buf = replicate MAX_PKT_SZ 0, ring_len = 0, ring_offset = 0\<rparr>,
       rx_pipe = p, tx_pipe = p, base = None, state = LOCAL_STATE_DEFAULT, irq_depth = 0,
       posted = [], xfer_signals = 0, setup_signals = 0\<rparr>)"

definition qrtr_genpool_probe :: "genpool_env \<Rightarrow> int \<times> qrtr_genpool_dev option \<times> genpool_act list" where
  "qrtr_genpool_probe e =
     (if \<not> gpe_kzalloc e \<or> \<not> gpe_vzalloc e then (- ENOMEM, None, [])
      else if qrtr_genpool_memory_init e \<noteq> 0 then (qrtr_genpool_memory_init e, None, [])
      else if gpe_notifier e \<noteq> 0 then (gpe_notifier e, None, [])
      else case qrtr_genpool_mbox_init e of (rc, m) \<Rightarrow>
        if rc \<noteq> 0 then (rc, None, m)
        else case qrtr_genpool_irq_init e of (rc, i) \<Rightarrow>
          if rc \<noteq> 0 then (rc, None, m @ i)
          else (0, Some genpool_fresh, m @ i @ [Schedule_setup]))"

text \<open>
  Removal, with whether it unregisters the endpoint; the interrupts stay requested until the driver
  core releases them afterwards.
\<close>

definition qrtr_genpool_remove :: "qrtr_genpool_dev \<Rightarrow> bool \<times> qrtr_genpool_dev" where
  "qrtr_genpool_remove dev = (ep_registered dev, dev\<lparr>ring := (ring dev)\<lparr>ring_buf := []\<rparr>\<rparr>)"

section \<open>The pipe is a byte FIFO\<close>

lemma genpool_rx_avail_ok: "pipe_ok p \<Longrightarrow> qrtr_genpool_rx_avail p = pipe_used p"
  by (auto simp: qrtr_genpool_rx_avail_def pipe_ok_def pipe_used_def Let_def width_simps)

lemma genpool_tx_avail_ok: "pipe_ok p \<Longrightarrow> qrtr_genpool_tx_avail p = pipe_length p - FIFO_FULL_RESERVE - pipe_used p"
  by (auto simp: qrtr_genpool_tx_avail_def pipe_ok_def pipe_used_def Let_def width_simps)

lemma genpool_rx_peak_ok:
  assumes "pipe_ok p" and "n \<le> pipe_length p" and "d \<le> length data"
  shows "qrtr_genpool_rx_peak p data d 0 n =
    wr data d (map (\<lambda>i. pipe_fifo p ! ((pipe_tail p + i) mod pipe_length p)) [0..<n])"
  using assms copy_out_bytes [of p "pipe_tail p" n d data]
  by (simp add: qrtr_genpool_rx_peak_def pipe_ok_def Let_def width_simps)

lemma genpool_rx_advance_ok:
  assumes "pipe_ok p" and "n \<le> pipe_length p"
  shows "qrtr_genpool_rx_advance p n = p\<lparr>pipe_tail := (pipe_tail p + n) mod pipe_length p\<rparr>"
  using assms by (simp add: qrtr_genpool_rx_advance_def pipe_ok_def Let_def width_simps)

lemma genpool_tx_write_ok:
  assumes ok: "pipe_ok p" and n: "length bs \<le> qrtr_genpool_tx_avail p"
  shows "\<exists>p'. qrtr_genpool_tx_write p bs = Some p' \<and> pipe_ok p' \<and> contents p' = contents p @ bs
    \<and> pipe_length p' = pipe_length p"
proof -
  have p: "length (pipe_fifo p) = pipe_length p" "pipe_head p < pipe_length p" "pipe_length p < 2 ^ 31"
    and room: "pipe_used p + length bs < pipe_length p"
    using ok n pipe_used_less [OF ok] by (auto simp: pipe_ok_def genpool_tx_avail_ok [OF ok])
  then obtain f where f: "copy_in p (pipe_head p) bs = Some f"
    using copy_in_bytes [OF p, of bs] by auto
  have "qrtr_genpool_tx_write p bs = Some (p\<lparr>pipe_fifo := f, pipe_head := (pipe_head p + length bs) mod pipe_length p\<rparr>)"
    using p room f by (simp add: qrtr_genpool_tx_write_def Let_def width_simps)
  then show ?thesis using contents_put [OF ok room f] by simp
qed

interpretation gp: byte_fifo pipe_ok contents "\<lambda>p. pipe_length p - FIFO_FULL_RESERVE" qrtr_genpool_rx_avail
  "\<lambda>p data d n. qrtr_genpool_rx_peak p data d 0 n" qrtr_genpool_rx_advance qrtr_genpool_tx_avail qrtr_genpool_tx_write
proof unfold_locales
  fix p :: fifo_pipe and bs data :: "byte list" and n d :: nat
  assume ok: "pipe_ok p"
  note used = pipe_used_less [OF ok]
  show "qrtr_genpool_rx_avail p = length (contents p)" by (simp add: genpool_rx_avail_ok [OF ok])
  show "qrtr_genpool_tx_avail p = pipe_length p - 8 - length (contents p)" by (simp add: genpool_tx_avail_ok [OF ok])
  show "0 < pipe_length p - 8" using ok by (simp add: pipe_ok_def)
  show "qrtr_genpool_rx_peak p data d 0 n = wr data d (take n (contents p))"
    if "n \<le> length (contents p)" "d \<le> length data"
    using genpool_rx_peak_ok [OF ok _ that(2), of n] take_contents [of n p] that used by simp
  show "pipe_ok (qrtr_genpool_rx_advance p n) \<and> contents (qrtr_genpool_rx_advance p n) = drop n (contents p)
      \<and> pipe_length (qrtr_genpool_rx_advance p n) - 8 = pipe_length p - 8"
    if "n \<le> length (contents p)"
    using genpool_rx_advance_ok [OF ok, of n] contents_advance [OF ok, of n] that used by simp
  show "\<exists>p'. qrtr_genpool_tx_write p bs = Some p' \<and> pipe_ok p' \<and> contents p' = contents p @ bs
      \<and> pipe_length p' - 8 = pipe_length p - 8"
    if "length bs \<le> qrtr_genpool_tx_avail p"
    using genpool_tx_write_ok [OF ok that] by fastforce
qed

section \<open>Framing\<close>

lemma genpool_hdr_len: "le16_at (take 4 (genpool_hdr_bytes n @ rest)) 0 = u16 n"
proof -
  have "u16 n < 65536" by (simp add: u16_def)
  from le16_at_bytes [OF this, of "[]" "le16_bytes HDR_KEY_VALUE"]
  show ?thesis by (simp add: genpool_hdr_bytes_def)
qed

text \<open>A round at the start of a packet: the first four bytes are the link header.\<close>

lemma genpool_read_new_eq:
  assumes ok: "pipe_ok (rx_pipe dev)" and c: "contents (rx_pipe dev) = h @ bs" "length h = 4"
    and buf: "length (ring_buf (ring dev)) = MAX_PKT_SZ"
  defines "len \<equiv> le16_at h 0"
  shows "\<exists>p buf. qrtr_genpool_read_new dev = Some
      (if len \<le> length bs
       then dev\<lparr>rx_pipe := p, ring := (ring dev)\<lparr>ring_buf := buf\<rparr>, posted := posted dev @ [take len bs]\<rparr>
       else dev\<lparr>rx_pipe := p, ring := \<lparr>ring_buf = buf, ring_len = len, ring_offset = length bs\<rparr>\<rparr>)
    \<and> pipe_ok p \<and> contents p = drop len bs \<and> length buf = MAX_PKT_SZ
    \<and> take (min (length bs) len) buf = take len bs"
proof -
  define p1 where "p1 = qrtr_genpool_rx_advance (rx_pipe dev) 4"
  have p1: "pipe_ok p1" "contents p1 = bs" using gp.advance [OF ok, of 4] c by (simp_all add: p1_def del: length_contents)
  have hdr: "qrtr_genpool_rx_peak (rx_pipe dev) (replicate 4 0) 0 0 4 = Some h"
    using gp.peek [OF ok, of 4 0 "replicate 4 0"] c by (simp add: wr_def del: length_contents)
  have len: "len \<le> MAX_PKT_SZ" unfolding len_def by (rule less_imp_le [OF le16_at_less])
  define n where "n = min (qrtr_genpool_rx_avail p1) len"
  have n: "n = min (length bs) len" using gp.rx_avail [OF p1(1)] p1(2) by (simp add: n_def del: length_contents)
  let ?buf = "take len bs @ drop n (ring_buf (ring dev))"
  have pk: "qrtr_genpool_rx_peak p1 (ring_buf (ring dev)) 0 0 n = Some ?buf"
    using gp.peek [OF p1(1), of n 0 "ring_buf (ring dev)"] p1(2) n len buf
    by (cases "length bs \<le> len") (simp_all add: wr_def min_def del: length_contents)
  have p2: "pipe_ok (qrtr_genpool_rx_advance p1 n)" "contents (qrtr_genpool_rx_advance p1 n) = drop len bs"
    using gp.advance [OF p1(1), of n] p1(2) n by (auto simp: min_def simp del: length_contents)
  have t: "take n ?buf = take len bs" using n by (auto simp: min_def)
  have lb: "length ?buf = MAX_PKT_SZ" using buf n len by auto
  have "qrtr_genpool_read_new dev = Some
      (if len \<le> length bs
       then dev\<lparr>rx_pipe := qrtr_genpool_rx_advance p1 n, ring := (ring dev)\<lparr>ring_buf := ?buf\<rparr>, posted := posted dev @ [take len bs]\<rparr>
       else dev\<lparr>rx_pipe := qrtr_genpool_rx_advance p1 n, ring := \<lparr>ring_buf = ?buf, ring_len = len, ring_offset = length bs\<rparr>\<rparr>)"
    unfolding qrtr_genpool_read_new_def hdr bind.bind_lunit Let_def len_def [symmetric] p1_def [symmetric] n_def [symmetric] pk t
    using len n by (auto simp: min_def)
  then show ?thesis using p2 lb t n by blast
qed

text \<open>
  The state of the receiver between two rounds: idle, or in the middle of a packet of which some bytes,
  at least one, were taken.
\<close>

definition frame :: "byte list \<Rightarrow> byte list" where
  "frame q = genpool_hdr_bytes (length q) @ q"

fun rx_state :: "qrtr_genpool_ring \<Rightarrow> (nat \<times> byte list) option \<Rightarrow> bool" where
  "rx_state r None \<longleftrightarrow> length (ring_buf r) = MAX_PKT_SZ \<and> ring_offset r = 0"
| "rx_state r (Some (k, q)) \<longleftrightarrow> length (ring_buf r) = MAX_PKT_SZ \<and> ring_offset r = k \<and> ring_len r = length q
     \<and> 0 < k \<and> k < length q \<and> length q < 65536 \<and> take k (ring_buf r) = take k q"

text \<open>The bytes already in the pipe of a packet that is only partly written.\<close>

fun begun :: "(nat \<times> byte list) option \<Rightarrow> byte list" where
  "begun None = []"
| "begun (Some (k, q)) = genpool_hdr_bytes (length q) @ take k q"

fun begun_ok :: "(nat \<times> byte list) option \<Rightarrow> bool" where
  "begun_ok None \<longleftrightarrow> True"
| "begun_ok (Some (k, q)) \<longleftrightarrow> 0 < k \<and> k < length q \<and> length q < 65536"

lemma length_genpool_hdr [simp]: "length (genpool_hdr_bytes n) = 4"
  by (simp add: genpool_hdr_bytes_def)

lemma hdr_len_value: "n < 65536 \<Longrightarrow> le16_at (genpool_hdr_bytes n) 0 = n"
  using genpool_hdr_len [of n "[]"] by (simp add: u16_def)

lemma signal_keeps [simp]:
  "rx_pipe (qrtr_genpool_signal_xfer d) = rx_pipe d" "ring (qrtr_genpool_signal_xfer d) = ring d"
  "posted (qrtr_genpool_signal_xfer d) = posted d"
  by (simp_all add: qrtr_genpool_signal_xfer_def)

text \<open>What a round leaves, apart from the signals it sends.\<close>

definition after :: "qrtr_genpool_dev \<Rightarrow> byte list \<Rightarrow> (nat \<times> byte list) option \<Rightarrow> byte list list \<Rightarrow> bool" where
  "after d bs s ps \<longleftrightarrow> pipe_ok (rx_pipe d) \<and> contents (rx_pipe d) = bs \<and> rx_state (ring d) s \<and> posted d = ps"

lemma after_signal: "after d bs s ps \<Longrightarrow> after (if n then qrtr_genpool_signal_xfer d else d) bs s ps"
  by (simp add: after_def)

lemma genpool_round_new:
  assumes a: "after dev (genpool_hdr_bytes (length q) @ bs) None ps" and q: "length q < 65536"
    and bs: "bs = q @ rest \<and> s = None \<and> out = [q] \<or> 0 < k \<and> k < length q \<and> bs = take k q \<and> rest = [] \<and> s = Some (k, q) \<and> out = []"
  shows "\<exists>d. genpool_read_round dev = Some d \<and> after d rest s (ps @ out)"
proof -
  have dev: "pipe_ok (rx_pipe dev)" "contents (rx_pipe dev) = genpool_hdr_bytes (length q) @ bs"
    "length (ring_buf (ring dev)) = MAX_PKT_SZ" "ring_offset (ring dev) = 0" "posted dev = ps"
    using a by (simp_all add: after_def)
  obtain p buf where r: "qrtr_genpool_read_new dev = Some
      (if length q \<le> length bs
       then dev\<lparr>rx_pipe := p, ring := (ring dev)\<lparr>ring_buf := buf\<rparr>, posted := posted dev @ [take (length q) bs]\<rparr>
       else dev\<lparr>rx_pipe := p, ring := \<lparr>ring_buf = buf, ring_len = length q, ring_offset = length bs\<rparr>\<rparr>)"
    and p: "pipe_ok p" "contents p = drop (length q) bs" "length buf = MAX_PKT_SZ"
      "take (min (length bs) (length q)) buf = take (length q) bs"
    using genpool_read_new_eq [OF dev(1,2) length_genpool_hdr dev(3)] unfolding hdr_len_value [OF q] by blast
  obtain d where d: "qrtr_genpool_read_new dev = Some d" "after d rest s (ps @ out)"
  proof (cases "length q \<le> length bs")
    case True
    then have "bs = q @ rest" "s = None" "out = [q]" using bs by auto
    with True r p dev(4,5) that show ?thesis by (simp add: after_def)
  next
    case False
    then have "0 < k" "k < length q" "bs = take k q" "rest = []" "s = Some (k, q)" "out = []" using bs by auto
    with False r p dev(4,5) q that show ?thesis by (simp add: after_def)
  qed
  show ?thesis unfolding genpool_read_round_def using d dev(4) after_signal [OF d(2)] by (simp del: Option.bind_eq_Some_conv)
qed

lemma genpool_read_frag_eq:
  assumes a: "after dev bs (Some (k, q)) ps"
  defines "n \<equiv> min (length bs) (length q - k)"
  shows "\<exists>p buf. qrtr_genpool_read_frag dev = Some
      (if n + k = length q
       then dev\<lparr>rx_pipe := p, ring := \<lparr>ring_buf = buf, ring_len = 0, ring_offset = 0\<rparr>, posted := posted dev @ [take (length q) buf]\<rparr>
       else dev\<lparr>rx_pipe := p, ring := (ring dev)\<lparr>ring_buf := buf, ring_offset := k + n\<rparr>\<rparr>)
    \<and> pipe_ok p \<and> contents p = drop n bs \<and> length buf = MAX_PKT_SZ \<and> take (k + n) buf = take k q @ take n bs"
proof -
  let ?r = "ring dev" and ?p = "rx_pipe dev"
  have ok: "pipe_ok ?p" and c: "contents ?p = bs" and r: "ring_offset ?r = k" "ring_len ?r = length q"
    "length (ring_buf ?r) = MAX_PKT_SZ" "take k (ring_buf ?r) = take k q"
    and k: "k < length q" "length q < 65536"
    using a by (simp_all add: after_def)
  have av: "qrtr_genpool_rx_avail ?p = length bs" using gp.rx_avail [OF ok] c by simp
  have n: "(if length bs + k > length q then u64_sub (length q) k else length bs) = n"
    using k by (auto simp: n_def width_simps)
  have n_le: "n \<le> length bs" "k + n \<le> length q" using k by (auto simp: n_def)
  let ?buf = "take k q @ take n bs @ drop (k + n) (ring_buf ?r)"
  have pk: "qrtr_genpool_rx_peak ?p (ring_buf ?r) k 0 n = Some ?buf"
    using gp.peek [OF ok, of n k "ring_buf ?r"] c n_le k r(3,4) by (simp add: wr_def del: length_contents)
  have adv: "pipe_ok (qrtr_genpool_rx_advance ?p n)" "contents (qrtr_genpool_rx_advance ?p n) = drop n bs"
    using gp.advance [OF ok, of n] c n_le by (simp_all del: length_contents)
  have u: "u32 (k + n) = k + n" using n_le k by (simp add: u32_def)
  have b: "length ?buf = MAX_PKT_SZ" "take (k + n) ?buf = take k q @ take n bs"
    using r n_le k by simp_all
  show ?thesis
    unfolding qrtr_genpool_read_frag_def Let_def r(1,2) av n pk bind.bind_lunit u
    using adv b by (intro exI [of _ "qrtr_genpool_rx_advance ?p n"] exI [of _ ?buf]) (cases "n + k = length q"; simp only: simp_thms if_True if_False)
qed

lemma genpool_round_frag:
  assumes a: "after dev bs (Some (k, q)) ps"
    and bs: "bs = drop k q @ rest \<and> s = None \<and> out = [q]
      \<or> k + n < length q \<and> bs = take n (drop k q) \<and> rest = [] \<and> s = Some (k + n, q) \<and> out = []"
  shows "\<exists>d. genpool_read_round dev = Some d \<and> after d rest s (ps @ out)"
proof -
  have k: "0 < k" "k < length q" "length q < 65536" and r: "ring_offset (ring dev) = k" "ring_len (ring dev) = length q"
    and ps: "posted dev = ps"
    using a by (simp_all add: after_def)
  define m where "m = min (length bs) (length q - k)"
  obtain p buf where f: "qrtr_genpool_read_frag dev = Some
      (if m + k = length q
       then dev\<lparr>rx_pipe := p, ring := \<lparr>ring_buf = buf, ring_len = 0, ring_offset = 0\<rparr>, posted := posted dev @ [take (length q) buf]\<rparr>
       else dev\<lparr>rx_pipe := p, ring := (ring dev)\<lparr>ring_buf := buf, ring_offset := k + m\<rparr>\<rparr>)"
    and p: "pipe_ok p" "contents p = drop m bs" "length buf = MAX_PKT_SZ" "take (k + m) buf = take k q @ take m bs"
    using genpool_read_frag_eq [OF a] unfolding m_def by blast
  obtain d where d: "qrtr_genpool_read_frag dev = Some d" "after d rest s (ps @ out)"
    using bs
  proof
    assume h: "bs = drop k q @ rest \<and> s = None \<and> out = [q]"
    then have m: "m = length q - k" by (simp add: m_def)
    then have "take (length q) buf = q" using p(4) h k by simp
    with f m p h k ps that show ?thesis by (simp add: after_def)
  next
    assume h: "k + n < length q \<and> bs = take n (drop k q) \<and> rest = [] \<and> s = Some (k + n, q) \<and> out = []"
    then have m: "m = n" "length bs = n" by (auto simp: m_def)
    have "take (k + n) buf = take (k + n) q" using p(4) m h by (simp add: take_add)
    with f m p h k r ps that show ?thesis by (simp add: after_def)
  qed
  show ?thesis unfolding genpool_read_round_def using d r(1) k(1) after_signal [OF d(2)] by (simp del: Option.bind_eq_Some_conv)
qed

lemma genpool_read_step:
  assumes "after dev bs s ps" and "bs \<noteq> []" and "genpool_read_round dev = Some d"
  shows "qrtr_genpool_read dev = qrtr_genpool_read d"
  using assms gp.rx_avail [of "rx_pipe dev"] by (subst qrtr_genpool_read.simps) (simp add: after_def)

lemma genpool_read_stop:
  assumes "after dev [] s ps"
  shows "qrtr_genpool_read dev = Some dev"
  using assms gp.rx_avail [of "rx_pipe dev"] by (subst qrtr_genpool_read.simps) (simp add: after_def)

lemma genpool_read_idle:
  assumes "after dev (concat (map frame qs) @ begun s) None ps" and "\<forall>q\<in>set qs. length q < 65536" and "begun_ok s"
  shows "\<exists>d. qrtr_genpool_read dev = Some d \<and> after d [] s (ps @ qs)"
  using assms
proof (induction qs arbitrary: dev ps)
  case Nil
  show ?case
  proof (cases s)
    case None
    with Nil show ?thesis using genpool_read_stop by fastforce
  next
    case (Some kq)
    obtain k q where s: "s = Some (k, q)" using Some by (cases kq) auto
    with Nil have a: "after dev (genpool_hdr_bytes (length q) @ take k q) None ps" and kq: "0 < k" "k < length q" "length q < 65536"
      by simp_all
    obtain d where d: "genpool_read_round dev = Some d" "after d [] s (ps @ [])"
      using genpool_round_new [OF a kq(3), where rest = "[]" and s = s and out = "[]"] kq s by blast
    have ne: "genpool_hdr_bytes (length q) @ take k q \<noteq> []" by (metis length_genpool_hdr append_is_Nil_conv list.size(3) zero_neq_numeral)
    show ?thesis using genpool_read_step [OF a ne d(1)] genpool_read_stop [OF d(2)] d(2) by simp
  qed
next
  case (Cons q qs)
  let ?rest = "concat (map frame qs) @ begun s"
  have a: "after dev (genpool_hdr_bytes (length q) @ q @ ?rest) None ps" and q: "length q < 65536"
    using Cons.prems by (simp_all add: frame_def [of q])
  obtain d where d: "genpool_read_round dev = Some d" "after d ?rest None (ps @ [q])"
    using genpool_round_new [OF a q, where rest = ?rest and s = None and out = "[q]"] by blast
  have ne: "genpool_hdr_bytes (length q) @ q @ ?rest \<noteq> []" by (metis length_genpool_hdr append_is_Nil_conv list.size(3) zero_neq_numeral)
  obtain d' where "qrtr_genpool_read d = Some d'" "after d' [] s ((ps @ [q]) @ qs)"
    using Cons.IH [OF d(2)] Cons.prems by auto
  then show ?case using genpool_read_step [OF a ne d(1)] by auto
qed

text \<open>The bytes that complete the packet the receiver is in the middle of, and that packet.\<close>

fun rest_of :: "(nat \<times> byte list) option \<Rightarrow> byte list" where
  "rest_of None = []"
| "rest_of (Some (k, q)) = drop k q"

fun pending :: "(nat \<times> byte list) option \<Rightarrow> byte list list" where
  "pending None = []"
| "pending (Some (k, q)) = [q]"

lemma genpool_read_stream:
  assumes "after dev (rest_of s0 @ concat (map frame qs) @ begun s) s0 ps" and "\<forall>q\<in>set qs. length q < 65536" and "begun_ok s"
  shows "\<exists>d. qrtr_genpool_read dev = Some d \<and> after d [] s (ps @ pending s0 @ qs)"
proof (cases s0)
  case None
  then show ?thesis using genpool_read_idle [of dev qs s ps] assms by simp
next
  case (Some kq)
  obtain k q where s0: "s0 = Some (k, q)" using Some by (cases kq) auto
  let ?rest = "concat (map frame qs) @ begun s"
  have a: "after dev (drop k q @ ?rest) (Some (k, q)) ps" using assms(1) s0 by simp
  then have ne: "drop k q @ ?rest \<noteq> []" by (simp add: after_def)
  obtain d where d: "genpool_read_round dev = Some d" "after d ?rest None (ps @ [q])"
    using genpool_round_frag [OF a, where rest = ?rest and s = None and out = "[q]"] by blast
  then show ?thesis using genpool_read_step [OF a ne d(1)] genpool_read_idle [OF d(2) assms(2,3)] s0 by simp
qed

lemma clr_notify_keeps:
  "pipe_ok (tx_pipe (qrtr_genpool_clr_tx_notify d)) = pipe_ok (tx_pipe d)"
  "contents (tx_pipe (qrtr_genpool_clr_tx_notify d)) = contents (tx_pipe d)"
  by (simp_all add: qrtr_genpool_clr_tx_notify_def pipe_ok_def contents_def pipe_used_def)

text \<open>With room for the whole frame the sender writes it without waiting.\<close>

lemma genpool_send_frame:
  assumes ok: "pipe_ok (tx_pipe dev)" and room: "length q + 4 \<le> qrtr_genpool_tx_avail (tx_pipe dev)"
  shows "\<exists>d. qrtr_genpool_send wait 0 q b dev = Some (0, b, d) \<and> pipe_ok (tx_pipe d)
    \<and> contents (tx_pipe d) = contents (tx_pipe dev) @ frame q"
proof -
  let ?h = "genpool_hdr_bytes (length q)"
  obtain p1 where p1: "qrtr_genpool_tx_write (tx_pipe dev) ?h = Some p1" "pipe_ok p1" "contents p1 = contents (tx_pipe dev) @ ?h"
    "pipe_length p1 = pipe_length (tx_pipe dev)"
    using genpool_tx_write_ok [OF ok, of ?h] room by auto
  have room1: "length q \<le> qrtr_genpool_tx_avail p1"
    using gp.tx_avail [OF ok] gp.tx_avail [OF p1(2)] p1(3,4) room by (simp del: length_contents)
  obtain p2 where p2: "qrtr_genpool_tx_write p1 q = Some p2" "pipe_ok p2" "contents p2 = contents p1 @ q"
    using genpool_tx_write_ok [OF p1(2) room1] by auto
  have hdr: "qrtr_genpool_generate_hdr wait ?h b dev = Some (b, dev\<lparr>tx_pipe := p1\<rparr>)"
    using room p1(1) by (subst qrtr_genpool_generate_hdr.simps) simp
  obtain d2 where d2: "genpool_send_loop wait q 0 (length q) b (dev\<lparr>tx_pipe := p1\<rparr>) = Some (b, d2)"
    "pipe_ok (tx_pipe d2)" "contents (tx_pipe d2) = contents p1 @ q"
  proof (cases "q = []")
    case True
    have "genpool_send_loop wait q 0 (length q) b (dev\<lparr>tx_pipe := p1\<rparr>) = Some (b, dev\<lparr>tx_pipe := p1\<rparr>)"
      by (subst genpool_send_loop.simps) (simp add: True)
    then show ?thesis using that p1(2) True by simp
  next
    case False
    then have ne: "0 < length q" "0 < qrtr_genpool_tx_avail p1" and m: "min (qrtr_genpool_tx_avail p1) (length q) = length q"
      using room1 by (simp_all add: min_def order_less_le_trans [of 0 "length q"])
    have stop: "genpool_send_loop wait q (length q) 0 b d = Some (b, d)" for d
      by (subst genpool_send_loop.simps) simp
    have "genpool_send_loop wait q 0 (length q) b (dev\<lparr>tx_pipe := p1\<rparr>)
        = Some (b, qrtr_genpool_signal_xfer (dev\<lparr>tx_pipe := p2\<rparr>))"
      using ne p2(1) by (subst genpool_send_loop.simps) (simp add: m stop)
    then show ?thesis using that p2 by (simp add: qrtr_genpool_signal_xfer_def)
  qed
  have "qrtr_genpool_send wait 0 q b dev = Some (0, b, qrtr_genpool_clr_tx_notify d2)"
    unfolding qrtr_genpool_send_def hdr using d2(1) by simp
  then show ?thesis using d2(2,3) p1(3) by (simp add: clr_notify_keeps frame_def)
qed

text \<open>
  C14 (refinement). The transport is a queue of packets. The receiver may be idle or in the middle of a
  packet, and the pipe may hold the rest of that packet and further whole frames. When a sender with
  room for it sends a packet, the send returns 0, and the next run of the receive handler returns, empties
  the pipe and hands to the router the pending packet, the queued ones and the new one, in order.
\<close>

theorem genpool_transfer:
  assumes "pipe_ok (rx_pipe rx)" and "rx_state (ring rx) s" and "rx_pipe rx = tx_pipe tx"
    and "contents (rx_pipe rx) = rest_of s @ concat (map frame qs)"
    and "\<forall>p\<in>set (qs @ [q]). length p < 65536"
    and "length q + 4 \<le> qrtr_genpool_tx_avail (tx_pipe tx)"
  shows "\<exists>tx' rx'. qrtr_genpool_send wait 0 q b tx = Some (0, b, tx')
    \<and> qrtr_genpool_read (rx\<lparr>rx_pipe := tx_pipe tx'\<rparr>) = Some rx'
    \<and> contents (rx_pipe rx') = [] \<and> rx_state (ring rx') None
    \<and> posted rx' = posted rx @ pending s @ qs @ [q]"
proof -
  obtain tx' where s: "qrtr_genpool_send wait 0 q b tx = Some (0, b, tx')" "pipe_ok (tx_pipe tx')"
    "contents (tx_pipe tx') = contents (tx_pipe tx) @ frame q"
    using genpool_send_frame [of tx q wait b] assms(1,3,6) by auto
  have "after (rx\<lparr>rx_pipe := tx_pipe tx'\<rparr>) (rest_of s @ concat (map frame (qs @ [q])) @ begun None) s (posted rx)"
    unfolding after_def using s(2,3) assms(2,4) unfolding assms(3) by simp
  from genpool_read_stream [OF this assms(5)]
  obtain rx' where "qrtr_genpool_read (rx\<lparr>rx_pipe := tx_pipe tx'\<rparr>) = Some rx'" "after rx' [] None (posted rx @ pending s @ qs @ [q])"
    unfolding begun_ok.simps by blast
  then show ?thesis using s(1) unfolding after_def by blast
qed

theorem genpool_transfer_witness:
  "\<exists>tx' rx'.
     (let p = \<lparr>pipe_tail = 60, pipe_head = 61, pipe_read_notify = 0, pipe_fifo = replicate 60 0 @ [9, 0, 0, 0], pipe_length = 64\<rparr>;
          rx = genpool_fresh\<lparr>rx_pipe := p, ring := \<lparr>ring_buf = [7, 8] @ replicate 65534 0, ring_len = 3, ring_offset = 2\<rparr>\<rparr>;
          tx = genpool_fresh\<lparr>tx_pipe := p\<rparr>
      in qrtr_genpool_send (\<lambda>b p. (b, p)) 0 [1, 2, 3, 4, 5] () tx = Some (0, (), tx')
       \<and> qrtr_genpool_read (rx\<lparr>rx_pipe := tx_pipe tx'\<rparr>) = Some rx'
       \<and> posted rx' = [[7, 8, 9], [1, 2, 3, 4, 5]])"
proof -
  let ?p = "\<lparr>pipe_tail = 60, pipe_head = 61, pipe_read_notify = 0, pipe_fifo = replicate 60 0 @ [9, 0, 0, 0], pipe_length = 64\<rparr>"
  let ?rx = "genpool_fresh\<lparr>rx_pipe := ?p, ring := \<lparr>ring_buf = [7, 8] @ replicate 65534 0, ring_len = 3, ring_offset = 2\<rparr>\<rparr>"
  let ?tx = "genpool_fresh\<lparr>tx_pipe := ?p\<rparr>"
  have c: "contents ?p = [9]" by (simp add: contents_def pipe_used_def nth_append)
  have ok: "pipe_ok ?p" by (simp add: pipe_ok_def)
  have av: "length [1, 2, 3, 4, 5 :: byte] + 4 \<le> qrtr_genpool_tx_avail ?p"
    by (simp add: genpool_tx_avail_ok [OF ok] pipe_used_def)
  show ?thesis
    using genpool_transfer [of ?rx "Some (2, [7, 8, 9])" ?tx "[]" "[1, 2, 3, 4, 5]" "\<lambda>b p. (b, p)" "()"] c ok av
    by (simp add: genpool_fresh_def Let_def) blast
qed

section \<open>Where it fails\<close>

text \<open>
  C36 (error). The header is written before the data and is visible on its own. A receive handler that
  runs between the two takes the header and stays at offset 0, so it forgets the header: when the data
  arrives, the first four bytes of the packet are taken for a header. The version-1 packets of the router
  begin with the bytes 1 and 0, and then a packet of one byte, the fifth of the message, is handed on.
\<close>

theorem genpool_header_alone_lost:
  assumes "pipe_ok (rx_pipe dev)" and "contents (rx_pipe dev) = genpool_hdr_bytes (length q)"
    and "rx_state (ring dev) None" and "5 \<le> length q" and "length q < 65536" and "le16_at q 0 = 1"
  shows "\<exists>d. qrtr_genpool_read dev = Some d \<and> posted d = posted dev
    \<and> (\<forall>p. pipe_ok p \<and> contents p = q \<longrightarrow>
         (\<exists>d'. genpool_read_round (d\<lparr>rx_pipe := p\<rparr>) = Some d' \<and> posted d' = posted dev @ [[q ! 4]]))"
proof -
  let ?h = "genpool_hdr_bytes (length q)"
  have c: "contents (rx_pipe dev) = ?h @ []" and b: "length (ring_buf (ring dev)) = MAX_PKT_SZ" "ring_offset (ring dev) = 0"
    using assms(2,3) by simp_all
  have q0: "\<not> length q \<le> length ([] :: byte list)" using assms(4) by auto
  obtain p buf where r: "qrtr_genpool_read_new dev = Some (dev\<lparr>rx_pipe := p, ring := \<lparr>ring_buf = buf, ring_len = length q, ring_offset = 0\<rparr>\<rparr>)"
    and p: "pipe_ok p" "contents p = []" "length buf = MAX_PKT_SZ"
    using genpool_read_new_eq [OF assms(1) c length_genpool_hdr b(1)] q0
    unfolding hdr_len_value [OF assms(5)] by auto
  obtain d where d: "genpool_read_round dev = Some d" "after d [] None (posted dev)"
    unfolding genpool_read_round_def using r p b(2) that after_signal
    by (simp add: after_def)
  have a: "after dev ?h None (posted dev)" using assms(1-3) by (simp add: after_def)
  have ne: "?h \<noteq> []" by (metis length_genpool_hdr list.size(3) zero_neq_numeral)
  have read: "qrtr_genpool_read dev = Some d" using genpool_read_step [OF a ne d(1)] genpool_read_stop [OF d(2)] by simp
  have "\<exists>d'. genpool_read_round (d\<lparr>rx_pipe := p\<rparr>) = Some d' \<and> posted d' = posted dev @ [[q ! 4]]"
    if p: "pipe_ok p" "contents p = q" for p
  proof -
    let ?d = "d\<lparr>rx_pipe := p\<rparr>"
    have q: "contents (rx_pipe ?d) = take 4 q @ drop 4 q" "length (take 4 q) = 4" using p(2) assms(4) by simp_all
    have l: "le16_at (take 4 q) 0 = 1" using assms(6) by (simp add: le16_at_def)
    have t: "take 1 (drop 4 q) = [q ! 4]" "1 \<le> length (drop 4 q)" using assms(4) by (simp_all add: take_Suc_conv_app_nth)
    have rd: "length (ring_buf (ring ?d)) = MAX_PKT_SZ" "pipe_ok (rx_pipe ?d)" "ring_offset (ring ?d) = 0" "posted ?d = posted dev"
      using d(2) p(1) by (simp_all add: after_def)
    from genpool_read_new_eq [OF rd(2) q rd(1)] obtain p' buf' where
      "qrtr_genpool_read_new ?d = Some (?d\<lparr>rx_pipe := p', ring := (ring ?d)\<lparr>ring_buf := buf'\<rparr>, posted := posted ?d @ [[q ! 4]]\<rparr>)"
      unfolding l t(1) using t(2) by auto
    then show ?thesis unfolding genpool_read_round_def using rd by simp
  qed
  with read d(2) show ?thesis by (auto simp: after_def)
qed

theorem genpool_header_alone_lost_witness:
  "\<exists>d. qrtr_genpool_read (genpool_fresh\<lparr>rx_pipe := \<lparr>pipe_tail = 0, pipe_head = 4, pipe_read_notify = 0,
       pipe_fifo = [6, 0, 173, 222] @ replicate 60 0, pipe_length = 64\<rparr>\<rparr>) = Some d
     \<and> (\<exists>d'. genpool_read_round (d\<lparr>rx_pipe := \<lparr>pipe_tail = 4, pipe_head = 10, pipe_read_notify = 0,
          pipe_fifo = [6, 0, 173, 222, 1, 0, 0, 0, 99, 0] @ replicate 54 0, pipe_length = 64\<rparr>\<rparr>) = Some d'
          \<and> posted d' = [[99]])"
proof -
  let ?p = "\<lparr>pipe_tail = 0, pipe_head = 4, pipe_read_notify = 0, pipe_fifo = [6, 0, 173, 222] @ replicate 60 0, pipe_length = 64\<rparr>"
  let ?p' = "\<lparr>pipe_tail = 4, pipe_head = 10, pipe_read_notify = 0,
    pipe_fifo = [6, 0, 173, 222, 1, 0, 0, 0, 99, 0] @ replicate 54 0, pipe_length = 64\<rparr>"
  let ?q = "[1, 0, 0, 0, 99, 0] :: byte list"
  have ok: "pipe_ok ?p" "pipe_ok ?p'" by (simp_all add: pipe_ok_def)
  have c: "contents ?p = genpool_hdr_bytes (length ?q)"
    by (simp add: contents_def pipe_used_def genpool_hdr_bytes_def le16_bytes_def upt_rec u16_def)
  have c': "contents ?p' = ?q" by (simp add: contents_def pipe_used_def upt_rec)
  have l: "le16_at ?q 0 = 1" by (simp add: le16_at_def)
  show ?thesis
    using genpool_header_alone_lost [of "genpool_fresh\<lparr>rx_pipe := ?p\<rparr>" ?q] ok c c' l
    by (auto simp: genpool_fresh_def Let_def)
qed

text \<open>
  Faults of the life cycle. The reboot notifier of a device whose set-up work has not run
  yet writes the state word through a null base. So does the notifier after a set-up that could not
  allocate the memory, and a later set-up that succeeds still leaves the transfer interrupt disabled once.
  The removal frees the buffer of a started device whose interrupt is still requested: a frame that
  arrives is copied into freed memory.
\<close>

theorem genpool_lifecycle_faults:
  assumes "state dev = LOCAL_STATE_START" and "pipe_ok (rx_pipe dev)" and "ring_offset (ring dev) = 0"
    and "contents (rx_pipe dev) = frame q" and "q \<noteq> []" and "length q < 65536"
  shows "qrtr_genpool_reboot_cb waited genpool_fresh = None
    \<and> (\<exists>d1 d2. qrtr_genpool_setup_work False reg f0 f1 dev = Some d1
        \<and> qrtr_genpool_reboot_cb waited d1 = None
        \<and> qrtr_genpool_setup_work True 0 f0 f1 d1 = Some d2
        \<and> state d2 = LOCAL_STATE_START \<and> ep_registered d2 \<and> irq_depth d2 = Suc (irq_depth dev))
    \<and> qrtr_genpool_xfer_intr (snd (qrtr_genpool_remove dev)) = None"
proof (intro conjI)
  note lifecycle = qrtr_genpool_reboot_cb_def qrtr_genpool_set_state_def qrtr_genpool_setup_work_def genpool_setup_to_def
    qrtr_genpool_memory_alloc_def genpool_teardown_def qrtr_genpool_memory_free_def qrtr_genpool_fifo_init_def
    qrtr_genpool_signal_setup_def
  show "qrtr_genpool_reboot_cb waited genpool_fresh = None"
    by (simp add: lifecycle genpool_fresh_def Let_def)
  show "\<exists>d1 d2. qrtr_genpool_setup_work False reg f0 f1 dev = Some d1
        \<and> qrtr_genpool_reboot_cb waited d1 = None
        \<and> qrtr_genpool_setup_work True 0 f0 f1 d1 = Some d2
        \<and> state d2 = LOCAL_STATE_START \<and> ep_registered d2 \<and> irq_depth d2 = Suc (irq_depth dev)"
    by (simp add: lifecycle Let_def assms(1))
  let ?d = "dev\<lparr>ring := (ring dev)\<lparr>ring_buf := []\<rparr>\<rparr>"
  have av: "qrtr_genpool_rx_avail (rx_pipe dev) \<noteq> 0"
    using gp.rx_avail [OF assms(2)] assms(4) by (simp add: frame_def)
  have hdr: "qrtr_genpool_rx_peak (rx_pipe dev) (replicate 4 0) 0 0 4 = Some (genpool_hdr_bytes (length q))"
    using gp.peek [OF assms(2), of 4 0 "replicate 4 0"] assms(4) by (simp add: wr_def frame_def del: length_contents)
  define p1 where "p1 = qrtr_genpool_rx_advance (rx_pipe dev) 4"
  have p1: "pipe_ok p1" "contents p1 = q" using gp.advance [OF assms(2), of 4] assms(4) by (simp_all add: p1_def frame_def del: length_contents)
  have n: "min (qrtr_genpool_rx_avail p1) (length q) = length q" using gp.rx_avail [OF p1(1)] p1(2) by simp
  have "qrtr_genpool_rx_peak p1 [] 0 0 (length q) = None"
    using gp.peek [OF p1(1), of "length q" 0 "[]"] p1(2) assms(5) by (simp add: wr_def del: length_contents)
  then have "qrtr_genpool_read_new ?d = None"
    using hdr assms(6) by (simp add: qrtr_genpool_read_new_def Let_def hdr_len_value p1_def [symmetric] n)
  then show "qrtr_genpool_xfer_intr (snd (qrtr_genpool_remove dev)) = None"
    using av assms(1,3) by (subst qrtr_genpool_xfer_intr_def, subst qrtr_genpool_read.simps)
      (simp add: qrtr_genpool_remove_def genpool_read_round_def)
qed

theorem genpool_lifecycle_faults_witness:
  "let p = \<lparr>pipe_tail = 0, pipe_head = 5, pipe_read_notify = 0, pipe_fifo = [1, 0, 173, 222, 42] @ replicate 59 0, pipe_length = 64\<rparr>;
       dev = genpool_fresh\<lparr>rx_pipe := p, state := LOCAL_STATE_START, base := Some LOCAL_STATE_START, ep_registered := True\<rparr>
   in (\<exists>d1. qrtr_genpool_setup_work False 0 [] [] dev = Some d1 \<and> qrtr_genpool_reboot_cb Some d1 = None)
      \<and> qrtr_genpool_xfer_intr (snd (qrtr_genpool_remove dev)) = None"
proof -
  let ?p = "\<lparr>pipe_tail = 0, pipe_head = 5, pipe_read_notify = 0, pipe_fifo = [1, 0, 173, 222, 42] @ replicate 59 0, pipe_length = 64\<rparr>"
  let ?dev = "genpool_fresh\<lparr>rx_pipe := ?p, state := LOCAL_STATE_START, base := Some LOCAL_STATE_START, ep_registered := True\<rparr>"
  have ok: "pipe_ok ?p" by (simp add: pipe_ok_def)
  have c: "contents ?p = frame [42]"
    by (simp add: contents_def pipe_used_def frame_def genpool_hdr_bytes_def le16_bytes_def upt_rec u16_def)
  show ?thesis
    using genpool_lifecycle_faults [of ?dev "[42]" Some 0 "[]" "[]"] ok c unfolding Let_def
    by (simp add: genpool_fresh_def Let_def) blast
qed

text \<open>
  The two mailbox channels are requested in turn and never freed: when the second one is not there yet,
  the probe fails with the first one still held.
\<close>

lemma genpool_probe_keeps_channel:
  assumes "gpe_kzalloc e" and "gpe_vzalloc e" and "qrtr_genpool_memory_init e = 0" and "gpe_notifier e = 0"
    and "0 \<le> gpe_setup_chan e" and "gpe_xfer_chan e = - EPROBE_DEFER"
  shows "qrtr_genpool_probe e = (- EPROBE_DEFER, None, [Setup_chan])"
  using assms by (simp add: qrtr_genpool_probe_def qrtr_genpool_mbox_init_def)

end
