(* ===== verification/Qrtr_Router.thy ===== *)
theory Qrtr_Router
  imports Qrtr_Packet
begin

text \<open>
  The core of the IPC router (\<^verbatim>\<open>net/qrtr/af_qrtr.c\<close>): nodes with their flow control and reference
  counts, ports, and the ways a packet leaves for a local socket, a node or all nodes. Nodes and sockets
  are named by numbers that stand for their addresses. The locks are not modelled, except for the reader
  count of the semaphore that guards the list of endpoints.
\<close>

section \<open>State\<close>

abbreviation (input) QRTR_EP_NID_AUTO :: nat where "QRTR_EP_NID_AUTO \<equiv> 4294967295"
abbreviation (input) QRTR_DEL_PROC_MAGIC :: nat where "QRTR_DEL_PROC_MAGIC \<equiv> 57617"
abbreviation (input) QRTR_TX_FLOW_HIGH :: nat where "QRTR_TX_FLOW_HIGH \<equiv> 10"
abbreviation (input) QRTR_TX_FLOW_LOW :: nat where "QRTR_TX_FLOW_LOW \<equiv> 5"
abbreviation (input) QRTR_BACKUP_HI_NUM :: nat where "QRTR_BACKUP_HI_NUM \<equiv> 5"
abbreviation (input) QRTR_BACKUP_HI_SIZE :: nat where "QRTR_BACKUP_HI_SIZE \<equiv> 16384"
abbreviation (input) QRTR_BACKUP_LO_NUM :: nat where "QRTR_BACKUP_LO_NUM \<equiv> 20"
abbreviation (input) QRTR_BACKUP_LO_SIZE :: nat where "QRTR_BACKUP_LO_SIZE \<equiv> 1024"

text \<open>
  A socket buffer: control block, data, how many bytes of the data are in fragments, the sizes of the fragments, and the
  socket that owns it.
\<close>

record skb =
  skb_cb :: qrtr_cb
  skb_data :: "byte list"
  skb_data_len :: nat
  skb_frags :: "nat list"
  skb_sk :: "nat option"

record qrtr_tx_flow =
  fl_pending :: nat
  fl_tx_failed :: bool
  fl_waiters :: "nat list"

text \<open>
  \<open>n_ep\<close> is the endpoint being attached; \<open>n_read_data\<close> and \<open>n_say_hello\<close> are the two work items being
  queued; \<open>n_wakeups\<close> counts the wake-up events.
\<close>

record qrtr_node =
  n_ep :: bool
  n_ref :: nat
  n_nid :: nat
  n_net_id :: nat
  n_hello_sent :: nat
  n_hello_rcvd :: nat
  n_tx_flow :: "nat \<rightharpoonup> qrtr_tx_flow"
  n_rx_queue :: "skb list"
  n_no_wake_svc :: "int list"
  n_read_data :: bool
  n_say_hello :: bool
  n_wakeups :: nat

record qrtr_sock =
  s_us :: sockaddr_qrtr
  s_peer :: sockaddr_qrtr
  s_state :: int
  s_signal_on_recv :: bool
  s_zapped :: bool
  s_dead :: bool
  s_err :: int
  s_established :: bool
  s_connected :: bool
  s_shutdown :: nat
  s_rcv :: "skb list"

text \<open>
  \<open>rt_nodes\<close> is the tree of node identifiers and \<open>rt_ports\<close> the array of ports, in ascending order.
  \<open>rt_stuck\<close> holds when a writer waits for the endpoint semaphore while no reader is left to give it up.
  \<open>rt_threads\<close> lists the worker threads, \<open>rt_sent\<close> the packets given to the endpoint of a node with the result.
\<close>

record router =
  rt_local_nid :: nat
  rt_nodes :: "(nat \<times> nat) list"
  rt_all_epts :: "nat list"
  rt_epts_readers :: nat
  rt_stuck :: bool
  rt_node :: "nat \<Rightarrow> qrtr_node"
  rt_threads :: "nat list"
  rt_ports :: "(nat \<times> nat) list"
  rt_ports_next :: nat
  rt_sock :: "nat \<Rightarrow> qrtr_sock"
  rt_backup_lo :: nat
  rt_backup_hi :: nat
  rt_backup_work :: bool
  rt_sent :: "(nat \<times> byte list \<times> int) list"
  rt_tick :: nat

text \<open>
  What the rest of the kernel answers, by the number of the question: results of \<^verbatim>\<open>xmit\<close>, of padding a linear buffer,
  allocating, inserting, queueing to a socket and copying from and to the user; the sizes of the fragments allocated for a number of
  bytes, and \<^verbatim>\<open>SKB_MAX_ALLOC\<close>; the results of the attempts to
  queue to the control port before one succeeds; and what happens while a thread waits for space in
  the control port, for a flow to resume, or for the worker of a node to finish.
\<close>

record env =
  e_xmit :: "nat \<Rightarrow> int"
  e_pad :: "nat \<Rightarrow> int"
  e_alloc :: "nat \<Rightarrow> bool"
  e_frags :: "nat \<Rightarrow> nat \<Rightarrow> nat list"
  e_max_alloc :: nat
  e_insert :: "nat \<Rightarrow> int"
  e_queue :: "nat \<Rightarrow> int"
  e_copy :: "nat \<Rightarrow> int"
  e_ctrl :: "nat \<Rightarrow> int list"
  e_ctrl_wait :: "nat \<Rightarrow> router \<Rightarrow> router"
  e_tx_wait :: "nat \<Rightarrow> nat \<Rightarrow> router \<Rightarrow> int \<times> router"
  e_flush :: "nat \<Rightarrow> router \<Rightarrow> router"
  e_alloc_cyclic :: "(nat \<times> nat) list \<Rightarrow> nat \<Rightarrow> int \<times> nat \<times> nat"
  e_capable :: bool
  e_service :: "nat \<Rightarrow> nat \<Rightarrow> int"
  e_junk :: "nat \<Rightarrow> byte"
  e_stack :: qrtr_ctrl_pkt

definition tick :: "router \<Rightarrow> router" where
  "tick r = r\<lparr>rt_tick := Suc (rt_tick r)\<rparr>"

definition set_node :: "nat \<Rightarrow> (qrtr_node \<Rightarrow> qrtr_node) \<Rightarrow> router \<Rightarrow> router" where
  "set_node h f r = r\<lparr>rt_node := (rt_node r)(h := f (rt_node r h))\<rparr>"

definition set_sock :: "nat \<Rightarrow> (qrtr_sock \<Rightarrow> qrtr_sock) \<Rightarrow> router \<Rightarrow> router" where
  "set_sock s f r = r\<lparr>rt_sock := (rt_sock r)(s := f (rt_sock r s))\<rparr>"

definition zero_cb :: qrtr_cb where
  "zero_cb = \<lparr>cb_src_node = 0, cb_src_port = 0, cb_dst_node = 0, cb_dst_port = 0, cb_type = 0, cb_confirm_rx = False\<rparr>"

section \<open>Local delivery\<close>

text \<open>The control port is stored at index 0.\<close>

definition port_index :: "nat \<Rightarrow> nat" where
  "port_index port = (if port = QRTR_PORT_CTRL then 0 else port)"

definition qrtr_port_lookup :: "router \<Rightarrow> nat \<Rightarrow> nat option" where
  "qrtr_port_lookup r port = map_of (rt_ports r) (port_index port)"

definition sock_append :: "nat \<Rightarrow> skb \<Rightarrow> router \<Rightarrow> router" where
  "sock_append s b = set_sock s (\<lambda>k. k\<lparr>s_rcv := s_rcv k @ [b]\<rparr>)"

definition sock_queue_rcv_skb :: "env \<Rightarrow> nat \<Rightarrow> skb \<Rightarrow> router \<Rightarrow> int \<times> router" where
  "sock_queue_rcv_skb e s b r =
     (let rc = e_queue e (rt_tick r) in
      if rc = 0 then (0, sock_append s b (tick r)) else (rc, tick r))"

fun queue_ctrl_loop :: "env \<Rightarrow> nat \<Rightarrow> int list \<Rightarrow> skb \<Rightarrow> router \<Rightarrow> int \<times> router" where
  "queue_ctrl_loop e s [] b r = (0, sock_append s b r)"
| "queue_ctrl_loop e s (rc # rcs) b r =
     (if rc = - ENOMEM \<or> rc = - ENOBUFS
      then queue_ctrl_loop e s rcs b (e_ctrl_wait e s (set_sock s (\<lambda>k. k\<lparr>s_signal_on_recv := True\<rparr>) r))
      else if rc = 0 then (0, sock_append s b r)
      else (rc, r))"

definition qrtr_sock_queue_ctrl_skb :: "env \<Rightarrow> nat \<Rightarrow> skb \<Rightarrow> router \<Rightarrow> int \<times> router" where
  "qrtr_sock_queue_ctrl_skb e s b r = queue_ctrl_loop e s (e_ctrl e (rt_tick r)) b (tick r)"

definition queue_to_port :: "env \<Rightarrow> nat \<Rightarrow> skb \<Rightarrow> router \<Rightarrow> int \<times> router" where
  "queue_to_port e s b r =
     (if sq_port (s_us (rt_sock r s)) = QRTR_PORT_CTRL then qrtr_sock_queue_ctrl_skb e s b r
      else sock_queue_rcv_skb e s b r)"

definition qrtr_local_enqueue :: "env \<Rightarrow> skb \<Rightarrow> sockaddr_qrtr \<Rightarrow> sockaddr_qrtr \<Rightarrow> router \<Rightarrow> int \<times> router" where
  "qrtr_local_enqueue e b from to r =
     (case qrtr_port_lookup r (sq_port to) of
        None \<Rightarrow> (- ENODEV, r)
      | Some s \<Rightarrow>
          if skb_sk b = Some s then (- ENODEV, r)
          else if (case skb_sk b of None \<Rightarrow> False | Some k \<Rightarrow> s_err (rt_sock r k) = ENETRESET) then (0, r)
          else
            let b' = b\<lparr>skb_cb := (skb_cb b)\<lparr>cb_src_node := sq_node from, cb_src_port := sq_port from\<rparr>\<rparr>;
                (rc, r1) = queue_to_port e s b' r
            in (if rc \<noteq> 0 then - ENOSPC else 0, r1))"

section \<open>Nodes\<close>

definition qrtr_node_acquire :: "nat \<Rightarrow> router \<Rightarrow> router" where
  "qrtr_node_acquire h = set_node h (\<lambda>n. n\<lparr>n_ref := Suc (n_ref n)\<rparr>)"

definition qrtr_node_lookup :: "nat \<Rightarrow> router \<Rightarrow> nat option \<times> router" where
  "qrtr_node_lookup nid r =
     (case map_of (rt_nodes r) nid of None \<Rightarrow> (None, r) | Some h \<Rightarrow> (Some h, qrtr_node_acquire h r))"

text \<open>The release of the last reference: \<^verbatim>\<open>__qrtr_node_release\<close>.\<close>

definition qrtr_node_free :: "env \<Rightarrow> nat \<Rightarrow> router \<Rightarrow> router" where
  "qrtr_node_free e h r =
     (let r1 = r\<lparr>rt_nodes := filter (\<lambda>(k, g). g \<noteq> h) (rt_nodes r), rt_all_epts := filter (\<lambda>g. g \<noteq> h) (rt_all_epts r)\<rparr>;
          r2 = e_flush e h r1
      in set_node h (\<lambda>n. n\<lparr>n_ref := 0, n_rx_queue := [], n_no_wake_svc := [], n_tx_flow := Map.empty\<rparr>)
           (r2\<lparr>rt_threads := filter (\<lambda>g. g \<noteq> h) (rt_threads r2)\<rparr>))"

definition qrtr_node_release :: "env \<Rightarrow> nat option \<Rightarrow> router \<Rightarrow> router" where
  "qrtr_node_release e ho r =
     (case ho of
        None \<Rightarrow> r
      | Some h \<Rightarrow>
          if n_ref (rt_node r h) \<noteq> 1 then set_node h (\<lambda>n. n\<lparr>n_ref := n_ref n - 1\<rparr>) r
          else if rt_epts_readers r \<noteq> 0 then r\<lparr>rt_stuck := True\<rparr>
          else qrtr_node_free e h r)"

text \<open>The result of the insertion into the tree is not looked at.\<close>

definition qrtr_node_assign :: "env \<Rightarrow> nat \<Rightarrow> nat \<Rightarrow> router \<Rightarrow> router" where
  "qrtr_node_assign e h nid r =
     (if nid = n_nid (rt_node r h) \<or> nid = QRTR_EP_NID_AUTO then r
      else
        let r1 = (case map_of (rt_nodes r) nid of
                    None \<Rightarrow> if e_insert e (rt_tick r) = 0 then (tick r)\<lparr>rt_nodes := insort_key fst (nid, h) (rt_nodes r)\<rparr>
                            else tick r
                  | Some _ \<Rightarrow> r)
        in if n_nid (rt_node r1 h) = QRTR_EP_NID_AUTO then set_node h (\<lambda>n. n\<lparr>n_nid := nid\<rparr>) r1 else r1)"

section \<open>Flow control\<close>

definition flow_key :: "nat \<Rightarrow> nat \<Rightarrow> nat" where
  "flow_key node port = node * 2 ^ 32 + port"

definition set_flow :: "nat \<Rightarrow> nat \<Rightarrow> (qrtr_tx_flow \<Rightarrow> qrtr_tx_flow) \<Rightarrow> router \<Rightarrow> router" where
  "set_flow h key f = set_node h (\<lambda>n. n\<lparr>n_tx_flow := (n_tx_flow n)(key := map_option f (n_tx_flow n key))\<rparr>)"

text \<open>Every waiter of a flow gets an empty message from the port that resumed.\<close>

fun notify_waiters :: "env \<Rightarrow> sockaddr_qrtr \<Rightarrow> nat list \<Rightarrow> router \<Rightarrow> router" where
  "notify_waiters e src [] r = r"
| "notify_waiters e src (w # ws) r =
     notify_waiters e src ws
       (if e_alloc e (rt_tick r)
        then snd (qrtr_local_enqueue e \<lparr>skb_cb = zero_cb, skb_data = [], skb_data_len = 0, skb_frags = [], skb_sk = None\<rparr> src (s_us (rt_sock r w)) (tick r))
        else tick r)"

text \<open>The first result tells whether the packet was freed.\<close>

definition qrtr_tx_resume :: "env \<Rightarrow> nat \<Rightarrow> skb \<Rightarrow> router \<Rightarrow> bool \<times> router" where
  "qrtr_tx_resume e h b r =
     (let pkt = (if length (skb_data b) < ctrl_pkt_size then zero_pkt else ctrl_pkt_of (skb_data b)) in
      if pkt_cmd pkt \<noteq> QRTR_TYPE_RESUME_TX then (False, r)
      else
        let src = \<lparr>sq_family = AF_QIPCRTR, sq_node = client_node pkt, sq_port = client_port pkt\<rparr>;
            key = flow_key (sq_node src) (sq_port src)
        in case n_tx_flow (rt_node r h) key of
             None \<Rightarrow> (False, r)
           | Some f \<Rightarrow>
               (True, notify_waiters e src (fl_waiters f)
                        (set_flow h key (\<lambda>f. f\<lparr>fl_pending := 0, fl_waiters := []\<rparr>) r)))"

definition new_flow :: qrtr_tx_flow where
  "new_flow = \<lparr>fl_pending = 0, fl_tx_failed = False, fl_waiters = []\<rparr>"

definition find_flow :: "env \<Rightarrow> nat \<Rightarrow> nat \<Rightarrow> router \<Rightarrow> bool \<times> router" where
  "find_flow e h key r =
     (case n_tx_flow (rt_node r h) key of
        Some _ \<Rightarrow> (True, r)
      | None \<Rightarrow>
          if \<not> e_alloc e (rt_tick r) then (False, tick r)
          else if e_insert e (rt_tick (tick r)) \<noteq> 0 then (False, tick (tick r))
          else (True, set_node h (\<lambda>n. n\<lparr>n_tx_flow := (n_tx_flow n)(key \<mapsto> new_flow)\<rparr>) (tick (tick r))))"

definition flow_ready :: "qrtr_node \<Rightarrow> nat \<Rightarrow> bool" where
  "flow_ready n key \<longleftrightarrow> (case n_tx_flow n key of
     None \<Rightarrow> True | Some f \<Rightarrow> fl_pending f < QRTR_TX_FLOW_HIGH \<or> fl_tx_failed f \<or> \<not> n_ep n)"

text \<open>What a sender does with its flow after waiting with result \<open>ret\<close>, and the value it returns.\<close>

definition flow_take :: "env \<Rightarrow> nat \<Rightarrow> nat \<Rightarrow> nat \<Rightarrow> int \<Rightarrow> router \<Rightarrow> int \<times> router" where
  "flow_take e h key sk ret r =
     (case n_tx_flow (rt_node r h) key of
        None \<Rightarrow> (0, r)
      | Some f \<Rightarrow>
          if ret < 0 then (ret, r)
          else if \<not> n_ep (rt_node r h) then (- EPIPE, r)
          else if fl_tx_failed f then (1, set_flow h key (\<lambda>f. f\<lparr>fl_tx_failed := False\<rparr>) r)
          else if ret = 0 \<and> fl_pending f \<ge> QRTR_TX_FLOW_HIGH then
            if sk \<in> set (fl_waiters f) then (- EAGAIN, r)
            else if \<not> e_alloc e (rt_tick r) then (- ENOMEM, tick r)
            else (- EAGAIN, set_flow h key (\<lambda>f. f\<lparr>fl_waiters := fl_waiters f @ [sk]\<rparr>) (tick r))
          else (of_bool (Suc (fl_pending f) = QRTR_TX_FLOW_LOW),
                set_flow h key (\<lambda>f. f\<lparr>fl_pending := Suc (fl_pending f)\<rparr>) r))"

definition qrtr_tx_wait :: "env \<Rightarrow> nat \<Rightarrow> sockaddr_qrtr \<Rightarrow> nat \<Rightarrow> nat \<Rightarrow> bool \<Rightarrow> router \<Rightarrow> int \<times> router" where
  "qrtr_tx_wait e h to sk type dontwait r =
     (if type \<noteq> QRTR_TYPE_DATA then (0, r)
      else
        let key = flow_key (sq_node to) (sq_port to); (found, r1) = find_flow e h key r in
        if \<not> found then (1, r1)
        else
          let (ret, r2) = (if flow_ready (rt_node r1 h) key then (1, r1)
                           else if dontwait then (0, r1)
                           else e_tx_wait e h key r1)
          in flow_take e h key sk ret r2)"

text \<open>Here the port is a signed \<^verbatim>\<open>int\<close>, and its sign fills the upper half of the key.\<close>

definition failed_key :: "nat \<Rightarrow> nat \<Rightarrow> nat" where
  "failed_key node port = (if s32 (int port) < 0 then flow_key 4294967295 port else flow_key node port)"

definition qrtr_tx_flow_failed :: "nat \<Rightarrow> nat \<Rightarrow> nat \<Rightarrow> router \<Rightarrow> router" where
  "qrtr_tx_flow_failed h node port = set_flow h (failed_key node port) (\<lambda>f. f\<lparr>fl_tx_failed := True\<rparr>)"

section \<open>Delivery to nodes\<close>

text \<open>The padding, and the call of \<^verbatim>\<open>xmit\<close> after it. Padding a scattered buffer always returns 0.\<close>

definition pad_result :: "env \<Rightarrow> skb \<Rightarrow> router \<Rightarrow> int" where
  "pad_result e b r = (if skb_data_len b \<noteq> 0 then 0 else e_pad e (rt_tick r))"

definition skb_packet :: "env \<Rightarrow> qrtr_hdr_v1 \<Rightarrow> skb \<Rightarrow> byte list" where
  "skb_packet e hdr b = padded_packet (e_junk e) hdr (skb_data b) (skb_data_len b) (skb_frags b)"

definition node_xmit :: "env \<Rightarrow> nat \<Rightarrow> int \<Rightarrow> byte list \<Rightarrow> router \<Rightarrow> int \<times> router" where
  "node_xmit e h padded pkt r =
     (if padded \<noteq> 0 then (padded, tick r)
      else if n_ep (rt_node r h) then
        let rc = e_xmit e (rt_tick r) in (rc, (tick r)\<lparr>rt_sent := rt_sent r @ [(h, pkt, rc)]\<rparr>)
      else (- ENODEV, tick r))"

definition qrtr_node_enqueue ::
  "env \<Rightarrow> nat \<Rightarrow> skb \<Rightarrow> nat \<Rightarrow> sockaddr_qrtr \<Rightarrow> sockaddr_qrtr \<Rightarrow> bool \<Rightarrow> router \<Rightarrow> int \<times> router" where
  "qrtr_node_enqueue e h b type from to dontwait r =
     (if n_hello_sent (rt_node r h) = 0 \<and> type \<noteq> QRTR_TYPE_HELLO then (0, r)
      else if n_hello_sent (rt_node r h) \<noteq> 0 \<and> type = QRTR_TYPE_HELLO then (0, r)
      else
        let r1 = (if type = QRTR_TYPE_HELLO then set_node h (\<lambda>n. n\<lparr>n_hello_sent := Suc (n_hello_sent n)\<rparr>) r else r);
            (confirm_rx, r2) = (case skb_sk b of
                None \<Rightarrow> (of_bool (cb_confirm_rx (skb_cb b)), r1)
              | Some sk \<Rightarrow> qrtr_tx_wait e h to sk type dontwait r1)
        in if confirm_rx < 0 then (confirm_rx, r2)
           else
             let hdr = node_hdr (n_nid (rt_node r2 h)) type from to (length (skb_data b)) (confirm_rx \<noteq> 0);
                 (rc, r3) = node_xmit e h (pad_result e b r2) (skb_packet e hdr b) r2;
                 r4 = (if rc \<noteq> 0 \<and> confirm_rx \<noteq> 0 then qrtr_tx_flow_failed h (sq_node to) (sq_port to) r3 else r3);
                 r5 = (if rc \<noteq> 0 \<and> type = QRTR_TYPE_HELLO
                       then set_node h (\<lambda>n. n\<lparr>n_hello_sent := n_hello_sent n - 1, n_say_hello := True\<rparr>) r4 else r4)
             in (rc, r5))"

fun bcast_loop ::
  "env \<Rightarrow> skb \<Rightarrow> nat \<Rightarrow> sockaddr_qrtr \<Rightarrow> sockaddr_qrtr \<Rightarrow> bool \<Rightarrow> nat list \<Rightarrow> router \<Rightarrow> router" where
  "bcast_loop e b type from to dontwait [] r = r"
| "bcast_loop e b type from to dontwait (h # hs) r =
     (if n_nid (rt_node r h) = QRTR_EP_NID_AUTO \<and> type \<noteq> QRTR_TYPE_HELLO
      then bcast_loop e b type from to dontwait hs r
      else if \<not> e_alloc e (rt_tick r) then tick r
      else bcast_loop e b type from to dontwait hs (snd (qrtr_node_enqueue e h b type from to dontwait (tick r))))"

definition qrtr_bcast_enqueue ::
  "env \<Rightarrow> skb \<Rightarrow> nat \<Rightarrow> sockaddr_qrtr \<Rightarrow> sockaddr_qrtr \<Rightarrow> bool \<Rightarrow> router \<Rightarrow> int \<times> router" where
  "qrtr_bcast_enqueue e b type from to dontwait r =
     (let r1 = bcast_loop e b type from to dontwait (rt_all_epts r) r
      in (0, snd (qrtr_local_enqueue e b from to r1)))"

section \<open>Forwarding\<close>

definition qrtr_must_forward :: "router \<Rightarrow> nat option \<Rightarrow> nat option \<Rightarrow> nat \<Rightarrow> bool" where
  "qrtr_must_forward r src dst type =
     (case src of None \<Rightarrow> True
      | Some s \<Rightarrow> case dst of None \<Rightarrow> False
        | Some d \<Rightarrow>
            if type = QRTR_TYPE_HELLO \<or> type = QRTR_TYPE_RESUME_TX then False
            else if d = s \<or> n_nid (rt_node r d) = QRTR_EP_NID_AUTO then False
            else
              let diff = s32 (int (u32_sub (n_net_id (rt_node r d)) (n_net_id (rt_node r s))))
              in (if diff < 0 then s32 (- diff) else diff) > 1)"

fun fwd_ctrl_loop :: "env \<Rightarrow> nat \<Rightarrow> skb \<Rightarrow> nat list \<Rightarrow> router \<Rightarrow> router" where
  "fwd_ctrl_loop e src b [] r = r"
| "fwd_ctrl_loop e src b (h # hs) r =
     (if \<not> qrtr_must_forward r (Some src) (Some h) (cb_type (skb_cb b)) then fwd_ctrl_loop e src b hs r
      else if \<not> e_alloc e (rt_tick r) then tick r
      else
        let from = \<lparr>sq_family = AF_QIPCRTR, sq_node = cb_src_node (skb_cb b), sq_port = cb_src_port (skb_cb b)\<rparr>;
            to = \<lparr>sq_family = AF_QIPCRTR, sq_node = n_nid (rt_node r h), sq_port = QRTR_PORT_CTRL\<rparr>
        in fwd_ctrl_loop e src b hs
             (snd (qrtr_node_enqueue e h (b\<lparr>skb_sk := None\<rparr>) (cb_type (skb_cb b)) from to False (tick r))))"

definition qrtr_fwd_ctrl_pkt :: "env \<Rightarrow> nat \<Rightarrow> skb \<Rightarrow> router \<Rightarrow> router" where
  "qrtr_fwd_ctrl_pkt e src b r = fwd_ctrl_loop e src b (rt_all_epts r) r"

definition qrtr_fwd_pkt :: "env \<Rightarrow> skb \<Rightarrow> router \<Rightarrow> router" where
  "qrtr_fwd_pkt e b r =
     (let cb = skb_cb b;
          from = \<lparr>sq_family = AF_QIPCRTR, sq_node = cb_src_node cb, sq_port = cb_src_port cb\<rparr>;
          to = \<lparr>sq_family = AF_QIPCRTR, sq_node = cb_dst_node cb, sq_port = cb_dst_port cb\<rparr>;
          (ho, r1) = qrtr_node_lookup (cb_dst_node cb) r
      in case ho of None \<Rightarrow> r1
         | Some h \<Rightarrow> qrtr_node_release e ho (snd (qrtr_node_enqueue e h b (cb_type cb) from to False r1)))"

end
