(* ===== verification/Qrtr_Endpoint.thy ===== *)
theory Qrtr_Endpoint
  imports Qrtr_Router
begin

text \<open>
  The side of the IPC router that faces the transports (\<^verbatim>\<open>net/qrtr/af_qrtr.c\<close>): backup buffers,
  incoming packets, the worker of a node, and the registration of endpoints.
\<close>

section \<open>Backup buffers\<close>

text \<open>Allocates up to \<open>n\<close> buffers and stops at the first failure; the result counts them.\<close>

fun fill_backup :: "env \<Rightarrow> nat \<Rightarrow> router \<Rightarrow> nat \<times> router" where
  "fill_backup e 0 r = (0, r)"
| "fill_backup e (Suc n) r =
     (if e_alloc e (rt_tick r) then case fill_backup e n (tick r) of (m, r') \<Rightarrow> (Suc m, r') else (0, tick r))"

definition qrtr_alloc_backup :: "env \<Rightarrow> router \<Rightarrow> router" where
  "qrtr_alloc_backup e r =
     (let (lo, r1) = fill_backup e (QRTR_BACKUP_LO_NUM - rt_backup_lo r) r;
          (hi, r2) = fill_backup e (QRTR_BACKUP_HI_NUM - rt_backup_hi r) r1
      in r2\<lparr>rt_backup_lo := rt_backup_lo r + lo, rt_backup_hi := rt_backup_hi r + hi, rt_backup_work := False\<rparr>)"

definition qrtr_get_backup :: "nat \<Rightarrow> router \<Rightarrow> bool \<times> router" where
  "qrtr_get_backup len r =
     (if len < QRTR_BACKUP_LO_SIZE then
        if rt_backup_lo r = 0 then (False, r)
        else (True, r\<lparr>rt_backup_lo := rt_backup_lo r - 1, rt_backup_work := True\<rparr>)
      else if len < QRTR_BACKUP_HI_SIZE then
        if rt_backup_hi r = 0 then (False, r)
        else (True, r\<lparr>rt_backup_hi := rt_backup_hi r - 1, rt_backup_work := True\<rparr>)
      else (False, r))"

definition qrtr_backup_init :: "router \<Rightarrow> router" where
  "qrtr_backup_init r = r\<lparr>rt_backup_lo := 0, rt_backup_hi := 0, rt_backup_work := True\<rparr>"

definition qrtr_backup_deinit :: "router \<Rightarrow> router" where
  "qrtr_backup_deinit r = r\<lparr>rt_backup_lo := 0, rt_backup_hi := 0, rt_backup_work := False\<rparr>"

section \<open>Incoming packets\<close>

text \<open>The payload is stored in the fragments of the buffer.\<close>

definition post_skb :: "env \<Rightarrow> nat \<Rightarrow> qrtr_cb \<Rightarrow> byte list \<Rightarrow> nat list \<Rightarrow> router \<Rightarrow> int \<times> router" where
  "post_skb e h cb payload frags r =
     (let b = \<lparr>skb_cb = cb, skb_data = payload, skb_data_len = length payload, skb_frags = frags, skb_sk = None\<rparr>;
          r1 = qrtr_node_assign e h (cb_src_node cb) r;
          r2 = (if cb_type cb = QRTR_TYPE_NEW_SERVER then qrtr_node_assign e h (server_node (ctrl_pkt_of payload)) r1 else r1)
      in if cb_type cb \<noteq> QRTR_TYPE_DATA \<or> cb_dst_node cb \<noteq> rt_local_nid r2
         then (0, set_node h (\<lambda>n. n\<lparr>n_rx_queue := n_rx_queue n @ [b], n_read_data := True, n_wakeups := Suc (n_wakeups n)\<rparr>) r2)
         else case qrtr_port_lookup r2 (cb_dst_port cb) of
           None \<Rightarrow> (- ENODEV, r2)
         | Some s \<Rightarrow>
             case sock_queue_rcv_skb e s b r2 of (rc, r3) \<Rightarrow>
               if rc \<noteq> 0 then (- EINVAL, r3)
               else if e_service e (cb_src_node cb) (cb_src_port cb) \<in> set (n_no_wake_svc (rt_node r3 h)) then (0, r3)
               else (0, set_node h (\<lambda>n. n\<lparr>n_wakeups := Suc (n_wakeups n)\<rparr>) r3))"

definition qrtr_endpoint_post :: "env \<Rightarrow> nat \<Rightarrow> byte list \<Rightarrow> router \<Rightarrow> int \<times> router" where
  "qrtr_endpoint_post e h data r =
     (if length data = 0 \<or> length data mod 4 \<noteq> 0 then (- EINVAL, r)
      else
        let (got, r1) = (if e_alloc e (rt_tick r) then (True, tick r) else qrtr_get_backup (length data) (tick r));
            room = (if e_alloc e (rt_tick r) then length data
                    else if length data < QRTR_BACKUP_LO_SIZE then QRTR_BACKUP_LO_SIZE else QRTR_BACKUP_HI_SIZE) in
        if \<not> got then (- ENOMEM, r1)
        else case post_parse data of
          None \<Rightarrow> (- EINVAL, r1)
        | Some (cb, payload) \<Rightarrow> post_skb e h cb payload (e_frags e (rt_tick r) room) r1)"

section \<open>The worker of a node\<close>

definition qrtr_sock_queue_skb :: "env \<Rightarrow> nat \<Rightarrow> skb \<Rightarrow> nat \<Rightarrow> router \<Rightarrow> router" where
  "qrtr_sock_queue_skb e h b s r =
     (if cb_type (skb_cb b) = QRTR_TYPE_HELLO \<and> n_hello_rcvd (rt_node r h) \<noteq> 0 then r
      else
        let r1 = (if cb_type (skb_cb b) = QRTR_TYPE_HELLO
                  then set_node h (\<lambda>n. n\<lparr>n_hello_rcvd := Suc (n_hello_rcvd n)\<rparr>) r else r)
        in snd (queue_to_port e s b r1))"

text \<open>One packet of the receive queue.\<close>

definition node_rx_packet :: "env \<Rightarrow> nat \<Rightarrow> skb \<Rightarrow> router \<Rightarrow> router" where
  "node_rx_packet e h b r =
     (let cb = skb_cb b;
          r1 = (if cb_type cb \<noteq> QRTR_TYPE_DATA then qrtr_fwd_ctrl_pkt e h b r else r)
      in if cb_type cb = QRTR_TYPE_RESUME_TX then
           if cb_dst_node cb \<noteq> rt_local_nid r1 then qrtr_fwd_pkt e b r1
           else snd (qrtr_tx_resume e h b r1)
         else if cb_dst_node cb \<noteq> rt_local_nid r1 \<and> cb_type cb = QRTR_TYPE_DATA then qrtr_fwd_pkt e b r1
         else case qrtr_port_lookup r1 (cb_dst_port cb) of
           None \<Rightarrow> r1
         | Some s \<Rightarrow> qrtr_sock_queue_skb e h b s r1)"

text \<open>A run of the work takes the packets that are there; one that is posted meanwhile queues the work again.\<close>

definition qrtr_node_rx_work :: "env \<Rightarrow> nat \<Rightarrow> router \<Rightarrow> router" where
  "qrtr_node_rx_work e h r =
     fold (node_rx_packet e h) (n_rx_queue (rt_node r h)) (set_node h (\<lambda>n. n\<lparr>n_rx_queue := [], n_read_data := False\<rparr>) r)"

text \<open>Control packets have room for a header and are cleared.\<close>

definition qrtr_alloc_ctrl_packet :: "env \<Rightarrow> router \<Rightarrow> bool \<times> router" where
  "qrtr_alloc_ctrl_packet e r = (e_alloc e (rt_tick r), tick r)"

definition ctrl_skb :: "qrtr_ctrl_pkt \<Rightarrow> nat option \<Rightarrow> skb" where
  "ctrl_skb pkt sk = \<lparr>skb_cb = zero_cb, skb_data = ctrl_pkt_bytes pkt, skb_data_len = 0, skb_frags = [], skb_sk = sk\<rparr>"

definition qrtr_hello_work :: "env \<Rightarrow> nat \<Rightarrow> router \<Rightarrow> router" where
  "qrtr_hello_work e h r0 =
     (let r = set_node h (\<lambda>n. n\<lparr>n_say_hello := False\<rparr>) r0 in
      case qrtr_port_lookup r QRTR_PORT_CTRL of
        None \<Rightarrow> r
      | Some _ \<Rightarrow>
          case qrtr_alloc_ctrl_packet e r of (got, r1) \<Rightarrow>
            if \<not> got then r1
            else
              let from = \<lparr>sq_family = AF_QIPCRTR, sq_node = rt_local_nid r1, sq_port = QRTR_PORT_CTRL\<rparr>;
                  to = \<lparr>sq_family = AF_QIPCRTR, sq_node = n_nid (rt_node r1 h), sq_port = QRTR_PORT_CTRL\<rparr>
              in snd (qrtr_node_enqueue e h (ctrl_skb (zero_pkt\<lparr>pkt_cmd := QRTR_TYPE_HELLO\<rparr>) None) QRTR_TYPE_HELLO
                        from to False r1))"

section \<open>Endpoints\<close>

text \<open>Inserting the services that do not wake the system, up to the first failure.\<close>

fun insert_no_wake :: "env \<Rightarrow> int list \<Rightarrow> int list \<Rightarrow> router \<Rightarrow> int \<times> int list \<times> router" where
  "insert_no_wake e [] done_svcs r = (0, done_svcs, r)"
| "insert_no_wake e (s # ss) done_svcs r =
     (if s \<in> set done_svcs then (- EBUSY, done_svcs, r)
      else if e_insert e (rt_tick r) \<noteq> 0 then (e_insert e (rt_tick r), done_svcs, tick r)
      else insert_no_wake e ss (done_svcs @ [s]) (tick r))"

text \<open>
  Registration of an endpoint with a transmit function or not. \<open>h\<close> is the address of the new node, and
  \<open>thread\<close> tells whether the worker thread could be started. A call that cannot get the semaphore never
  returns; its result is the state it waits in.
\<close>

definition fresh_node :: qrtr_node where
  "fresh_node = \<lparr>n_ep = True, n_ref = 1, n_nid = QRTR_EP_NID_AUTO, n_net_id = 0, n_hello_sent = 0, n_hello_rcvd = 0,
     n_tx_flow = Map.empty, n_rx_queue = [], n_no_wake_svc = [], n_read_data = False, n_say_hello = False, n_wakeups = 0\<rparr>"

definition qrtr_endpoint_register ::
  "env \<Rightarrow> bool \<Rightarrow> bool \<Rightarrow> nat option \<Rightarrow> nat \<Rightarrow> int list \<Rightarrow> router \<Rightarrow> int \<times> router" where
  "qrtr_endpoint_register e has_xmit thread ho net_id no_wake r =
     (if \<not> has_xmit then (- EINVAL, r)
      else case ho of
        None \<Rightarrow> (- ENOMEM, r)
      | Some h \<Rightarrow>
          if \<not> thread then (- ENOMEM, r)
          else
            let r1 = r\<lparr>rt_threads := h # rt_threads r\<rparr>;
                (rc, svcs, r2) = insert_no_wake e no_wake [] r1
            in if rc \<noteq> 0 then (rc, r2)
               else if rt_epts_readers r2 \<noteq> 0 then (0, r2\<lparr>rt_stuck := True\<rparr>)
               else (0, r2\<lparr>rt_node := (rt_node r2)(h := fresh_node\<lparr>n_net_id := net_id, n_no_wake_svc := svcs, n_say_hello := True\<rparr>),
                          rt_all_epts := h # rt_all_epts r2\<rparr>))"

text \<open>The loop returns with the semaphore still held when an allocation fails.\<close>

fun del_proc_loop :: "env \<Rightarrow> nat \<Rightarrow> nat \<Rightarrow> nat list \<Rightarrow> router \<Rightarrow> router" where
  "del_proc_loop e src nid [] r = r\<lparr>rt_epts_readers := rt_epts_readers r - 1\<rparr>"
| "del_proc_loop e src nid (h # hs) r =
     (if \<not> qrtr_must_forward r (Some src) (Some h) QRTR_TYPE_DEL_PROC then del_proc_loop e src nid hs r
      else case qrtr_alloc_ctrl_packet e r of (got, r1) \<Rightarrow>
        if \<not> got then r1
        else
          let pkt = zero_pkt\<lparr>pkt_cmd := QRTR_TYPE_DEL_PROC, pkt_w0 := QRTR_DEL_PROC_MAGIC, pkt_w1 := nid\<rparr>;
              pkt' = pkt\<lparr>pkt_w0 := qrtr_calc_checksum (Some pkt)\<rparr>;
              from = \<lparr>sq_family = AF_QIPCRTR, sq_node = n_nid (rt_node r1 src), sq_port = QRTR_PORT_CTRL\<rparr>;
              to = \<lparr>sq_family = AF_QIPCRTR, sq_node = n_nid (rt_node r1 h), sq_port = QRTR_PORT_CTRL\<rparr>
          in del_proc_loop e src nid hs
               (snd (qrtr_node_enqueue e h (ctrl_skb pkt' None) QRTR_TYPE_DEL_PROC from to False r1)))"

definition qrtr_fwd_del_proc :: "env \<Rightarrow> nat \<Rightarrow> nat \<Rightarrow> router \<Rightarrow> router" where
  "qrtr_fwd_del_proc e src nid r =
     del_proc_loop e src nid (rt_all_epts r) (r\<lparr>rt_epts_readers := Suc (rt_epts_readers r)\<rparr>)"

text \<open>The farewell for every identifier the node is known by.\<close>

fun bye_loop :: "env \<Rightarrow> nat \<Rightarrow> nat list \<Rightarrow> router \<Rightarrow> router" where
  "bye_loop e h [] r = r"
| "bye_loop e h (nid # nids) r =
     (case qrtr_alloc_ctrl_packet e r of (got, r1) \<Rightarrow>
        let src = \<lparr>sq_family = AF_QIPCRTR, sq_node = nid, sq_port = QRTR_PORT_CTRL\<rparr>;
            dst = \<lparr>sq_family = AF_QIPCRTR, sq_node = rt_local_nid r1, sq_port = QRTR_PORT_CTRL\<rparr>;
            r2 = (if got then snd (qrtr_local_enqueue e (ctrl_skb (zero_pkt\<lparr>pkt_cmd := QRTR_TYPE_BYE\<rparr>) None) src dst r1) else r1)
        in bye_loop e h nids (qrtr_fwd_del_proc e h nid r2))"

definition node_ids :: "router \<Rightarrow> nat \<Rightarrow> nat list" where
  "node_ids r h = map fst (filter (\<lambda>(k, g). g = h) (rt_nodes r))"

definition qrtr_endpoint_unregister :: "env \<Rightarrow> nat \<Rightarrow> router \<Rightarrow> router" where
  "qrtr_endpoint_unregister e h r =
     (let r1 = set_node h (\<lambda>n. n\<lparr>n_ep := False\<rparr>) r
      in qrtr_node_release e (Some h) (bye_loop e h (node_ids r1 h) r1))"

end
