(* ===== verification/Qrtr_Socket.thy ===== *)
theory Qrtr_Socket
  imports Qrtr_Endpoint
begin

text \<open>
  The socket interface of the IPC router (\<^verbatim>\<open>net/qrtr/af_qrtr.c\<close>): creating, binding, connecting and
  releasing sockets, sending and receiving, and the control calls.
\<close>

section \<open>Ports\<close>

abbreviation (input) QRTR_MIN_EPH_SOCKET :: nat where "QRTR_MIN_EPH_SOCKET \<equiv> 16384"
abbreviation (input) QRTR_MAX_EPH_SOCKET :: nat where "QRTR_MAX_EPH_SOCKET \<equiv> 32767"
abbreviation (input) QRTR_STATE_MULTI :: int where "QRTR_STATE_MULTI \<equiv> -2"
abbreviation (input) QRTR_STATE_INIT :: int where "QRTR_STATE_INIT \<equiv> -1"

definition qrtr_send_del_client :: "env \<Rightarrow> nat \<Rightarrow> router \<Rightarrow> router" where
  "qrtr_send_del_client e s r0 =
     (case qrtr_alloc_ctrl_packet e r0 of (got, r) \<Rightarrow>
        if \<not> got then r
        else
          let ipc = rt_sock r s;
              to = \<lparr>sq_family = AF_QIPCRTR, sq_node = QRTR_NODE_BCAST, sq_port = QRTR_PORT_CTRL\<rparr>;
              pkt = zero_pkt\<lparr>pkt_cmd := QRTR_TYPE_DEL_CLIENT, pkt_w0 := sq_node (s_us ipc), pkt_w1 := sq_port (s_us ipc)\<rparr>;
              b = ctrl_skb pkt (Some s)
          in if s_state ipc = QRTR_STATE_MULTI
             then snd (qrtr_bcast_enqueue e b QRTR_TYPE_DEL_CLIENT (s_us ipc) to False r)
             else
               let r1 = (if s_state ipc > QRTR_STATE_INIT then
                           case qrtr_node_lookup (nat (s_state ipc)) r of
                             (None, r1) \<Rightarrow> r1
                           | (Some h, r1) \<Rightarrow>
                               if \<not> e_alloc e (rt_tick r1) then qrtr_node_release e (Some h) (tick r1)
                               else qrtr_node_release e (Some h)
                                      (snd (qrtr_node_enqueue e h b QRTR_TYPE_DEL_CLIENT (s_us ipc) to False (tick r1)))
                         else r)
               in snd (qrtr_local_enqueue e b (s_us ipc) to r1))"

definition qrtr_port_remove :: "env \<Rightarrow> nat \<Rightarrow> router \<Rightarrow> router" where
  "qrtr_port_remove e s r =
     (let i = port_index (sq_port (s_us (rt_sock r s))); r1 = qrtr_send_del_client e s r
      in r1\<lparr>rt_ports := filter (\<lambda>(k, _). k \<noteq> i) (rt_ports r1)\<rparr>)"

text \<open>\<^verbatim>\<open>xa_insert\<close>: a taken index is busy.\<close>

definition ports_insert :: "env \<Rightarrow> nat \<Rightarrow> nat \<Rightarrow> router \<Rightarrow> int \<times> router" where
  "ports_insert e i s r =
     (if map_of (rt_ports r) i \<noteq> None then (- EBUSY, r)
      else if e_insert e (rt_tick r) \<noteq> 0 then (e_insert e (rt_tick r), tick r)
      else (0, (tick r)\<lparr>rt_ports := insort_key fst (i, s) (rt_ports r)\<rparr>))"

text \<open>The result is the return value, the port and the state.\<close>

definition qrtr_port_assign :: "env \<Rightarrow> nat \<Rightarrow> nat \<Rightarrow> router \<Rightarrow> int \<times> nat \<times> router" where
  "qrtr_port_assign e s port r =
     (let (rc, port', r1) =
        (if port = 0 then
           case e_alloc_cyclic e (rt_ports r) (rt_ports_next r) of (rc, port_id, next) \<Rightarrow>
             if rc < 0 then (rc, port, r\<lparr>rt_ports_next := next\<rparr>)
             else (rc, port_id, r\<lparr>rt_ports := insort_key fst (port_id, s) (rt_ports r), rt_ports_next := next\<rparr>)
         else if s32 (int port) < int QRTR_MIN_EPH_SOCKET \<and> \<not> e_capable e then (- EACCES, port, r)
         else case ports_insert e (port_index port) s r of (rc, r1) \<Rightarrow> (rc, port, r1))
      in if rc = - EBUSY then (- EADDRINUSE, port', r1)
         else if rc < 0 then (rc, port', r1)
         else (0, port', r1))"

text \<open>Every socket on a port other than the control port gets an error.\<close>

definition qrtr_reset_ports :: "router \<Rightarrow> router" where
  "qrtr_reset_ports r =
     fold (\<lambda>(i, s). set_sock s (\<lambda>k. k\<lparr>s_err := ENETRESET\<rparr>)) (filter (\<lambda>(i, s). i \<noteq> 0) (rt_ports r)) r"

text \<open>\<^verbatim>\<open>__qrtr_bind\<close>.\<close>

definition qrtr_bind_port :: "env \<Rightarrow> nat \<Rightarrow> nat \<Rightarrow> bool \<Rightarrow> router \<Rightarrow> int \<times> router" where
  "qrtr_bind_port e s port zapped r =
     (if \<not> zapped \<and> port = sq_port (s_us (rt_sock r s)) then (0, r)
      else case qrtr_port_assign e s port r of (rc, port', r1) \<Rightarrow>
        if rc \<noteq> 0 then (rc, r1)
        else
          let r2 = (if port' = QRTR_PORT_CTRL then qrtr_reset_ports r1 else r1);
              r3 = (if zapped then r2 else qrtr_port_remove e s r2)
          in (0, set_sock s (\<lambda>k. k\<lparr>s_us := (s_us k)\<lparr>sq_port := port'\<rparr>, s_zapped := False\<rparr>) r3))"

definition qrtr_autobind :: "env \<Rightarrow> nat \<Rightarrow> router \<Rightarrow> int \<times> router" where
  "qrtr_autobind e s r = (if \<not> s_zapped (rt_sock r s) then (0, r) else qrtr_bind_port e s 0 True r)"

definition qrtr_bind :: "env \<Rightarrow> nat \<Rightarrow> sockaddr_qrtr \<Rightarrow> nat \<Rightarrow> router \<Rightarrow> int \<times> router" where
  "qrtr_bind e s addr len r =
     (if len < 12 \<or> sq_family addr \<noteq> AF_QIPCRTR then (- EINVAL, r)
      else if sq_node addr \<noteq> sq_node (s_us (rt_sock r s)) then (- EINVAL, r)
      else qrtr_bind_port e s (sq_port addr) (s_zapped (rt_sock r s)) r)"

section \<open>Sending\<close>

abbreviation (input) PAGE_SIZE :: nat where "PAGE_SIZE \<equiv> 4096"
abbreviation (input) MAX_SKB_FRAGS :: nat where "MAX_SKB_FRAGS \<equiv> 17"

definition is_primary :: "nat \<Rightarrow> bool" where
  "is_primary nid \<longleftrightarrow> nid = 1 \<or> nid = 2"

definition page_align :: "nat \<Rightarrow> nat" where
  "page_align n = (n + (PAGE_SIZE - 1)) div PAGE_SIZE * PAGE_SIZE"

text \<open>
  The buffer for a message of \<open>len\<close> bytes: its length, how many bytes of it are in fragments, and the sizes of these; none when it
  cannot be allocated.
\<close>

definition qrtr_sock_alloc_skb_send :: "env \<Rightarrow> nat \<Rightarrow> router \<Rightarrow> (nat \<times> nat \<times> nat list) option \<times> router" where
  "qrtr_sock_alloc_skb_send e len r =
     (let plen = align4 len; frags = e_frags e (rt_tick r) in
      if \<not> e_alloc e (rt_tick r) then (None, tick r)
      else if is_primary (rt_local_nid r) then
        let data_len = (if plen > e_max_alloc e then min (plen - e_max_alloc e) (MAX_SKB_FRAGS * PAGE_SIZE) else 0);
            pdata_len = page_align data_len
        in (Some (len, data_len, frags pdata_len), tick r)
      else
        let data_len = (if plen > PAGE_SIZE then min (plen - PAGE_SIZE) (MAX_SKB_FRAGS * PAGE_SIZE) else 0);
            pdata_len = page_align data_len; n = (plen - data_len) + pdata_len
        in if data_len \<noteq> 0 then (Some (n, n - hdr_v1_size, frags n), tick r)
           else (Some (len, data_len, frags pdata_len), tick r))"

text \<open>
  A message of the user: flags other than not to wait, whether not to wait, the address with its
  length, and the data.
\<close>

record msghdr =
  msg_other_flags :: bool
  msg_dontwait :: bool
  msg_name :: "(sockaddr_qrtr \<times> nat) option"
  msg_data :: "byte list"

datatype enqueue_fn = To_bcast | To_local | To_node nat

definition call_enqueue ::
  "env \<Rightarrow> enqueue_fn \<Rightarrow> skb \<Rightarrow> nat \<Rightarrow> sockaddr_qrtr \<Rightarrow> sockaddr_qrtr \<Rightarrow> bool \<Rightarrow> router \<Rightarrow> int \<times> router" where
  "call_enqueue e f b type from to dontwait r =
     (case f of To_bcast \<Rightarrow> qrtr_bcast_enqueue e b type from to dontwait r
      | To_local \<Rightarrow> qrtr_local_enqueue e b from to r
      | To_node h \<Rightarrow> qrtr_node_enqueue e h b type from to dontwait r)"

definition fn_node :: "enqueue_fn \<Rightarrow> nat option" where
  "fn_node f = (case f of To_node h \<Rightarrow> Some h | _ \<Rightarrow> None)"

text \<open>The address to send to: the one given, after binding, or the connected one.\<close>

definition send_addr :: "env \<Rightarrow> nat \<Rightarrow> msghdr \<Rightarrow> router \<Rightarrow> (int + sockaddr_qrtr) \<times> router" where
  "send_addr e s msg r =
     (case msg_name msg of
        Some (addr, namelen) \<Rightarrow>
          if namelen < 12 \<or> sq_family addr \<noteq> AF_QIPCRTR then (Inl (- EINVAL), r)
          else (case qrtr_autobind e s r of (rc, r1) \<Rightarrow> if rc \<noteq> 0 then (Inl rc, r1) else (Inr addr, r1))
      | None \<Rightarrow> if s_established (rt_sock r s) then (Inr (s_peer (rt_sock r s)), r) else (Inl (- ENOTCONN), r))"

text \<open>Where to: everywhere, to a local socket, or to a node, which the socket remembers.\<close>

definition choose_fn :: "nat \<Rightarrow> sockaddr_qrtr \<Rightarrow> router \<Rightarrow> (int + enqueue_fn) \<times> router" where
  "choose_fn s addr r =
     (if sq_node addr = QRTR_NODE_BCAST then
        if sq_port addr \<noteq> QRTR_PORT_CTRL \<and> rt_local_nid r \<noteq> QRTR_NODE_BCAST then (Inl (- ENOTCONN), r)
        else (Inr To_bcast, r)
      else if sq_node addr = sq_node (s_us (rt_sock r s)) then (Inr To_local, r)
      else case qrtr_node_lookup (sq_node addr) r of
        (None, r1) \<Rightarrow> (Inl (- ECONNRESET), r1)
      | (Some h, r1) \<Rightarrow>
          let nid = s32 (int (n_nid (rt_node r1 h))); st = s_state (rt_sock r1 s);
              st' = (if st > QRTR_STATE_INIT \<and> st \<noteq> nid then QRTR_STATE_MULTI
                     else if st = QRTR_STATE_INIT then nid else st)
          in (Inr (To_node h), set_sock s (\<lambda>k. k\<lparr>s_state := st'\<rparr>) r1))"

definition sent_len :: "nat \<Rightarrow> int \<times> router \<Rightarrow> int \<times> router" where
  "sent_len len x = (case x of (rc, r) \<Rightarrow> (if rc \<ge> 0 then int len else rc, r))"

text \<open>Sending the filled buffer: the type, the filter for announcements, and the chosen function.\<close>

definition send_skb ::
  "env \<Rightarrow> nat \<Rightarrow> enqueue_fn \<Rightarrow> sockaddr_qrtr \<Rightarrow> bool \<Rightarrow> nat \<Rightarrow> byte list \<Rightarrow> nat \<Rightarrow> nat list \<Rightarrow> router \<Rightarrow> int \<times> router" where
  "send_skb e s f addr dontwait len data data_len frags r =
     (let ctrl = (sq_port (s_us (rt_sock r s)) = QRTR_PORT_CTRL \<or> sq_port addr = QRTR_PORT_CTRL) in
      if ctrl \<and> len < 4 then (- EINVAL, r)
      else
        let type = (if ctrl then le32_at data 0 else QRTR_TYPE_DATA);
            b = \<lparr>skb_cb = zero_cb, skb_data = data, skb_data_len = data_len, skb_frags = frags, skb_sk = Some s\<rparr> in
        if sq_port addr = QRTR_PORT_CTRL \<and> type = QRTR_TYPE_NEW_SERVER then
          let r1 = set_sock s (\<lambda>k. k\<lparr>s_state := QRTR_STATE_MULTI\<rparr>) r;
              pkt = (if length data < ctrl_pkt_size then e_stack e else ctrl_pkt_of data);
              (srv, r2) = qrtr_node_lookup (server_node pkt) r1;
              fwd = qrtr_must_forward r2 srv (fn_node f) type;
              r3 = qrtr_node_release e srv r2
          in if \<not> fwd then (0, r3) else sent_len len (call_enqueue e f b type (s_us (rt_sock r3 s)) addr dontwait r3)
        else sent_len len (call_enqueue e f b type (s_us (rt_sock r s)) addr dontwait r))"

definition qrtr_sendmsg :: "env \<Rightarrow> nat \<Rightarrow> msghdr \<Rightarrow> router \<Rightarrow> int \<times> router" where
  "qrtr_sendmsg e s msg r =
     (let len = length (msg_data msg) in
      if msg_other_flags msg then (- EINVAL, r)
      else if len > 65535 then (- EMSGSIZE, r)
      else case send_addr e s msg r of
        (Inl rc, r1) \<Rightarrow> (rc, r1)
      | (Inr addr, r1) \<Rightarrow>
          case choose_fn s addr r1 of
            (Inl rc, r2) \<Rightarrow> (rc, r2)
          | (Inr f, r2) \<Rightarrow>
              let (rc, r4) =
                (case qrtr_sock_alloc_skb_send e len r2 of
                   (None, r3) \<Rightarrow> (- ENOMEM, r3)
                 | (Some (n, data_len, frags), r3) \<Rightarrow>
                     if e_copy e (rt_tick r3) \<noteq> 0 then (e_copy e (rt_tick r3), tick r3)
                     else
                       send_skb e s f addr (msg_dontwait msg) len (msg_data msg @ map (e_junk e) [len..<n])
                         data_len frags (tick r3))
              in (rc, qrtr_node_release e (fn_node f) r4))"

section \<open>Receiving\<close>

definition qrtr_send_resume_tx :: "env \<Rightarrow> qrtr_cb \<Rightarrow> router \<Rightarrow> int \<times> router" where
  "qrtr_send_resume_tx e cb r =
     (let remote = \<lparr>sq_family = AF_QIPCRTR, sq_node = cb_src_node cb, sq_port = cb_src_port cb\<rparr>;
          local = \<lparr>sq_family = AF_QIPCRTR, sq_node = cb_dst_node cb, sq_port = cb_dst_port cb\<rparr>
      in case qrtr_node_lookup (sq_node remote) r of
           (None, r1) \<Rightarrow> (- EINVAL, r1)
         | (Some h, r1) \<Rightarrow>
             case qrtr_alloc_ctrl_packet e r1 of (got, r2) \<Rightarrow>
               if \<not> got then (- ENOMEM, qrtr_node_release e (Some h) r2)
               else
                 let pkt = zero_pkt\<lparr>pkt_cmd := QRTR_TYPE_RESUME_TX, pkt_w0 := cb_dst_node cb, pkt_w1 := cb_dst_port cb\<rparr>;
                     (ret, r3) = qrtr_node_enqueue e h (ctrl_skb pkt None) QRTR_TYPE_RESUME_TX local remote False r2
                 in (ret, qrtr_node_release e (Some h) r3))"

text \<open>
  The result of a receive call: the return value and, for a packet, what was copied, whether it was cut off,
  and the address of the sender. \<open>peek\<close> leaves the packet in the queue, \<open>empty_rc\<close> is the error for an empty queue.
\<close>

record received =
  rx_data :: "byte list"
  rx_trunc :: bool
  rx_addr :: sockaddr_qrtr

definition qrtr_recvmsg :: "env \<Rightarrow> nat \<Rightarrow> nat \<Rightarrow> bool \<Rightarrow> int \<Rightarrow> router \<Rightarrow> int \<times> received option \<times> router" where
  "qrtr_recvmsg e s sz peek empty_rc r =
     (if s_zapped (rt_sock r s) then (- EADDRNOTAVAIL, None, r)
      else case s_rcv (rt_sock r s) of
        [] \<Rightarrow> (empty_rc, None, r)
      | b # bs \<Rightarrow>
          let r1 = (if peek then r else set_sock s (\<lambda>k. k\<lparr>s_rcv := bs\<rparr>) r);
              copied = min (length (skb_data b)) sz;
              crc = e_copy e (rt_tick r1);
              r2 = tick r1;
              res = (if crc < 0 then None
                     else Some \<lparr>rx_data = take copied (skb_data b), rx_trunc = (length (skb_data b) > sz),
                                rx_addr = \<lparr>sq_family = AF_QIPCRTR, sq_node = cb_src_node (skb_cb b), sq_port = cb_src_port (skb_cb b)\<rparr>\<rparr>);
              r3 = (if cb_confirm_rx (skb_cb b) then snd (qrtr_send_resume_tx e (skb_cb b) r2) else r2);
              r4 = (if sq_port (s_us (rt_sock r3 s)) = QRTR_PORT_CTRL
                    then set_sock s (\<lambda>k. k\<lparr>s_signal_on_recv := False\<rparr>) r3 else r3)
          in (if crc < 0 then crc else int copied, res, r4))"

section \<open>Other calls\<close>

definition qrtr_connect :: "env \<Rightarrow> nat \<Rightarrow> sockaddr_qrtr \<Rightarrow> nat \<Rightarrow> router \<Rightarrow> int \<times> router" where
  "qrtr_connect e s addr len r =
     (if len < 12 \<or> sq_family addr \<noteq> AF_QIPCRTR then (- EINVAL, r)
      else case qrtr_autobind e s (set_sock s (\<lambda>k. k\<lparr>s_established := False, s_connected := False\<rparr>) r) of (rc, r1) \<Rightarrow>
        if rc \<noteq> 0 then (rc, r1)
        else (0, set_sock s (\<lambda>k. k\<lparr>s_peer := addr, s_connected := True, s_established := True\<rparr>) r1))"

definition qrtr_getname :: "nat \<Rightarrow> bool \<Rightarrow> router \<Rightarrow> int \<times> sockaddr_qrtr option" where
  "qrtr_getname s peer r =
     (let k = rt_sock r s in
      if peer \<and> \<not> s_established k then (- ENOTCONN, None)
      else (12, Some ((if peer then s_peer k else s_us k)\<lparr>sq_family := AF_QIPCRTR\<rparr>)))"

datatype ioctl_cmd = TIOCOUTQ | TIOCINQ | SIOCGIFADDR | SIOC_refused | IOC_other

text \<open>
  \<open>sndbuf\<close> and \<open>wmem\<close> are the limit and use of the send buffer, \<open>user\<close> the result of copying to or from the user.
\<close>

definition qrtr_ioctl :: "int \<Rightarrow> int \<Rightarrow> int \<Rightarrow> nat \<Rightarrow> ioctl_cmd \<Rightarrow> router \<Rightarrow> int \<times> (int + sockaddr_qrtr) option" where
  "qrtr_ioctl sndbuf wmem user s cmd r =
     (case cmd of
        TIOCOUTQ \<Rightarrow> (user, Some (Inl (max 0 (sndbuf - wmem))))
      | TIOCINQ \<Rightarrow> (user, Some (Inl (case s_rcv (rt_sock r s) of [] \<Rightarrow> 0 | b # _ \<Rightarrow> int (length (skb_data b)))))
      | SIOCGIFADDR \<Rightarrow> if user \<noteq> 0 then (- EFAULT, None) else (0, Some (Inr (s_us (rt_sock r s))))
      | SIOC_refused \<Rightarrow> (- EINVAL, None)
      | IOC_other \<Rightarrow> (- ENOIOCTLCMD, None))"

definition qrtr_shutdown :: "nat \<Rightarrow> int \<Rightarrow> router \<Rightarrow> int \<times> router" where
  "qrtr_shutdown s mode r =
     (let m = mode + 1 in
      if m < 1 \<or> m > 3 then (- EINVAL, r)
      else (0, set_sock s (\<lambda>k. k\<lparr>s_shutdown := or (s_shutdown k) (nat m)\<rparr>) r))"

text \<open>Releasing the control port forgets the greetings of all endpoints.\<close>

definition reset_hellos :: "router \<Rightarrow> router" where
  "reset_hellos r = fold (\<lambda>h. set_node h (\<lambda>n. n\<lparr>n_hello_sent := 0, n_hello_rcvd := 0\<rparr>)) (rt_all_epts r) r"

definition qrtr_release :: "env \<Rightarrow> nat \<Rightarrow> router \<Rightarrow> router" where
  "qrtr_release e s r =
     (if sq_port (s_us (rt_sock r s)) = QRTR_PORT_CTRL \<and> rt_epts_readers r \<noteq> 0 then r\<lparr>rt_stuck := True\<rparr>
      else
        let r1 = (if sq_port (s_us (rt_sock r s)) = QRTR_PORT_CTRL then reset_hellos r else r);
            r2 = set_sock s (\<lambda>k. k\<lparr>s_shutdown := 3, s_dead := True\<rparr>) r1;
            r3 = (if s_zapped (rt_sock r2 s) then r2 else qrtr_port_remove e s r2)
        in set_sock s (\<lambda>k. k\<lparr>s_rcv := []\<rparr>) r3)"

text \<open>\<open>so\<close> is the address of the new socket, none when the allocation fails.\<close>

definition qrtr_create :: "bool \<Rightarrow> nat option \<Rightarrow> router \<Rightarrow> int \<times> router" where
  "qrtr_create dgram so r =
     (if \<not> dgram then (- EPROTOTYPE, r)
      else case so of
        None \<Rightarrow> (- ENOMEM, r)
      | Some s \<Rightarrow>
          (0, set_sock s (\<lambda>_. \<lparr>s_us = \<lparr>sq_family = AF_QIPCRTR, sq_node = rt_local_nid r, sq_port = 0\<rparr>,
                 s_peer = \<lparr>sq_family = 0, sq_node = 0, sq_port = 0\<rparr>, s_state = QRTR_STATE_INIT, s_signal_on_recv = False,
                 s_zapped = True, s_dead = False, s_err = 0, s_established = False, s_connected = False,
                 s_shutdown = 0, s_rcv = []\<rparr>) r))"

text \<open>The local identifier is the first one the device tree gives, in the order of its nodes.\<close>

fun qrtr_update_node_id :: "nat option list \<Rightarrow> router \<Rightarrow> router" where
  "qrtr_update_node_id [] r = r"
| "qrtr_update_node_id (None # nodes) r = qrtr_update_node_id nodes r"
| "qrtr_update_node_id (Some nid # nodes) r = r\<lparr>rt_local_nid := nid\<rparr>"

text \<open>Start of the protocol with the results of its steps, and what is registered and unregistered.\<close>

datatype proto_act = Proto_on | Proto_off | Sock_on | Sock_off | Ns_on | Ns_off

definition qrtr_proto_init :: "nat option list \<Rightarrow> int \<Rightarrow> int \<Rightarrow> int \<Rightarrow> router \<Rightarrow> int \<times> proto_act list \<times> router" where
  "qrtr_proto_init nodes proto sock ns r =
     (let r1 = qrtr_update_node_id nodes r in
      if proto \<noteq> 0 then (proto, [], r1)
      else if sock \<noteq> 0 then (sock, [Proto_on, Proto_off], r1)
      else if ns \<noteq> 0 then (ns, [Proto_on, Sock_on, Sock_off, Proto_off], r1)
      else (0, [Proto_on, Sock_on, Ns_on], qrtr_backup_init r1))"

definition qrtr_proto_fini :: "router \<Rightarrow> proto_act list \<times> router" where
  "qrtr_proto_fini r = ([Ns_off, Sock_off, Proto_off], qrtr_backup_deinit r)"

end
