(* ===== verification/Qrtr_Frame.thy ===== *)
theory Qrtr_Frame
  imports Qrtr_Socket
begin

text \<open>
  What the operations of the IPC router leave alone. A relation between states that the elementary
  effects and the waits respect is respected by whole operations: by the ways to deliver a packet, which
  neither take nor give up references to nodes, and by the operations that also use the registry of nodes.
\<close>

section \<open>Elementary effects\<close>

lemma set_node_frame [simp]:
  "rt_ports (set_node h f r) = rt_ports r" "rt_sock (set_node h f r) = rt_sock r" "rt_tick (set_node h f r) = rt_tick r"
  "rt_nodes (set_node h f r) = rt_nodes r" "rt_all_epts (set_node h f r) = rt_all_epts r"
  "rt_local_nid (set_node h f r) = rt_local_nid r" "rt_epts_readers (set_node h f r) = rt_epts_readers r"
  "rt_sent (set_node h f r) = rt_sent r" "rt_stuck (set_node h f r) = rt_stuck r"
  "rt_node (set_node h f r) = (rt_node r)(h := f (rt_node r h))"
  by (simp_all add: set_node_def)

lemma set_sock_frame [simp]:
  "rt_ports (set_sock s f r) = rt_ports r" "rt_node (set_sock s f r) = rt_node r" "rt_tick (set_sock s f r) = rt_tick r"
  "rt_nodes (set_sock s f r) = rt_nodes r" "rt_all_epts (set_sock s f r) = rt_all_epts r"
  "rt_local_nid (set_sock s f r) = rt_local_nid r" "rt_epts_readers (set_sock s f r) = rt_epts_readers r"
  "rt_sent (set_sock s f r) = rt_sent r" "rt_stuck (set_sock s f r) = rt_stuck r"
  "rt_sock (set_sock s f r) = (rt_sock r)(s := f (rt_sock r s))"
  by (simp_all add: set_sock_def)

lemma tick_frame [simp]:
  "rt_ports (tick r) = rt_ports r" "rt_node (tick r) = rt_node r" "rt_sock (tick r) = rt_sock r"
  "rt_nodes (tick r) = rt_nodes r" "rt_all_epts (tick r) = rt_all_epts r" "rt_local_nid (tick r) = rt_local_nid r"
  "rt_epts_readers (tick r) = rt_epts_readers r" "rt_sent (tick r) = rt_sent r" "rt_stuck (tick r) = rt_stuck r"
  "rt_tick (tick r) = Suc (rt_tick r)"
  by (simp_all add: tick_def)

section \<open>Delivering packets\<close>

locale router_frame =
  fixes e :: env
    and R :: "router \<Rightarrow> router \<Rightarrow> bool"
  assumes refl: "\<And>r. R r r"
    and trans: "\<And>a b c. R a b \<Longrightarrow> R b c \<Longrightarrow> R a c"
    and node: "\<And>r h f. (\<And>n. n_ref (f n) = n_ref n) \<Longrightarrow> R r (set_node h f r)"
    and count: "\<And>r. R r (tick r)"
    and sent: "\<And>r xs. R r (r\<lparr>rt_sent := rt_sent r @ xs\<rparr>)"
    and append: "\<And>r s b. R r (sock_append s b r)"
    and signal: "\<And>r s v. R r (set_sock s (\<lambda>k. k\<lparr>s_signal_on_recv := v\<rparr>) r)"
    and readers: "\<And>r n. R r (r\<lparr>rt_epts_readers := n\<rparr>)"
    and waits: "\<And>r s. R r (e_ctrl_wait e s r)" "\<And>r h k. R r (snd (e_tx_wait e h k r))"
begin

lemma in_if: "R a x \<Longrightarrow> R a y \<Longrightarrow> R a (if c then x else y)"
  by simp

lemma in_option: "R a x \<Longrightarrow> (\<And>v. R a (f v)) \<Longrightarrow> R a (case m of None \<Rightarrow> x | Some v \<Rightarrow> f v)"
  by (simp split: option.split)

lemmas basic = refl in_if in_option trans [OF _ node] trans [OF _ count] trans [OF _ sent] trans [OF _ append] trans [OF _ signal]
  trans [OF _ readers] trans [OF _ waits(1)] trans [OF _ waits(2)]

lemmas spread = Let_def case_prod_beta if_distrib [of snd] option.case_distrib [of snd] snd_conv

lemma queue_ctrl: "R r (snd (queue_ctrl_loop e s rcs b r))"
proof (induction rcs arbitrary: r)
  case (Cons rc rcs)
  note IH = trans [OF _ Cons.IH]
  show ?case unfolding queue_ctrl_loop.simps spread by (intro basic IH)
next
  case Nil
  show ?case unfolding queue_ctrl_loop.simps spread by (intro basic)
qed

lemma queue_rcv: "R r (snd (sock_queue_rcv_skb e s b r))"
  unfolding sock_queue_rcv_skb_def spread by (intro basic)

lemma queue_to: "R r (snd (queue_to_port e s b r))"
  unfolding queue_to_port_def qrtr_sock_queue_ctrl_skb_def spread
  by (intro basic trans [OF _ queue_ctrl] trans [OF _ queue_rcv])

lemma local_enqueue: "R r (snd (qrtr_local_enqueue e b from to r))"
  unfolding qrtr_local_enqueue_def spread by (intro basic trans [OF _ queue_to])

lemma flow: "R r (set_flow h key f r)"
  unfolding set_flow_def by (rule node) simp

lemma notify: "R r (notify_waiters e src ws r)"
proof (induction ws arbitrary: r)
  case (Cons w ws)
  note IH = trans [OF _ Cons.IH]
  show ?case unfolding notify_waiters.simps by (intro basic IH trans [OF _ local_enqueue])
qed (simp add: refl)

lemma resume: "R r (snd (qrtr_tx_resume e h b r))"
  unfolding qrtr_tx_resume_def spread by (intro basic trans [OF _ notify] trans [OF _ flow])

lemma find: "R r (snd (find_flow e h key r))"
  unfolding find_flow_def spread by (intro basic) simp_all

lemma take: "R r (snd (flow_take e h key sk ret r))"
  unfolding flow_take_def spread by (intro basic trans [OF _ flow])

lemma tx_wait: "R r (snd (qrtr_tx_wait e h to sk type dontwait r))"
  unfolding qrtr_tx_wait_def spread by (intro basic trans [OF _ take] trans [OF _ find])

lemma xmit: "R r (snd (node_xmit e h padded pkt r))"
  unfolding node_xmit_def spread using trans [OF count sent [of "tick r"]] by (intro basic) simp_all

lemma node_enqueue: "R r (snd (qrtr_node_enqueue e h b type from to dontwait r))"
  unfolding qrtr_node_enqueue_def qrtr_tx_flow_failed_def spread
  by (intro basic trans [OF _ tx_wait] trans [OF _ xmit] trans [OF _ flow]) simp_all

lemma bcast: "R r (bcast_loop e b type from to dontwait hs r)"
proof (induction hs arbitrary: r)
  case (Cons h hs)
  note IH = trans [OF _ Cons.IH]
  show ?case unfolding bcast_loop.simps by (intro basic IH trans [OF _ node_enqueue])
qed (simp add: refl)

lemma bcast_enqueue: "R r (snd (qrtr_bcast_enqueue e b type from to dontwait r))"
  unfolding qrtr_bcast_enqueue_def spread by (intro basic trans [OF _ bcast] trans [OF _ local_enqueue])

lemma fwd_ctrl: "R r (fwd_ctrl_loop e src b hs r)"
proof (induction hs arbitrary: r)
  case (Cons h hs)
  note IH = trans [OF _ Cons.IH]
  show ?case unfolding fwd_ctrl_loop.simps Let_def by (intro basic IH trans [OF _ node_enqueue])
qed (simp add: refl)

lemma fwd_ctrl_pkt: "R r (qrtr_fwd_ctrl_pkt e src b r)"
  unfolding qrtr_fwd_ctrl_pkt_def by (rule fwd_ctrl)

lemma sock_queue: "R r (qrtr_sock_queue_skb e h b s r)"
  unfolding qrtr_sock_queue_skb_def Let_def by (intro basic trans [OF _ queue_to]) simp_all

lemma hello: "R r (qrtr_hello_work e h r)"
  unfolding qrtr_hello_work_def qrtr_alloc_ctrl_packet_def spread by (intro basic trans [OF _ node_enqueue]) simp_all

lemma del_proc: "R r (del_proc_loop e src nid hs r)"
proof (induction hs arbitrary: r)
  case (Cons h hs)
  show ?case unfolding del_proc_loop.simps qrtr_alloc_ctrl_packet_def spread by (intro basic trans [OF _ Cons.IH] trans [OF _ node_enqueue])
next
  case Nil
  show ?case unfolding del_proc_loop.simps by (intro basic)
qed

lemma bye: "R r (bye_loop e h nids r)"
proof (induction nids arbitrary: r)
  case (Cons nid nids)
  show ?case
    unfolding bye_loop.simps qrtr_alloc_ctrl_packet_def qrtr_fwd_del_proc_def spread
    by (intro basic trans [OF _ Cons.IH] trans [OF _ del_proc] trans [OF _ local_enqueue])
qed (simp add: refl)

lemma call: "R r (snd (call_enqueue e f b type from to dontwait r))"
  using local_enqueue bcast_enqueue node_enqueue by (simp add: call_enqueue_def split: enqueue_fn.split)

end

section \<open>Using the registry\<close>

locale registry_frame = router_frame +
  assumes any_node: "\<And>r h f. R r (set_node h f r)"
    and registry: "\<And>r ns. R r (r\<lparr>rt_nodes := ns\<rparr>)" "\<And>r es. R r (r\<lparr>rt_all_epts := es\<rparr>)" "\<And>r ts. R r (r\<lparr>rt_threads := ts\<rparr>)"
      "\<And>r ns. R r (r\<lparr>rt_node := ns\<rparr>)"
    and lock: "\<And>r. R r (r\<lparr>rt_stuck := True\<rparr>)"
    and backup: "\<And>r n. R r (r\<lparr>rt_backup_lo := n\<rparr>)" "\<And>r n. R r (r\<lparr>rt_backup_hi := n\<rparr>)" "\<And>r w. R r (r\<lparr>rt_backup_work := w\<rparr>)"
    and flush: "\<And>r h. R r (e_flush e h r)"
begin

lemmas more = refl in_if in_option trans [OF _ any_node] trans [OF _ count] trans [OF _ readers] trans [OF _ lock]
  trans [OF _ registry(1)] trans [OF _ registry(2)] trans [OF _ registry(3)] trans [OF _ registry(4)]
  trans [OF _ backup(1)] trans [OF _ backup(2)] trans [OF _ backup(3)] trans [OF _ flush]
  trans [OF _ queue_rcv] trans [OF _ local_enqueue] trans [OF _ node_enqueue] trans [OF _ bcast_enqueue]

lemma lookup: "R r (snd (qrtr_node_lookup nid r))"
  unfolding qrtr_node_lookup_def qrtr_node_acquire_def spread by (intro more)

lemma release: "R r (qrtr_node_release e ho r)"
  unfolding qrtr_node_release_def qrtr_node_free_def spread by (intro more)

lemma assign: "R r (qrtr_node_assign e h nid r)"
  unfolding qrtr_node_assign_def spread by (intro more)

lemma fwd_pkt: "R r (qrtr_fwd_pkt e b r)"
  unfolding qrtr_fwd_pkt_def spread by (intro more trans [OF _ release] trans [OF _ lookup])

lemma rx_packet: "R r (node_rx_packet e h b r)"
  unfolding node_rx_packet_def spread
  by (intro more trans [OF _ fwd_pkt] trans [OF _ fwd_ctrl_pkt] trans [OF _ resume] trans [OF _ sock_queue])

lemma rx_fold: "R r (fold (node_rx_packet e h) bs r)"
proof (induction bs arbitrary: r)
  case (Cons b bs)
  show ?case using trans [OF rx_packet Cons.IH] by simp
qed (simp add: refl)

lemma rx_work: "R r (qrtr_node_rx_work e h r)"
  unfolding qrtr_node_rx_work_def by (intro trans [OF _ rx_fold] more)

lemma fill: "R r (snd (fill_backup e n r))"
proof (induction n arbitrary: r)
  case (Suc n)
  show ?case unfolding fill_backup.simps spread by (intro more trans [OF _ Suc.IH])
qed (simp add: refl)

lemma alloc_backup: "R r (qrtr_alloc_backup e r)"
  unfolding qrtr_alloc_backup_def spread by (intro more trans [OF _ fill])

lemma get_backup: "R r (snd (qrtr_get_backup len r))"
  unfolding qrtr_get_backup_def spread by (intro more)

lemma post_one: "R r (snd (post_skb e h cb payload frags r))"
  unfolding post_skb_def spread by (intro more trans [OF _ assign])

lemma post: "R r (snd (qrtr_endpoint_post e h data r))"
  unfolding qrtr_endpoint_post_def spread by (intro more trans [OF _ post_one] trans [OF _ get_backup])

lemma insert_wake: "R r (snd (snd (insert_no_wake e ss acc r)))"
proof (induction ss arbitrary: acc r)
  case (Cons s ss)
  show ?case using refl count trans [OF count Cons.IH] by simp
qed (simp add: refl)

lemma register: "R r (snd (qrtr_endpoint_register e has_xmit thread ho net_id no_wake r))"
  unfolding qrtr_endpoint_register_def spread by (intro more trans [OF _ insert_wake])

lemma unregister: "R r (qrtr_endpoint_unregister e h r)"
  unfolding qrtr_endpoint_unregister_def Let_def by (intro more trans [OF _ release] trans [OF _ bye])

lemma del_client: "R r (qrtr_send_del_client e s r)"
  unfolding qrtr_send_del_client_def qrtr_alloc_ctrl_packet_def spread
  by (intro more trans [OF _ release] trans [OF _ lookup])

lemma resume_tx: "R r (snd (qrtr_send_resume_tx e cb r))"
  unfolding qrtr_send_resume_tx_def qrtr_alloc_ctrl_packet_def spread
  by (intro more trans [OF _ release] trans [OF _ lookup])

end

end
