(* ===== verification/Qrtr_Steps.thy ===== *)
theory Qrtr_Steps
  imports Qrtr_Frame
begin

text \<open>
  Runs of the IPC router: system calls, packets from transports, workers and registrations in any order.
  Two invariants hold between them: the table of ports agrees with the sockets, and every node that
  can be found is registered and has exactly the reference of its endpoint.
\<close>

section \<open>Steps\<close>

inductive router_step :: "env \<Rightarrow> router \<Rightarrow> router \<Rightarrow> bool" for e where
  create: "so \<notin> Some ` snd ` set (rt_ports r) \<Longrightarrow> router_step e r (snd (qrtr_create dgram so r))"
| bind: "\<not> s_dead (rt_sock r s) \<Longrightarrow> router_step e r (snd (qrtr_bind e s addr len r))"
| connect: "\<not> s_dead (rt_sock r s) \<Longrightarrow> router_step e r (snd (qrtr_connect e s addr len r))"
| sendmsg: "\<not> s_dead (rt_sock r s) \<Longrightarrow> router_step e r (snd (qrtr_sendmsg e s msg r))"
| recvmsg: "\<not> s_dead (rt_sock r s) \<Longrightarrow> router_step e r (snd (snd (qrtr_recvmsg e s n peek rc r)))"
| shutdown: "\<not> s_dead (rt_sock r s) \<Longrightarrow> router_step e r (snd (qrtr_shutdown s mode r))"
| release: "\<not> s_dead (rt_sock r s) \<Longrightarrow> router_step e r (qrtr_release e s r)"
| register: "ho \<notin> Some ` set (rt_all_epts r) \<Longrightarrow>
    router_step e r (snd (qrtr_endpoint_register e has_xmit thread ho net_id no_wake r))"
| unregister: "h \<in> set (rt_all_epts r) \<Longrightarrow> router_step e r (qrtr_endpoint_unregister e h r)"
| post: "h \<in> set (rt_all_epts r) \<Longrightarrow> router_step e r (snd (qrtr_endpoint_post e h data r))"
| rx_work: "h \<in> set (rt_all_epts r) \<Longrightarrow> router_step e r (qrtr_node_rx_work e h r)"
| hello_work: "h \<in> set (rt_all_epts r) \<Longrightarrow> router_step e r (qrtr_hello_work e h r)"
| alloc_backup: "router_step e r (qrtr_alloc_backup e r)"

text \<open>A router after start-up: no ports, no nodes, and no socket that was bound.\<close>

definition started :: "router \<Rightarrow> bool" where
  "started r \<longleftrightarrow> rt_ports r = [] \<and> rt_nodes r = [] \<and> rt_all_epts r = [] \<and> (\<forall>s. s_zapped (rt_sock r s))"

section \<open>The invariants\<close>

definition ports_ok :: "router \<Rightarrow> bool" where
  "ports_ok r \<longleftrightarrow> distinct (map fst (rt_ports r))
     \<and> (\<forall>i s. (i, s) \<in> set (rt_ports r) \<longleftrightarrow>
          \<not> s_zapped (rt_sock r s) \<and> \<not> s_dead (rt_sock r s) \<and> i = port_index (sq_port (s_us (rt_sock r s))))"

definition refs_ok :: "router \<Rightarrow> bool" where
  "refs_ok r \<longleftrightarrow> distinct (rt_all_epts r) \<and> snd ` set (rt_nodes r) \<subseteq> set (rt_all_epts r)
     \<and> (\<forall>h \<in> set (rt_all_epts r). n_ref (rt_node r h) = 1)"

definition same_ports :: "router \<Rightarrow> router \<Rightarrow> bool" where
  "same_ports r r' \<longleftrightarrow> rt_ports r' = rt_ports r \<and> (\<forall>s. s_us (rt_sock r' s) = s_us (rt_sock r s)
     \<and> s_zapped (rt_sock r' s) = s_zapped (rt_sock r s) \<and> s_dead (rt_sock r' s) = s_dead (rt_sock r s))"

definition same_refs :: "router \<Rightarrow> router \<Rightarrow> bool" where
  "same_refs r r' \<longleftrightarrow> rt_nodes r' = rt_nodes r \<and> rt_all_epts r' = rt_all_epts r
     \<and> (\<forall>h. n_ref (rt_node r' h) = n_ref (rt_node r h))"

text \<open>
  What is expected of the rest of the kernel: whatever runs while an operation waits leaves ports and
  references as they are when the wait is over, an insertion returns zero or a negative error, and the
  allocator returns a free port of the range.
\<close>

definition calm :: "env \<Rightarrow> bool" where
  "calm e \<longleftrightarrow> (\<forall>s r. same_ports r (e_ctrl_wait e s r) \<and> same_refs r (e_ctrl_wait e s r))
     \<and> (\<forall>h k r. same_ports r (snd (e_tx_wait e h k r)) \<and> same_refs r (snd (e_tx_wait e h k r)))
     \<and> (\<forall>h r. same_ports r (e_flush e h r) \<and> same_refs r (e_flush e h r))
     \<and> (\<forall>n. e_insert e n \<le> 0)
     \<and> (\<forall>ps next rc i next'. e_alloc_cyclic e ps next = (rc, i, next') \<longrightarrow> 0 \<le> rc \<longrightarrow>
          i \<notin> fst ` set ps \<and> QRTR_MIN_EPH_SOCKET \<le> i \<and> i \<le> QRTR_MAX_EPH_SOCKET)"

section \<open>Frames\<close>

lemma same_refl [simp]: "same_ports r r" "same_refs r r"
  by (simp_all add: same_ports_def same_refs_def)

lemma same_set_sock:
  "(\<And>k. s_us (f k) = s_us k \<and> s_zapped (f k) = s_zapped k \<and> s_dead (f k) = s_dead k) \<Longrightarrow> same_ports r (set_sock s f r)"
  by (auto simp: same_ports_def)

interpretation ports: registry_frame e "\<lambda>r r'. calm e \<longrightarrow> same_ports r r'" for e
  by unfold_locales (auto simp: calm_def same_ports_def sock_append_def)

interpretation refs: router_frame e "\<lambda>r r'. calm e \<longrightarrow> same_refs r r'" for e
  by unfold_locales (auto simp: calm_def same_refs_def sock_append_def)

lemma ports_ok_same: "same_ports r r' \<Longrightarrow> ports_ok r \<Longrightarrow> ports_ok r'"
  by (simp add: ports_ok_def same_ports_def)

lemma refs_ok_same: "same_refs r r' \<Longrightarrow> refs_ok r \<Longrightarrow> refs_ok r'"
  by (simp add: refs_ok_def same_refs_def)

lemma same_ports_trans: "same_ports a b \<Longrightarrow> same_ports b c \<Longrightarrow> same_ports a c"
  by (simp add: same_ports_def)

lemma same_refs_trans: "same_refs a b \<Longrightarrow> same_refs b c \<Longrightarrow> same_refs a c"
  by (simp add: same_refs_def)

lemma same_refs_set_sock [simp]: "same_refs r (set_sock s f r') = same_refs r r'"
  by (simp add: same_refs_def)

lemma same_tick [simp]: "same_ports r (tick r') = same_ports r r'" "same_refs r (tick r') = same_refs r r'"
  by (simp_all add: same_ports_def same_refs_def)

section \<open>Ports agree with sockets\<close>

lemma distinct_insort_fst:
  "distinct (map fst xs) \<Longrightarrow> i \<notin> fst ` set xs \<Longrightarrow> distinct (map fst (insort_key fst (i, s) xs))"
  by (induction xs) (auto simp: set_insort_key)

lemma ports_bind:
  assumes inv: "ports_ok r" and alive: "\<not> s_dead (rt_sock r s)"
    and same: "rt_ports r' = filter (\<lambda>(k, _). z \<or> k \<noteq> port_index (sq_port (s_us (rt_sock r s)))) (insort_key fst (i, s) (rt_ports r))"
      "\<forall>t. s_us (rt_sock r' t) = s_us (rt_sock r t) \<and> s_zapped (rt_sock r' t) = s_zapped (rt_sock r t) \<and> s_dead (rt_sock r' t) = s_dead (rt_sock r t)"
    and i: "i \<notin> fst ` set (rt_ports r)" "i = port_index p" and z: "z = s_zapped (rt_sock r s)"
  shows "ports_ok (set_sock s (\<lambda>k. k\<lparr>s_us := (s_us k)\<lparr>sq_port := p\<rparr>, s_zapped := False\<rparr>) r')"
proof -
  let ?old = "port_index (sq_port (s_us (rt_sock r s)))"
  have d: "distinct (map fst (rt_ports r))" and
    tab: "(j, t) \<in> set (rt_ports r) \<longleftrightarrow> \<not> s_zapped (rt_sock r t) \<and> \<not> s_dead (rt_sock r t) \<and> j = port_index (sq_port (s_us (rt_sock r t)))" for j t
    using inv by (auto simp: ports_ok_def)
  have uniq: "t = t'" if "(j, t) \<in> set (rt_ports r)" "(j, t') \<in> set (rt_ports r)" for j t t'
    using d that by (metis map_of_is_SomeI option.inject)
  have ne: "i \<noteq> ?old" if "\<not> z" using tab [of ?old s] alive that i(1) z by force
  have "distinct (map fst (rt_ports r'))"
    unfolding same(1) by (rule distinct_map_filter [OF distinct_insort_fst [OF d i(1)]])
  moreover have "(j, t) \<in> set (rt_ports r') \<longleftrightarrow> (if t = s then j = i else (j, t) \<in> set (rt_ports r))" for j t
    using ne tab [of j t] tab [of ?old s] uniq [of ?old s t] alive z
    by (auto simp: same(1) set_insort_key)
  ultimately show ?thesis
    using tab same(2) alive i(2) by (auto simp: ports_ok_def)
qed

lemma port_assign_ok:
  assumes "calm e" and "qrtr_port_assign e s port r = (rc, p, r1)"
  shows "rt_sock r1 = rt_sock r \<and> same_refs r r1 \<and> (rc \<noteq> 0 \<longrightarrow> rt_ports r1 = rt_ports r)
    \<and> (rc = 0 \<longrightarrow> port_index p \<notin> fst ` set (rt_ports r) \<and> rt_ports r1 = insort_key fst (port_index p, s) (rt_ports r))"
proof (cases "port = 0")
  case True
  obtain c i nx where a: "e_alloc_cyclic e (rt_ports r) (rt_ports_next r) = (c, i, nx)" by (cases "e_alloc_cyclic e (rt_ports r) (rt_ports_next r)") auto
  have ok: "i \<notin> fst ` set (rt_ports r)" "port_index i = i" if "0 \<le> c"
  proof -
    have "i \<notin> fst ` set (rt_ports r) \<and> QRTR_MIN_EPH_SOCKET \<le> i \<and> i \<le> QRTR_MAX_EPH_SOCKET"
      using assms(1) a that unfolding calm_def by blast
    then show "i \<notin> fst ` set (rt_ports r)" "port_index i = i" by (auto simp: port_index_def)
  qed
  show ?thesis
    using assms(2) True a ok by (cases "0 \<le> c") (auto simp: qrtr_port_assign_def same_refs_def split: if_splits)
next
  case False
  have "e_insert e n \<noteq> 0 \<Longrightarrow> e_insert e n < 0" for n
    using assms(1) by (auto simp: calm_def order.order_iff_strict)
  then show ?thesis
    using assms(2) False
    by (auto simp: qrtr_port_assign_def ports_insert_def same_refs_def map_of_eq_None_iff split: if_splits)
qed

lemma reset_ports_same: "same_ports r (qrtr_reset_ports r) \<and> same_refs r (qrtr_reset_ports r)"
proof -
  have "same_ports r (fold (\<lambda>(i, s). set_sock s (\<lambda>k. k\<lparr>s_err := ENETRESET\<rparr>)) ps r)
      \<and> same_refs r (fold (\<lambda>(i, s). set_sock s (\<lambda>k. k\<lparr>s_err := ENETRESET\<rparr>)) ps r)" for ps
  proof (induction ps arbitrary: r)
    case (Cons p ps)
    obtain i s where p: "p = (i, s)" by force
    have "same_ports r (set_sock s (\<lambda>k. k\<lparr>s_err := ENETRESET\<rparr>) r)" by (rule same_set_sock) simp
    moreover have "same_refs r (set_sock s (\<lambda>k. k\<lparr>s_err := ENETRESET\<rparr>) r)" by simp
    ultimately show ?case
      using Cons.IH [of "set_sock s (\<lambda>k. k\<lparr>s_err := ENETRESET\<rparr>) r"]
      unfolding p fold.simps comp_apply prod.case by (blast intro: same_ports_trans same_refs_trans)
  qed simp
  then show ?thesis by (simp add: qrtr_reset_ports_def)
qed

lemma ports_bind_port:
  assumes e: "calm e" and inv: "ports_ok r" and alive: "\<not> s_dead (rt_sock r s)"
  shows "ports_ok (snd (qrtr_bind_port e s port (s_zapped (rt_sock r s)) r))"
proof -
  let ?z = "s_zapped (rt_sock r s)"
  obtain rc p r1 where a: "qrtr_port_assign e s port r = (rc, p, r1)" by (cases "qrtr_port_assign e s port r") auto
  note ok = port_assign_ok [OF e a]
  define r2 where "r2 = (if p = QRTR_PORT_CTRL then qrtr_reset_ports r1 else r1)"
  define r3 where "r3 = (if ?z then r2 else qrtr_port_remove e s r2)"
  have s2: "same_ports r1 r2" using reset_ports_same [of r1] by (simp add: r2_def)
  have sd: "same_ports r2 (qrtr_send_del_client e s r2)" using ports.del_client [of e r2 s] e by simp
  have b: "qrtr_bind_port e s port ?z r =
      (if \<not> ?z \<and> port = sq_port (s_us (rt_sock r s)) then (0, r) else if rc \<noteq> 0 then (rc, r1)
       else (0, set_sock s (\<lambda>k. k\<lparr>s_us := (s_us k)\<lparr>sq_port := p\<rparr>, s_zapped := False\<rparr>) r3))"
    by (simp add: qrtr_bind_port_def a Let_def r2_def r3_def)
  have "ports_ok r1" if "rc \<noteq> 0"
    using ports_ok_same [OF _ inv, of r1] ok that by (simp add: same_ports_def)
  moreover have "ports_ok (set_sock s (\<lambda>k. k\<lparr>s_us := (s_us k)\<lparr>sq_port := p\<rparr>, s_zapped := False\<rparr>) r3)" if "rc = 0"
  proof (rule ports_bind [OF inv alive])
    show "port_index p \<notin> fst ` set (rt_ports r)" "port_index p = port_index p" "?z = s_zapped (rt_sock r s)" using ok that by simp_all
    show "rt_ports r3 = filter (\<lambda>(k, _). ?z \<or> k \<noteq> port_index (sq_port (s_us (rt_sock r s)))) (insort_key fst (port_index p, s) (rt_ports r))"
      using ok that s2 sd by (simp add: r3_def qrtr_port_remove_def same_ports_def Let_def)
    show "\<forall>t. s_us (rt_sock r3 t) = s_us (rt_sock r t) \<and> s_zapped (rt_sock r3 t) = s_zapped (rt_sock r t) \<and> s_dead (rt_sock r3 t) = s_dead (rt_sock r t)"
      using ok that s2 sd by (simp add: r3_def qrtr_port_remove_def same_ports_def Let_def)
  qed
  ultimately show ?thesis using inv by (simp add: b)
qed

lemma ports_autobind:
  "calm e \<Longrightarrow> ports_ok r \<Longrightarrow> \<not> s_dead (rt_sock r s) \<Longrightarrow> ports_ok (snd (qrtr_autobind e s r))"
  using ports_bind_port [of e r s 0] by (auto simp: qrtr_autobind_def)

lemma ports_release:
  assumes "calm e" and inv: "ports_ok r" and "\<not> s_dead (rt_sock r s)"
  shows "ports_ok (qrtr_release e s r)"
proof -
  have "same_ports r (fold (\<lambda>h. set_node h (\<lambda>n. n\<lparr>n_hello_sent := 0, n_hello_rcvd := 0\<rparr>)) hs r)" for hs
    by (induction hs rule: rev_induct) (simp_all add: same_ports_def)
  then have r1: "same_ports r (if sq_port (s_us (rt_sock r s)) = QRTR_PORT_CTRL then reset_hellos r else r)" (is "same_ports r ?r1")
    by (simp add: reset_hellos_def)
  let ?r2 = "set_sock s (\<lambda>k. k\<lparr>s_shutdown := 3, s_dead := True\<rparr>) ?r1"
  have "same_ports ?r2 (qrtr_send_del_client e s ?r2)" using ports.del_client [of e ?r2 s] assms(1) by simp
  moreover have "(i, t) \<in> set (rt_ports r) \<longleftrightarrow> \<not> s_zapped (rt_sock r t) \<and> \<not> s_dead (rt_sock r t) \<and> i = port_index (sq_port (s_us (rt_sock r t)))"
    "distinct (map fst (rt_ports r))" for i t
    using inv by (auto simp: ports_ok_def)
  moreover from this have "t = t'" if "(i, t) \<in> set (rt_ports r)" "(i, t') \<in> set (rt_ports r)" for i t t'
    using that by (metis map_of_is_SomeI option.inject)
  ultimately show ?thesis
    using r1 assms(3) unfolding qrtr_release_def qrtr_port_remove_def Let_def
    by (auto simp: ports_ok_def same_ports_def distinct_map_filter split: if_splits)
qed

section \<open>References are balanced\<close>

definition refs_held :: "router \<Rightarrow> bool" where
  "refs_held r \<longleftrightarrow> (\<forall>h \<in> snd ` set (rt_nodes r). 0 < n_ref (rt_node r h))"

lemma refs_ok_held: "refs_ok r \<Longrightarrow> refs_held r"
  by (auto simp: refs_ok_def refs_held_def)

lemma lookup_found:
  assumes "refs_held r" and "qrtr_node_lookup nid r = (ho, r1)"
  shows "rt_nodes r1 = rt_nodes r \<and> rt_all_epts r1 = rt_all_epts r
    \<and> (\<forall>h. n_ref (rt_node r1 h) = (if ho = Some h then Suc (n_ref (rt_node r h)) else n_ref (rt_node r h)))
    \<and> (\<forall>h. ho = Some h \<longrightarrow> 0 < n_ref (rt_node r h))"
proof (cases "map_of (rt_nodes r) nid")
  case (Some h)
  then have "h \<in> snd ` set (rt_nodes r)" using map_of_SomeD by force
  then have "0 < n_ref (rt_node r h)" using assms(1) by (auto simp: refs_held_def)
  then show ?thesis using Some assms(2) by (auto simp: qrtr_node_lookup_def qrtr_node_acquire_def)
qed (use assms(2) in \<open>auto simp: qrtr_node_lookup_def\<close>)

text \<open>A reference taken by a lookup is given up again after anything that keeps the references.\<close>

lemma lookup_release:
  assumes "refs_held r" and "qrtr_node_lookup nid r = (ho, r1)" and "same_refs r1 r2"
  shows "same_refs r (qrtr_node_release e ho r2)"
  using lookup_found [OF assms(1,2)] assms(3)
  by (cases ho) (auto simp: qrtr_node_release_def same_refs_def)

lemma refs_fwd_pkt:
  assumes "calm e" and "refs_ok r"
  shows "same_refs r (qrtr_fwd_pkt e b r)"
proof -
  obtain ho r1 where l: "qrtr_node_lookup (cb_dst_node (skb_cb b)) r = (ho, r1)" by force
  show ?thesis
    using lookup_release [OF refs_ok_held [OF assms(2)] l] lookup_found [OF refs_ok_held [OF assms(2)] l] refs.node_enqueue [of e r1] assms(1)
    by (cases ho) (auto simp: qrtr_fwd_pkt_def l Let_def same_refs_def)
qed

lemma refs_rx_packet:
  assumes "calm e" and "refs_ok r"
  shows "same_refs r (node_rx_packet e h b r)"
proof -
  define r1 where "r1 = (if cb_type (skb_cb b) \<noteq> QRTR_TYPE_DATA then qrtr_fwd_ctrl_pkt e h b r else r)"
  have s: "same_refs r r1" using refs.fwd_ctrl_pkt [of e r h b] assms(1) by (simp add: r1_def)
  have ok: "refs_ok r1" by (rule refs_ok_same [OF s assms(2)])
  have "same_refs r1 r'" if "r' \<in> {r1, qrtr_fwd_pkt e b r1, snd (qrtr_tx_resume e h b r1)} \<union> range (\<lambda>t. qrtr_sock_queue_skb e h b t r1)" for r'
    using that refs_fwd_pkt [OF assms(1) ok] refs.resume [of e r1] refs.sock_queue [of e r1] assms(1) by auto
  then have "same_refs r1 (node_rx_packet e h b r)"
    unfolding node_rx_packet_def Let_def r1_def [symmetric] by (auto split: option.split)
  then show ?thesis by (rule same_refs_trans [OF s])
qed

lemma refs_rx_work:
  assumes "calm e" and "refs_ok r"
  shows "same_refs r (qrtr_node_rx_work e h r)"
proof -
  have "refs_ok r \<Longrightarrow> same_refs r (fold (node_rx_packet e h) bs r)" for bs r
  proof (induction bs arbitrary: r)
    case (Cons b bs)
    note p = refs_rx_packet [OF assms(1) Cons.prems, of h b]
    show ?case using same_refs_trans [OF p Cons.IH [OF refs_ok_same [OF p Cons.prems]]] by simp
  qed simp
  moreover have "same_refs r (set_node h (\<lambda>n. n\<lparr>n_rx_queue := [], n_read_data := False\<rparr>) r)" by (simp add: same_refs_def)
  ultimately show ?thesis
    unfolding qrtr_node_rx_work_def using refs_ok_same [OF _ assms(2)] same_refs_trans by blast
qed

lemma refs_del_client:
  assumes "calm e" and "refs_ok r"
  shows "same_refs r (qrtr_send_del_client e s r)"
proof -
  have t: "same_refs r (tick r)" and ok: "refs_ok (tick r)" using refs_ok_same [of r "tick r"] assms(2) by simp_all
  have loc: "same_refs a r' \<Longrightarrow> same_refs a (snd (qrtr_local_enqueue e b fr to r'))" for a b fr to r'
    using refs.local_enqueue assms(1) same_refs_trans by blast
  obtain ho r1 where l: "qrtr_node_lookup (nat (s_state (rt_sock r s))) (tick r) = (ho, r1)" by force
  have "same_refs (tick r) r1" if "ho = None" using lookup_found [OF refs_ok_held [OF ok] l] that by (simp add: same_refs_def)
  moreover have "same_refs (tick r) (qrtr_node_release e ho (tick r1))"
    "same_refs (tick r) (qrtr_node_release e ho (snd (qrtr_node_enqueue e h b ty fr to dw (tick r1))))" for h b ty fr to dw
    by (rule lookup_release [OF refs_ok_held [OF ok] l], simp)
       (rule lookup_release [OF refs_ok_held [OF ok] l], use refs.node_enqueue [of e "tick r1"] assms(1) in \<open>simp add: same_refs_def\<close>)
  ultimately have "same_refs (tick r) (qrtr_send_del_client e s r)" if "e_alloc e (rt_tick r)"
    using refs.bcast_enqueue [of e "tick r"] assms(1) that l
    by (cases ho) (auto simp: qrtr_send_del_client_def qrtr_alloc_ctrl_packet_def Let_def intro!: loc)
  then show ?thesis
    by (cases "e_alloc e (rt_tick r)") (auto simp: qrtr_send_del_client_def qrtr_alloc_ctrl_packet_def same_refs_def)
qed

lemma refs_port_remove:
  assumes "calm e" and "refs_ok r"
  shows "same_refs r (qrtr_port_remove e s r)"
  using refs_del_client [OF assms, of s] by (simp add: qrtr_port_remove_def same_refs_def Let_def)

lemma refs_bind_port:
  assumes "calm e" and "refs_ok r"
  shows "same_refs r (snd (qrtr_bind_port e s port z r))"
proof -
  obtain rc p r1 where a: "qrtr_port_assign e s port r = (rc, p, r1)" by (cases "qrtr_port_assign e s port r") auto
  define r2 where "r2 = (if p = QRTR_PORT_CTRL then qrtr_reset_ports r1 else r1)"
  have r1: "same_refs r r1" using port_assign_ok [OF assms(1) a] by simp
  have r2: "same_refs r r2" using same_refs_trans [OF r1] reset_ports_same [of r1] r1 by (simp add: r2_def)
  note b = qrtr_bind_port_def a Let_def prod.case
  have "same_refs r (if z then r2 else qrtr_port_remove e s r2)"
    using r2 same_refs_trans [OF r2 refs_port_remove [OF assms(1) refs_ok_same [OF r2 assms(2)]]] by simp
  then show ?thesis using r1 unfolding b r2_def [symmetric] by (auto split: if_splits)
qed

lemma refs_autobind:
  assumes "calm e" and "refs_ok r"
  shows "same_refs r (snd (qrtr_autobind e s r))"
  using refs_bind_port [OF assms, of s 0 True] by (simp add: qrtr_autobind_def)

lemma refs_resume_tx:
  assumes "calm e" and "refs_ok r"
  shows "same_refs r (snd (qrtr_send_resume_tx e cb r))"
proof -
  obtain ho r1 where l: "qrtr_node_lookup (cb_src_node cb) r = (ho, r1)" by force
  have n: "same_refs r r1" if "ho = None" using lookup_found [OF refs_ok_held [OF assms(2)] l] that by (simp add: same_refs_def)
  have a: "same_refs r (qrtr_node_release e ho (tick r1))" by (rule lookup_release [OF refs_ok_held [OF assms(2)] l]) simp
  have b: "same_refs r (qrtr_node_release e ho (snd (qrtr_node_enqueue e h b ty fr to dw (tick r1))))" for h b ty fr to dw
    by (rule lookup_release [OF refs_ok_held [OF assms(2)] l], use refs.node_enqueue [of e "tick r1"] assms(1) in \<open>simp add: same_refs_def\<close>)
  show ?thesis
    using n a b by (cases ho) (auto simp: qrtr_send_resume_tx_def qrtr_alloc_ctrl_packet_def l Let_def case_prod_beta)
qed

lemma refs_recvmsg:
  assumes "calm e" and "refs_ok r"
  shows "same_refs r (snd (snd (qrtr_recvmsg e s n peek rc r)))"
proof -
  have "same_refs r r2 \<Longrightarrow> same_refs r (snd (qrtr_send_resume_tx e cb r2))" for r2 cb
    using refs_resume_tx [OF assms(1) refs_ok_same [OF _ assms(2)]] same_refs_trans by blast
  then show ?thesis by (auto simp: qrtr_recvmsg_def Let_def split: list.split)
qed

lemma send_skb_same:
  assumes "calm e" and "refs_held r"
  shows "same_refs r (snd (send_skb e s f addr dw len data data_len frags r)) \<and> same_ports r (snd (send_skb e s f addr dw len data data_len frags r))"
proof -
  have call: "same_refs a (snd (sent_len len (call_enqueue e f b ty fr to dw r')))" if "same_refs a r'" for a b ty fr to r'
    using that refs.call [of e r'] assms(1) by (auto simp: sent_len_def case_prod_beta intro: same_refs_trans)
  have callp: "same_ports a (snd (sent_len len (call_enqueue e f b ty fr to dw r')))" if "same_ports a r'" for a b ty fr to r'
    using that ports.call [of e r'] assms(1) by (auto simp: sent_len_def case_prod_beta intro: same_ports_trans)
  let ?pkt = "if length data < ctrl_pkt_size then e_stack e else ctrl_pkt_of data"
  define r1 where "r1 = set_sock s (\<lambda>k. k\<lparr>s_state := QRTR_STATE_MULTI\<rparr>) r"
  obtain srv r2 where l: "qrtr_node_lookup (server_node ?pkt) r1 = (srv, r2)" by force
  have r1: "same_refs r r1" "same_ports r r1" "refs_held r1" using assms(2) by (simp_all add: r1_def same_ports_def refs_held_def)
  have r3: "same_refs r (qrtr_node_release e srv r2)"
    using same_refs_trans [OF r1(1) lookup_release [OF r1(3) l]] by simp
  have r3p: "same_ports r (qrtr_node_release e srv r2)"
    using same_ports_trans [OF r1(2)] same_ports_trans [of r1 r2] ports.lookup [of e r1 "server_node ?pkt"] ports.release [of e r2 srv] assms(1) l
    by (auto intro: same_ports_trans)
  show ?thesis
    unfolding send_skb_def Let_def r1_def [symmetric] l prod.case
    using r3 r3p call callp by (auto simp: r1_def)
qed

lemma choose_fn_same:
  assumes "refs_held r" and "choose_fn s addr r = (fo, r1)"
  shows "same_ports r r1 \<and> refs_held r1 \<and> (\<forall>rc. fo = Inl rc \<longrightarrow> same_refs r r1)
    \<and> (\<forall>f r2. fo = Inr f \<longrightarrow> same_refs r1 r2 \<longrightarrow> same_refs r (qrtr_node_release e (fn_node f) r2))"
proof -
  obtain ho r0 where l: "qrtr_node_lookup (sq_node addr) r = (ho, r0)" by force
  have p: "same_ports r r0" using l by (auto simp: qrtr_node_lookup_def qrtr_node_acquire_def same_ports_def split: option.splits)
  note found = lookup_found [OF assms(1) l]
  have h0: "refs_held r0" using found assms(1) by (auto simp: refs_held_def)
  show ?thesis
  proof (cases "sq_node addr = QRTR_NODE_BCAST \<or> sq_node addr = sq_node (s_us (rt_sock r s))")
    case True
    then show ?thesis
      using assms by (auto simp: choose_fn_def fn_node_def qrtr_node_release_def split: if_splits)
  next
    case False
    show ?thesis
    proof (cases ho)
      case None
      then show ?thesis using False assms(2) l p h0 found by (auto simp: choose_fn_def same_refs_def)
    next
      case (Some h)
      then obtain g where g: "fo = Inr (To_node h)" "r1 = set_sock s (\<lambda>k. k\<lparr>s_state := g\<rparr>) r0"
        using False assms(2) l unfolding choose_fn_def Let_def by auto
      have "same_refs r0 r2 \<Longrightarrow> same_refs r (qrtr_node_release e (Some h) r2)" for r2
        using lookup_release [OF assms(1) l] Some by simp
      then show ?thesis
        using g p h0 by (auto simp: fn_node_def same_refs_def same_ports_def refs_held_def)
    qed
  qed
qed

lemma send_addr_state: "snd (send_addr e s msg r) \<in> {r, snd (qrtr_autobind e s r)}"
  by (auto simp: send_addr_def split: option.splits prod.splits if_splits)

lemma sendmsg_same:
  assumes e: "calm e" and "refs_held r0" and a: "send_addr e s msg r = (ao, r0)"
  shows "snd (qrtr_sendmsg e s msg r) \<in> {r, r0} \<or>
    same_refs r0 (snd (qrtr_sendmsg e s msg r)) \<and> same_ports r0 (snd (qrtr_sendmsg e s msg r))"
proof (cases ao)
  case (Inl rc)
  then show ?thesis using a by (simp add: qrtr_sendmsg_def Let_def)
next
  case (Inr addr)
  obtain fo r1 where c: "choose_fn s addr r0 = (fo, r1)" by force
  note ch = choose_fn_same [OF assms(2) c, of e]
  show ?thesis
  proof (cases fo)
    case (Inl rc)
    then show ?thesis using ch \<open>ao = Inr addr\<close> a c by (simp add: qrtr_sendmsg_def Let_def)
  next
    case (Inr f)
    have rel: "same_ports r0 (qrtr_node_release e (fn_node f) r2)" if "same_ports r1 r2" for r2
      using ch that ports.release [of e r2 "fn_node f"] e by (auto intro: same_ports_trans)
    have skb: "same_refs r1 (snd (send_skb e s f addr (msg_dontwait msg) (length (msg_data msg)) d dl fs (tick (tick r1)))) \<and>
        same_ports r1 (snd (send_skb e s f addr (msg_dontwait msg) (length (msg_data msg)) d dl fs (tick (tick r1))))" for d dl fs
      using send_skb_same [OF e, of "tick (tick r1)"] ch by (simp add: same_refs_def same_ports_def refs_held_def)
    have al: "qrtr_sock_alloc_skb_send e n r1 \<in> {(None, tick r1)} \<union> range (\<lambda>m. (Some m, tick r1))" for n
      by (auto simp: qrtr_sock_alloc_skb_send_def Let_def)
    have t: "same_refs r1 (tick r1)" "same_ports r1 (tick r1)" "same_refs r1 (tick (tick r1))" "same_ports r1 (tick (tick r1))"
      by simp_all
    show ?thesis
      using al [of "length (msg_data msg)"] skb t ch rel \<open>ao = Inr addr\<close> a c Inr
      by (auto simp: qrtr_sendmsg_def Let_def case_prod_beta)
  qed
qed

section \<open>Registering and unregistering\<close>

lemma refs_register:
  assumes "refs_ok r" and "ho \<notin> Some ` set (rt_all_epts r)"
  shows "refs_ok (snd (qrtr_endpoint_register e x th ho net_id no_wake r))"
proof -
  have ins: "same_refs r (snd (snd (insert_no_wake e ss acc r)))" for ss acc r
    by (induction ss arbitrary: acc r) (auto simp: same_refs_def)
  let ?r1 = "\<lambda>h. r\<lparr>rt_threads := h # rt_threads r\<rparr>"
  have "same_refs r (snd (snd (insert_no_wake e ss acc (?r1 h))))" for h ss acc
    using ins [where r = "?r1 h"] by (simp add: same_refs_def)
  then show ?thesis
    using assms by (cases ho) (auto simp: qrtr_endpoint_register_def Let_def case_prod_beta refs_ok_def same_refs_def fresh_node_def)
qed

lemma assign_refs:
  assumes "refs_ok r" and "h \<in> set (rt_all_epts r)"
  shows "refs_ok (qrtr_node_assign e h nid r) \<and> rt_all_epts (qrtr_node_assign e h nid r) = rt_all_epts r"
  using assms by (auto simp: qrtr_node_assign_def refs_ok_def set_insort_key Let_def split: option.splits)

lemma refs_post:
  assumes "calm e" and "refs_ok r" and "h \<in> set (rt_all_epts r)"
  shows "refs_ok (snd (qrtr_endpoint_post e h data r))"
proof -
  have skb: "refs_ok (snd (post_skb e h cb payload frags r))" if ok: "refs_ok r" "h \<in> set (rt_all_epts r)" for cb payload frags r
  proof -
    define r2 where "r2 = (if cb_type cb = QRTR_TYPE_NEW_SERVER
      then qrtr_node_assign e h (server_node (ctrl_pkt_of payload)) (qrtr_node_assign e h (cb_src_node cb) r)
      else qrtr_node_assign e h (cb_src_node cb) r)"
    have r2: "refs_ok r2"
      using assign_refs [OF ok, of e "cb_src_node cb"] assign_refs [of "qrtr_node_assign e h (cb_src_node cb) r" h] ok by (simp add: r2_def)
    have node: "refs_ok (set_node h f r') = refs_ok r'" if "\<And>n. n_ref (f n) = n_ref n" for f r' using that by (auto simp: refs_ok_def)
    have "refs_ok (snd (sock_queue_rcv_skb e s b r2))" for s b
      using refs_ok_same [OF _ r2] refs.queue_rcv [of e r2] assms(1) by blast
    then show ?thesis
      using r2 unfolding post_skb_def Let_def r2_def [symmetric] by (auto simp: node case_prod_beta split: option.split)
  qed
  have "same_refs r (snd (qrtr_get_backup n (tick r)))" for n
    by (simp add: qrtr_get_backup_def same_refs_def)
  then have "refs_ok (snd (qrtr_get_backup n (tick r)))" "h \<in> set (rt_all_epts (snd (qrtr_get_backup n (tick r))))" for n
    using refs_ok_same [OF _ assms(2)] assms(3) by (auto simp: same_refs_def)
  moreover have "refs_ok (tick r)" using assms(2) by (simp add: refs_ok_def)
  ultimately show ?thesis
    using skb assms(2,3) by (auto simp: qrtr_endpoint_post_def Let_def case_prod_beta split: option.split)
qed

lemma refs_unregister:
  assumes "calm e" and "refs_ok r" and "h \<in> set (rt_all_epts r)"
  shows "refs_ok (qrtr_endpoint_unregister e h r)"
proof -
  define r1 where "r1 = set_node h (\<lambda>n. n\<lparr>n_ep := False\<rparr>) r"
  define r2 where "r2 = bye_loop e h (node_ids r1 h) r1"
  have "same_refs r r1" by (simp add: r1_def same_refs_def)
  then have s: "same_refs r r2" using same_refs_trans refs.bye [of e r1] assms(1) by (auto simp: r2_def)
  then have ok: "refs_ok r2" "n_ref (rt_node r2 h) = 1" using refs_ok_same [OF s assms(2)] assms(2,3) by (auto simp: refs_ok_def same_refs_def)
  let ?r3 = "r2\<lparr>rt_nodes := filter (\<lambda>(k, g). g \<noteq> h) (rt_nodes r2), rt_all_epts := filter (\<lambda>g. g \<noteq> h) (rt_all_epts r2)\<rparr>"
  have "refs_ok ?r3" using ok(1) by (auto simp: refs_ok_def)
  moreover have "same_refs ?r3 (e_flush e h ?r3)" using assms(1) unfolding calm_def by blast
  ultimately have fl: "refs_ok (e_flush e h ?r3)" "h \<notin> set (rt_all_epts (e_flush e h ?r3))"
    using refs_ok_same by (blast, auto simp: same_refs_def)
  have "refs_ok (qrtr_node_release e (Some h) r2)"
    using ok fl by (auto simp: qrtr_node_release_def qrtr_node_free_def Let_def refs_ok_def)
  then show ?thesis by (simp add: qrtr_endpoint_unregister_def r1_def r2_def Let_def)
qed

section \<open>Both invariants in every run\<close>

text \<open>The system calls that bind or send change the ports only through the binding.\<close>

lemma ports_sendmsg:
  assumes "calm e" and "ports_ok r" and "refs_ok r" and "\<not> s_dead (rt_sock r s)"
  shows "ports_ok (snd (qrtr_sendmsg e s msg r)) \<and> refs_ok (snd (qrtr_sendmsg e s msg r))"
proof -
  obtain ao r0 where a: "send_addr e s msg r = (ao, r0)" by force
  have r0: "ports_ok r0" "refs_ok r0"
    using send_addr_state [of e s msg r] a assms ports_autobind [OF assms(1,2,4)] refs_ok_same [OF refs_autobind [OF assms(1,3)] assms(3)]
    by auto
  show ?thesis
    using sendmsg_same [OF assms(1) refs_ok_held [OF r0(2)] a] r0 assms(2,3) ports_ok_same refs_ok_same by auto
qed

lemma ports_connect:
  assumes "calm e" and "ports_ok r" and "refs_ok r" and "\<not> s_dead (rt_sock r s)"
  shows "ports_ok (snd (qrtr_connect e s addr len r)) \<and> refs_ok (snd (qrtr_connect e s addr len r))"
proof -
  let ?r = "set_sock s (\<lambda>k. k\<lparr>s_established := False, s_connected := False\<rparr>) r"
  have "same_ports r ?r" by (rule same_set_sock) simp
  moreover have "same_refs r ?r" by simp
  ultimately have ok: "ports_ok ?r" "refs_ok ?r" using ports_ok_same refs_ok_same assms(2,3) by blast+
  have a: "ports_ok (snd (qrtr_autobind e s ?r))" "refs_ok (snd (qrtr_autobind e s ?r))"
    using ports_autobind [OF assms(1) ok(1)] refs_ok_same [OF refs_autobind [OF assms(1) ok(2)] ok(2)] assms(4) by simp_all
  have "same_ports (snd (qrtr_autobind e s ?r)) (set_sock s (\<lambda>k. k\<lparr>s_peer := addr, s_connected := True, s_established := True\<rparr>) (snd (qrtr_autobind e s ?r)))"
    by (rule same_set_sock) simp
  then have "ports_ok (set_sock s (\<lambda>k. k\<lparr>s_peer := addr, s_connected := True, s_established := True\<rparr>) (snd (qrtr_autobind e s ?r)))"
    "refs_ok (set_sock s (\<lambda>k. k\<lparr>s_peer := addr, s_connected := True, s_established := True\<rparr>) (snd (qrtr_autobind e s ?r)))"
    using ports_ok_same a(1) refs_ok_same [OF _ a(2)] by (blast, simp)
  then show ?thesis using a assms(2,3) by (auto simp: qrtr_connect_def case_prod_beta)
qed

lemma ports_recvmsg:
  assumes "calm e"
  shows "same_ports r (snd (snd (qrtr_recvmsg e s n peek rc r)))"
proof -
  have sig: "same_ports a (set_sock s (\<lambda>k. k\<lparr>s_signal_on_recv := v\<rparr>) r')" if "same_ports a r'" for a r' v
    using that by (auto simp: same_ports_def)
  have rcv: "same_ports r (tick (if peek then r else set_sock s (\<lambda>k. k\<lparr>s_rcv := bs\<rparr>) r))" for bs
    by (auto simp: same_ports_def)
  have "same_ports r (snd (qrtr_send_resume_tx e cb r'))" if "same_ports r r'" for cb r'
    using that ports.resume_tx [of e r' cb] assms same_ports_trans by blast
  then show ?thesis using rcv sig by (auto simp: qrtr_recvmsg_def Let_def split: list.split)
qed

lemma refs_release_sock:
  assumes "calm e" and "refs_ok r"
  shows "same_refs r (qrtr_release e s r)"
proof -
  have "same_refs r (fold (\<lambda>h. set_node h (\<lambda>n. n\<lparr>n_hello_sent := 0, n_hello_rcvd := 0\<rparr>)) hs r)" for hs
    by (induction hs rule: rev_induct) (simp_all add: same_refs_def)
  then have r1: "same_refs r (if sq_port (s_us (rt_sock r s)) = QRTR_PORT_CTRL then reset_hellos r else r)" (is "same_refs r ?r1")
    by (simp add: reset_hellos_def)
  let ?r2 = "set_sock s (\<lambda>k. k\<lparr>s_shutdown := 3, s_dead := True\<rparr>) ?r1"
  have r2: "same_refs r ?r2" using r1 by simp
  have "same_refs ?r2 (qrtr_port_remove e s ?r2)" by (rule refs_port_remove [OF assms(1) refs_ok_same [OF r2 assms(2)]])
  with r2 have "same_refs r (qrtr_port_remove e s ?r2)" by (rule same_refs_trans)
  moreover have "same_refs r (r\<lparr>rt_stuck := True\<rparr>)" by (simp add: same_refs_def)
  ultimately show ?thesis using r2 unfolding qrtr_release_def Let_def by (auto simp del: set_sock_frame)
qed

lemma ports_create:
  assumes "ports_ok r" and "so \<notin> Some ` snd ` set (rt_ports r)"
  shows "ports_ok (snd (qrtr_create dgram so r))"
proof (cases "dgram \<and> so \<noteq> None")
  case True
  then obtain s where s: "so = Some s" "s \<notin> snd ` set (rt_ports r)" using assms(2) by auto
  have tab: "(i, t) \<in> set (rt_ports r) \<longleftrightarrow>
      \<not> s_zapped (rt_sock r t) \<and> \<not> s_dead (rt_sock r t) \<and> i = port_index (sq_port (s_us (rt_sock r t)))" for i t
    using assms(1) by (simp add: ports_ok_def)
  have "(i, s) \<notin> set (rt_ports r)" for i using s(2) by force
  then show ?thesis
    using True s(1) assms(1) tab unfolding ports_ok_def qrtr_create_def by simp
qed (use assms(1) in \<open>auto simp: qrtr_create_def split: option.split\<close>)

lemma router_step_keeps:
  assumes "router_step e r r'" and e: "calm e" and ok: "ports_ok r" "refs_ok r"
  shows "ports_ok r' \<and> refs_ok r'"
  using assms(1)
proof cases
  case (create so dgram)
  then show ?thesis using ports_create [OF ok(1)] ok(2) by (auto simp: qrtr_create_def refs_ok_def split: option.split)
next
  case (bind s addr len)
  then show ?thesis
    using ports_bind_port [OF e ok(1)] refs_ok_same [OF refs_bind_port [OF e ok(2)] ok(2)] ok by (auto simp: qrtr_bind_def)
next
  case (connect s addr len)
  then show ?thesis using ports_connect [OF e ok] by simp
next
  case (sendmsg s msg)
  then show ?thesis using ports_sendmsg [OF e ok] by simp
next
  case (recvmsg s n peek rc)
  then show ?thesis
    using ports_ok_same [OF ports_recvmsg [OF e] ok(1)] refs_ok_same [OF refs_recvmsg [OF e ok(2)] ok(2)] by simp
next
  case (shutdown s mode)
  have "same_ports r (snd (qrtr_shutdown s mode r))" "same_refs r (snd (qrtr_shutdown s mode r))"
    by (auto simp: qrtr_shutdown_def same_ports_def Let_def)
  then show ?thesis using shutdown ports_ok_same refs_ok_same ok by blast
next
  case (release s)
  then show ?thesis using ports_release [OF e ok(1)] refs_ok_same [OF refs_release_sock [OF e ok(2)] ok(2)] by simp
next
  case (register ho x th net_id no_wake)
  then show ?thesis using ports.register [of e r] e ports_ok_same [OF _ ok(1)] refs_register [OF ok(2)] by blast
next
  case (unregister h)
  then show ?thesis using ports.unregister [of e r] e ports_ok_same [OF _ ok(1)] refs_unregister [OF e ok(2)] by blast
next
  case (post h data)
  then show ?thesis using ports.post [of e r] e ports_ok_same [OF _ ok(1)] refs_post [OF e ok(2)] by blast
next
  case (rx_work h)
  then show ?thesis
    using ports.rx_work [of e r] e ports_ok_same [OF _ ok(1)] refs_ok_same [OF refs_rx_work [OF e ok(2)] ok(2)] by blast
next
  case (hello_work h)
  then show ?thesis
    using ports.hello [of e r] refs.hello [of e r] e ports_ok_same [OF _ ok(1)] refs_ok_same [OF _ ok(2)] by blast
next
  case alloc_backup
  have f: "same_refs r (snd (fill_backup e n r))" for n r
    by (induction n arbitrary: r) (auto simp: same_refs_def case_prod_beta)
  have "same_refs r (qrtr_alloc_backup e r)"
    unfolding qrtr_alloc_backup_def Let_def case_prod_beta using f [of r] same_refs_trans [OF f f] by (simp add: same_refs_def)
  then show ?thesis
    using alloc_backup ports.alloc_backup [of e r] e ports_ok_same [OF _ ok(1)] refs_ok_same [OF _ ok(2)] by blast
qed

lemma started_ok: "started r \<Longrightarrow> ports_ok r \<and> refs_ok r"
  by (simp add: started_def ports_ok_def refs_ok_def)

lemma run_keeps: "(router_step e)\<^sup>*\<^sup>* r0 r \<Longrightarrow> calm e \<Longrightarrow> started r0 \<Longrightarrow> ports_ok r \<and> refs_ok r"
  by (induction rule: rtranclp_induct) (use started_ok router_step_keeps in blast)+

text \<open>
  C9 (invariant). In every run of the router, whatever fails and in whatever order system calls, packets, workers and
  registrations come, the table of ports lists exactly the bound sockets that were not released, each
  under its own port, so that a lookup finds the one socket bound to a port and nothing else.
\<close>

theorem port_table_agrees:
  assumes "(router_step e)\<^sup>*\<^sup>* r0 r" and "started r0" and "calm e"
  shows "distinct (map fst (rt_ports r))
    \<and> (qrtr_port_lookup r port = Some s \<longleftrightarrow>
        \<not> s_zapped (rt_sock r s) \<and> \<not> s_dead (rt_sock r s) \<and> port_index port = port_index (sq_port (s_us (rt_sock r s))))"
proof -
  have "ports_ok r" using run_keeps [OF assms(1,3,2)] by simp
  then show ?thesis by (auto simp: ports_ok_def qrtr_port_lookup_def map_of_eq_Some_iff)
qed

text \<open>
  C10 (invariant). In every run, between the operations each node the tree leads to is in the list of
  endpoints, and each node in the list has exactly the one reference its registration gave it: no path,
  also none that fails, loses a reference or gives one up twice.
\<close>

theorem node_references_balanced:
  assumes "(router_step e)\<^sup>*\<^sup>* r0 r" and "started r0" and "calm e"
  shows "distinct (rt_all_epts r) \<and> (qrtr_node_lookup nid r = (Some h, r') \<longrightarrow> h \<in> set (rt_all_epts r) \<and> n_ref (rt_node r' h) = 2)
    \<and> (h \<in> set (rt_all_epts r) \<longrightarrow> n_ref (rt_node r h) = 1)"
proof -
  have ok: "refs_ok r" using run_keeps [OF assms(1,3,2)] by simp
  have "h \<in> set (rt_all_epts r) \<and> n_ref (rt_node r' h) = 2" if l: "qrtr_node_lookup nid r = (Some h, r')"
  proof -
    have "map_of (rt_nodes r) nid = Some h" using l by (auto simp: qrtr_node_lookup_def split: option.splits)
    then have "h \<in> snd ` set (rt_nodes r)" using map_of_SomeD by force
    then have "h \<in> set (rt_all_epts r)" "n_ref (rt_node r h) = 1" using ok by (auto simp: refs_ok_def)
    then show ?thesis using lookup_found [OF refs_ok_held [OF ok] l] by simp
  qed
  then show ?thesis using ok by (auto simp: refs_ok_def)
qed

text \<open>An environment in which everything succeeds and nothing else runs, and a router after start-up.\<close>

definition quiet_env :: env where
  "quiet_env = \<lparr>e_xmit = (\<lambda>_. 0), e_pad = (\<lambda>_. 0), e_alloc = (\<lambda>_. True), e_frags = (\<lambda>_ n. if n = 0 then [] else [n]), e_max_alloc = 16064, e_insert = (\<lambda>_. 0), e_queue = (\<lambda>_. 0), e_copy = (\<lambda>_. 0),
     e_ctrl = (\<lambda>_. []), e_ctrl_wait = (\<lambda>_ r. r), e_tx_wait = (\<lambda>_ _ r. (1, r)), e_flush = (\<lambda>_ r. r),
     e_alloc_cyclic = (\<lambda>ps n. if QRTR_MIN_EPH_SOCKET \<in> fst ` set ps then (- EBUSY, 0, n) else (0, QRTR_MIN_EPH_SOCKET, n + 1)),
     e_capable = True, e_service = (\<lambda>_ _. -1), e_junk = (\<lambda>_. 0), e_stack = zero_pkt\<rparr>"

definition example_sock :: qrtr_sock where
  "example_sock = \<lparr>s_us = \<lparr>sq_family = 0, sq_node = 0, sq_port = 0\<rparr>, s_peer = \<lparr>sq_family = 0, sq_node = 0, sq_port = 0\<rparr>,
     s_state = QRTR_STATE_INIT, s_signal_on_recv = False, s_zapped = True, s_dead = False, s_err = 0,
     s_established = False, s_connected = False, s_shutdown = 0, s_rcv = []\<rparr>"

definition example_router :: "nat \<Rightarrow> router" where
  "example_router nid = \<lparr>rt_local_nid = nid, rt_nodes = [], rt_all_epts = [], rt_epts_readers = 0, rt_stuck = False,
     rt_node = (\<lambda>_. fresh_node), rt_threads = [], rt_ports = [], rt_ports_next = QRTR_MIN_EPH_SOCKET,
     rt_sock = (\<lambda>_. example_sock), rt_backup_lo = 0, rt_backup_hi = 0, rt_backup_work = False, rt_sent = [], rt_tick = 0\<rparr>"

lemma quiet_env_calm: "calm quiet_env"
  by (auto simp: calm_def quiet_env_def split: if_splits)

lemma example_started: "started (example_router nid)"
  by (simp add: started_def example_router_def example_sock_def)

theorem port_table_agrees_witness:
  "let r1 = snd (qrtr_create True (Some 3) (example_router 1));
       r2 = snd (qrtr_bind quiet_env 3 \<lparr>sq_family = 42, sq_node = 1, sq_port = 0\<rparr> 12 r1)
   in qrtr_port_lookup r2 16384 = Some 3 \<and> qrtr_port_lookup r2 QRTR_PORT_CTRL \<noteq> Some 3"
proof -
  let ?r0 = "example_router 1"
  let ?r1 = "snd (qrtr_create True (Some 3) ?r0)"
  let ?r2 = "snd (qrtr_bind quiet_env 3 \<lparr>sq_family = 42, sq_node = 1, sq_port = 0\<rparr> 12 ?r1)"
  have "router_step quiet_env ?r0 ?r1" by (rule router_step.create) (simp add: example_router_def)
  moreover have "router_step quiet_env ?r1 ?r2" by (rule router_step.bind) (simp add: qrtr_create_def)
  ultimately have run: "(router_step quiet_env)\<^sup>*\<^sup>* ?r0 ?r2" by (meson converse_rtranclp_into_rtranclp rtranclp.rtrancl_refl)
  have s: "rt_sock ?r2 3 = example_sock\<lparr>s_us := \<lparr>sq_family = 42, sq_node = 1, sq_port = 16384\<rparr>, s_zapped := False\<rparr>"
    by (simp add: qrtr_bind_def qrtr_create_def qrtr_bind_port_def qrtr_port_assign_def quiet_env_def example_router_def example_sock_def)
  show ?thesis
    unfolding Let_def
    using port_table_agrees [OF run example_started quiet_env_calm, of 16384 3]
      port_table_agrees [OF run example_started quiet_env_calm, of QRTR_PORT_CTRL 3] s
    by (simp add: example_sock_def port_index_def)
qed

theorem node_references_balanced_witness:
  "let r1 = snd (qrtr_endpoint_register quiet_env True True (Some 7) 1 [] (example_router 1))
   in 7 \<in> set (rt_all_epts r1) \<and> n_ref (rt_node r1 7) = 1"
proof -
  let ?r1 = "snd (qrtr_endpoint_register quiet_env True True (Some 7) 1 [] (example_router 1))"
  have "router_step quiet_env (example_router 1) ?r1" by (rule router_step.register) (simp add: example_router_def)
  then have run: "(router_step quiet_env)\<^sup>*\<^sup>* (example_router 1) ?r1" by blast
  have "7 \<in> set (rt_all_epts ?r1)" by (simp add: qrtr_endpoint_register_def example_router_def)
  then show ?thesis
    unfolding Let_def using node_references_balanced [OF run example_started quiet_env_calm, of 0 7 ?r1] by blast
qed

section \<open>A farewell without memory\<close>

lemma del_proc_no_memory:
  assumes "\<And>n. \<not> e_alloc e n" and "\<exists>g \<in> set gs. qrtr_must_forward r (Some h) (Some g) QRTR_TYPE_DEL_PROC"
  shows "del_proc_loop e h nid gs r = tick r"
  using assms by (induction gs) (auto simp: qrtr_alloc_ctrl_packet_def)

lemma must_forward_same:
  assumes "rt_node r' = rt_node r"
  shows "qrtr_must_forward r' = qrtr_must_forward r"
  unfolding qrtr_must_forward_def assms ..

lemma bye_no_memory:
  assumes "\<And>n. \<not> e_alloc e n" and "\<exists>g \<in> set (rt_all_epts r). qrtr_must_forward r (Some h) (Some g) QRTR_TYPE_DEL_PROC"
  shows "rt_node (bye_loop e h nids r) = rt_node r \<and> rt_all_epts (bye_loop e h nids r) = rt_all_epts r
    \<and> rt_epts_readers (bye_loop e h nids r) = length nids + rt_epts_readers r"
  using assms(2)
proof (induction nids arbitrary: r)
  case (Cons nid nids)
  let ?r1 = "tick r"
  let ?r2 = "?r1\<lparr>rt_epts_readers := Suc (rt_epts_readers ?r1)\<rparr>"
  have "qrtr_fwd_del_proc e h nid ?r1 = tick ?r2"
    unfolding qrtr_fwd_del_proc_def using Cons.prems
    by (intro del_proc_no_memory [OF assms(1)]) (simp add: must_forward_same [of "?r1\<lparr>rt_epts_readers := Suc (rt_epts_readers r)\<rparr>" r])
  then have "bye_loop e h (nid # nids) r = bye_loop e h nids (tick ?r2)"
    using assms(1) by (simp add: qrtr_alloc_ctrl_packet_def)
  then show ?case using Cons.IH [of "tick ?r2"] Cons.prems by (simp add: must_forward_same [of "tick (?r1\<lparr>rt_epts_readers := Suc (rt_epts_readers r)\<rparr>)" r])
qed simp

text \<open>
  C37 (error). When no control packet can be allocated for the other nodes, unregistering an endpoint keeps the
  semaphore of the endpoint list: the call waits for itself with the node still in the list, and no other
  endpoint can be registered.
\<close>

theorem farewell_without_memory_stuck:
  assumes "\<And>n. \<not> e_alloc e n" and "node_ids r h \<noteq> []" and "n_ref (rt_node r h) = 1" and "h \<in> set (rt_all_epts r)"
    and "g \<in> set (rt_all_epts r)" and "qrtr_must_forward r (Some h) (Some g) QRTR_TYPE_DEL_PROC"
  shows "let r' = qrtr_endpoint_unregister e h r; r'' = snd (qrtr_endpoint_register e' True True (Some k) net_id [] r')
    in rt_stuck r' \<and> h \<in> set (rt_all_epts r') \<and> rt_stuck r'' \<and> rt_all_epts r'' = rt_all_epts r"
proof -
  let ?r1 = "set_node h (\<lambda>n. n\<lparr>n_ep := False\<rparr>) r"
  let ?r2 = "bye_loop e h (node_ids ?r1 h) ?r1"
  have "qrtr_must_forward ?r1 (Some h) (Some g) QRTR_TYPE_DEL_PROC" using assms(6) by (auto simp: qrtr_must_forward_def)
  then have r2: "rt_node ?r2 = rt_node ?r1" "rt_all_epts ?r2 = rt_all_epts r"
    "rt_epts_readers ?r2 = length (node_ids r h) + rt_epts_readers r"
    using bye_no_memory [OF assms(1), of ?r1 h "node_ids ?r1 h"] assms(5) by (auto simp: node_ids_def)
  then have "qrtr_endpoint_unregister e h r = ?r2\<lparr>rt_stuck := True\<rparr>"
    using assms(2,3) by (simp add: qrtr_endpoint_unregister_def qrtr_node_release_def Let_def)
  then show ?thesis using r2 assms(2,4) by (simp add: Let_def qrtr_endpoint_register_def)
qed

theorem farewell_without_memory_stuck_witness:
  "let e = quiet_env\<lparr>e_alloc := \<lambda>_. False\<rparr>;
       r = (example_router 1)\<lparr>rt_all_epts := [7, 8], rt_nodes := [(5, 7), (6, 8)],
             rt_node := (\<lambda>h. fresh_node\<lparr>n_nid := h - 2, n_net_id := 2 * h\<rparr>)\<rparr>;
       r' = qrtr_endpoint_unregister e 7 r
   in rt_stuck r' \<and> rt_stuck (snd (qrtr_endpoint_register quiet_env True True (Some 9) 1 [] r'))"
proof -
  let ?r = "(example_router 1)\<lparr>rt_all_epts := [7, 8], rt_nodes := [(5, 7), (6, 8)],
             rt_node := (\<lambda>h. fresh_node\<lparr>n_nid := h - 2, n_net_id := 2 * h\<rparr>)\<rparr>"
  have "qrtr_must_forward ?r (Some 7) (Some 8) QRTR_TYPE_DEL_PROC"
    by (simp add: qrtr_must_forward_def fresh_node_def width_simps)
  then show ?thesis
    using farewell_without_memory_stuck [of "quiet_env\<lparr>e_alloc := \<lambda>_. False\<rparr>" ?r 7 8 quiet_env 9 1]
    by (simp add: node_ids_def fresh_node_def Let_def)
qed

end
