(* ===== verification/Qrtr_Flow.thy ===== *)
theory Qrtr_Flow
  imports Qrtr_Steps
begin

text \<open>
  Flow control of the IPC router. A flow counts the packets to one remote port since the port last asked
  for more; at the low mark a packet asks for that, at the high mark senders wait. Senders run
  concurrently: what happens to a flow under its lock is one step, and between taking a place in the flow and
  the end of the transmission others may run.
\<close>

section \<open>Steps of a flow\<close>

text \<open>
  The state of a run: the router, the number of confirmation requests whose transmission is under way,
  and whether one was transmitted that the remote port has not answered.
\<close>

type_synonym flow_state = "router \<times> nat \<times> bool"

definition resume_skb :: "nat \<Rightarrow> nat \<Rightarrow> skb \<Rightarrow> bool" where
  "resume_skb node port b \<longleftrightarrow> ctrl_pkt_size \<le> length (skb_data b) \<and> pkt_cmd (ctrl_pkt_of (skb_data b)) = QRTR_TYPE_RESUME_TX
     \<and> client_node (ctrl_pkt_of (skb_data b)) = node \<and> client_port (ctrl_pkt_of (skb_data b)) = port"

inductive flow_step :: "env \<Rightarrow> nat \<Rightarrow> nat \<Rightarrow> nat \<Rightarrow> flow_state \<Rightarrow> flow_state \<Rightarrow> bool" for e h node port where
  found: "find_flow e h (flow_key node port) r = (got, r') \<Longrightarrow> flow_step e h node port (r, i, w) (r', i, w)"
| take: "n_tx_flow (rt_node r h) (flow_key node port) = Some f \<Longrightarrow>
    (0 < ret \<Longrightarrow> flow_ready (rt_node r h) (flow_key node port)) \<Longrightarrow>
    flow_take e h (flow_key node port) sk ret r = (c, r') \<Longrightarrow>
    flow_step e h node port (r, i, w) (r', i + (if c = 1 then 1 else 0), w)"
| sent: "flow_step e h node port (r, Suc i, w) (r, i, True)"
| failed: "flow_step e h node port (r, Suc i, w) (qrtr_tx_flow_failed h node port r, i, w)"
| resume: "resume_skb node port b \<Longrightarrow> flow_step e h node port (r, i, w) (snd (qrtr_tx_resume e h b r), i, False)"
| other: "n_tx_flow (rt_node r' h) (flow_key node port) = n_tx_flow (rt_node r h) (flow_key node port) \<Longrightarrow>
    flow_step e h node port (r, i, w) (r', i, w)"

text \<open>While a waiter is told about the resumption, its flow is locked.\<close>

definition waits_keep_flows :: "env \<Rightarrow> bool" where
  "waits_keep_flows e \<longleftrightarrow> (\<forall>s r h. n_tx_flow (rt_node (e_ctrl_wait e s r) h) = n_tx_flow (rt_node r h))"

section \<open>The invariant\<close>

definition flow_ok :: "qrtr_tx_flow option \<Rightarrow> nat \<Rightarrow> bool \<Rightarrow> bool" where
  "flow_ok fo i w \<longleftrightarrow> (case fo of None \<Rightarrow> True
     | Some f \<Rightarrow> fl_pending f \<le> QRTR_TX_FLOW_HIGH \<and> (QRTR_TX_FLOW_LOW \<le> fl_pending f \<longrightarrow> fl_tx_failed f \<or> 0 < i \<or> w))"

lemma flow_of_set_flow [simp]:
  "n_tx_flow (rt_node (set_flow h k f r) h) k' = (if k' = k then map_option f (n_tx_flow (rt_node r h) k) else n_tx_flow (rt_node r h) k')"
  by (simp add: set_flow_def)

lemma local_keeps_flows:
  assumes "waits_keep_flows e"
  shows "n_tx_flow (rt_node (snd (qrtr_local_enqueue e b from to r)) h) = n_tx_flow (rt_node r h)"
proof -
  have loop: "n_tx_flow (rt_node (snd (queue_ctrl_loop e s rcs b r)) h) = n_tx_flow (rt_node r h)" for s rcs b r
    using assms by (induction rcs arbitrary: r) (simp_all add: waits_keep_flows_def sock_append_def)
  then have "n_tx_flow (rt_node (snd (queue_to_port e s b r)) h) = n_tx_flow (rt_node r h)" for s b r
    by (simp add: queue_to_port_def qrtr_sock_queue_ctrl_skb_def sock_queue_rcv_skb_def sock_append_def Let_def)
  then show ?thesis by (simp add: qrtr_local_enqueue_def Let_def case_prod_beta split: option.split)
qed

lemma notify_keeps_flows:
  assumes "waits_keep_flows e"
  shows "n_tx_flow (rt_node (notify_waiters e src ws r) h) = n_tx_flow (rt_node r h)"
  by (induction ws arbitrary: r) (simp_all add: local_keeps_flows [OF assms])

lemma resume_flow:
  assumes "waits_keep_flows e" and "resume_skb node port b"
  shows "n_tx_flow (rt_node (snd (qrtr_tx_resume e h b r)) h) (flow_key node port) =
    map_option (\<lambda>f. f\<lparr>fl_pending := 0, fl_waiters := []\<rparr>) (n_tx_flow (rt_node r h) (flow_key node port))"
  using assms(2) by (auto simp: qrtr_tx_resume_def resume_skb_def notify_keeps_flows [OF assms(1)] Let_def split: option.split)

lemma failed_key_id: "port < 2 ^ 31 \<Longrightarrow> failed_key node port = flow_key node port"
  by (simp add: failed_key_def width_simps)

lemma take_flow:
  assumes f: "n_tx_flow (rt_node r h) k = Some f" and ready: "0 < ret \<Longrightarrow> flow_ready (rt_node r h) k"
    and t: "flow_take e h k sk ret r = (c, r')" and ok: "flow_ok (Some f) i w"
  shows "flow_ok (n_tx_flow (rt_node r' h) k) (i + (if c = 1 then 1 else 0)) w"
proof -
  consider "r' = r \<or> r' = tick r" | (failed) "c = 1" "r' = set_flow h k (\<lambda>f. f\<lparr>fl_tx_failed := False\<rparr>) r"
    | (wait) "r' = set_flow h k (\<lambda>f. f\<lparr>fl_waiters := fl_waiters f @ [sk]\<rparr>) (tick r)"
    | (count) "fl_pending f < QRTR_TX_FLOW_HIGH" "c = of_bool (Suc (fl_pending f) = QRTR_TX_FLOW_LOW)"
        "r' = set_flow h k (\<lambda>f. f\<lparr>fl_pending := Suc (fl_pending f)\<rparr>) r"
    using t f ready by (auto simp: flow_take_def flow_ready_def split: if_splits)
  then show ?thesis
  proof cases
    case count
    then show ?thesis using ok f by (auto simp: flow_ok_def)
  qed (use ok f in \<open>auto simp: flow_ok_def\<close>)
qed

lemma flow_step_ok:
  assumes "flow_step e h node port (r, i, w) (r', i', w')" and "waits_keep_flows e" and "port < 2 ^ 31"
    and "flow_ok (n_tx_flow (rt_node r h) (flow_key node port)) i w"
  shows "flow_ok (n_tx_flow (rt_node r' h) (flow_key node port)) i' w'"
  using assms(1)
proof cases
  case (found got)
  then show ?thesis
    using assms(4) by (auto simp: find_flow_def flow_ok_def new_flow_def split: option.splits if_splits)
next
  case (take f ret sk c)
  then show ?thesis using take_flow [OF take(3,4,5)] assms(4) by simp
next
  case failed
  then show ?thesis
    using assms(4) by (auto simp: qrtr_tx_flow_failed_def failed_key_id [OF assms(3)] flow_ok_def split: option.splits)
next
  case (resume b)
  then show ?thesis
    using resume_flow [OF assms(2)] by (auto simp: flow_ok_def split: option.splits)
qed (use assms(4) in \<open>auto simp: flow_ok_def split: option.splits\<close>)

text \<open>
  C7 (invariant). A flow to a port below \<open>2 ^ 31\<close> never gets past the high mark, and senders are held up only by a question:
  whenever the low mark is reached, a request for confirmation is being transmitted, was transmitted and not answered
  yet, or was lost and is marked to be repeated by the next packet; when the flow is not ready, it is one of the first two. The
  failure of the transmission and the answer of the remote port both make the flow ready. (Whether the remote port answers is up to it.)
  Senders, failing transmissions and resumptions may interleave in any way.
\<close>

theorem flow_held_up_by_request:
  assumes "(flow_step e h node port)\<^sup>*\<^sup>* (r0, 0, False) (r, i, w)"
    and "n_tx_flow (rt_node r0 h) (flow_key node port) = None" and "port < 2 ^ 31" and "waits_keep_flows e"
    and "n_tx_flow (rt_node r h) (flow_key node port) = Some f"
  shows "fl_pending f \<le> QRTR_TX_FLOW_HIGH \<and> (QRTR_TX_FLOW_LOW \<le> fl_pending f \<longrightarrow> fl_tx_failed f \<or> 0 < i \<or> w)
    \<and> (\<not> flow_ready (rt_node r h) (flow_key node port) \<longrightarrow> 0 < i \<or> w)
    \<and> flow_ready (rt_node (qrtr_tx_flow_failed h node port r) h) (flow_key node port)
    \<and> (resume_skb node port b \<longrightarrow> flow_ready (rt_node (snd (qrtr_tx_resume e h b r)) h) (flow_key node port))"
proof -
  have "flow_ok (n_tx_flow (rt_node r h) (flow_key node port)) i w"
    using assms(1)
  proof (induction "(r, i, w)" arbitrary: r i w rule: rtranclp_induct)
    case base
    then show ?case using assms(2) by (simp add: flow_ok_def)
  next
    case (step s)
    obtain r1 i1 w1 where s: "s = (r1, i1, w1)" by (cases s)
    show ?case using flow_step_ok [OF step(2) [unfolded s] assms(4,3) step(3) [OF s]] .
  qed
  moreover have "flow_ready (rt_node (qrtr_tx_flow_failed h node port r) h) (flow_key node port)"
    using assms(5) by (simp add: flow_ready_def qrtr_tx_flow_failed_def failed_key_id [OF assms(3)])
  moreover have "flow_ready (rt_node (snd (qrtr_tx_resume e h b r)) h) (flow_key node port)" if "resume_skb node port b"
    using assms(5) resume_flow [OF assms(4) that, of h r] by (simp add: flow_ready_def)
  ultimately show ?thesis using assms(5) by (auto simp: flow_ok_def flow_ready_def)
qed

section \<open>A transmission is a sequence of steps\<close>

text \<open>
  What a sender may find after waiting for a flow: others made steps, and unless it was interrupted or timed
  out, the condition it waited for holds.
\<close>

definition tx_wait_ok :: "env \<Rightarrow> nat \<Rightarrow> nat \<Rightarrow> nat \<Rightarrow> bool" where
  "tx_wait_ok e h node port \<longleftrightarrow> (\<forall>r ret r2 i w. e_tx_wait e h (flow_key node port) r = (ret, r2) \<longrightarrow>
     (\<exists>w2. (flow_step e h node port)\<^sup>*\<^sup>* (r, i, w) (r2, i, w2)) \<and> n_tx_flow (rt_node r2 h) (flow_key node port) \<noteq> None
     \<and> (0 < ret \<longrightarrow> flow_ready (rt_node r2 h) (flow_key node port)))"

lemma find_flow_found: "find_flow e h k r = (True, r1) \<Longrightarrow> n_tx_flow (rt_node r1 h) k \<noteq> None"
  by (auto simp: find_flow_def split: option.splits if_splits)

lemma find_flow_missing: "find_flow e h k r = (False, r1) \<Longrightarrow> n_tx_flow (rt_node r1 h) k = None"
  by (auto simp: find_flow_def split: option.splits if_splits)

lemma node_xmit_flow: "n_tx_flow (rt_node (snd (node_xmit e h padded pkt r)) g) = n_tx_flow (rt_node r g)"
  by (simp add: node_xmit_def Let_def)

lemma flow_take_confirm: "flow_take e h k sk ret r = (c, r') \<Longrightarrow> 0 \<le> c \<Longrightarrow> c = 0 \<or> c = 1"
  by (auto simp: flow_take_def split: option.splits if_splits)

lemma tx_wait_steps:
  assumes t: "qrtr_tx_wait e h to sk QRTR_TYPE_DATA dw r = (c, r')" and ok: "tx_wait_ok e h (sq_node to) (sq_port to)"
  shows "\<exists>w'. (flow_step e h (sq_node to) (sq_port to))\<^sup>*\<^sup>* (r, i, w) (r', i + (if c = 1 \<and> n_tx_flow (rt_node r' h) (flow_key (sq_node to) (sq_port to)) \<noteq> None then 1 else 0), w')"
    (is "\<exists>w'. ?S\<^sup>*\<^sup>* _ _")
proof -
  let ?k = "flow_key (sq_node to) (sq_port to)"
  obtain found r1 where f: "find_flow e h ?k r = (found, r1)" by force
  have s1: "?S (r, i, w) (r1, i, w)" by (rule flow_step.found [OF f])
  show ?thesis
  proof (cases found)
    case False
    then show ?thesis using t f s1 find_flow_missing [of e h ?k r r1] by (auto simp: qrtr_tx_wait_def Let_def)
  next
    case True
    obtain ret r2 where wt: "(if flow_ready (rt_node r1 h) ?k then (1, r1) else if dw then (0, r1) else e_tx_wait e h ?k r1) = (ret, r2)"
      by force
    have "\<exists>w2. ?S\<^sup>*\<^sup>* (r1, i, w) (r2, i, w2) \<and> n_tx_flow (rt_node r2 h) ?k \<noteq> None \<and> (0 < ret \<longrightarrow> flow_ready (rt_node r2 h) ?k)"
    proof (cases "flow_ready (rt_node r1 h) ?k \<or> dw")
      case True
      then show ?thesis using wt find_flow_found [of e h ?k r r1] f \<open>found\<close> by (auto split: if_splits)
    next
      case False
      then show ?thesis using wt ok unfolding tx_wait_ok_def by auto
    qed
    then obtain w2 f2 where w2: "?S\<^sup>*\<^sup>* (r1, i, w) (r2, i, w2)" "n_tx_flow (rt_node r2 h) ?k = Some f2" "0 < ret \<longrightarrow> flow_ready (rt_node r2 h) ?k"
      by auto
    have tk: "flow_take e h ?k sk ret r2 = (c, r')" using t f True wt by (simp add: qrtr_tx_wait_def Let_def)
    have "n_tx_flow (rt_node r' h) ?k \<noteq> None"
      using tk w2(2) by (auto simp: flow_take_def split: if_splits)
    moreover have "?S (r2, i, w2) (r', i + (if c = 1 then 1 else 0), w2)"
      by (rule flow_step.take [OF w2(2) _ tk]) (use w2(3) in simp)
    then have "?S\<^sup>*\<^sup>* (r, i, w) (r', i + (if c = 1 then 1 else 0), w2)"
      using converse_rtranclp_into_rtranclp [of ?S, OF s1 w2(1)] by (rule rtranclp.rtrancl_into_rtrancl [rotated])
    ultimately show ?thesis by auto
  qed
qed

text \<open>
  Every transmission of a data packet by a socket is a sequence of these steps, with no request left under way at its end.
\<close>

lemma node_enqueue_flow_steps:
  assumes sk: "skb_sk b = Some sk" and p: "sq_port to < 2 ^ 31" and ok: "tx_wait_ok e h (sq_node to) (sq_port to)"
    and q: "qrtr_node_enqueue e h b QRTR_TYPE_DATA from to dw r = (rc, r')"
  shows "\<exists>w'. (flow_step e h (sq_node to) (sq_port to))\<^sup>*\<^sup>* (r, i, w) (r', i, w')" (is "\<exists>w'. ?S\<^sup>*\<^sup>* _ _")
proof (cases "n_hello_sent (rt_node r h) = 0")
  case True
  then show ?thesis using q by (auto simp: qrtr_node_enqueue_def)
next
  case False
  let ?k = "flow_key (sq_node to) (sq_port to)"
  obtain c r2 where t: "qrtr_tx_wait e h to sk QRTR_TYPE_DATA dw r = (c, r2)" by force
  let ?i = "i + (if c = 1 \<and> n_tx_flow (rt_node r2 h) ?k \<noteq> None then 1 else 0)"
  obtain w2 where s: "?S\<^sup>*\<^sup>* (r, i, w) (r2, ?i, w2)" using tx_wait_steps [OF t ok] by blast
  show ?thesis
  proof (cases "c < 0")
    case True
    then show ?thesis using q False t sk s by (auto simp: qrtr_node_enqueue_def)
  next
    case c: False
    define pkt where "pkt = skb_packet e (node_hdr (n_nid (rt_node r2 h)) QRTR_TYPE_DATA from to (length (skb_data b)) (c \<noteq> 0)) b"
    obtain x r3 where x: "node_xmit e h (pad_result e b r2) pkt r2 = (x, r3)" by force
    have c01: "c = 0 \<or> c = 1"
      using t c flow_take_confirm by (auto simp: qrtr_tx_wait_def Let_def case_prod_beta split: if_splits)
    have r': "r' = (if x \<noteq> 0 \<and> c \<noteq> 0 then qrtr_tx_flow_failed h (sq_node to) (sq_port to) r3 else r3)"
      using q False t sk c x by (auto simp: qrtr_node_enqueue_def pkt_def Let_def split: if_splits)
    have same: "n_tx_flow (rt_node r3 h) = n_tx_flow (rt_node r2 h)" using node_xmit_flow [of e h "pad_result e b r2" pkt r2 h] x by simp
    have s3: "?S\<^sup>*\<^sup>* (r, i, w) (r3, ?i, w2)" using s flow_step.other [of r3 h "sq_node to" "sq_port to" r2] same
      by (metis rtranclp.rtrancl_into_rtrancl)
    show ?thesis
    proof (cases "c = 1 \<and> n_tx_flow (rt_node r2 h) ?k \<noteq> None")
      case True
      then show ?thesis
        using s3 r' rtranclp.rtrancl_into_rtrancl [OF s3] flow_step.sent [of e h "sq_node to" "sq_port to" r3 i w2]
          flow_step.failed [of e h "sq_node to" "sq_port to" r3 i w2] by (cases "x = 0") auto
    next
      case False
      have "?S (r3, i, w2) (r', i, w2)"
        using False c01 r' same by (intro flow_step.other) (auto simp: qrtr_tx_flow_failed_def failed_key_id [OF p])
      moreover have "?S\<^sup>*\<^sup>* (r, i, w) (r3, i, w2)" using s3 False by auto
      ultimately show ?thesis using rtranclp.rtrancl_into_rtrancl by meson
    qed
  qed
qed

section \<open>The control port\<close>

text \<open>While a flow is open, packets below the high mark are counted one by one.\<close>

lemma take_count:
  assumes "n_tx_flow (rt_node r h) (flow_key node port) = Some f" and "fl_pending f < QRTR_TX_FLOW_HIGH" and "\<not> fl_tx_failed f"
    and "n_ep (rt_node r h)"
  shows "flow_step e h node port (r, i, w)
    (set_flow h (flow_key node port) (\<lambda>f. f\<lparr>fl_pending := Suc (fl_pending f)\<rparr>) r, i + (if Suc (fl_pending f) = QRTR_TX_FLOW_LOW then 1 else 0), w)"
proof -
  have "flow_take e h (flow_key node port) sk 1 r =
      (of_bool (Suc (fl_pending f) = QRTR_TX_FLOW_LOW), set_flow h (flow_key node port) (\<lambda>f. f\<lparr>fl_pending := Suc (fl_pending f)\<rparr>) r)" for sk
    using assms by (simp add: flow_take_def)
  from flow_step.take [OF assms(1) _ this] show ?thesis using assms(1,2) by (simp add: flow_ready_def)
qed

lemma count_up:
  assumes "n_tx_flow (rt_node r h) (flow_key node port) = Some f" and "\<not> fl_tx_failed f" and "n_ep (rt_node r h)"
    and "fl_pending f + n \<le> QRTR_TX_FLOW_HIGH" and "fl_pending f + n < QRTR_TX_FLOW_LOW \<or> QRTR_TX_FLOW_LOW \<le> fl_pending f"
  shows "\<exists>r'. (flow_step e h node port)\<^sup>*\<^sup>* (r, i, w) (r', i, w) \<and> n_ep (rt_node r' h)
    \<and> n_tx_flow (rt_node r' h) (flow_key node port) = Some (f\<lparr>fl_pending := fl_pending f + n\<rparr>)"
  using assms
proof (induction n)
  case (Suc n)
  then obtain r1 where r1: "(flow_step e h node port)\<^sup>*\<^sup>* (r, i, w) (r1, i, w)" "n_ep (rt_node r1 h)"
    "n_tx_flow (rt_node r1 h) (flow_key node port) = Some (f\<lparr>fl_pending := fl_pending f + n\<rparr>)" by auto
  let ?r = "set_flow h (flow_key node port) (\<lambda>f. f\<lparr>fl_pending := Suc (fl_pending f)\<rparr>) r1"
  have "flow_step e h node port (r1, i, w) (?r, i, w)"
    using take_count [OF r1(3) _ _ r1(2), of e i w] Suc.prems by auto
  then show ?case using r1 by (intro exI [of _ ?r]) (auto simp: set_flow_def)
qed auto

text \<open>
  C38 (error). The port of a lost confirmation request is a signed number there, so for ports from \<open>2 ^ 31\<close> on, the control port
  among them, the loss is recorded under another key. When the request of such a flow is
  lost, the flow fills up and stays full: every sender is sent away although no request is under way,
  unanswered or marked as lost.
\<close>

theorem high_port_stalls:
  assumes "2 ^ 31 \<le> port" and "port < 2 ^ 32" and "node < 2 ^ 32 - 1"
    and "n_tx_flow (rt_node r h) (flow_key node port) = Some new_flow" and "n_ep (rt_node r h)"
  shows "\<exists>r'. (flow_step e h node port)\<^sup>*\<^sup>* (r, 0, False) (r', 0, False)
    \<and> n_tx_flow (rt_node r' h) (flow_key node port) = Some (new_flow\<lparr>fl_pending := QRTR_TX_FLOW_HIGH\<rparr>)
    \<and> (e_alloc e (rt_tick r') \<longrightarrow> fst (flow_take e h (flow_key node port) sk 0 r') = - EAGAIN)"
proof -
  let ?k = "flow_key node port"
  have "int port + 2 ^ 31 = (int port - 2 ^ 31) + 2 ^ 32" by simp
  then have "(int port + 2 ^ 31) mod 2 ^ 32 = (int port - 2 ^ 31) mod 2 ^ 32" by (metis mod_add_self2)
  then have "(int port + 2 ^ 31) mod 2 ^ 32 = int port - 2 ^ 31"
    using mod_pos_pos_trivial [of "int port - 2 ^ 31" "2 ^ 32"] assms(1,2) by simp
  then have "s32 (int port) < 0" using assms(2) by (simp add: s32_def)
  then have k: "failed_key node port \<noteq> ?k" using assms(2,3) by (simp add: failed_key_def flow_key_def)
  obtain r1 where r1: "(flow_step e h node port)\<^sup>*\<^sup>* (r, 0, False) (r1, 0, False)" "n_ep (rt_node r1 h)"
    "n_tx_flow (rt_node r1 h) ?k = Some (new_flow\<lparr>fl_pending := 4\<rparr>)"
    using count_up [OF assms(4) _ assms(5), of 4 e 0 False] by (auto simp: new_flow_def)
  define r2 where "r2 = set_flow h ?k (\<lambda>f. f\<lparr>fl_pending := Suc (fl_pending f)\<rparr>) r1"
  define r3 where "r3 = qrtr_tx_flow_failed h node port r2"
  have "flow_step e h node port (r1, 0, False) (r2, Suc 0, False)"
    using take_count [OF r1(3) _ _ r1(2), of e 0 False] by (simp add: r2_def new_flow_def)
  moreover have "flow_step e h node port (r2, Suc 0, False) (r3, 0, False)"
    unfolding r3_def by (rule flow_step.failed)
  ultimately have r3: "(flow_step e h node port)\<^sup>*\<^sup>* (r, 0, False) (r3, 0, False)"
    using r1(1) by (meson rtranclp.rtrancl_into_rtrancl)
  have f3: "n_tx_flow (rt_node r3 h) ?k = Some (new_flow\<lparr>fl_pending := 5\<rparr>)" "n_ep (rt_node r3 h)"
    using r1(2,3) k by (auto simp: r3_def r2_def qrtr_tx_flow_failed_def set_flow_def)
  obtain r4 where r4: "(flow_step e h node port)\<^sup>*\<^sup>* (r3, 0, False) (r4, 0, False)" "n_ep (rt_node r4 h)"
    "n_tx_flow (rt_node r4 h) ?k = Some (new_flow\<lparr>fl_pending := 10\<rparr>)"
    using count_up [OF f3(1) _ f3(2), of 5 e 0 False] by (auto simp: new_flow_def)
  have "fst (flow_take e h ?k sk 0 r4) = - EAGAIN" if "e_alloc e (rt_tick r4)"
    using r4(2,3) that by (simp add: flow_take_def new_flow_def)
  then show ?thesis using r3 r4 by (meson rtranclp_trans)
qed

definition example_node :: "nat \<Rightarrow> router" where
  "example_node key = set_node 7 (\<lambda>n. n\<lparr>n_tx_flow := [key \<mapsto> new_flow]\<rparr>) (example_router 1)"

theorem high_port_stalls_witness:
  "\<exists>r'. (flow_step quiet_env 7 5 QRTR_PORT_CTRL)\<^sup>*\<^sup>* (example_node (flow_key 5 QRTR_PORT_CTRL), 0, False) (r', 0, False)
    \<and> fst (flow_take quiet_env 7 (flow_key 5 QRTR_PORT_CTRL) 3 0 r') = - EAGAIN"
  using high_port_stalls [of QRTR_PORT_CTRL 5 "example_node (flow_key 5 QRTR_PORT_CTRL)" 7 quiet_env 3]
  by (auto simp: example_node_def example_router_def fresh_node_def quiet_env_def)

text \<open>The request is transmitted, and then five more packets block the flow.\<close>

theorem flow_held_up_by_request_witness:
  "\<exists>r f. (flow_step quiet_env 7 5 20)\<^sup>*\<^sup>* (example_router 1, 0, False) (r, 0, True)
    \<and> n_tx_flow (rt_node r 7) (flow_key 5 20) = Some f \<and> fl_pending f = QRTR_TX_FLOW_HIGH \<and> \<not> flow_ready (rt_node r 7) (flow_key 5 20)
    \<and> flow_ready (rt_node (qrtr_tx_flow_failed 7 5 20 r) 7) (flow_key 5 20)"
proof -
  have f0: "n_tx_flow (rt_node (example_router 1) 7) (flow_key 5 20) = None" by (simp add: example_router_def fresh_node_def)
  obtain r1 where f1: "find_flow quiet_env 7 (flow_key 5 20) (example_router 1) = (True, r1)"
    and r1: "n_tx_flow (rt_node r1 7) (flow_key 5 20) = Some new_flow" "n_ep (rt_node r1 7)"
    using f0 by (auto simp: find_flow_def quiet_env_def example_router_def fresh_node_def)
  obtain r2 where r2: "(flow_step quiet_env 7 5 20)\<^sup>*\<^sup>* (r1, 0, False) (r2, 0, False)" "n_ep (rt_node r2 7)"
    "n_tx_flow (rt_node r2 7) (flow_key 5 20) = Some (new_flow\<lparr>fl_pending := 4\<rparr>)"
    using count_up [OF r1(1) _ r1(2), of 4 quiet_env 0 False] by (auto simp: new_flow_def)
  define r3 where "r3 = set_flow 7 (flow_key 5 20) (\<lambda>f. f\<lparr>fl_pending := Suc (fl_pending f)\<rparr>) r2"
  have "flow_step quiet_env 7 5 20 (r2, 0, False) (r3, Suc 0, False)"
    using take_count [OF r2(3) _ _ r2(2), of quiet_env 0 False] by (simp add: r3_def new_flow_def)
  moreover have "flow_step quiet_env 7 5 20 (r3, Suc 0, False) (r3, 0, True)" by (rule flow_step.sent)
  ultimately have run3: "(flow_step quiet_env 7 5 20)\<^sup>*\<^sup>* (example_router 1, 0, False) (r3, 0, True)"
    using flow_step.found [OF f1] r2(1) by (meson converse_rtranclp_into_rtranclp rtranclp.rtrancl_into_rtrancl)
  have r3: "n_tx_flow (rt_node r3 7) (flow_key 5 20) = Some (new_flow\<lparr>fl_pending := 5\<rparr>)" "n_ep (rt_node r3 7)"
    using r2(2,3) by (auto simp: r3_def set_flow_def)
  obtain r where r: "(flow_step quiet_env 7 5 20)\<^sup>*\<^sup>* (r3, 0, True) (r, 0, True)" "n_ep (rt_node r 7)"
    "n_tx_flow (rt_node r 7) (flow_key 5 20) = Some (new_flow\<lparr>fl_pending := 10\<rparr>)"
    using count_up [OF r3(1) _ r3(2), of 5 quiet_env 0 True] by (auto simp: new_flow_def)
  have run: "(flow_step quiet_env 7 5 20)\<^sup>*\<^sup>* (example_router 1, 0, False) (r, 0, True)" using run3 r(1) by (rule rtranclp_trans)
  have "waits_keep_flows quiet_env" by (simp add: waits_keep_flows_def quiet_env_def)
  from flow_held_up_by_request [OF run f0 _ this r(3)] show ?thesis using run r(2,3)
    by (intro exI [of _ r] exI [of _ "new_flow\<lparr>fl_pending := 10\<rparr>"]) (simp add: flow_ready_def new_flow_def)
qed

end
