(* ===== verification/Qrtr_Delivery.thy ===== *)
theory Qrtr_Delivery
  imports Qrtr_Flow
begin

text \<open>
  From one socket to another: what \<^verbatim>\<open>qrtr_sendmsg\<close> hands to the endpoint of a node, and what
  \<^verbatim>\<open>qrtr_endpoint_post\<close> and \<^verbatim>\<open>qrtr_recvmsg\<close> make of it on the other side.
\<close>

section \<open>Sending\<close>

text \<open>
  No step of the kernel fails. Fragments have together the size asked for, and are whole pages if whole pages were asked for; the
  largest linear buffer is at least a page and ends at a multiple of four.
\<close>

definition pages_ok :: "env \<Rightarrow> bool" where
  "pages_ok e \<longleftrightarrow> PAGE_SIZE \<le> e_max_alloc e \<and> 4 dvd e_max_alloc e
     \<and> (\<forall>k n. sum_list (e_frags e k n) = n \<and> list_all (\<lambda>f. 0 < f) (e_frags e k n)
          \<and> (PAGE_SIZE dvd n \<longrightarrow> list_all (\<lambda>f. PAGE_SIZE dvd f) (e_frags e k n)))"

definition all_well :: "env \<Rightarrow> bool" where
  "all_well e \<longleftrightarrow> (\<forall>n. e_alloc e n \<and> e_insert e n = 0 \<and> e_copy e n = 0 \<and> e_pad e n = 0 \<and> e_xmit e n = 0 \<and> e_queue e n = 0)
     \<and> pages_ok e"

definition flow_open :: "router \<Rightarrow> nat \<Rightarrow> nat \<Rightarrow> bool" where
  "flow_open r h key \<longleftrightarrow> n_ep (rt_node r h) \<and>
     (case n_tx_flow (rt_node r h) key of None \<Rightarrow> True | Some f \<Rightarrow> fl_pending f < QRTR_TX_FLOW_HIGH \<or> fl_tx_failed f)"

lemma tx_wait_open:
  assumes "all_well e" and "flow_open r h (flow_key (sq_node to) (sq_port to))"
  shows "\<exists>c r'. qrtr_tx_wait e h to sk QRTR_TYPE_DATA dw r = (c, r') \<and> 0 \<le> c \<and> rt_sent r' = rt_sent r
    \<and> n_ep (rt_node r' h) \<and> n_nid (rt_node r' h) = n_nid (rt_node r h)"
proof -
  let ?k = "flow_key (sq_node to) (sq_port to)"
  obtain r1 f where f: "find_flow e h ?k r = (True, r1)" "n_tx_flow (rt_node r1 h) ?k = Some f" "n_ep (rt_node r1 h)"
    "fl_pending f < QRTR_TX_FLOW_HIGH \<or> fl_tx_failed f" "rt_sent r1 = rt_sent r" "n_nid (rt_node r1 h) = n_nid (rt_node r h)"
    using assms by (cases "n_tx_flow (rt_node r h) ?k") (auto simp: find_flow_def flow_open_def all_well_def new_flow_def)
  then have "qrtr_tx_wait e h to sk QRTR_TYPE_DATA dw r = flow_take e h ?k sk 1 r1"
    by (simp add: qrtr_tx_wait_def Let_def flow_ready_def)
  then show ?thesis using f by (auto simp: flow_take_def set_flow_def)
qed

lemma node_enqueue_sends:
  assumes "all_well e" and "flow_open r h (flow_key (sq_node to) (sq_port to))" and "n_hello_sent (rt_node r h) \<noteq> 0"
    and "skb_sk b = Some sk"
  shows "\<exists>c r'. qrtr_node_enqueue e h b QRTR_TYPE_DATA from to dw r = (0, r') \<and> rt_sent r' = rt_sent r @
    [(h, skb_packet e (node_hdr (n_nid (rt_node r h)) QRTR_TYPE_DATA from to (length (skb_data b)) c) b, 0)]"
proof -
  obtain c r1 where t: "qrtr_tx_wait e h to sk QRTR_TYPE_DATA dw r = (c, r1)" "0 \<le> c" "rt_sent r1 = rt_sent r"
    "n_ep (rt_node r1 h)" "n_nid (rt_node r1 h) = n_nid (rt_node r h)"
    using tx_wait_open [OF assms(1,2)] by blast
  then show ?thesis
    using assms by (intro exI [of _ "c \<noteq> 0"]) (simp add: qrtr_node_enqueue_def node_xmit_def pad_result_def all_well_def Let_def)
qed

text \<open>A socket that is bound, a message to a port of a known and greeted node, and the length it is sent with.\<close>

definition may_send :: "nat \<Rightarrow> msghdr \<Rightarrow> sockaddr_qrtr \<Rightarrow> nat \<Rightarrow> router \<Rightarrow> bool" where
  "may_send s msg addr h r \<longleftrightarrow> \<not> msg_other_flags msg \<and> msg_name msg = Some (addr, 12) \<and> sq_family addr = AF_QIPCRTR
     \<and> 0 < length (msg_data msg) \<and> length (msg_data msg) \<le> 65535
     \<and> \<not> s_zapped (rt_sock r s) \<and> sq_port (s_us (rt_sock r s)) \<noteq> QRTR_PORT_CTRL
     \<and> sq_node addr \<noteq> QRTR_NODE_BCAST \<and> sq_node addr \<noteq> sq_node (s_us (rt_sock r s)) \<and> sq_port addr \<noteq> QRTR_PORT_CTRL
     \<and> map_of (rt_nodes r) (sq_node addr) = Some h \<and> n_hello_sent (rt_node r h) \<noteq> 0
     \<and> flow_open r h (flow_key (sq_node addr) (sq_port addr))"

definition send_len :: "router \<Rightarrow> nat \<Rightarrow> nat" where
  "send_len r len = (if is_primary (rt_local_nid r) \<or> align4 len \<le> PAGE_SIZE then len
     else PAGE_SIZE + page_align (align4 len - PAGE_SIZE))"

text \<open>How much of the buffer is in fragments, and their sizes.\<close>

definition send_layout :: "env \<Rightarrow> router \<Rightarrow> nat \<Rightarrow> nat \<times> nat list" where
  "send_layout e r len = (let frags = e_frags e (rt_tick r) in
     if is_primary (rt_local_nid r) then (align4 len - e_max_alloc e, frags (page_align (align4 len - e_max_alloc e)))
     else if align4 len \<le> PAGE_SIZE then (0, frags 0) else (send_len r len - 32, frags (send_len r len)))"

lemma send_layout_cong:
  "rt_local_nid r' = rt_local_nid r \<Longrightarrow> rt_tick r' = rt_tick r \<Longrightarrow> send_len r' len = send_len r len \<and> send_layout e r' len = send_layout e r len"
  by (simp add: send_len_def send_layout_def Let_def)

lemma page_align_0: "page_align 0 = 0"
  by (simp add: page_align_def)

lemma align4_small: "len \<le> 65535 \<Longrightarrow> align4 len \<le> 65536"
  by (simp add: align4_def)

lemma alloc_send_len:
  assumes "all_well e" and "len \<le> 65535"
  shows "qrtr_sock_alloc_skb_send e len r = (Some (send_len r len, send_layout e r len), tick r)"
proof -
  have "align4 len \<le> 65536" by (rule align4_small [OF assms(2)])
  then show ?thesis
    using assms(1) by (auto simp: qrtr_sock_alloc_skb_send_def send_len_def send_layout_def all_well_def page_align_0 add.commute Let_def min_def)
qed

text \<open>
  A primary node cannot pad a message whose rounded length exceeds the largest linear buffer by whole pages: the
  fragments are full.
\<close>

definition fills_pages :: "env \<Rightarrow> router \<Rightarrow> nat \<Rightarrow> bool" where
  "fills_pages e r len \<longleftrightarrow> is_primary (rt_local_nid r) \<and> align4 len \<noteq> len \<and> e_max_alloc e < align4 len
     \<and> (align4 len - e_max_alloc e) mod PAGE_SIZE = 0"

lemma page_align_ge: "n \<le> page_align n" and page_align_dvd: "PAGE_SIZE dvd page_align n"
  by (simp_all add: page_align_def)

lemma page_align_id: "n mod PAGE_SIZE = 0 \<Longrightarrow> page_align n = n"
  by (auto simp: page_align_def)

lemma dvd_prefix: "list_all (\<lambda>f. n dvd f) fs \<Longrightarrow> (n :: nat) dvd sum_list (take k fs)"
  by (induction fs arbitrary: k) (auto simp: take_Cons split: nat.split)

lemma layout_pads_well:
  assumes "all_well e" and "len \<le> 65535" and "\<not> fills_pages e r len"
  shows "case_prod (pads_well (send_len r len)) (send_layout e r len)"
proof -
  let ?fs = "e_frags e (rt_tick r)"
  have pg: "PAGE_SIZE \<le> e_max_alloc e" "4 dvd e_max_alloc e" "sum_list (?fs n) = n"
    "PAGE_SIZE dvd n \<Longrightarrow> list_all (\<lambda>f. PAGE_SIZE dvd f) (?fs n)" for n
    using assms(1) by (auto simp: all_well_def pages_ok_def)
  show ?thesis
  proof (cases "is_primary (rt_local_nid r)")
    case True
    define d p where "d = align4 len - e_max_alloc e" and "p = align4 len - len"
    have d: "d \<le> len" "4 dvd d" "p \<le> 3"
      using pg(1,2) align4_less [of len] by (auto simp: d_def p_def dvd_diff_nat align4_def)
    have "\<not> (d \<le> sum_list (take k (?fs (page_align d))) \<and> sum_list (take k (?fs (page_align d))) < d + p)"
      if nz: "d \<noteq> 0" "align4 len \<noteq> len" for k
    proof -
      define m where "m = sum_list (take k (?fs (page_align d)))"
      have m: "PAGE_SIZE dvd m" unfolding m_def by (rule dvd_prefix [OF pg(4) [OF page_align_dvd]])
      then have "4 dvd m" by (rule dvd_trans [rotated]) simp
      then have "m = d" if "d \<le> m" "m < d + p" using that d(2,3) by (auto elim!: dvdE)
      moreover have "m \<noteq> d" using m assms(3) True nz by (auto simp: fills_pages_def d_def dvd_eq_mod_eq_0)
      ultimately show ?thesis unfolding m_def by blast
    qed
    then have "d = 0 \<or> align4 len = len \<or> list_all (\<lambda>k. \<not> (d \<le> sum_list (take k (?fs (page_align d)))
        \<and> sum_list (take k (?fs (page_align d))) < d + p)) [0..<Suc (length (?fs (page_align d)))]"
      unfolding list_all_iff by blast
    then show ?thesis using True d(1) page_align_ge [of d]
      by (simp add: send_len_def send_layout_def pads_well_def pg(3) d_def [symmetric] p_def [symmetric] del: upt_Suc)
  next
    case False
    have "4 dvd PAGE_SIZE + page_align (align4 len - PAGE_SIZE)" by (auto simp: page_align_def)
    then have "align4 (PAGE_SIZE + page_align (align4 len - PAGE_SIZE)) = PAGE_SIZE + page_align (align4 len - PAGE_SIZE)"
      by (auto simp: align4_def elim!: dvdE)
    then show ?thesis using False by (auto simp: send_len_def send_layout_def pads_well_def pg(3) Let_def)
  qed
qed

lemma release_sent: "rt_sent (qrtr_node_release e ho r) = rt_sent r" if "\<And>h r. rt_sent (e_flush e h r) = rt_sent r"
  using that by (simp add: qrtr_node_release_def qrtr_node_free_def Let_def split: option.split)

definition sent_data :: "env \<Rightarrow> router \<Rightarrow> msghdr \<Rightarrow> byte list" where
  "sent_data e r msg = msg_data msg @ map (e_junk e) [length (msg_data msg)..<send_len r (length (msg_data msg))]"

lemma sent_data_bound: "length (msg_data msg) \<le> 65535 \<Longrightarrow> length (sent_data e r msg) < 2 ^ 30"
  by (auto simp: sent_data_def send_len_def page_align_def align4_def)

lemma sendmsg_sends:
  assumes e: "all_well e" and m: "may_send s msg addr h r" and fl: "\<And>h r. rt_sent (e_flush e h r) = rt_sent r"
  shows "\<exists>c r'. qrtr_sendmsg e s msg r = (int (length (msg_data msg)), r') \<and> rt_sent r' = rt_sent r @
    [(h, case_prod (padded_packet (e_junk e) (node_hdr (n_nid (rt_node r h)) QRTR_TYPE_DATA (s_us (rt_sock r s)) addr (length (sent_data e r msg)) c)
       (sent_data e r msg)) (send_layout e r (length (msg_data msg))), 0)]"
proof -
  let ?data = "msg_data msg"
  let ?len = "length ?data" and ?sent = "sent_data e r msg"
  have m': "\<not> msg_other_flags msg" "msg_name msg = Some (addr, 12)" "sq_family addr = AF_QIPCRTR" "?len \<le> 65535"
    "\<not> s_zapped (rt_sock r s)"
    "sq_port (s_us (rt_sock r s)) \<noteq> QRTR_PORT_CTRL" "sq_node addr \<noteq> QRTR_NODE_BCAST" "sq_node addr \<noteq> sq_node (s_us (rt_sock r s))"
    "sq_port addr \<noteq> QRTR_PORT_CTRL" "map_of (rt_nodes r) (sq_node addr) = Some h" "n_hello_sent (rt_node r h) \<noteq> 0"
    "flow_open r h (flow_key (sq_node addr) (sq_port addr))"
    using m unfolding may_send_def by blast+
  have a: "send_addr e s msg r = (Inr addr, r)" using m'(2,3,5) by (simp add: send_addr_def qrtr_autobind_def)
  obtain g where c: "choose_fn s addr r = (Inr (To_node h), set_sock s (\<lambda>k. k\<lparr>s_state := g\<rparr>) (qrtr_node_acquire h r))"
    using m'(7,8,10) unfolding choose_fn_def qrtr_node_lookup_def Let_def by auto
  define r1 where "r1 = set_sock s (\<lambda>k. k\<lparr>s_state := g\<rparr>) (qrtr_node_acquire h r)"
  obtain dl fs where lay: "send_layout e r ?len = (dl, fs)" by fastforce
  have al: "qrtr_sock_alloc_skb_send e ?len r1 = (Some (send_len r ?len, dl, fs), tick r1)"
    using alloc_send_len [OF e m'(4), of r1] lay send_layout_cong [of r1 r ?len e] by (simp add: r1_def qrtr_node_acquire_def)
  define r3 where "r3 = tick (tick r1)"
  let ?b = "\<lparr>skb_cb = zero_cb, skb_data = ?sent, skb_data_len = dl, skb_frags = fs, skb_sk = Some s\<rparr>"
  have r3: "s_us (rt_sock r3 s) = s_us (rt_sock r s)" "n_nid (rt_node r3 h) = n_nid (rt_node r h)"
    "n_hello_sent (rt_node r3 h) \<noteq> 0" "rt_sent r3 = rt_sent r" "flow_open r3 h (flow_key (sq_node addr) (sq_port addr))"
    using m'(11,12) by (simp_all add: r3_def r1_def qrtr_node_acquire_def flow_open_def)
  obtain c r4 where q: "qrtr_node_enqueue e h ?b QRTR_TYPE_DATA (s_us (rt_sock r s)) addr (msg_dontwait msg) r3 = (0, r4)"
    "rt_sent r4 = rt_sent r @ [(h, padded_packet (e_junk e) (node_hdr (n_nid (rt_node r h)) QRTR_TYPE_DATA (s_us (rt_sock r s)) addr (length ?sent) c) ?sent dl fs, 0)]"
    using node_enqueue_sends [OF e r3(5,3), of ?b s] r3(2,4) by (fastforce simp: skb_packet_def)
  have k: "send_skb e s (To_node h) addr (msg_dontwait msg) ?len ?sent dl fs r3 = (int ?len, r4)"
    using q(1) m'(6,9) r3(1) by (simp add: send_skb_def call_enqueue_def sent_len_def)
  have "qrtr_sendmsg e s msg r = (int ?len, qrtr_node_release e (Some h) r4)"
    using m'(1,4) a c al k e
    by (simp add: qrtr_sendmsg_def r1_def [symmetric] r3_def [symmetric] fn_node_def all_well_def sent_data_def Let_def)
  then show ?thesis using q(2) release_sent [OF fl] lay by auto
qed

section \<open>Receiving\<close>

text \<open>A router with a socket at the port a packet is for.\<close>

lemma post_queues:
  assumes e: "all_well e" and pp: "post_parse pkt = Some (cb, payload)" and "cb_type cb = QRTR_TYPE_DATA"
    and "cb_dst_node cb = rt_local_nid r" and "qrtr_port_lookup r (cb_dst_port cb) = Some t"
  shows "\<exists>r' b. qrtr_endpoint_post e g pkt r = (0, r') \<and> skb_cb b = cb \<and> skb_data b = payload
    \<and> rt_sock r' = (rt_sock r)(t := (rt_sock r t)\<lparr>s_rcv := s_rcv (rt_sock r t) @ [b]\<rparr>)"
proof -
  let ?fs = "e_frags e (rt_tick r) (length pkt)"
  let ?b = "\<lparr>skb_cb = cb, skb_data = payload, skb_data_len = length payload, skb_frags = ?fs, skb_sk = None\<rparr>"
  have l: "\<not> (length pkt = 0 \<or> length pkt mod 4 \<noteq> 0)" using pp by (auto simp: post_parse_def split: if_splits)
  define r1 where "r1 = qrtr_node_assign e g (cb_src_node cb) (tick r)"
  have r1: "rt_local_nid r1 = rt_local_nid r" "rt_ports r1 = rt_ports r" "rt_sock r1 = rt_sock r"
    by (auto simp: r1_def qrtr_node_assign_def Let_def split: option.split)
  have "qrtr_endpoint_post e g pkt r = post_skb e g cb payload ?fs (tick r)"
    using l pp e by (simp add: qrtr_endpoint_post_def all_well_def)
  moreover have "\<exists>r'. post_skb e g cb payload ?fs (tick r) = (0, r')
      \<and> rt_sock r' = (rt_sock r)(t := (rt_sock r t)\<lparr>s_rcv := s_rcv (rt_sock r t) @ [?b]\<rparr>)"
    using assms r1 by (auto simp: post_skb_def r1_def [symmetric] qrtr_port_lookup_def sock_queue_rcv_skb_def sock_append_def all_well_def Let_def)
  then obtain r' where "post_skb e g cb payload ?fs (tick r) = (0, r')"
    "rt_sock r' = (rt_sock r)(t := (rt_sock r t)\<lparr>s_rcv := s_rcv (rt_sock r t) @ [?b]\<rparr>)" by blast
  ultimately show ?thesis by (intro exI [of _ r'] exI [of _ ?b]) simp
qed

lemma recvmsg_first:
  assumes "\<not> s_zapped (rt_sock r t)" and "s_rcv (rt_sock r t) = b # bs" and "all_well e" and "length (skb_data b) \<le> n"
  shows "\<exists>r'. qrtr_recvmsg e t n False rc r = (int (length (skb_data b)),
    Some \<lparr>rx_data = skb_data b, rx_trunc = False,
      rx_addr = \<lparr>sq_family = AF_QIPCRTR, sq_node = cb_src_node (skb_cb b), sq_port = cb_src_port (skb_cb b)\<rparr>\<rparr>, r')"
  using assms by (simp add: qrtr_recvmsg_def all_well_def Let_def)

lemma packet_received:
  assumes e: "all_well e" and "addr_ok from" and "addr_ok addr" and "nid < 2 ^ 32" and "data \<noteq> []" and "length data < 2 ^ 30"
    and "sq_port addr \<noteq> QRTR_PORT_CTRL" and "sq_port addr \<noteq> QRTR_PORT_CTRL_LEGACY"
    and "rt_local_nid r = sq_node addr" and "qrtr_port_lookup r (sq_port addr) = Some t"
    and "\<not> s_zapped (rt_sock r t)" and "s_rcv (rt_sock r t) = []" and "length data \<le> n"
    and pkt: "pkt = node_packet (node_hdr nid QRTR_TYPE_DATA from addr (length data) c) data"
  shows "\<exists>r' r''. qrtr_endpoint_post e g pkt r = (0, r') \<and> qrtr_recvmsg e t n False rc r' = (int (length data),
      Some \<lparr>rx_data = data, rx_trunc = False, rx_addr = \<lparr>sq_family = AF_QIPCRTR, sq_node = sq_node from, sq_port = sq_port from\<rparr>\<rparr>, r'')"
proof -
  let ?cb = "\<lparr>cb_src_node = sq_node from, cb_src_port = sq_port from, cb_dst_node = sq_node addr,
      cb_dst_port = sq_port addr, cb_type = QRTR_TYPE_DATA, cb_confirm_rx = c\<rparr>"
  have "sendable QRTR_TYPE_DATA addr (length data)" using assms(5,6,8) by (auto simp: sendable_def)
  then have pp: "post_parse pkt = Some (?cb, data)"
    using post_parse_node_packet [OF assms(2,3) _ _ pkt] assms(4,7) by simp
  obtain r' b where post: "qrtr_endpoint_post e g pkt r = (0, r')" "skb_cb b = ?cb" "skb_data b = data"
    "rt_sock r' = (rt_sock r)(t := (rt_sock r t)\<lparr>s_rcv := [b]\<rparr>)"
    using post_queues [OF e pp, of r t g] assms(9,10,12) by auto
  then show ?thesis using recvmsg_first [of r' t b "[]" e n rc] assms(11,13) e by simp
qed

lemma length_sent_data: "length (msg_data msg) \<le> 65535 \<Longrightarrow> length (sent_data e r msg) = send_len r (length (msg_data msg))"
proof -
  have "length (msg_data msg) \<le> send_len r (length (msg_data msg))"
    using align4_ge [of "length (msg_data msg)"] page_align_ge [of "align4 (length (msg_data msg)) - PAGE_SIZE"]
    by (auto simp: send_len_def)
  then show ?thesis by (simp add: sent_data_def)
qed

lemma sent_packet_ideal:
  assumes "all_well e" and "length (msg_data msg) \<le> 65535" and "\<not> fills_pages e r (length (msg_data msg))"
  shows "case_prod (padded_packet (e_junk e) hdr (sent_data e r msg)) (send_layout e r (length (msg_data msg)))
    = node_packet hdr (sent_data e r msg)"
  using layout_pads_well [OF assms] padded_packet_ideal length_sent_data [OF assms(2), of e r] by (auto simp: case_prod_beta)

text \<open>What a socket of another router receives: the bytes of the buffer the message was sent in.\<close>

lemma datagram_arrives:
  assumes "all_well e" and "all_well e'" and "\<And>h r. rt_sent (e_flush e h r) = rt_sent r" and m: "may_send s msg addr h A"
    and "addr_ok (s_us (rt_sock A s))" and "addr_ok addr" and "n_nid (rt_node A h) < 2 ^ 32" and "sq_port addr \<noteq> QRTR_PORT_CTRL_LEGACY"
    and "rt_local_nid B = sq_node addr" and "qrtr_port_lookup B (sq_port addr) = Some t"
    and "\<not> s_zapped (rt_sock B t)" and "s_rcv (rt_sock B t) = []" and "length (sent_data e A msg) \<le> n"
    and "\<not> fills_pages e A (length (msg_data msg))"
  shows "\<exists>pkt A' B' B''. qrtr_sendmsg e s msg A = (int (length (msg_data msg)), A') \<and> rt_sent A' = rt_sent A @ [(h, pkt, 0)]
    \<and> qrtr_endpoint_post e' g pkt B = (0, B')
    \<and> qrtr_recvmsg e' t n False rc B' = (int (length (sent_data e A msg)), Some \<lparr>rx_data = sent_data e A msg, rx_trunc = False,
        rx_addr = \<lparr>sq_family = AF_QIPCRTR, sq_node = sq_node (s_us (rt_sock A s)), sq_port = sq_port (s_us (rt_sock A s))\<rparr>\<rparr>, B'')"
proof -
  have ne: "sent_data e A msg \<noteq> []" "length (sent_data e A msg) < 2 ^ 30" "sq_port addr \<noteq> QRTR_PORT_CTRL" "length (msg_data msg) \<le> 65535"
    using m sent_data_bound [of msg e A] unfolding may_send_def by (auto simp: sent_data_def)
  have "case_prod (padded_packet (e_junk e) hdr (sent_data e A msg)) (send_layout e A (length (msg_data msg))) = node_packet hdr (sent_data e A msg)" for hdr
    by (rule sent_packet_ideal [OF assms(1) ne(4) assms(14)])
  then show ?thesis
    using sendmsg_sends [OF assms(1) m assms(3)] packet_received [OF assms(2,5-7) ne(1-3) assms(8-13) refl] by fastforce
qed

lemma sent_data_exact:
  "is_primary (rt_local_nid r) \<or> length (msg_data msg) \<le> PAGE_SIZE \<Longrightarrow> sent_data e r msg = msg_data msg"
  by (auto simp: sent_data_def send_len_def align4_def)

text \<open>
  A datagram arrives as it was sent: what \<^verbatim>\<open>qrtr_sendmsg\<close> hands to the endpoint of a
  node, posted at the router of that node, is what \<^verbatim>\<open>qrtr_recvmsg\<close> returns there for the socket it was addressed
  to, with the address of the sender. The sender is a primary node and the message does not fill its fragments, or the message fits into a page.
\<close>

theorem datagram_roundtrip:
  assumes "all_well e" and "all_well e'" and "\<And>h r. rt_sent (e_flush e h r) = rt_sent r" and "may_send s msg addr h A"
    and "addr_ok (s_us (rt_sock A s))" and "addr_ok addr" and "n_nid (rt_node A h) < 2 ^ 32" and "sq_port addr \<noteq> QRTR_PORT_CTRL_LEGACY"
    and "rt_local_nid B = sq_node addr" and "qrtr_port_lookup B (sq_port addr) = Some t"
    and "\<not> s_zapped (rt_sock B t)" and "s_rcv (rt_sock B t) = []" and "length (msg_data msg) \<le> n"
    and "is_primary (rt_local_nid A) \<or> length (msg_data msg) \<le> PAGE_SIZE" and "\<not> fills_pages e A (length (msg_data msg))"
  shows "\<exists>pkt A' B' B''. qrtr_sendmsg e s msg A = (int (length (msg_data msg)), A') \<and> rt_sent A' = rt_sent A @ [(h, pkt, 0)]
    \<and> qrtr_endpoint_post e' g pkt B = (0, B')
    \<and> qrtr_recvmsg e' t n False rc B' = (int (length (msg_data msg)), Some \<lparr>rx_data = msg_data msg, rx_trunc = False,
        rx_addr = \<lparr>sq_family = AF_QIPCRTR, sq_node = sq_node (s_us (rt_sock A s)), sq_port = sq_port (s_us (rt_sock A s))\<rparr>\<rparr>, B'')"
  using datagram_arrives [OF assms(1-12), of n g rc] sent_data_exact [OF assms(14), of e] assms(13,15) by simp

definition example_addr :: "nat \<Rightarrow> nat \<Rightarrow> sockaddr_qrtr" where
  "example_addr node port = \<lparr>sq_family = AF_QIPCRTR, sq_node = node, sq_port = port\<rparr>"

definition example_sender :: "nat \<Rightarrow> nat \<Rightarrow> router" where
  "example_sender nid other = set_sock 3 (\<lambda>k. k\<lparr>s_us := example_addr nid 16384, s_zapped := False\<rparr>)
     (set_node 7 (\<lambda>n. n\<lparr>n_nid := other, n_hello_sent := 1\<rparr>) ((example_router nid)\<lparr>rt_nodes := [(other, 7)]\<rparr>))"

definition example_receiver :: "nat \<Rightarrow> router" where
  "example_receiver nid =
     set_sock 4 (\<lambda>k. k\<lparr>s_us := example_addr nid 20, s_zapped := False\<rparr>) ((example_router nid)\<lparr>rt_ports := [(20, 4)]\<rparr>)"

definition example_datagram :: "nat \<Rightarrow> byte list \<Rightarrow> msghdr" where
  "example_datagram node data =
     \<lparr>msg_other_flags = False, msg_dontwait = False, msg_name = Some (example_addr node 20, 12), msg_data = data\<rparr>"

lemma quiet_env_all_well: "all_well quiet_env" "all_well quiet_env" "rt_sent (e_flush quiet_env h r) = rt_sent r"
  by (simp_all add: all_well_def pages_ok_def quiet_env_def)

lemma example_may_send:
  "nid < 2 ^ 31 \<Longrightarrow> other < 2 ^ 31 \<Longrightarrow> nid \<noteq> other \<Longrightarrow> data \<noteq> [] \<Longrightarrow> length data \<le> 65535 \<Longrightarrow>
   may_send 3 (example_datagram other data) (example_addr other 20) 7 (example_sender nid other)"
  by (auto simp: may_send_def flow_open_def example_sender_def example_datagram_def example_addr_def example_router_def fresh_node_def)

lemma example_sender_us [simp]:
  "s_us (rt_sock (example_sender nid other) 3) = example_addr nid 16384" "n_nid (rt_node (example_sender nid other) 7) = other"
  "rt_local_nid (example_sender nid other) = nid" "rt_sent (example_sender nid other) = []" "msg_data (example_datagram other data) = data"
  by (simp_all add: example_sender_def example_datagram_def example_router_def)

lemma example_sender_ok:
  assumes "nid < 2 ^ 31" and "other < 2 ^ 31"
  shows "addr_ok (s_us (rt_sock (example_sender nid other) 3))" "addr_ok (example_addr other 20)"
    "n_nid (rt_node (example_sender nid other) 7) < 2 ^ 32" "sq_port (example_addr other 20) \<noteq> QRTR_PORT_CTRL_LEGACY"
  using assms by (simp_all add: addr_ok_def example_addr_def)

lemma example_receiver_ok:
  "rt_local_nid (example_receiver nid) = sq_node (example_addr nid 20)"
  "qrtr_port_lookup (example_receiver nid) (sq_port (example_addr nid 20)) = Some 4"
  "\<not> s_zapped (rt_sock (example_receiver nid) 4)" "s_rcv (rt_sock (example_receiver nid) 4) = []"
  by (simp_all add: example_receiver_def example_addr_def example_router_def example_sock_def qrtr_port_lookup_def port_index_def)

theorem datagram_roundtrip_witness:
  "\<exists>pkt A' B' B''. qrtr_sendmsg quiet_env 3 (example_datagram 5 [1, 2, 3]) (example_sender 1 5) = (3, A') \<and> rt_sent A' = [(7, pkt, 0)]
     \<and> qrtr_endpoint_post quiet_env 9 pkt (example_receiver 5) = (0, B')
     \<and> qrtr_recvmsg quiet_env 4 100 False 0 B' = (3, Some \<lparr>rx_data = [1, 2, 3], rx_trunc = False, rx_addr = example_addr 1 16384\<rparr>, B'')"
proof -
  have m: "may_send 3 (example_datagram 5 [1, 2, 3]) (example_addr 5 20) 7 (example_sender 1 5)" by (rule example_may_send) simp_all
  have nid: "(1 :: nat) < 2 ^ 31" "(5 :: nat) < 2 ^ 31" by simp_all
  show ?thesis
    using datagram_roundtrip [where n = 100 and g = 9 and rc = 0, OF quiet_env_all_well m example_sender_ok [OF nid] example_receiver_ok]
    by (simp add: example_addr_def is_primary_def fills_pages_def quiet_env_def align4_def)
qed

section \<open>Long messages of secondary nodes\<close>

lemma page_align_rest: "PAGE_SIZE < n \<Longrightarrow> PAGE_SIZE + page_align (align4 n - PAGE_SIZE) = page_align n"
proof -
  assume n: "PAGE_SIZE < n"
  define m where "m = n - 1"
  have m: "n = Suc m" using n by (simp add: m_def)
  then have a: "align4 n = 4 * (m div 4) + 4" using div_add_self1 [of 4 m] by (simp add: align4_def add.commute)
  have "(4 * (m div 4) + 3) div 4096 = m div 4096"
    using div_mult2_eq [of "4 * (m div 4) + 3" 4 1024] div_mult2_eq [of m 4 1024] by simp
  then show ?thesis using n a m div_add_self1 [of 4096 m] by (simp add: page_align_def add.commute)
qed

text \<open>
  C39 (error). A node that is not primary sends a message longer than a page with the length of its
  buffer, rounded up to pages: the receiver gets the message followed by bytes that were never written,
  up to a page of them, while the sender is told the length of the message.
\<close>

theorem secondary_long_message_padded:
  assumes "all_well e" and "all_well e'" and "\<And>h r. rt_sent (e_flush e h r) = rt_sent r" and "may_send s msg addr h A"
    and "addr_ok (s_us (rt_sock A s))" and "addr_ok addr" and "n_nid (rt_node A h) < 2 ^ 32" and "sq_port addr \<noteq> QRTR_PORT_CTRL_LEGACY"
    and "rt_local_nid B = sq_node addr" and "qrtr_port_lookup B (sq_port addr) = Some t"
    and "\<not> s_zapped (rt_sock B t)" and "s_rcv (rt_sock B t) = []" and "\<not> is_primary (rt_local_nid A)"
    and "PAGE_SIZE < length (msg_data msg)" and "65536 + PAGE_SIZE \<le> n"
  shows "\<exists>pkt A' B' B'' addr'. qrtr_sendmsg e s msg A = (int (length (msg_data msg)), A') \<and> rt_sent A' = rt_sent A @ [(h, pkt, 0)]
    \<and> qrtr_endpoint_post e' g pkt B = (0, B')
    \<and> qrtr_recvmsg e' t n False rc B' = (int (page_align (length (msg_data msg))),
        Some \<lparr>rx_data = msg_data msg @ map (e_junk e) [length (msg_data msg)..<page_align (length (msg_data msg))],
              rx_trunc = False, rx_addr = addr'\<rparr>, B'')"
proof -
  let ?len = "length (msg_data msg)"
  have up: "send_len A ?len = page_align ?len" "?len \<le> page_align ?len" "page_align ?len \<le> 65536"
    using page_align_rest assms(4,13,14) unfolding may_send_def by (auto simp: send_len_def page_align_def align4_def)
  then have sent: "sent_data e A msg = msg_data msg @ map (e_junk e) [?len..<page_align ?len]" by (simp add: sent_data_def)
  then have "length (sent_data e A msg) = page_align ?len" using up(2) by simp
  then show ?thesis using datagram_arrives [OF assms(1-12), of n g rc] assms(13,15) up(3) sent by (auto simp: fills_pages_def)
qed

theorem secondary_long_message_padded_witness:
  "\<exists>pkt A' B' B'' rx. qrtr_sendmsg quiet_env 3 (example_datagram 1 (replicate 4100 1)) (example_sender 5 1) = (4100, A')
     \<and> rt_sent A' = [(7, pkt, 0)] \<and> qrtr_endpoint_post quiet_env 9 pkt (example_receiver 1) = (0, B')
     \<and> qrtr_recvmsg quiet_env 4 100000 False 0 B' = (8192, Some rx, B'')"
proof -
  define data :: "byte list" where "data = replicate 4100 1"
  have len: "length data = 4100" "data \<noteq> []" by (simp_all add: data_def)
  have m: "may_send 3 (example_datagram 1 data) (example_addr 1 20) 7 (example_sender 5 1)"
    using len by (intro example_may_send) simp_all
  have nid: "(5 :: nat) < 2 ^ 31" "(1 :: nat) < 2 ^ 31" by simp_all
  have p: "page_align 4100 = 8192" by (simp add: page_align_def)
  show ?thesis
    unfolding data_def [symmetric]
    using secondary_long_message_padded [where n = 100000 and g = 9 and rc = 0,
      OF quiet_env_all_well m example_sender_ok [OF nid] example_receiver_ok] len p
    by (simp add: is_primary_def del: upt_rec_numeral) blast
qed

section \<open>Full fragments of primary nodes\<close>

lemma layout_full:
  assumes "all_well e" and "fills_pages e r len" and "len \<le> 65535"
  shows "\<exists>d fs. send_layout e r len = (d, fs) \<and> send_len r len = len \<and> d = sum_list fs \<and> d \<noteq> 0 \<and> d + 3 \<le> len \<and> list_all (\<lambda>f. 0 < f) fs"
proof -
  let ?d = "align4 len - e_max_alloc e"
  have "?d + 3 \<le> len" using assms(1,2) align4_less [of len] by (auto simp: all_well_def pages_ok_def fills_pages_def)
  then show ?thesis
    using assms(1,2) by (auto simp: send_layout_def send_len_def fills_pages_def all_well_def pages_ok_def page_align_id Let_def)
qed



end
