(* ===== verification/Spec2Isabelle.thy ===== *)
theory Spec2Isabelle
  imports Walt_Boost Walt_Smartinit Qrtr_Ns Qmi_Exchange Qrtr_Gunyah Qrtr_Genpool Qrtr_Delivery
begin

text \<open>
  \<^bold>\<open>The program.\<close> The repository holds the vendor part of an Android kernel for a Qualcomm
  system on chip: some 900,000 lines of drivers around two subsystems that have a behaviour of their
  own, the WALT extension of the scheduler (\<^verbatim>\<open>kernel/sched/walt\<close>) and the IPC router
  (\<^verbatim>\<open>net/qrtr\<close>) with the QMI messages on top of it (\<^verbatim>\<open>drivers/soc/qcom/qmi_encdec.c\<close> and \<^verbatim>\<open>qmi_interface.c\<close>).
  This development models these two.

  \<^bold>\<open>WALT.\<close> CPUs are taken from the scheduler by votes of clients (\<^verbatim>\<open>walt_halt.c\<close>). Core control
  (\<^verbatim>\<open>core_ctl.c\<close>) is such a client: it computes how many CPUs of a cluster are needed and pauses or
  resumes the others. Smart frequency (\<^verbatim>\<open>smart_freq.c\<close>) caps the frequency of a cluster unless a reason
  for more holds, and halting partially sets another cap. Boost (\<^verbatim>\<open>boost.c\<close>) asks core control for all CPUs.

    \<^item> \<open>Walt_State\<close> holds the globals and the inline predicates of \<^verbatim>\<open>walt.h\<close> as one record that every
      component extends. CPU masks are sets, run over in ascending order below \<^verbatim>\<open>nr_cpu_ids\<close>.
    \<^item> \<open>Walt_Smartfreq\<close>: reasons with hysteresis, caps, limits of the clusters, IPC levels and sysctl writers.
      The cap is the largest frequency of an active reason; a reason lives on for exactly its hysteresis;
      the limit of a cluster is computed from the caps as specified. \<open>Walt_Smartinit\<close> has the start-up tables and shows that the
      configuration stays well-formed whatever is written.
    \<^item> \<open>Walt_Halt\<close>: votes, masks, the drain thread as a step relation \<open>drain_step\<close> interleaved with requests, and
      the scheduler hooks. Votes and masks agree in every run, resuming respects other clients, and a CPU stays pending until it
      is drained.
    \<^item> \<open>Walt_Corectl\<close>: need, limits, selection, pausing and resuming, the core control thread and sysfs.
      What core control believes agrees with the votes it holds after every check, and requests
      are served. The locale \<open>cpu_pause\<close> is the contract of pausing and resuming that it relies on, interpreted for full and
      partial halting.
    \<^item> \<open>Walt_Boost\<close>: boost types with counts and priorities; type, policy and core control agree while the counts do not wrap around. The locale
      \<open>boost_target\<close> is what boost expects of core control.

  \<^bold>\<open>The IPC router.\<close> Sockets (\<^verbatim>\<open>af_qrtr.c\<close>) send datagrams to ports of nodes. A node is reached through
  the endpoint of a transport: shared memory between virtual machines (\<^verbatim>\<open>gunyah.c\<close>), a memory pool with
  interrupts (\<^verbatim>\<open>genpool.c\<close>) or a bus. The name service (\<^verbatim>\<open>ns.c\<close>) on the control port keeps the registry of
  services and tells observers about changes. QMI messages are encoded by interpreting descriptors; a QMI handle is a socket with
  lookups, services, message handlers and transactions that wait for responses.

    \<^item> \<open>Kernel_Prelude\<close> and \<open>Kernel_Data\<close> hold the error codes, the widths (unsigned values are naturals with the wrap-around of
      \<open>u8\<close> to \<open>u64\<close> written out, signed ones integers with \<open>s32\<close> and \<open>s64\<close>), memory objects as byte lists with bounds-checked access, and the
      locale \<open>xarray_interface\<close> of the kernel's arrays.
    \<^item> \<open>Qrtr_Proto\<close> has the control packets; \<open>Qrtr_Packet\<close> both header versions, padding of linear and scattered buffers and the checks on
      a received packet. A packet that was built is accepted with the same content, unless a fragment ends within its padding.
    \<^item> \<open>Qrtr_Ns\<close>: the worker refines an abstract registry for any sequence of datagrams, and the messages sent keep an observer's
      picture equal to the registry, as long as none is lost and no server is replaced by another on its port.
    \<^item> \<open>Qmi_Encdec\<close>: encoder and decoder over raw memory; neither touches memory outside of its buffers, and decoding inverts encoding.
    \<^item> \<open>Qmi_Interface\<close>: handles as one record, with the callbacks of the driver in a log and all runs as the step relation \<open>qmi_step\<close>. Every
      server accepted is withdrawn once, and a response that comes late touches nothing. \<open>Qmi_Exchange\<close> joins two handles, encoder and
      decoder to an exchange of request and response, and a handle with the name service: under the same conditions the servers it lists are those registered.
    \<^item> \<open>Qrtr_Fifo\<close> with the locale \<open>byte_fifo\<close> is the contract of a pipe of bytes, interpreted for both transports in
      \<open>Qrtr_Gunyah\<close> and \<open>Qrtr_Genpool\<close>. The receive loops are safe whatever the peer writes; they end, but for a header
      with a packet length of zero; a link is a queue of packets.
    \<^item> \<open>Qrtr_Router\<close>, \<open>Qrtr_Endpoint\<close> and \<open>Qrtr_Socket\<close> model \<^verbatim>\<open>af_qrtr.c\<close>: nodes, ports and flow control; transports,
      their packets and the worker of a node; the system calls. One record \<open>router\<close> holds the globals, the record
      \<open>env\<close> what the rest of the kernel answers, by the number of the question.
    \<^item> \<open>Qrtr_Frame\<close> has the locales \<open>router_frame\<close> and \<open>registry_frame\<close>: a relation between states that the elementary effects respect
      is respected by every operation. \<open>Qrtr_Steps\<close> interprets them for the table of ports and the references to nodes, and shows
      both invariants for all runs of \<open>router_step\<close>. \<open>Qrtr_Flow\<close> shows that a flow is held up only by a request for
      confirmation that can still fail or be answered, and \<open>Qrtr_Delivery\<close> what a socket of another router receives. The theorem of this theory joins sockets, router and transport.

  \<^bold>\<open>Loops and fuel.\<close> Loops over given lists are structural. The receive and send loops of the transports and the drain loop may run
  forever: they are partial functions into \<open>option\<close> (or step relations), and the theorems state when they return. The loops of the QMI decoder
  take their bounds from the message. There is no fuel in the definitions.

  \<^bold>\<open>Parameters.\<close> Code outside the repository is an argument: results of allocation, copying, hypercalls and registration, what a peer
  writes meanwhile, what happens while a thread waits. Its contracts (\<open>ids_fresh\<close>, \<open>willing\<close>, \<open>calm\<close>, \<open>waits_keep_flows\<close>, \<open>skb_ok\<close>, \<open>all_well\<close> and the like) are hypotheses, with examples that
  satisfy them. How the kernel splits a buffer into fragments and the size of its largest linear buffer are parameters too
  (\<open>e_frags\<close>, \<open>e_max_alloc\<close> with \<open>pages_ok\<close>). Page size is 4096, and there is no high memory.

  \<^bold>\<open>Where the code goes wrong.\<close> Some theorems show behaviour the code does not intend: lost wake-ups and leaked
  halts, stale bytes in packets and messages, a header that is lost between two reads, a semaphore that is kept, a flow that stalls for high
  ports, a long message sent with unwritten memory, a message lost because padding finds its fragments full.

  \<^bold>\<open>Not modelled.\<close> Locks and memory ordering, except where a step relation interleaves threads: each operation is atomic otherwise.
  Logging and tracing. Migration of tasks and the window accounting of WALT (\<^verbatim>\<open>walt.c\<close>, \<^verbatim>\<open>walt_cfs.c\<close>, \<^verbatim>\<open>walt_lb.c\<close>) work on
  run queues of the core scheduler, which is not in the repository. The adapters to MHI, RPMSG and user space (\<^verbatim>\<open>mhi.c\<close>, \<^verbatim>\<open>smd.c\<close>, \<^verbatim>\<open>tun.c\<close>)
  only pass packets on. The other drivers program hardware and firmware: what they should do is laid down in documents that are not
  part of the repository.
\<close>

section \<open>A message between two machines\<close>

text \<open>
  C1 (roundtrip). A message between virtual machines: the packet \<^verbatim>\<open>qrtr_sendmsg\<close> gives to the endpoint is accepted by
  the shared memory transport whenever there is room for its header, the receive handler of the other machine hands
  exactly this packet to its router, after those sent before, and there \<^verbatim>\<open>qrtr_recvmsg\<close> returns the message. The sender
  is a primary node and the message does not fill the fragments of its buffer, or the message fits into a page; no call of the kernel
  fails, the flow is open, and the receiving socket has nothing queued and takes enough bytes.
\<close>

theorem message_between_machines:
  assumes "all_well e" and "all_well e'" and "\<And>h r. rt_sent (e_flush e h r) = rt_sent r" and m: "may_send s msg addr h A"
    and "addr_ok (s_us (rt_sock A s))" and "addr_ok addr" and "n_nid (rt_node A h) < 2 ^ 32" and "sq_port addr \<noteq> QRTR_PORT_CTRL_LEGACY"
    and "rt_local_nid B = sq_node addr" and "qrtr_port_lookup B (sq_port addr) = Some t"
    and "\<not> s_zapped (rt_sock B t)" and "s_rcv (rt_sock B t) = []" and "length (msg_data msg) \<le> n"
    and "is_primary (rt_local_nid A) \<or> length (msg_data msg) \<le> PAGE_SIZE" and "\<not> fills_pages e A (length (msg_data msg))"
    and run: "link_run stack dev b pkts" and st: "length stack = 32" and av: "32 \<le> gunyah_tx_avail (qrtr_gunyah_dev.tx_pipe dev)"
  shows "\<exists>pkt A'. qrtr_sendmsg e s msg A = (int (length (msg_data msg)), A') \<and> rt_sent A' = rt_sent A @ [(h, pkt, 0)]
    \<and> (\<forall>skb. skb_bytes skb = pkt \<and> skb_ok skb \<and> \<not> (skb_nonlinear skb \<and> skb_to_sgvec skb < 0) \<longrightarrow>
         (\<exists>b1 dev1 b2 p B' B''. qrtr_gunyah_send (link_env (\<lambda>_. True) stack) skb b dev = Some (0, b1, dev1)
           \<and> deliver (\<lambda>_. True) stack b1 (qrtr_gunyah_dev.tx_pipe dev1) = Some (b2, p) \<and> qrtr_gunyah_dev.posted (snd b2) = pkts @ [pkt]
           \<and> qrtr_endpoint_post e' g pkt B = (0, B')
           \<and> qrtr_recvmsg e' t n False rc B' = (int (length (msg_data msg)), Some \<lparr>rx_data = msg_data msg, rx_trunc = False,
               rx_addr = \<lparr>sq_family = AF_QIPCRTR, sq_node = sq_node (s_us (rt_sock A s)), sq_port = sq_port (s_us (rt_sock A s))\<rparr>\<rparr>, B'')))"
proof -
  let ?us = "s_us (rt_sock A s)" and ?data = "msg_data msg"
  have data: "?data \<noteq> []" "length ?data \<le> 65535" "sq_port addr \<noteq> QRTR_PORT_CTRL" using m unfolding may_send_def by auto
  obtain c A' where s: "qrtr_sendmsg e s msg A = (int (length ?data), A')"
    "rt_sent A' = rt_sent A @ [(h, node_packet (node_hdr (n_nid (rt_node A h)) QRTR_TYPE_DATA ?us addr (length ?data) c) ?data, 0)]"
    using sendmsg_sends [OF assms(1) m assms(3)] sent_data_exact [OF assms(14), of e] sent_packet_ideal [OF assms(1) data(2) assms(15)] by fastforce
  define pkt where "pkt = node_packet (node_hdr (n_nid (rt_node A h)) QRTR_TYPE_DATA ?us addr (length ?data) c) ?data"
  have ok: "hdr_v1_ok (node_hdr (n_nid (rt_node A h)) QRTR_TYPE_DATA ?us addr (length ?data) c)"
    using node_hdr_ok [OF assms(5,6)] assms(7) by simp
  have pk: "is_packet pkt"
    unfolding pkt_def using data(2) by (intro node_packet_is_packet [OF ok]) (simp_all add: node_hdr_def width_simps)
  have rcv: "\<exists>B' B''. qrtr_endpoint_post e' g pkt B = (0, B') \<and> qrtr_recvmsg e' t n False rc B' = (int (length ?data),
      Some \<lparr>rx_data = ?data, rx_trunc = False, rx_addr = \<lparr>sq_family = AF_QIPCRTR, sq_node = sq_node ?us, sq_port = sq_port ?us\<rparr>\<rparr>, B'')"
    using packet_received [OF assms(2,5-7) data(1) _ data(3) assms(8-13) pkt_def] data(2) by simp
  show ?thesis
  proof (rule exI [of _ pkt], rule exI [of _ A'], intro conjI allI impI)
    show "qrtr_sendmsg e s msg A = (int (length ?data), A')" by (fact s(1))
    show "rt_sent A' = rt_sent A @ [(h, pkt, 0)]" unfolding pkt_def by (fact s(2))
  next
    fix skb
    assume k: "skb_bytes skb = pkt \<and> skb_ok skb \<and> \<not> (skb_nonlinear skb \<and> skb_to_sgvec skb < 0)"
    obtain B' B'' where B: "qrtr_endpoint_post e' g pkt B = (0, B')" "qrtr_recvmsg e' t n False rc B' = (int (length ?data),
      Some \<lparr>rx_data = ?data, rx_trunc = False, rx_addr = \<lparr>sq_family = AF_QIPCRTR, sq_node = sq_node ?us, sq_port = sq_port ?us\<rparr>\<rparr>, B'')"
      using rcv by blast
    show "\<exists>b1 dev1 b2 p B' B''. qrtr_gunyah_send (link_env (\<lambda>_. True) stack) skb b dev = Some (0, b1, dev1)
           \<and> deliver (\<lambda>_. True) stack b1 (qrtr_gunyah_dev.tx_pipe dev1) = Some (b2, p) \<and> qrtr_gunyah_dev.posted (snd b2) = pkts @ [pkt]
           \<and> qrtr_endpoint_post e' g pkt B = (0, B')
           \<and> qrtr_recvmsg e' t n False rc B' = (int (length ?data), Some \<lparr>rx_data = ?data, rx_trunc = False,
               rx_addr = \<lparr>sq_family = AF_QIPCRTR, sq_node = sq_node ?us, sq_port = sq_port ?us\<rparr>\<rparr>, B'')"
      using link_carries [OF run st _ _ _ av, of skb] pk k B by blast
  qed
qed

theorem message_between_machines_witness:
  "let us = \<lparr>sq_family = AF_QIPCRTR, sq_node = 1, sq_port = 16384\<rparr>; stack = replicate 32 0 in
   \<exists>pkt A'. qrtr_sendmsg quiet_env 3 (example_datagram 5 [1, 2, 3]) (example_sender 1 5) = (3, A') \<and> rt_sent A' = [(7, pkt, 0)]
     \<and> (\<exists>b1 dev1 b2 p B' B''. qrtr_gunyah_send (link_env (\<lambda>_. True) stack) \<lparr>skb_nonlinear = False, skb_bytes = pkt, skb_sg = (\<lambda>_. None),
             skb_to_sgvec = 0\<rparr> (0, example_dev 0 0) (example_dev 0 0) = Some (0, b1, dev1)
         \<and> deliver (\<lambda>_. True) stack b1 (qrtr_gunyah_dev.tx_pipe dev1) = Some (b2, p) \<and> qrtr_gunyah_dev.posted (snd b2) = [pkt]
         \<and> qrtr_endpoint_post quiet_env 9 pkt (example_receiver 5) = (0, B')
         \<and> qrtr_recvmsg quiet_env 4 100 False 0 B' = (3, Some \<lparr>rx_data = [1, 2, 3], rx_trunc = False, rx_addr = us\<rparr>, B''))"
proof -
  let ?d = "example_dev 0 0" and ?stack = "replicate 32 0 :: byte list"
  have run: "link_run ?stack ?d (0, ?d) []" by (rule example_link)
  have av: "32 \<le> gunyah_tx_avail (qrtr_gunyah_dev.tx_pipe ?d)" by (simp add: example_tx_avail)
  have m: "may_send 3 (example_datagram 5 [1, 2, 3]) (example_addr 5 20) 7 (example_sender 1 5)" by (rule example_may_send) simp_all
  have *: "addr_ok (s_us (rt_sock (example_sender 1 5) 3))" "addr_ok (example_addr 5 20)"
    "n_nid (rt_node (example_sender 1 5) 7) < 2 ^ 32" "sq_port (example_addr 5 20) \<noteq> QRTR_PORT_CTRL_LEGACY"
    using example_sender_ok [of 1 5] by simp_all
  have prim: "is_primary (rt_local_nid (example_sender 1 5)) \<or> length (msg_data (example_datagram 5 [1, 2, 3])) \<le> PAGE_SIZE"
    by (simp add: is_primary_def)
  have room: "\<not> fills_pages quiet_env (example_sender 1 5) (length (msg_data (example_datagram 5 [1, 2, 3])))"
    by (simp add: fills_pages_def quiet_env_def align4_def)
  have len: "length (msg_data (example_datagram 5 [1, 2, 3])) \<le> 100" "length ?stack = 32" by simp_all
  obtain pkt A' where p: "qrtr_sendmsg quiet_env 3 (example_datagram 5 [1, 2, 3]) (example_sender 1 5) = (3, A')" "rt_sent A' = [(7, pkt, 0)]"
    and k: "skb_bytes skb = pkt \<and> skb_ok skb \<and> \<not> (skb_nonlinear skb \<and> skb_to_sgvec skb < 0) \<longrightarrow>
       (\<exists>b1 dev1 b2 p B' B''. qrtr_gunyah_send (link_env (\<lambda>_. True) ?stack) skb (0, ?d) ?d = Some (0, b1, dev1)
         \<and> deliver (\<lambda>_. True) ?stack b1 (qrtr_gunyah_dev.tx_pipe dev1) = Some (b2, p) \<and> qrtr_gunyah_dev.posted (snd b2) = [pkt]
         \<and> qrtr_endpoint_post quiet_env 9 pkt (example_receiver 5) = (0, B')
         \<and> qrtr_recvmsg quiet_env 4 100 False 0 B' =
             (3, Some \<lparr>rx_data = [1, 2, 3], rx_trunc = False, rx_addr = example_addr 1 16384\<rparr>, B''))" for skb
    using message_between_machines [OF quiet_env_all_well m * example_receiver_ok len(1) prim room run len(2) av, of 9 0]
    unfolding example_sender_us by (auto simp: example_addr_def)
  show ?thesis
    unfolding Let_def using p k [of "\<lparr>skb_nonlinear = False, skb_bytes = pkt, skb_sg = (\<lambda>_. None), skb_to_sgvec = 0\<rparr>"]
    by (simp add: skb_ok_def example_addr_def)
qed

end
